(* ===== verification/Kro_Prelude.thy ===== *)
theory Kro_Prelude
  imports Main "HOL-Library.AList" "HOL-Library.Word" "HOL-Library.Char_ord"
    "HOL-Library.List_Lexorder"
begin

text \<open>
  Shared vocabulary of the kro development: the parts of the Go language and of its
  standard library the repository uses, and the generic lemmas about them.

  \<^item> A Go string is a byte string, so it is an Isabelle \<open>string\<close> (a \<open>char\<close> is a byte).
    \<open>sort.Strings\<close> is \<open>sort\<close> for the lexicographic order of \<open>List_Lexorder\<close>.
  \<^item> A Go map with string keys is an association list. \<open>m[k]\<close> is \<^const>\<open>map_of\<close>, an
    assignment is \<open>AList.update\<close>, \<open>delete\<close> is \<open>AList.delete\<close>. Go leaves the order in
    which \<open>range\<close> visits a map open; the order of the list is the order this run takes,
    and the theorems hold for every list, so for every order.
  \<^item> \<open>interface{}\<close> values of a Kubernetes object are the datatype \<open>val\<close>.
  \<^item> A function that returns \<open>(x, error)\<close> returns \<open>'e + 'a\<close>, \<open>Inl\<close> for the error.
\<close>

named_theorems go_simps \<open>evaluation of the Go library functions\<close>
named_theorems dag_simps \<open>facts about the dependency graph\<close>

type_synonym 'v gomap = "(string \<times> 'v) list"

subsection \<open>Values of a Kubernetes object\<close>

text \<open>
  The dynamic types an \<open>interface{}\<close> of an unstructured object or of a converted CEL value
  has. 64-bit integers are words (\<open>VInt\<close> is read with \<open>sint\<close>), a \<open>float64\<close> is its IEEE bit
  pattern.
\<close>

datatype val =
    VNil
  | VBool bool
  | VInt "64 word"
  | VUint "64 word"
  | VFloat "64 word"
  | VStr string
  | VList "val list"
  | VMap "(string \<times> val) list"

subsection \<open>The \<open>strings\<close> package\<close>

fun hasPrefix :: "string \<Rightarrow> string \<Rightarrow> bool" where
  "hasPrefix s [] = True"
| "hasPrefix [] (p # ps) = False"
| "hasPrefix (c # s) (p # ps) = (c = p \<and> hasPrefix s ps)"

definition hasSuffix :: "string \<Rightarrow> string \<Rightarrow> bool" where
  "hasSuffix s p = hasPrefix (rev s) (rev p)"

text \<open>\<open>strings.Index\<close>: position of the first occurrence; -1 is \<open>None\<close>.\<close>

fun strIndex :: "string \<Rightarrow> string \<Rightarrow> nat option" where
  "strIndex [] sub = (if sub = [] then Some 0 else None)"
| "strIndex (c # s) sub =
     (if hasPrefix (c # s) sub then Some 0 else map_option Suc (strIndex s sub))"

definition strContains :: "string \<Rightarrow> string \<Rightarrow> bool" where
  "strContains s sub = (strIndex s sub \<noteq> None)"

text \<open>\<open>strings.Trim(s, cutset)\<close>: drop the leading and the trailing bytes of the cut set.\<close>

definition trimSet :: "string \<Rightarrow> string \<Rightarrow> string" where
  "trimSet s cs =
     rev (dropWhile (\<lambda>c. List.member cs c) (rev (dropWhile (\<lambda>c. List.member cs c) s)))"

text \<open>The white space of ASCII text (\<open>unicode.IsSpace\<close> below 0x80).\<close>

definition spaces :: string where
  "spaces = [CHR 0x20, CHR 0x09, CHR 0x0A, CHR 0x0B, CHR 0x0C, CHR 0x0D]"

definition trimSpace :: "string \<Rightarrow> string" where
  "trimSpace s = trimSet s spaces"

definition trimPrefix :: "string \<Rightarrow> string \<Rightarrow> string" where
  "trimPrefix s p = (if hasPrefix s p then drop (length p) s else s)"

definition trimSuffix :: "string \<Rightarrow> string \<Rightarrow> string" where
  "trimSuffix s p = (if hasSuffix s p then take (length s - length p) s else s)"

text \<open>\<open>strings.ToLower\<close> on ASCII text.\<close>

definition toLowerChar :: "char \<Rightarrow> char" where
  "toLowerChar c = (let n = of_char c :: nat in if 65 \<le> n \<and> n \<le> 90 then char_of (n + 32) else c)"

definition toLower :: "string \<Rightarrow> string" where
  "toLower s = map toLowerChar s"

text \<open>\<open>strings.Split\<close> by a separator of one byte: never the empty list.\<close>

fun splitOn :: "char \<Rightarrow> string \<Rightarrow> string list" where
  "splitOn c [] = [[]]"
| "splitOn c (x # xs) =
     (if x = c then [] # splitOn c xs
      else (case splitOn c xs of [] \<Rightarrow> [[x]] | w # ws \<Rightarrow> (x # w) # ws))"

fun joinWith :: "string \<Rightarrow> string list \<Rightarrow> string" where
  "joinWith sep [] = []"
| "joinWith sep [w] = w"
| "joinWith sep (w # v # ws) = w @ sep @ joinWith sep (v # ws)"

text \<open>\<open>strings.Replace(s, old, new, -1)\<close> for a non-empty \<open>old\<close>.\<close>

function replaceAll :: "string \<Rightarrow> string \<Rightarrow> string \<Rightarrow> string" where
  "replaceAll s old new =
     (if old = [] then s
      else case s of [] \<Rightarrow> []
      | c # cs \<Rightarrow>
          (if hasPrefix s old then new @ replaceAll (drop (length old) s) old new
           else c # replaceAll cs old new))"
  by pat_completeness auto
termination
  by (relation "measure (\<lambda>(s, old, new). length s)") auto

declare replaceAll.simps [simp del]

subsection \<open>Decimal integers\<close>

definition digitChar :: "nat \<Rightarrow> char" where
  "digitChar n = char_of (48 + n)"

definition digitVal :: "char \<Rightarrow> nat option" where
  "digitVal c = (let n = of_char c in if 48 \<le> n \<and> n \<le> 57 then Some (n - 48) else None)"

fun natToString :: "nat \<Rightarrow> string" where
  "natToString n =
     (if n < 10 then [digitChar n] else natToString (n div 10) @ [digitChar (n mod 10)])"

declare natToString.simps [simp del]

text \<open>The verb \<open>%d\<close>.\<close>

definition itoa :: "int \<Rightarrow> string" where
  "itoa i = (if i < 0 then CHR ''-'' # natToString (nat (- i)) else natToString (nat i))"

fun digitsToNat :: "nat \<Rightarrow> string \<Rightarrow> nat option" where
  "digitsToNat acc [] = Some acc"
| "digitsToNat acc (c # cs) =
     (case digitVal c of None \<Rightarrow> None | Some d \<Rightarrow> digitsToNat (10 * acc + d) cs)"

definition int64Range :: "int \<Rightarrow> bool" where
  "int64Range i \<longleftrightarrow> - (2 ^ 63) \<le> i \<and> i < 2 ^ 63"

text \<open>\<open>strconv.Atoi\<close> on a 64-bit platform: an optional sign, digits, the range of \<open>int\<close>.\<close>

definition atoi :: "string \<Rightarrow> int option" where
  "atoi s =
     (let (neg, ds) = (case s of [] \<Rightarrow> (False, [])
                       | c # cs \<Rightarrow> if c = CHR ''-'' then (True, cs)
                                   else if c = CHR ''+'' then (False, cs) else (False, s))
      in if ds = [] then None
         else case digitsToNat 0 ds of None \<Rightarrow> None
         | Some n \<Rightarrow> (let i = (if neg then - int n else int n)
                      in if int64Range i then Some i else None))"

text \<open>
  The verb \<open>%q\<close> (\<open>strconv.Quote\<close>) on ASCII text: quotes and backslashes are escaped, the
  control characters are written as escape sequences. A byte above 0x7F is kept, as it is for
  the bytes of a printable UTF-8 sequence.
\<close>

definition hexDigit :: "nat \<Rightarrow> char" where
  "hexDigit n = (if n < 10 then char_of (48 + n) else char_of (87 + n))"

definition quoteChar :: "char \<Rightarrow> string" where
  "quoteChar c =
     (if c = CHR 0x22 then [CHR 0x5C, CHR 0x22]
      else if c = CHR 0x5C then [CHR 0x5C, CHR 0x5C]
      else if c = CHR 0x07 then [CHR 0x5C, CHR ''a'']
      else if c = CHR 0x08 then [CHR 0x5C, CHR ''b'']
      else if c = CHR 0x0C then [CHR 0x5C, CHR ''f'']
      else if c = CHR 0x0A then [CHR 0x5C, CHR ''n'']
      else if c = CHR 0x0D then [CHR 0x5C, CHR ''r'']
      else if c = CHR 0x09 then [CHR 0x5C, CHR ''t'']
      else if c = CHR 0x0B then [CHR 0x5C, CHR ''v'']
      else let n = of_char c in
           if n < 32 \<or> n = 127
           then [CHR 0x5C, CHR ''x'', hexDigit (n div 16), hexDigit (n mod 16)]
           else [c])"

definition goQuote :: "string \<Rightarrow> string" where
  "goQuote s = CHR 0x22 # concat (map quoteChar s) @ [CHR 0x22]"

subsection \<open>Loops with an early error return\<close>

text \<open>\<open>for _, x := range xs { ...; if err != nil { return err } }\<close> over a threaded state.\<close>

fun foldRes :: "('a \<Rightarrow> 's \<Rightarrow> 'e + 's) \<Rightarrow> 'a list \<Rightarrow> 's \<Rightarrow> 'e + 's" where
  "foldRes f [] s = Inr s"
| "foldRes f (x # xs) s = (case f x s of Inl e \<Rightarrow> Inl e | Inr s' \<Rightarrow> foldRes f xs s')"

text \<open>The same loop when the state that was reached stays behind on an error.\<close>

fun loopE :: "('a \<Rightarrow> 's \<Rightarrow> 's \<times> 'e option) \<Rightarrow> 'a list \<Rightarrow> 's \<Rightarrow> 's \<times> 'e option" where
  "loopE f [] s = (s, None)"
| "loopE f (x # xs) s = (case f x s of (s', Some e) \<Rightarrow> (s', Some e) | (s', None) \<Rightarrow> loopE f xs s')"

text \<open>The same loop when its body appends to a result slice.\<close>

fun concatMapRes :: "('a \<Rightarrow> 'e + 'b list) \<Rightarrow> 'a list \<Rightarrow> 'e + 'b list" where
  "concatMapRes f [] = Inr []"
| "concatMapRes f (x # xs) =
     (case f x of Inl e \<Rightarrow> Inl e
      | Inr ys \<Rightarrow> (case concatMapRes f xs of Inl e \<Rightarrow> Inl e | Inr zs \<Rightarrow> Inr (ys @ zs)))"

text \<open>\<open>if !slices.Contains(xs, x) { xs = append(xs, x) }\<close>.\<close>

definition appendNew :: "string list \<Rightarrow> string \<Rightarrow> string list" where
  "appendNew xs x = (if List.member xs x then xs else xs @ [x])"

subsection \<open>Lemmas\<close>

lemma foldRes_cong [fundef_cong]:
  "xs = ys \<Longrightarrow> s = t \<Longrightarrow> (\<And>x s. x \<in> set ys \<Longrightarrow> f x s = g x s) \<Longrightarrow> foldRes f xs s = foldRes g ys t"
  by (induction ys arbitrary: xs s t) (auto split: sum.splits)

lemma concatMapRes_cong [fundef_cong]:
  "xs = ys \<Longrightarrow> (\<And>x. x \<in> set ys \<Longrightarrow> f x = g x) \<Longrightarrow> concatMapRes f xs = concatMapRes g ys"
  by (induction ys arbitrary: xs) (auto split: sum.splits)

lemma loopE_invariant:
  assumes "loopE f xs s = (s', e)" and "P s"
    and "\<And>x s s' e. x \<in> set xs \<Longrightarrow> P s \<Longrightarrow> f x s = (s', e) \<Longrightarrow> P s'"
  shows "P s'"
  using assms
proof (induction xs arbitrary: s)
  case (Cons x xs)
  obtain t d where t: "f x s = (t, d)" by fastforce
  then have P: "P t" using Cons.prems by (meson list.set_intros(1))
  show ?case
  proof (cases d)
    case None
    then have "loopE f xs t = (s', e)" using Cons.prems(1) t by simp
    then show ?thesis using P Cons.prems(3) by (intro Cons.IH) auto
  qed (use Cons.prems(1) t P in auto)
qed simp

lemma loopE_invariant_ok:
  assumes "loopE f xs s = (s', None)" and "P s"
    and "\<And>x s s'. x \<in> set xs \<Longrightarrow> P s \<Longrightarrow> f x s = (s', None) \<Longrightarrow> P s'"
  shows "P s'"
  using assms
proof (induction xs arbitrary: s)
  case (Cons x xs)
  from Cons.prems(1) obtain t where t: "f x s = (t, None)" "loopE f xs t = (s', None)"
    by (auto split: prod.splits option.splits)
  have "P t" using Cons.prems(3) [OF _ Cons.prems(2) t(1)] by simp
  then show ?case using t(2) Cons.prems(3) by (intro Cons.IH) auto
qed simp

text \<open>A loop that ends without an error has run its body on every element; what each run
  establishes and later runs keep holds at the end.\<close>

lemma loopE_all:
  assumes "loopE f xs s = (s', None)" and "P s"
    and "\<And>x s s'. x \<in> set xs \<Longrightarrow> P s \<Longrightarrow> f x s = (s', None) \<Longrightarrow> P s' \<and> Q x s'"
    and "\<And>x y s s'. y \<in> set xs \<Longrightarrow> P s \<Longrightarrow> Q x s \<Longrightarrow> f y s = (s', None) \<Longrightarrow> Q x s'"
  shows "P s' \<and> (\<forall>x \<in> set xs. Q x s')"
  using assms
proof (induction xs arbitrary: s)
  case (Cons x xs)
  from Cons.prems(1) obtain t where t: "f x s = (t, None)" "loopE f xs t = (s', None)"
    by (auto split: prod.splits option.splits)
  have PQ: "P t" "Q x t" using Cons.prems(3) [OF _ Cons.prems(2) t(1)] by simp_all
  have keep: "Q z s'" if "Q z t" for z
  proof -
    have "P s' \<and> Q z s'"
    proof (rule loopE_invariant_ok [where P = "\<lambda>s. P s \<and> Q z s", OF t(2)])
      show "P t \<and> Q z t" using PQ(1) that by simp
    next
      fix y s1 s2
      assume "y \<in> set xs" and "P s1 \<and> Q z s1" and "f y s1 = (s2, None)"
      then show "P s2 \<and> Q z s2"
        using Cons.prems(3) [of y s1 s2] Cons.prems(4) [of y s1 z s2] by simp
    qed
    then show ?thesis ..
  qed
  have "P s' \<and> (\<forall>y \<in> set xs. Q y s')"
  proof (rule Cons.IH [OF t(2) PQ(1)])
    fix y s1 s2
    assume "y \<in> set xs" and "P s1" and "f y s1 = (s2, None)"
    then show "P s2 \<and> Q y s2" by (intro Cons.prems(3)) simp_all
  next
    fix z y s1 s2
    assume "y \<in> set xs" and "P s1" and "Q z s1" and "f y s1 = (s2, None)"
    then show "Q z s2" using Cons.prems(4) [of y s1 z s2] by simp
  qed
  then show ?case using keep [OF PQ(2)] by simp
next
  case Nil
  from Nil.prems(1,2) show ?case by simp
qed

lemma nth_list_update_if: "xs[i := x] ! j = (if i = j \<and> j < length xs then x else xs ! j)"
  by (cases "i = j"; cases "j < length xs") (simp_all add: list_update_beyond)

lemma foldRes_append:
  "foldRes f (xs @ ys) s = (case foldRes f xs s of Inl e \<Rightarrow> Inl e | Inr s' \<Rightarrow> foldRes f ys s')"
  by (induction xs arbitrary: s) (auto split: sum.splits)

lemma foldRes_invariant:
  assumes "foldRes f xs s = Inr s'" and "P s"
    and "\<And>x s s'. x \<in> set xs \<Longrightarrow> P s \<Longrightarrow> f x s = Inr s' \<Longrightarrow> P s'"
  shows "P s'"
  using assms
proof (induction xs arbitrary: s)
  case (Cons x xs)
  from Cons.prems(1) obtain t where t: "f x s = Inr t" "foldRes f xs t = Inr s'"
    by (auto split: sum.splits)
  from t(1) Cons.prems have "P t" by (meson list.set_intros(1))
  with t(2) show ?case using Cons.IH Cons.prems(3) by (meson list.set_intros(2))
qed simp

lemma concatMapRes_mem:
  assumes "concatMapRes f xs = Inr zs" and "z \<in> set zs"
  obtains x ys where "x \<in> set xs" and "f x = Inr ys" and "z \<in> set ys"
  using assms by (induction xs arbitrary: zs thesis) (force split: sum.splits)+

lemma concatMapRes_append:
  "concatMapRes f (xs @ ys) =
     (case concatMapRes f xs of Inl e \<Rightarrow> Inl e
      | Inr zs \<Rightarrow> (case concatMapRes f ys of Inl e \<Rightarrow> Inl e | Inr ws \<Rightarrow> Inr (zs @ ws)))"
  by (induction xs) (auto split: sum.splits)

lemma concatMapRes_concat: "concatMapRes f (concat xss) = concatMapRes (concatMapRes f) xss"
  by (induction xss) (simp_all add: concatMapRes_append split: sum.splits)

lemma concatMapRes_map: "concatMapRes f (map g xs) = concatMapRes (\<lambda>x. f (g x)) xs"
  by (induction xs) (simp_all split: sum.splits)

lemma concatMapRes_mem_in:
  "concatMapRes f xs = Inr zs \<Longrightarrow> x \<in> set xs \<Longrightarrow> \<exists>ys. f x = Inr ys \<and> set ys \<subseteq> set zs"
  by (induction xs arbitrary: zs) (fastforce split: sum.splits)+

lemma val_size_map [termination_simp]: "(k, v) \<in> set m \<Longrightarrow> size v < size (VMap m)"
  by (induction m) auto

lemma val_size_list [termination_simp]: "v \<in> set vs \<Longrightarrow> size v < size (VList vs)"
  by (induction vs) auto

lemma val_size_enumerate [termination_simp]: "(i, v) \<in> set (enumerate n vs) \<Longrightarrow> size v < size (VList vs)"
  by (rule val_size_list) (auto simp: in_set_enumerate_eq)

lemma concatMapRes_rel:
  assumes "concatMapRes f xs = Inr ys"
    and "\<And>x ys. x \<in> set xs \<Longrightarrow> f x = Inr ys \<Longrightarrow> \<exists>zs. g x = Inr zs \<and> map h zs = map h ys"
  shows "\<exists>zs. concatMapRes g xs = Inr zs \<and> map h zs = map h ys"
  using assms
proof (induction xs arbitrary: ys)
  case (Cons x xs)
  then obtain as bs where ab: "f x = Inr as" "concatMapRes f xs = Inr bs" "ys = as @ bs"
    by (auto split: sum.splits)
  then obtain as' where "g x = Inr as'" "map h as' = map h as" using Cons.prems(2) [of x] by auto
  moreover obtain bs' where "concatMapRes g xs = Inr bs'" "map h bs' = map h bs"
    using Cons.IH [OF ab(2)] Cons.prems(2) by auto
  ultimately show ?case using ab(3) by simp
qed simp

lemma sorted_wrt_concat:
  assumes "\<And>xs. xs \<in> set xss \<Longrightarrow> sorted_wrt P xs"
    and "sorted_wrt (\<lambda>xs ys. \<forall>x \<in> set xs. \<forall>y \<in> set ys. P x y) xss"
  shows "sorted_wrt P (concat xss)"
  using assms by (induction xss) (auto simp: sorted_wrt_append)

lemma sorted_wrt_concatMapRes:
  assumes "concatMapRes f xs = Inr zs" and "sorted_wrt R xs"
    and "\<And>x y ys ys' a b. R x y \<Longrightarrow> f x = Inr ys \<Longrightarrow> f y = Inr ys' \<Longrightarrow> a \<in> set ys \<Longrightarrow> b \<in> set ys' \<Longrightarrow> P a b"
    and "\<And>x ys. f x = Inr ys \<Longrightarrow> sorted_wrt P ys"
  shows "sorted_wrt P zs"
  using assms(1,2)
proof (induction xs arbitrary: zs)
  case (Cons x xs)
  then obtain ys ws where ys: "f x = Inr ys" "concatMapRes f xs = Inr ws" "zs = ys @ ws"
    by (auto split: sum.splits)
  have "P a b" if "a \<in> set ys" "b \<in> set ws" for a b
    using concatMapRes_mem [OF ys(2) that(2)] assms(3) ys(1) that(1) Cons.prems(2)
    by (metis sorted_wrt.simps(2))
  then show ?case using Cons ys assms(4) by (simp add: sorted_wrt_append)
qed simp

lemma val_tree_induct [case_names VMap VList scalar]:
  assumes "\<And>m. (\<And>k x. (k, x) \<in> set m \<Longrightarrow> P x) \<Longrightarrow> P (VMap m)"
    and "\<And>vs. (\<And>x. x \<in> set vs \<Longrightarrow> P x) \<Longrightarrow> P (VList vs)"
    and "\<And>v. \<forall>m. v \<noteq> VMap m \<Longrightarrow> \<forall>vs. v \<noteq> VList vs \<Longrightarrow> P v"
  shows "P v"
proof (induction v rule: measure_induct_rule [where f = size])
  case (less v)
  consider m where "v = VMap m" | vs where "v = VList vs" | "\<And>m. v \<noteq> VMap m" "\<And>vs. v \<noteq> VList vs"
    by (cases v) auto
  then show ?case
  proof cases
    case 1
    then show ?thesis using assms(1) less val_size_map by metis
  next
    case 2
    then show ?thesis using assms(2) less val_size_list by metis
  next
    case 3
    then show ?thesis using assms(3) by blast
  qed
qed

lemma hasPrefix_append [simp]: "hasPrefix (p @ s) p"
  by (induction p) auto

lemma hasPrefix_iff: "hasPrefix s p \<longleftrightarrow> (\<exists>t. s = p @ t)"
  by (induction s p rule: hasPrefix.induct) auto

lemma hasSuffix_iff: "hasSuffix s p \<longleftrightarrow> (\<exists>t. s = t @ p)"
proof -
  have "(\<exists>t. rev s = rev p @ t) \<longleftrightarrow> (\<exists>t. s = t @ p)"
    by (metis rev_append rev_rev_ident)
  then show ?thesis by (simp add: hasSuffix_def hasPrefix_iff)
qed

lemma strIndex_None_notin: "c \<notin> set s \<Longrightarrow> strIndex s (c # cs) = None"
  by (induction s) auto

lemma strContains_char: "strContains s [c] \<longleftrightarrow> c \<in> set s"
  unfolding strContains_def by (induction s) auto

lemma trimSet_Cons: "c \<in> set cs \<Longrightarrow> trimSet (c # s) cs = trimSet s cs"
  by (simp add: trimSet_def)

lemma dropWhile_rev_snoc:
  "P c \<Longrightarrow> dropWhile P (rev (dropWhile P (s @ [c]))) = dropWhile P (rev (dropWhile P s))"
  by (induction s) auto

lemma trimSet_snoc: "c \<in> set cs \<Longrightarrow> trimSet (s @ [c]) cs = trimSet s cs"
  unfolding trimSet_def by (subst dropWhile_rev_snoc) simp_all

lemma splitOn_nonempty [simp]: "splitOn c s \<noteq> []"
  by (induction s) (auto split: list.splits)

lemma splitOn_notin: "c \<notin> set s \<Longrightarrow> splitOn c s = [s]"
  by (induction s) auto

lemma splitOn_append:
  "c \<notin> set w \<Longrightarrow> splitOn c (w @ c # s) = w # splitOn c s"
  by (induction w) auto

lemma joinWith_Cons: "joinWith sep ((x # w) # ws) = x # joinWith sep (w # ws)"
  by (cases ws) auto

lemma joinWith_Nil_Cons: "ws \<noteq> [] \<Longrightarrow> joinWith [c] ([] # ws) = c # joinWith [c] ws"
  by (cases ws) auto

lemma joinWith_splitOn [simp]: "joinWith [c] (splitOn c s) = s"
  by (induction s) (auto simp: joinWith_Cons joinWith_Nil_Cons split: list.splits)

lemma set_appendNew [simp]: "set (appendNew xs x) = insert x (set xs)"
  by (auto simp: appendNew_def)

lemma distinct_appendNew [simp]: "distinct (appendNew xs x) \<longleftrightarrow> distinct xs"
  by (auto simp: appendNew_def)

lemma digitVal_digitChar [simp]: "n < 10 \<Longrightarrow> digitVal (digitChar n) = Some n"
  by (simp add: digitVal_def digitChar_def)

lemma digitsToNat_append:
  "digitsToNat acc (xs @ ys) = (case digitsToNat acc xs of None \<Rightarrow> None | Some n \<Rightarrow> digitsToNat n ys)"
  by (induction xs arbitrary: acc) (auto split: option.splits)

lemma digitsToNat_natToString: "digitsToNat 0 (natToString n) = Some n"
proof (induction n rule: natToString.induct)
  case (1 n)
  then show ?case
    by (cases "n < 10") (simp_all add: natToString.simps [of n] digitsToNat_append)
qed

lemma natToString_nonempty [simp]: "natToString n \<noteq> []"
  by (subst natToString.simps) simp

lemma natToString_digits: "c \<in> set (natToString n) \<Longrightarrow> \<exists>d < 10. c = digitChar d"
proof (induction n rule: natToString.induct)
  case (1 n)
  show ?case
  proof (cases "n < 10")
    case True
    with "1.prems" show ?thesis by (auto simp: natToString.simps [of n])
  next
    case False
    with "1.prems" have "c \<in> set (natToString (n div 10)) \<or> c = digitChar (n mod 10)"
      by (auto simp: natToString.simps [of n])
    moreover have "n mod 10 < 10" by simp
    ultimately show ?thesis using "1.IH" [OF False] by blast
  qed
qed

lemma digitChar_of_char: "d < 10 \<Longrightarrow> of_char (digitChar d) = (48 + d :: nat)"
  by (simp add: digitChar_def)

lemma natToString_not_special:
  assumes "(of_char c :: nat) < 48 \<or> 57 < (of_char c :: nat)"
  shows "c \<notin> set (natToString n)"
proof
  assume "c \<in> set (natToString n)"
  then obtain d where "d < 10" and "c = digitChar d" using natToString_digits by blast
  then show False using assms digitChar_of_char [of d] by simp
qed

lemma hd_natToString_digit:
  assumes "(of_char c :: nat) < 48 \<or> 57 < (of_char c :: nat)"
  shows "hd (natToString n) \<noteq> c"
  using natToString_not_special [OF assms, of n] natToString_nonempty [of n] hd_in_set by metis

lemma atoi_natToString: "int n < 2 ^ 63 \<Longrightarrow> atoi (natToString n) = Some (int n)"
proof -
  assume n: "int n < 2 ^ 63"
  obtain c cs where cs: "natToString n = c # cs"
    using natToString_nonempty by (meson neq_Nil_conv)
  have "c \<noteq> CHR ''-''" "c \<noteq> CHR ''+''"
    using hd_natToString_digit [of "CHR ''-''" n] hd_natToString_digit [of "CHR ''+''" n] cs by auto
  then show ?thesis
    using n digitsToNat_natToString [of n]
    by (simp add: atoi_def cs int64Range_def)
qed

lemma atoi_itoa: "0 \<le> i \<Longrightarrow> i < 2 ^ 63 \<Longrightarrow> atoi (itoa i) = Some i"
  using atoi_natToString [of "nat i"] by (simp add: itoa_def)

lemma quoteChar_plain:
  "c \<noteq> CHR 0x22 \<Longrightarrow> c \<noteq> CHR 0x5C \<Longrightarrow> 32 \<le> (of_char c :: nat) \<Longrightarrow> of_char c \<noteq> (127::nat) \<Longrightarrow>
   quoteChar c = [c]"
proof -
  assume c: "c \<noteq> CHR 0x22" "c \<noteq> CHR 0x5C" and n: "32 \<le> (of_char c :: nat)" "of_char c \<noteq> (127::nat)"
  from n(1) have "c \<noteq> CHR 0x07" "c \<noteq> CHR 0x08" "c \<noteq> CHR 0x0C" "c \<noteq> CHR 0x0A" "c \<noteq> CHR 0x0D"
      "c \<noteq> CHR 0x09" "c \<noteq> CHR 0x0B"
    by auto
  with c n show ?thesis by (simp add: quoteChar_def)
qed

text \<open>
  Maps: the interface the components use, and its laws, discharged for association lists.
\<close>

locale string_map =
  fixes lookup :: "'m \<Rightarrow> string \<Rightarrow> 'v option"
    and insertKV :: "string \<Rightarrow> 'v \<Rightarrow> 'm \<Rightarrow> 'm"
    and deleteK :: "string \<Rightarrow> 'm \<Rightarrow> 'm"
  assumes lookup_insert: "lookup (insertKV k v m) = (lookup m)(k \<mapsto> v)"
    and lookup_delete: "lookup (deleteK k m) = (lookup m)(k := None)"
begin

lemma lookup_insert_same: "lookup (insertKV k v m) k = Some v"
  by (simp add: lookup_insert)

lemma lookup_insert_other: "j \<noteq> k \<Longrightarrow> lookup (insertKV k v m) j = lookup m j"
  by (simp add: lookup_insert)

lemma lookup_delete_same: "lookup (deleteK k m) k = None"
  by (simp add: lookup_delete)

lemma dom_insert: "dom (lookup (insertKV k v m)) = insert k (dom (lookup m))"
  by (simp add: lookup_insert)

lemma lookup_foldr_insert_notin:
  "k \<notin> fst ` set kvs \<Longrightarrow> lookup (foldr (\<lambda>(k, v). insertKV k v) kvs m) k = lookup m k"
  by (induction kvs) (auto simp: lookup_insert)

end

interpretation gm: string_map map_of AList.update AList.delete
  by unfold_locales (simp_all add: update_conv' delete_conv')

lemmas gomap_simps = gm.lookup_insert gm.lookup_delete

text \<open>
  Frames: what a call leaves alone, as a relation between the state before and after it. What each
  step of a loop keeps, the loop keeps, whether it ends early or not. Each component interprets
  this on the relations its loops are proved with.
\<close>

locale frame =
  fixes kept :: "'s \<Rightarrow> 's \<Rightarrow> bool"
  assumes kept_refl: "kept s s"
    and kept_trans: "kept s t \<Longrightarrow> kept t u \<Longrightarrow> kept s u"
begin

lemma loop_kept:
  assumes "loopE f xs s = (s', e)" and "\<And>x t t' d. x \<in> set xs \<Longrightarrow> f x t = (t', d) \<Longrightarrow> kept t t'"
  shows "kept s s'"
  by (rule loopE_invariant [OF assms(1)]) (use assms(2) kept_refl kept_trans in blast)+

lemma fold_kept: "(\<And>x t. kept t (f x t)) \<Longrightarrow> kept s (fold f xs s)"
  by (induction xs arbitrary: s) (auto intro: kept_refl kept_trans)

end

end
