(* ===== verification/Fieldpath.thy ===== *)
theory Fieldpath
  imports Kro_Prelude
begin

text \<open>
  Field paths, \<open>src/internal/graph/fieldpath/parser.go\<close> and \<open>builder.go\<close>: the segment type, the
  path parser and the path builder.

  The parser keeps the input and a position. Here it keeps the rest of the input from the
  position on; \<open>p.pos+1 < p.len\<close> says that the rest has two bytes. The main loop makes no
  progress on some inputs, so it is a \<^theory_text>\<open>partial_function\<close>: \<open>None\<close> means that the call
  does not return. The positions quoted in the error messages are left out.
\<close>

section \<open>Segments, parser, builder\<close>

record Segment =
  segName :: string
  segIndex :: int

definition NewNamedSegment :: "string \<Rightarrow> Segment" where
  "NewNamedSegment name = \<lparr>segName = name, segIndex = -1\<rparr>"

definition NewIndexedSegment :: "int \<Rightarrow> Segment" where
  "NewIndexedSegment index = \<lparr>segName = [], segIndex = index\<rparr>"

datatype fieldpath_error =
    ExpectedClosingBracket
  | UnterminatedQuotedString
  | EmptyFieldName
  | UnterminatedArrayIndex
  | InvalidArrayIndex string

text \<open>The byte \<open>"\<close>.\<close>

definition dquote :: char where
  "dquote = CHR 0x22"

definition parseQuotedField :: "string \<Rightarrow> fieldpath_error + string \<times> string" where
  "parseQuotedField rest =
     (let body = drop 2 rest; field = takeWhile (\<lambda>c. c \<noteq> dquote) body in
      case dropWhile (\<lambda>c. c \<noteq> dquote) body of
        [] \<Rightarrow> Inl UnterminatedQuotedString
      | q # after \<Rightarrow>
          (case after of
             [] \<Rightarrow> Inl ExpectedClosingBracket
           | c # cs \<Rightarrow> if c = CHR '']'' then Inr (field, cs) else Inl ExpectedClosingBracket))"

definition unquotedChar :: "char \<Rightarrow> bool" where
  "unquotedChar c \<longleftrightarrow> c \<noteq> CHR ''.'' \<and> c \<noteq> CHR ''[''"

definition parseUnquotedField :: "string \<Rightarrow> fieldpath_error + string \<times> string" where
  "parseUnquotedField rest =
     (let field = takeWhile unquotedChar rest in
      if field = [] then Inl EmptyFieldName else Inr (field, dropWhile unquotedChar rest))"

definition parseArrayIndex :: "string \<Rightarrow> fieldpath_error + int \<times> string" where
  "parseArrayIndex rest =
     (let body = tl rest; idxStr = takeWhile (\<lambda>c. c \<noteq> CHR '']'') body;
          after = dropWhile (\<lambda>c. c \<noteq> CHR '']'') body in
      if after = [] then Inl UnterminatedArrayIndex
      else case atoi idxStr of
             None \<Rightarrow> Inl (InvalidArrayIndex idxStr)
           | Some idx \<Rightarrow> Inr (idx, tl after))"

text \<open>The three statements of the body of the main loop.\<close>

definition fieldPart :: "string \<Rightarrow> Segment list \<Rightarrow> fieldpath_error + string \<times> Segment list" where
  "fieldPart rest segs =
     (case rest of
        c # c' # _ \<Rightarrow>
          if c = CHR ''['' \<and> c' = dquote then
            (case parseQuotedField rest of Inl e \<Rightarrow> Inl e
             | Inr (field, rest') \<Rightarrow> Inr (rest', segs @ [NewNamedSegment field]))
          else if c \<noteq> CHR ''['' then
            (case parseUnquotedField rest of Inl e \<Rightarrow> Inl e
             | Inr (field, rest') \<Rightarrow> Inr (rest', segs @ [NewNamedSegment field]))
          else Inr (rest, segs)
      | _ \<Rightarrow> Inr (rest, segs))"

definition startsIndex :: "string \<Rightarrow> bool" where
  "startsIndex rest =
     (case rest of
        [] \<Rightarrow> False
      | c # cs \<Rightarrow> c = CHR ''['' \<and> (case cs of [] \<Rightarrow> True | c' # _ \<Rightarrow> c' \<noteq> dquote))"

definition indexPart :: "string \<Rightarrow> Segment list \<Rightarrow> fieldpath_error + string \<times> Segment list" where
  "indexPart rest segs =
     (if startsIndex rest then
        (case parseArrayIndex rest of Inl e \<Rightarrow> Inl e
         | Inr (idx, rest') \<Rightarrow> Inr (rest', segs @ [NewIndexedSegment idx]))
      else Inr (rest, segs))"

definition skipDot :: "string \<Rightarrow> string" where
  "skipDot rest = (case rest of c # cs \<Rightarrow> if c = CHR ''.'' then cs else rest | [] \<Rightarrow> [])"

definition parseStep :: "string \<Rightarrow> Segment list \<Rightarrow> fieldpath_error + string \<times> Segment list" where
  "parseStep rest segs =
     (case fieldPart rest segs of Inl e \<Rightarrow> Inl e
      | Inr (rest1, segs1) \<Rightarrow>
          (case indexPart rest1 segs1 of Inl e \<Rightarrow> Inl e
           | Inr (rest2, segs2) \<Rightarrow> Inr (skipDot rest2, segs2)))"

partial_function (option) parseLoop ::
  "string \<Rightarrow> Segment list \<Rightarrow> (fieldpath_error + Segment list) option" where
  "parseLoop rest segs =
     (if rest = [] then Some (Inr segs)
      else case parseStep rest segs of
             Inl e \<Rightarrow> Some (Inl e)
           | Inr r \<Rightarrow> parseLoop (fst r) (snd r))"

definition Parse :: "string \<Rightarrow> (fieldpath_error + Segment list) option" where
  "Parse path = parseLoop path []"

text \<open>
  \<open>Build\<close>: the segments are appended to a string builder \<open>b\<close>; \<open>first\<close> says that the loop index
  is 0.
\<close>

definition buildPiece :: "Segment \<Rightarrow> string" where
  "buildPiece s =
     (if segIndex s \<noteq> -1 then ''['' @ itoa (segIndex s) @ '']''
      else if strContains (segName s) ''.'' then ''['' @ goQuote (segName s) @ '']''
      else segName s)"

fun buildLoop :: "bool \<Rightarrow> string \<Rightarrow> Segment list \<Rightarrow> string" where
  "buildLoop first b [] = b"
| "buildLoop first b (s # ss) =
     buildLoop False
       ((if \<not> first \<and> \<not> hasSuffix b '']'' then b @ ''.'' else b) @ buildPiece s) ss"

definition Build :: "Segment list \<Rightarrow> string" where
  "Build segments = buildLoop True [] segments"

section \<open>Progress of the loop\<close>

declare parseLoop.simps [code]

lemma parseLoop_Nil [simp]: "parseLoop [] segs = Some (Inr segs)"
  by (subst parseLoop.simps) simp

lemma parseLoop_step:
  "rest \<noteq> [] \<Longrightarrow>
   parseLoop rest segs =
     (case parseStep rest segs of Inl e \<Rightarrow> Some (Inl e) | Inr r \<Rightarrow> parseLoop (fst r) (snd r))"
  by (subst parseLoop.simps) simp

text \<open>A rest of one byte that opens no index and is no dot is where the loop stays forever.\<close>

definition stalled :: "string \<Rightarrow> bool" where
  "stalled rest \<longleftrightarrow> (\<exists>c. rest = [c] \<and> unquotedChar c)"

lemma parseStep_stalled: "stalled rest \<Longrightarrow> parseStep rest segs = Inr (rest, segs)"
  by (auto simp: stalled_def unquotedChar_def parseStep_def fieldPart_def indexPart_def
      startsIndex_def skipDot_def)

lemma parseLoop_stalled: "stalled rest \<Longrightarrow> parseLoop rest segs = None"
proof (rule ccontr)
  assume st: "stalled rest" and "parseLoop rest segs \<noteq> None"
  then obtain r where ret: "parseLoop rest segs = Some r" by auto
  have "\<not> stalled rest"
  proof (rule parseLoop.raw_induct [where P = "\<lambda>rest segs r. \<not> stalled rest", OF _ ret])
    fix f rest segs r
    assume IH: "\<And>rest segs r. f rest segs = Some r \<Longrightarrow> \<not> stalled rest"
      and eq: "(if rest = [] then Some (Inr segs)
           else case parseStep rest segs of Inl e \<Rightarrow> Some (Inl e) | Inr r \<Rightarrow> f (fst r) (snd r)) = Some r"
    show "\<not> stalled rest"
    proof
      assume s: "stalled rest"
      then have "f rest segs = Some r"
        using eq parseStep_stalled [OF s] by (auto simp: stalled_def)
      with IH s show False by blast
    qed
  qed
  with st show False by blast
qed

lemma dropWhile_split: "dropWhile P xs = y # ys \<Longrightarrow> xs = takeWhile P xs @ y # ys \<and> \<not> P y"
  by (metis hd_dropWhile list.distinct(1) list.sel(1) takeWhile_dropWhile_id)

lemma parseQuotedField_consumes:
  assumes "parseQuotedField rest = Inr (field, rest')"
  shows "\<exists>pre. rest = pre @ rest' \<and> pre \<noteq> [] \<and> last pre = CHR '']''"
proof -
  obtain q cs where "dropWhile (\<lambda>c. c \<noteq> dquote) (drop 2 rest) = q # CHR '']'' # cs" and "rest' = cs"
    using assms by (auto simp: parseQuotedField_def Let_def split: list.splits if_splits)
  then have "drop 2 rest = takeWhile (\<lambda>c. c \<noteq> dquote) (drop 2 rest) @ [q, CHR '']''] @ rest'"
    using dropWhile_split by fastforce
  then have "rest = (take 2 rest @ takeWhile (\<lambda>c. c \<noteq> dquote) (drop 2 rest) @ [q, CHR '']'']) @ rest'"
    by (metis append.assoc append_take_drop_id)
  then show ?thesis by (metis append_is_Nil_conv last_ConsR last_append list.distinct(1) last_ConsL)
qed

lemma parseArrayIndex_consumes:
  assumes "parseArrayIndex rest = Inr (i, rest')" and "rest \<noteq> []"
  shows "\<exists>pre. rest = pre @ rest' \<and> pre \<noteq> [] \<and> last pre = CHR '']''"
proof -
  obtain c cs where "dropWhile (\<lambda>c. c \<noteq> CHR '']'') (tl rest) = c # cs" and r: "rest' = cs"
    using assms
    by (cases "dropWhile (\<lambda>c. c \<noteq> CHR '']'') (tl rest)")
      (auto simp: parseArrayIndex_def Let_def split: option.splits if_splits)
  then have "tl rest = takeWhile (\<lambda>c. c \<noteq> CHR '']'') (tl rest) @ c # cs \<and> c = CHR '']''"
    using dropWhile_split by fastforce
  then have "rest = (hd rest # takeWhile (\<lambda>c. c \<noteq> CHR '']'') (tl rest) @ [CHR '']'']) @ rest'"
    using assms(2) r by (metis append.assoc append_Cons append_Nil list.collapse)
  then show ?thesis by (metis last_ConsR last_snoc list.distinct(1) snoc_eq_iff_butlast)
qed

text \<open>
  What the parts of a step consume. \<open>consumes P rest rest'\<close>: a non-empty prefix was dropped, and
  if what is left is stalled, the last byte dropped satisfies \<open>P\<close>.
\<close>

definition consumes :: "string \<Rightarrow> string \<Rightarrow> bool" where
  "consumes rest rest' \<longleftrightarrow>
     (\<exists>pre. rest = pre @ rest' \<and> pre \<noteq> [] \<and> (stalled rest' \<longrightarrow> last pre \<in> {CHR ''.'', CHR '']''}))"

lemma skipDot_consumes:
  "rest = pre @ rest1 \<Longrightarrow> pre \<noteq> [] \<Longrightarrow> last pre = CHR '']'' \<or> \<not> stalled rest1 \<Longrightarrow>
   consumes rest (skipDot rest1)"
proof (cases "\<exists>t. rest1 = CHR ''.'' # t")
  case True
  assume "rest = pre @ rest1"
  with True obtain t where "rest = (pre @ [CHR ''.'']) @ t" "skipDot rest1 = t"
    by (auto simp: skipDot_def)
  then show ?thesis unfolding consumes_def by (metis insertCI last_snoc snoc_eq_iff_butlast)
next
  case False
  assume pre: "rest = pre @ rest1" "pre \<noteq> []" "last pre = CHR '']'' \<or> \<not> stalled rest1"
  from False have "skipDot rest1 = rest1" by (auto simp: skipDot_def split: list.splits)
  with pre show ?thesis unfolding consumes_def by auto
qed

lemma indexPart_skipDot_consumes:
  assumes "indexPart rest1 segs = Inr (rest2, segs')" and "rest = pre @ rest1"
    and "pre \<noteq> [] \<or> startsIndex rest1" and "pre \<noteq> [] \<longrightarrow> last pre = CHR '']'' \<or> \<not> stalled rest1"
  shows "consumes rest (skipDot rest2)"
proof (cases "startsIndex rest1")
  case True
  then obtain i where "parseArrayIndex rest1 = Inr (i, rest2)" "rest1 \<noteq> []"
    using assms(1) by (cases rest1) (auto simp: indexPart_def startsIndex_def split: sum.splits)
  then obtain pre1 where "rest1 = pre1 @ rest2" "pre1 \<noteq> []" "last pre1 = CHR '']''"
    using parseArrayIndex_consumes by blast
  then have "rest = (pre @ pre1) @ rest2" "last (pre @ pre1) = CHR '']''" "pre @ pre1 \<noteq> []"
    using assms(2) by simp_all
  then show ?thesis using skipDot_consumes by blast
next
  case False
  then have "rest2 = rest1" using assms(1) by (simp add: indexPart_def)
  with False assms show ?thesis using skipDot_consumes by blast
qed

lemma stalled_unquoted: "\<not> stalled (dropWhile unquotedChar xs)"
  by (auto simp: stalled_def dest: dropWhile_split)

lemma parseStep_consumes:
  assumes "rest \<noteq> []" and "\<not> stalled rest" and "parseStep rest segs = Inr (rest', segs')"
  shows "consumes rest rest'"
proof -
  obtain rest1 segs1 rest2 where f: "fieldPart rest segs = Inr (rest1, segs1)"
      and i: "indexPart rest1 segs1 = Inr (rest2, segs')" and rest': "rest' = skipDot rest2"
    using assms(3) by (auto simp: parseStep_def split: sum.splits)
  consider (one) c where "rest = [c]"
    | (quoted) c t where "rest = c # dquote # t" "c = CHR ''[''"
    | (unquoted) c c' t where "rest = c # c' # t" "c \<noteq> CHR ''[''"
    | (index) c c' t where "rest = c # c' # t" "c = CHR ''[''" "c' \<noteq> dquote"
    using assms(1) by (cases rest; cases "tl rest") auto
  then show ?thesis
  proof cases
    case one
    show ?thesis
    proof (cases "c = CHR ''.''")
      case True
      with one f i rest' show ?thesis
        by (auto simp: fieldPart_def indexPart_def startsIndex_def skipDot_def consumes_def stalled_def)
    next
      case False
      with one assms(2) have c: "c = CHR ''[''" by (auto simp: stalled_def unquotedChar_def)
      from one f have "rest1 = [c]" by (simp add: fieldPart_def)
      with c i show ?thesis
        by (simp add: indexPart_def startsIndex_def parseArrayIndex_def)
    qed
  next
    case quoted
    then obtain field where "parseQuotedField rest = Inr (field, rest1)"
      using f by (auto simp: fieldPart_def split: sum.splits)
    then obtain pre where "rest = pre @ rest1" "pre \<noteq> []" "last pre = CHR '']''"
      using parseQuotedField_consumes by blast
    then show ?thesis using indexPart_skipDot_consumes [OF i] rest' by blast
  next
    case unquoted
    then have r1: "rest1 = dropWhile unquotedChar rest" and ne: "takeWhile unquotedChar rest \<noteq> []"
      using f by (auto simp: fieldPart_def parseUnquotedField_def Let_def split: sum.splits if_splits)
    have "rest = takeWhile unquotedChar rest @ rest1" by (simp add: r1)
    then show ?thesis
      using indexPart_skipDot_consumes [OF i] ne stalled_unquoted r1 rest' by metis
  next
    case index
    then have "rest1 = rest" "startsIndex rest"
      using f by (auto simp: fieldPart_def startsIndex_def)
    then show ?thesis using indexPart_skipDot_consumes [OF i, of rest "[]"] rest' by simp
  qed
qed

text \<open>The loop fails to return only at a last field of one byte.\<close>

definition singleCharTail :: "string \<Rightarrow> bool" where
  "singleCharTail path \<longleftrightarrow>
     (\<exists>pre c. path = pre @ [c] \<and> unquotedChar c \<and> (pre = [] \<or> last pre \<in> {CHR ''.'', CHR '']''}))"

lemma parseLoop_None_tail: "parseLoop rest segs = None \<Longrightarrow> singleCharTail rest"
proof (induction rest arbitrary: segs rule: length_induct)
  case (1 rest)
  show ?case
  proof (cases "rest = [] \<or> stalled rest")
    case True
    then show ?thesis using "1.prems" by (auto simp: stalled_def singleCharTail_def)
  next
    case False
    then obtain rest' segs' where step: "parseStep rest segs = Inr (rest', segs')"
        and none: "parseLoop rest' segs' = None"
      using "1.prems" parseLoop_step [of rest segs] by (auto split: sum.splits)
    obtain pre where pre: "rest = pre @ rest'" "pre \<noteq> []"
        "stalled rest' \<longrightarrow> last pre \<in> {CHR ''.'', CHR '']''}"
      using parseStep_consumes [OF _ _ step] False unfolding consumes_def by blast
    then have "length rest' < length rest" by simp
    then have "singleCharTail rest'" using "1.IH" none by blast
    then obtain p c where p: "rest' = p @ [c]" "unquotedChar c"
        "p = [] \<or> last p \<in> {CHR ''.'', CHR '']''}" by (auto simp: singleCharTail_def)
    show ?thesis
    proof (cases "p = []")
      case True
      with p have "stalled rest'" by (simp add: stalled_def)
      with pre p True show ?thesis unfolding singleCharTail_def by auto
    next
      case False
      with p pre(1) have "rest = (pre @ p) @ [c]" "last (pre @ p) \<in> {CHR ''.'', CHR '']''}" by simp_all
      with p(2) show ?thesis unfolding singleCharTail_def by blast
    qed
  qed
qed

section \<open>Parsing one piece\<close>

definition plainName :: "string \<Rightarrow> bool" where
  "plainName n \<longleftrightarrow> n \<noteq> [] \<and> list_all unquotedChar n"

definition quotableName :: "string \<Rightarrow> bool" where
  "quotableName n \<longleftrightarrow> list_all (\<lambda>c. quoteChar c = [c]) n"

lemma goQuote_plain: "quotableName n \<Longrightarrow> goQuote n = dquote # n @ [dquote]"
proof -
  assume "quotableName n"
  then have "concat (map quoteChar n) = n" by (induction n) (auto simp: quotableName_def)
  then show ?thesis by (simp add: goQuote_def dquote_def)
qed

lemma quotableName_dquote: "quotableName n \<Longrightarrow> dquote \<notin> set n"
  by (auto simp: quotableName_def list_all_iff dquote_def quoteChar_def)

lemma span_all:
  assumes "list_all P n" and "t = [] \<or> \<not> P (hd t)"
  shows "takeWhile P (n @ t) = n" and "dropWhile P (n @ t) = t"
  using assms by (auto simp: list_all_iff takeWhile_append2 dropWhile_append2 takeWhile_eq_Nil_iff dropWhile_eq_self_iff)

lemma fieldPart_name:
  assumes "plainName n" and "t = [] \<or> \<not> unquotedChar (hd t)" and "2 \<le> length (n @ t)"
  shows "fieldPart (n @ t) segs = Inr (t, segs @ [NewNamedSegment n])"
proof -
  obtain c cs where n: "n = c # cs" using assms(1) by (auto simp: plainName_def neq_Nil_conv)
  have c: "c \<noteq> CHR ''[''" using assms(1) n by (auto simp: plainName_def unquotedChar_def)
  obtain c' t' where nt: "n @ t = c # c' # t'" using assms(3) n by (cases "cs @ t") auto
  have "parseUnquotedField (n @ t) = Inr (n, t)"
    using assms span_all [of unquotedChar n t]
    by (simp add: parseUnquotedField_def plainName_def)
  with nt c show ?thesis by (simp add: fieldPart_def)
qed

text \<open>After a field, an index is read in the same iteration; reading it in the next is the same.\<close>

lemma parseLoop_after_field:
  assumes "rest \<noteq> []" and "fieldPart rest segs = Inr (t, segs')"
  shows "parseLoop rest segs = parseLoop (skipDot t) segs'"
proof (cases "startsIndex t")
  case True
  then have t: "skipDot t = t" "t \<noteq> []" "fieldPart t segs' = Inr (t, segs')"
    by (auto simp: startsIndex_def fieldPart_def skipDot_def split: list.splits)
  then have "parseStep rest segs = parseStep t segs'" using assms by (simp add: parseStep_def)
  with t show ?thesis using assms(1) by (simp add: parseLoop_step)
next
  case False
  then have "parseStep rest segs = Inr (skipDot t, segs')"
    using assms by (simp add: parseStep_def indexPart_def)
  then show ?thesis using assms(1) by (simp add: parseLoop_step)
qed

text \<open>A name, and what follows it: nothing, a dot or a bracket.\<close>

lemma parseLoop_name:
  assumes "plainName n" and "t = [] \<or> \<not> unquotedChar (hd t)" and "2 \<le> length (n @ t)"
  shows "parseLoop (n @ t) segs = parseLoop (skipDot t) (segs @ [NewNamedSegment n])"
  using parseLoop_after_field [OF _ fieldPart_name [OF assms]] assms(1) by (simp add: plainName_def)

lemma parseLoop_index:
  assumes "0 \<le> i" and "i < 2 ^ 63"
  shows "parseLoop (CHR ''['' # itoa i @ CHR '']'' # t) segs =
         parseLoop (skipDot t) (segs @ [NewIndexedSegment i])"
proof -
  let ?rest = "CHR ''['' # itoa i @ CHR '']'' # t"
  have itoa: "itoa i = natToString (nat i)" using assms(1) by (simp add: itoa_def)
  obtain c cs where c: "itoa i = c # cs"
    using itoa natToString_nonempty by (metis neq_Nil_conv)
  have q: "c \<noteq> dquote"
    using hd_natToString_digit [of dquote "nat i"] c itoa by (auto simp: dquote_def)
  have digits: "list_all (\<lambda>c. c \<noteq> CHR '']'') (itoa i)"
    using natToString_not_special [of "CHR '']''" "nat i"] itoa by (auto simp: list_all_iff)
  have "fieldPart ?rest segs = Inr (?rest, segs)" using c q by (simp add: fieldPart_def)
  moreover have "parseArrayIndex ?rest = Inr (i, t)"
    using span_all [OF digits, of "CHR '']'' # t"] atoi_itoa [OF assms]
    by (simp add: parseArrayIndex_def)
  moreover have "startsIndex ?rest" using c q by (simp add: startsIndex_def)
  ultimately show ?thesis by (simp add: parseLoop_step parseStep_def indexPart_def)
qed

lemma parseLoop_quoted:
  assumes "quotableName n"
  shows "parseLoop (CHR ''['' # goQuote n @ CHR '']'' # t) segs =
         parseLoop (skipDot t) (segs @ [NewNamedSegment n])"
proof -
  let ?rest = "CHR ''['' # goQuote n @ CHR '']'' # t"
  have r: "?rest = CHR ''['' # dquote # n @ dquote # CHR '']'' # t"
    by (simp add: goQuote_plain [OF assms])
  have all: "list_all (\<lambda>c. c \<noteq> dquote) n"
    using quotableName_dquote [OF assms] by (auto simp: list_all_iff)
  have "parseQuotedField ?rest = Inr (n, t)"
    using span_all [OF all, of "dquote # CHR '']'' # t"] unfolding r by (simp add: parseQuotedField_def)
  then have field: "fieldPart ?rest segs = Inr (t, segs @ [NewNamedSegment n])"
    unfolding r by (simp add: fieldPart_def)
  show ?thesis using parseLoop_after_field [OF _ field] by simp
qed

section \<open>Rendered paths\<close>

text \<open>
  The two ways paths are written. \<open>Build\<close> puts a dot before a segment unless the text ends in a
  bracket. The resource parser puts a dot before a plain name and none before a bracket
  (\<open>joinedPath\<close>; the functions that produce it are in \<open>Resource_Parser\<close>). A name is quoted
  when it contains a dot, and by the resource parser when it is empty.
\<close>

definition isIndexed :: "Segment \<Rightarrow> bool" where
  "isIndexed s \<longleftrightarrow> segName s = [] \<and> 0 \<le> segIndex s \<and> segIndex s < 2 ^ 63"

definition isNamed :: "(string \<Rightarrow> bool) \<Rightarrow> Segment \<Rightarrow> bool" where
  "isNamed P s \<longleftrightarrow> segIndex s = -1 \<and> P (segName s)"

definition quotedName :: "string \<Rightarrow> bool" where
  "quotedName n \<longleftrightarrow> (n = [] \<or> CHR ''.'' \<in> set n) \<and> quotableName n"

definition wfSegment :: "Segment \<Rightarrow> bool" where
  "wfSegment s \<longleftrightarrow> isIndexed s \<or> isNamed plainName s \<or> isNamed quotedName s"

text \<open>The last segment is not a name of one byte.\<close>

definition longTail :: "Segment list \<Rightarrow> bool" where
  "longTail segs \<longleftrightarrow> (segs \<noteq> [] \<longrightarrow> isNamed plainName (last segs) \<longrightarrow> 2 \<le> length (segName (last segs)))"

definition joinPiece :: "Segment \<Rightarrow> string" where
  "joinPiece s =
     (if segIndex s \<noteq> -1 then CHR ''['' # itoa (segIndex s) @ [CHR '']'']
      else if segName s = [] \<or> strContains (segName s) ''.'' then CHR ''['' # goQuote (segName s) @ [CHR '']'']
      else CHR ''.'' # segName s)"

definition joinedPath :: "Segment list \<Rightarrow> string" where
  "joinedPath segs = skipDot (concat (map joinPiece segs))"

lemma NewNamedSegment_eq: "isNamed P s \<Longrightarrow> NewNamedSegment (segName s) = s"
  by (simp add: isNamed_def NewNamedSegment_def)

lemma NewIndexedSegment_eq: "isIndexed s \<Longrightarrow> NewIndexedSegment (segIndex s) = s"
  by (simp add: isIndexed_def NewIndexedSegment_def)

lemma plainName_no_dot: "plainName n \<Longrightarrow> n \<noteq> [] \<and> \<not> strContains n ''.''"
  by (auto simp: plainName_def list_all_iff unquotedChar_def strContains_char)

lemma quotedName_contains: "quotedName n \<Longrightarrow> n = [] \<or> strContains n ''.''"
  by (auto simp: quotedName_def strContains_char)

lemma joinPiece_indexed: "isIndexed s \<Longrightarrow> joinPiece s = CHR ''['' # itoa (segIndex s) @ [CHR '']'']"
  by (simp add: joinPiece_def isIndexed_def)

lemma joinPiece_quoted:
  "isNamed quotedName s \<Longrightarrow> joinPiece s = CHR ''['' # goQuote (segName s) @ [CHR '']'']"
  using quotedName_contains [of "segName s"] by (auto simp: joinPiece_def isNamed_def)

lemma joinPiece_plain: "isNamed plainName s \<Longrightarrow> joinPiece s = CHR ''.'' # segName s"
  using plainName_no_dot [of "segName s"] by (auto simp: joinPiece_def isNamed_def)

lemma joinPiece_hd: "joinPiece s \<noteq> [] \<and> \<not> unquotedChar (hd (joinPiece s))"
  by (simp add: joinPiece_def unquotedChar_def)

lemma joined_tail_hd:
  "concat (map joinPiece segs) = [] \<or> \<not> unquotedChar (hd (concat (map joinPiece segs)))"
  using joinPiece_hd by (cases segs) auto

lemma joined_tail_empty: "concat (map joinPiece segs) = [] \<longleftrightarrow> segs = []"
  using joinPiece_hd by (cases segs) auto

lemma longTail_Cons: "longTail (s # segs) \<Longrightarrow> longTail segs"
  by (auto simp: longTail_def)

lemma parseLoop_joined:
  assumes "list_all wfSegment segs" and "longTail segs"
  shows "parseLoop (joinedPath segs) acc = Some (Inr (acc @ segs))"
  using assms
proof (induction segs arbitrary: acc)
  case Nil
  then show ?case by (simp add: joinedPath_def skipDot_def)
next
  case (Cons s segs)
  let ?t = "concat (map joinPiece segs)"
  have IH: "parseLoop (skipDot ?t) (acc @ [s]) = Some (Inr (acc @ s # segs))"
    using Cons.IH [of "acc @ [s]"] Cons.prems longTail_Cons by (auto simp: joinedPath_def)
  from Cons.prems(1) consider (index) "isIndexed s" | (plain) "isNamed plainName s"
    | (quoted) "isNamed quotedName s" by (auto simp: wfSegment_def)
  then show ?case
  proof cases
    case index
    then have "joinedPath (s # segs) = CHR ''['' # itoa (segIndex s) @ CHR '']'' # ?t"
      by (simp add: joinedPath_def joinPiece_indexed skipDot_def)
    then show ?thesis
      using parseLoop_index [of "segIndex s" ?t acc] index IH NewIndexedSegment_eq [OF index]
      by (simp add: isIndexed_def)
  next
    case plain
    then have "joinedPath (s # segs) = segName s @ ?t"
      by (simp add: joinedPath_def joinPiece_plain skipDot_def)
    moreover have "2 \<le> length (segName s @ ?t)"
    proof (cases "segs = []")
      case True
      then show ?thesis using Cons.prems(2) plain by (simp add: longTail_def)
    next
      case False
      then have "1 \<le> length ?t" using joined_tail_empty [of segs] by (simp add: Suc_le_eq)
      moreover have "1 \<le> length (segName s)"
        using plain by (simp add: isNamed_def plainName_def Suc_le_eq)
      ultimately show ?thesis by simp
    qed
    ultimately show ?thesis
      using parseLoop_name [of "segName s" ?t acc] plain joined_tail_hd IH NewNamedSegment_eq [OF plain]
      by (simp add: isNamed_def)
  next
    case quoted
    then have "joinedPath (s # segs) = CHR ''['' # goQuote (segName s) @ CHR '']'' # ?t"
      by (simp add: joinedPath_def joinPiece_quoted skipDot_def)
    then show ?thesis
      using parseLoop_quoted [of "segName s" ?t acc] quoted IH NewNamedSegment_eq [OF quoted]
      by (simp add: isNamed_def quotedName_def)
  qed
qed

section \<open>Paths written by Build\<close>

definition buildable :: "Segment \<Rightarrow> bool" where
  "buildable s \<longleftrightarrow>
     isIndexed s \<or> (isNamed plainName s \<and> last (segName s) \<noteq> CHR '']'') \<or>
     (isNamed quotedName s \<and> segName s \<noteq> [])"

fun renderBuild :: "bool \<Rightarrow> Segment list \<Rightarrow> string" where
  "renderBuild e [] = []"
| "renderBuild e (s # ss) =
     (if e then [] else ''.'') @ buildPiece s @ renderBuild (\<not> isNamed plainName s) ss"

lemma buildPiece_indexed: "isIndexed s \<Longrightarrow> buildPiece s = CHR ''['' # itoa (segIndex s) @ [CHR '']'']"
  by (simp add: buildPiece_def isIndexed_def)

lemma buildPiece_quoted:
  "isNamed quotedName s \<Longrightarrow> segName s \<noteq> [] \<Longrightarrow>
   buildPiece s = CHR ''['' # goQuote (segName s) @ [CHR '']'']"
  using quotedName_contains [of "segName s"] by (auto simp: buildPiece_def isNamed_def)

lemma buildPiece_plain: "isNamed plainName s \<Longrightarrow> buildPiece s = segName s"
  using plainName_no_dot [of "segName s"] by (auto simp: buildPiece_def isNamed_def)

lemma not_plain_indexed: "isIndexed s \<Longrightarrow> \<not> isNamed plainName s"
  by (auto simp: isIndexed_def isNamed_def)

lemma not_plain_quoted: "isNamed quotedName s \<Longrightarrow> \<not> isNamed plainName s"
  using plainName_no_dot [of "segName s"] quotedName_contains [of "segName s"] by (auto simp: isNamed_def)

lemma hasSuffix_last: "b \<noteq> [] \<Longrightarrow> hasSuffix b [c] \<longleftrightarrow> last b = c"
  by (metis append_butlast_last_id hasSuffix_iff last_snoc)

lemma buildPiece_suffix:
  "buildable s \<Longrightarrow> hasSuffix (b @ buildPiece s) '']'' \<longleftrightarrow> \<not> isNamed plainName s"
proof -
  assume "buildable s"
  then consider "isIndexed s" | "isNamed plainName s" "last (segName s) \<noteq> CHR '']''"
    | "isNamed quotedName s" "segName s \<noteq> []" by (auto simp: buildable_def)
  then show ?thesis
  proof cases
    case 1
    then show ?thesis using not_plain_indexed by (simp add: hasSuffix_last buildPiece_indexed)
  next
    case 2
    then have "segName s \<noteq> []" by (simp add: isNamed_def plainName_def)
    with 2 show ?thesis by (simp add: hasSuffix_last buildPiece_plain)
  next
    case 3
    then show ?thesis using not_plain_quoted by (simp add: hasSuffix_last buildPiece_quoted)
  qed
qed

lemma buildLoop_render:
  "list_all buildable segs \<Longrightarrow>
   buildLoop first b segs = b @ renderBuild (first \<or> hasSuffix b '']'') segs"
proof (induction segs arbitrary: first b)
  case (Cons s segs)
  let ?b = "(if \<not> first \<and> \<not> hasSuffix b '']'' then b @ ''.'' else b)"
  have "hasSuffix (?b @ buildPiece s) '']'' \<longleftrightarrow> \<not> isNamed plainName s"
    using buildPiece_suffix Cons.prems by auto
  then show ?case using Cons by auto
qed simp

lemma Build_render: "list_all buildable segs \<Longrightarrow> Build segs = renderBuild True segs"
  by (simp add: Build_def buildLoop_render)

lemma buildPiece_hd: "buildable s \<Longrightarrow> buildPiece s \<noteq> [] \<and> hd (buildPiece s) \<noteq> CHR ''.''"
  using buildPiece_indexed [of s] buildPiece_plain [of s] buildPiece_quoted [of s]
  by (cases "segName s") (auto simp: buildable_def isNamed_def plainName_def unquotedChar_def)

lemma skipDot_renderBuild:
  "list_all buildable segs \<Longrightarrow> skipDot (renderBuild e segs) = renderBuild True segs"
proof (cases segs)
  case (Cons s ss)
  assume "list_all buildable segs"
  with Cons obtain c cs where "buildPiece s = c # cs" "c \<noteq> CHR ''.''"
    using buildPiece_hd [of s] by (auto simp: neq_Nil_conv)
  with Cons show ?thesis by (simp add: skipDot_def)
qed (simp add: skipDot_def)

lemma renderBuild_False:
  "renderBuild False segs = [] \<and> segs = [] \<or> (\<exists>t. renderBuild False segs = CHR ''.'' # t)"
  by (cases segs) auto

lemma parseLoop_build:
  assumes "list_all buildable segs" and "longTail segs"
  shows "parseLoop (renderBuild True segs) acc = Some (Inr (acc @ segs))"
  using assms
proof (induction segs arbitrary: acc)
  case (Cons s segs)
  have IH: "parseLoop (skipDot (renderBuild e segs)) (acc @ [s]) = Some (Inr (acc @ s # segs))" for e
    using Cons.IH [of "acc @ [s]"] Cons.prems longTail_Cons by (auto simp: skipDot_renderBuild)
  from Cons.prems(1) consider (index) "isIndexed s" | (plain) "isNamed plainName s"
    | (quoted) "isNamed quotedName s" "segName s \<noteq> []" by (auto simp: buildable_def)
  then show ?case
  proof cases
    case index
    then show ?thesis
      using parseLoop_index [of "segIndex s" "renderBuild True segs" acc] IH not_plain_indexed
        NewIndexedSegment_eq [OF index]
      by (simp add: buildPiece_indexed isIndexed_def)
  next
    case plain
    then have n: "plainName (segName s)" by (simp add: isNamed_def)
    then have l: "1 \<le> length (segName s)" by (simp add: plainName_def Suc_le_eq)
    let ?t = "renderBuild False segs"
    have "2 \<le> length (segName s @ ?t)"
      using renderBuild_False [of segs] Cons.prems(2) plain l by (auto simp: longTail_def)
    moreover have "?t = [] \<or> \<not> unquotedChar (hd ?t)"
      using renderBuild_False [of segs] by (auto simp: unquotedChar_def)
    ultimately show ?thesis
      using parseLoop_name [OF n] IH plain NewNamedSegment_eq [OF plain] by (simp add: buildPiece_plain)
  next
    case quoted
    then show ?thesis
      using parseLoop_quoted [of "segName s" "renderBuild True segs" acc] IH not_plain_quoted
        NewNamedSegment_eq [OF quoted(1)]
      by (simp add: buildPiece_quoted isNamed_def quotedName_def)
  qed
qed simp

section \<open>Properties\<close>

text \<open>
  C17. Reading back what \<open>Build\<close> writes gives the same segments: for indices in the range of
  \<open>int\<close>, names without dots and brackets, and dotted names of printable characters without
  quotes and backslashes, the last segment not being a name of one byte.
\<close>

theorem fieldpath_build_parse_roundtrip:
  "list_all buildable segs \<Longrightarrow> longTail segs \<Longrightarrow> Parse (Build segs) = Some (Inr segs)"
  using parseLoop_build [of segs "[]"] by (simp add: Parse_def Build_render)

theorem fieldpath_build_parse_roundtrip_witness:
  "Parse (Build [NewNamedSegment ''spec'', NewNamedSegment ''my.field'', NewIndexedSegment 12,
                 NewNamedSegment ''env'']) =
   Some (Inr [NewNamedSegment ''spec'', NewNamedSegment ''my.field'', NewIndexedSegment 12,
              NewNamedSegment ''env''])"
  by (rule fieldpath_build_parse_roundtrip)
    (simp_all add: buildable_def isIndexed_def isNamed_def plainName_def quotedName_def
      quotableName_def quoteChar_def unquotedChar_def longTail_def NewNamedSegment_def
      NewIndexedSegment_def)

text \<open>
  C18. \<open>Parse\<close> returns on every path whose last field, the text after the last dot or closing
  bracket, is not a single byte.
\<close>

theorem fieldpath_parse_returns:
  "\<not> singleCharTail path \<Longrightarrow> \<exists>r. Parse path = Some r"
  using parseLoop_None_tail [of path "[]"] by (auto simp: Parse_def)

theorem fieldpath_parse_returns_witness:
  "\<not> singleCharTail ''items[abc]'' \<and> (\<exists>r. Parse ''items[abc]'' = Some r)"
proof -
  have "\<not> singleCharTail ''items[abc]''"
  proof
    assume "singleCharTail ''items[abc]''"
    then obtain pre c where "''items[abc]'' = pre @ [c]" "pre = [] \<or> last pre \<in> {CHR ''.'', CHR '']''}"
      by (auto simp: singleCharTail_def)
    then show False by (auto simp: snoc_eq_iff_butlast)
  qed
  then show ?thesis using fieldpath_parse_returns by blast
qed

text \<open>
  A last field of one byte makes \<open>Parse\<close> loop forever: it does not return on a path of one
  byte, nor on any list of plain names joined by dots whose last name is one byte.
\<close>

lemma fieldpath_parse_single_char_diverges:
  "unquotedChar c \<Longrightarrow> list_all plainName names \<Longrightarrow>
   Parse (concat (map (\<lambda>n. n @ ''.'') names) @ [c]) = None"
proof -
  assume c: "unquotedChar c" and names: "list_all plainName names"
  have "parseLoop (concat (map (\<lambda>n. n @ ''.'') names) @ [c]) acc = None" for acc
    using names
  proof (induction names arbitrary: acc)
    case Nil
    then show ?case using c parseLoop_stalled [of "[c]"] by (simp add: stalled_def)
  next
    case (Cons n names)
    have "1 \<le> length n" using Cons.prems by (simp add: plainName_def Suc_le_eq)
    then show ?case
      using parseLoop_name [of n "CHR ''.'' # concat (map (\<lambda>n. n @ ''.'') names) @ [c]" acc] Cons
      by (simp add: unquotedChar_def skipDot_def)
  qed
  then show ?thesis by (simp add: Parse_def)
qed

lemma fieldpath_parse_single_char_diverges_witness:
  "Parse ''spec.x'' = None"
  using fieldpath_parse_single_char_diverges [of "CHR ''x''" "[''spec'']"]
  by (simp add: unquotedChar_def plainName_def)

end
