(* ===== verification/Expr_Parser.thy ===== *)
theory Expr_Parser
  imports Kro_Prelude
begin

text \<open>
  CEL expressions inside strings, \<open>src/internal/graph/parser/cel.go\<close> and \<open>conditions.go\<close>: a
  string is a template whose expressions stand between \<open>${\<close> and the matching brace.

  The code walks the string with the two indices \<open>start\<close> and \<open>endIdx\<close>; here the part of the
  string from the index on is passed instead. The lemmas relate the extraction to the
  rendering of a template: what is rendered is read back, and every string is the rendering
  of the template that is read from it.
\<close>

section \<open>Operations\<close>

definition exprStart :: string where
  "exprStart = ''${''"

definition exprEnd :: string where
  "exprEnd = ''}''"

datatype expr_error =
    ErrNestedExpression
  | OnlyStandaloneAllowed

datatype scan_result =
    Closed string string
  | Nested
  | Incomplete

text \<open>
  The inner loop: \<open>bracketCount\<close>, the string from \<open>endIdx\<close> on, and the bytes passed so far. A
  closed expression comes with the rest of the string after its brace.
\<close>

fun scanExpr :: "nat \<Rightarrow> string \<Rightarrow> string \<Rightarrow> scan_result" where
  "scanExpr n [] acc = Incomplete"
| "scanExpr n (c # cs) acc =
     (if c = CHR ''{'' then scanExpr (n + 1) cs (acc @ [c])
      else if c = CHR ''}'' then
        (if n - 1 = 0 then Closed acc cs else scanExpr (n - 1) cs (acc @ [c]))
      else if hasPrefix (c # cs) exprStart then Nested
      else scanExpr n cs (acc @ [c]))"

lemma scanExpr_shorter: "scanExpr n s acc = Closed e rest \<Longrightarrow> length rest < length s"
  by (induction n s acc rule: scanExpr.induct) (auto split: if_splits)

text \<open>The outer loop over the string from \<open>start\<close> on.\<close>

function extractLoop :: "string \<Rightarrow> string list \<Rightarrow> expr_error + string list" where
  "extractLoop s expressions =
     (case strIndex s exprStart of
        None \<Rightarrow> Inr expressions
      | Some i \<Rightarrow>
          (case scanExpr 1 (drop (i + length exprStart) s) [] of
             Nested \<Rightarrow> Inl ErrNestedExpression
           | Incomplete \<Rightarrow> extractLoop (tl s) expressions
           | Closed e rest \<Rightarrow> extractLoop rest (expressions @ [e])))"
  by pat_completeness auto
termination
proof (relation "measure (\<lambda>(s, _). length s)", goal_cases)
  case (2 s expressions i e rest)
  then show ?case using scanExpr_shorter [of 1 "drop (i + length exprStart) s" "[]" e rest] by simp
next
  case (3 s expressions i)
  then have "s \<noteq> []" by (auto simp: exprStart_def)
  then show ?case by simp
qed simp

declare extractLoop.simps [simp del]

definition extractExpressions :: "string \<Rightarrow> expr_error + string list" where
  "extractExpressions str = extractLoop str []"

definition isStandaloneExpression :: "string \<Rightarrow> expr_error + bool" where
  "isStandaloneExpression str =
     (case extractExpressions str of
        Inl e \<Rightarrow> Inl e
      | Inr expressions \<Rightarrow>
          Inr (length expressions = 1 \<and> str = exprStart @ expressions ! 0 @ exprEnd))"

definition parseConditionStep :: "string \<Rightarrow> string list \<Rightarrow> expr_error + string list" where
  "parseConditionStep e expressions =
     (case isStandaloneExpression e of
        Inl err \<Rightarrow> Inl err
      | Inr ok \<Rightarrow>
          (if \<not> ok then Inl OnlyStandaloneAllowed
           else Inr (expressions @ [trimSet e ''${}''])))"

definition ParseConditionExpressions :: "string list \<Rightarrow> expr_error + string list" where
  "ParseConditionExpressions conditions = foldRes parseConditionStep conditions []"

section \<open>Templates\<close>

text \<open>
  A template alternates literal text and expressions. Literal text holds no \<open>${\<close>; an
  expression holds none either and its braces match.
\<close>

type_synonym template = "(string \<times> string) list \<times> string"

fun balancedFrom :: "nat \<Rightarrow> string \<Rightarrow> bool" where
  "balancedFrom n [] = (n = 0)"
| "balancedFrom n (c # cs) =
     (if c = CHR ''{'' then balancedFrom (n + 1) cs
      else if c = CHR ''}'' then 0 < n \<and> balancedFrom (n - 1) cs
      else balancedFrom n cs)"

definition plainExpr :: "string \<Rightarrow> bool" where
  "plainExpr e = (balancedFrom 0 e \<and> \<not> strContains e exprStart)"

definition wrapExpr :: "string \<Rightarrow> string" where
  "wrapExpr e = exprStart @ e @ exprEnd"

definition renderPiece :: "string \<times> string \<Rightarrow> string" where
  "renderPiece p = fst p @ wrapExpr (snd p)"

definition renderTemplate :: "template \<Rightarrow> string" where
  "renderTemplate t = concat (map renderPiece (fst t)) @ snd t"

text \<open>
  The text after the last expression may open one more that never closes; it is literal then.
\<close>

fun neverCloses :: "nat \<Rightarrow> string \<Rightarrow> bool" where
  "neverCloses n [] = True"
| "neverCloses n (c # cs) =
     (if c = CHR ''{'' then neverCloses (n + 1) cs
      else if c = CHR ''}'' then 0 < n \<and> neverCloses (n - 1) cs
      else neverCloses n cs)"

definition literalTail :: "string \<Rightarrow> bool" where
  "literalTail s =
     (case strIndex s exprStart of
        None \<Rightarrow> True
      | Some i \<Rightarrow>
          neverCloses 0 (drop (i + length exprStart) s)
          \<and> \<not> strContains (drop (i + length exprStart) s) exprStart)"

definition wfPiece :: "string \<times> string \<Rightarrow> bool" where
  "wfPiece p = (\<not> strContains (fst p) exprStart \<and> plainExpr (snd p))"

definition wfTemplate :: "template \<Rightarrow> bool" where
  "wfTemplate t = (list_all wfPiece (fst t) \<and> literalTail (snd t))"

lemma scanExpr_plain:
  assumes "balancedFrom n e" and "\<not> strContains e exprStart"
  shows "scanExpr (n + 1) (e @ CHR ''}'' # rest) acc = Closed (acc @ e) rest"
  using assms
proof (induction e arbitrary: n acc)
  case (Cons c e)
  have tl: "\<not> strContains e exprStart"
    using Cons.prems(2) by (auto simp: strContains_def exprStart_def split: if_splits)
  have "\<not> hasPrefix (c # e) exprStart" using Cons.prems(2) by (auto simp: strContains_def exprStart_def)
  then have np: "\<not> hasPrefix (c # e @ CHR ''}'' # rest) exprStart"
    by (cases e) (auto simp: exprStart_def)
  consider "c = CHR ''{''" | "c = CHR ''}''" | "c \<noteq> CHR ''{''" "c \<noteq> CHR ''}''" by blast
  then show ?case
  proof cases
    case 1
    then show ?thesis using Cons.IH [of "n + 1" "acc @ [c]"] Cons.prems(1) tl by simp
  next
    case 2
    then have n: "0 < n" "balancedFrom (n - 1) e" using Cons.prems(1) by simp_all
    then show ?thesis using Cons.IH [of "n - 1" "acc @ [c]"] tl 2 by simp
  next
    case 3
    then show ?thesis using Cons.IH [of n "acc @ [c]"] Cons.prems(1) tl np by simp
  qed
qed simp

lemma scanExpr_Closed:
  assumes "scanExpr (n + 1) s acc = Closed e rest"
  shows "\<exists>e'. e = acc @ e' \<and> s = e' @ CHR ''}'' # rest \<and> balancedFrom n e' \<and> \<not> strContains e' exprStart"
  using assms
proof (induction s arbitrary: n acc)
  case (Cons c s)
  consider "c = CHR ''{''" | "c = CHR ''}''" "n = 0" | m where "c = CHR ''}''" "n = m + 1"
    | "c \<noteq> CHR ''{''" "c \<noteq> CHR ''}''" "\<not> hasPrefix (c # s) exprStart"
    using Cons.prems by (cases n) (auto split: if_splits)
  then show ?case
  proof cases
    case 1
    then obtain e' where "e = (acc @ [c]) @ e'" "s = e' @ CHR ''}'' # rest"
        "balancedFrom (n + 1) e'" "\<not> strContains e' exprStart"
      using Cons.IH [of "n + 1" "acc @ [c]"] Cons.prems by auto
    then show ?thesis using 1 by (intro exI [of _ "c # e'"]) (auto simp: strContains_def exprStart_def)
  next
    case 2
    then show ?thesis using Cons.prems by (auto simp: strContains_def exprStart_def)
  next
    case 3
    then obtain e' where "e = (acc @ [c]) @ e'" "s = e' @ CHR ''}'' # rest"
        "balancedFrom m e'" "\<not> strContains e' exprStart"
      using Cons.IH [of m "acc @ [c]"] Cons.prems by auto
    then show ?thesis using 3 by (intro exI [of _ "c # e'"]) (auto simp: strContains_def exprStart_def)
  next
    case 4
    then obtain e' where e': "e = (acc @ [c]) @ e'" "s = e' @ CHR ''}'' # rest"
        "balancedFrom n e'" "\<not> strContains e' exprStart"
      using Cons.IH [of n "acc @ [c]"] Cons.prems by auto
    have "\<not> hasPrefix (c # e') exprStart"
      using 4(3) unfolding e'(2) by (cases e') (auto simp: exprStart_def)
    then show ?thesis using 4 e' by (intro exI [of _ "c # e'"]) (auto simp: strContains_def)
  qed
qed simp

lemma strIndex_literal:
  "\<not> strContains lit exprStart \<Longrightarrow> strIndex (lit @ exprStart @ rest) exprStart = Some (length lit)"
proof (induction lit)
  case (Cons c lit)
  then have "\<not> strContains lit exprStart" and "\<not> hasPrefix (c # lit) exprStart"
    by (auto simp: strContains_def exprStart_def split: if_splits)
  moreover from this(2) have "\<not> hasPrefix (c # lit @ exprStart @ rest) exprStart"
    by (cases lit) (auto simp: exprStart_def)
  ultimately show ?case using Cons.IH by simp
qed (simp add: exprStart_def)

lemma strIndex_Some_split:
  "strIndex s exprStart = Some i \<Longrightarrow>
   s = take i s @ exprStart @ drop (i + length exprStart) s \<and> \<not> strContains (take i s) exprStart"
proof (induction s arbitrary: i)
  case (Cons c s)
  show ?case
  proof (cases "hasPrefix (c # s) exprStart")
    case True
    then show ?thesis using Cons.prems by (auto simp: hasPrefix_iff exprStart_def strContains_def)
  next
    case False
    then obtain j where j: "i = Suc j" "strIndex s exprStart = Some j" using Cons.prems by auto
    have "\<not> hasPrefix (c # take j s) exprStart"
    proof
      assume "hasPrefix (c # take j s) exprStart"
      then obtain t where "c # take j s = exprStart @ t" by (auto simp: hasPrefix_iff)
      then have "c # s = exprStart @ t @ drop j s" by (metis append_Cons append_assoc append_take_drop_id)
      then show False using False by (auto simp: hasPrefix_iff)
    qed
    then show ?thesis using Cons.IH [OF j(2)] j(1) by (auto simp: strContains_def)
  qed
qed (simp add: exprStart_def)

lemma extractLoop_none: "\<not> strContains s exprStart \<Longrightarrow> extractLoop s es = Inr es"
  by (subst extractLoop.simps) (simp add: strContains_def)

lemma extractLoop_piece:
  assumes "\<not> strContains lit exprStart" and "plainExpr e"
  shows "extractLoop (lit @ wrapExpr e @ rest) es = extractLoop rest (es @ [e])"
proof -
  have idx: "strIndex (lit @ wrapExpr e @ rest) exprStart = Some (length lit)"
    using strIndex_literal [OF assms(1), of "e @ exprEnd @ rest"] by (simp add: wrapExpr_def)
  have "drop (length lit + length exprStart) (lit @ wrapExpr e @ rest) = e @ CHR ''}'' # rest"
    by (simp add: wrapExpr_def exprEnd_def)
  then show ?thesis
    using scanExpr_plain [of 0 e rest "[]"] assms(2)
    by (subst extractLoop.simps) (simp add: idx plainExpr_def)
qed

text \<open>The accumulator only collects.\<close>

lemma extractLoop_acc:
  "extractLoop s es = (case extractLoop s [] of Inl e \<Rightarrow> Inl e | Inr fs \<Rightarrow> Inr (es @ fs))"
proof (induction "length s" arbitrary: s es rule: less_induct)
  case less
  show ?case
  proof (cases "strIndex s exprStart")
    case None
    then show ?thesis by (simp add: extractLoop.simps [of s])
  next
    case (Some i)
    then have s: "length (tl s) < length s" by (cases s) (auto simp: exprStart_def)
    show ?thesis
    proof (cases "scanExpr 1 (drop (i + length exprStart) s) []")
      case (Closed e rest)
      then have "length rest < length s" using scanExpr_shorter by fastforce
      note IH = less [OF this]
      show ?thesis using Some Closed IH [of "es @ [e]"] IH [of "[e]"]
        by (simp add: extractLoop.simps [of s] split: sum.splits)
    next
      case Nested
      then show ?thesis using Some by (simp add: extractLoop.simps [of s])
    next
      case Incomplete
      then have "extractLoop s es' = extractLoop (tl s) es'" for es'
        using Some by (simp add: extractLoop.simps [of s])
      then show ?thesis using less [OF s, of es] by simp
    qed
  qed
qed

lemma scanExpr_Incomplete:
  "scanExpr (n + 1) s acc = Incomplete \<longleftrightarrow> neverCloses n s \<and> \<not> strContains s exprStart"
proof (induction s arbitrary: n acc)
  case (Cons c s)
  consider "c = CHR ''{''" | "c = CHR ''}''" "n = 0" | m where "c = CHR ''}''" "n = m + 1"
    | "c \<noteq> CHR ''{''" "c \<noteq> CHR ''}''" by (cases n) auto
  then show ?case
  proof cases
    case 1
    then show ?thesis using Cons.IH [of "n + 1" "acc @ [c]"] by (simp add: strContains_def exprStart_def)
  next
    case 3
    then show ?thesis using Cons.IH [of m "acc @ [c]"] by (simp add: strContains_def exprStart_def)
  next
    case 4
    then show ?thesis using Cons.IH [of n "acc @ [c]"] by (simp add: strContains_def)
  qed (simp add: strContains_def exprStart_def)
qed (simp add: strContains_def exprStart_def)

lemma extractLoop_incomplete:
  assumes "scanExpr 1 r [] = Incomplete"
  shows "\<not> strContains lit exprStart \<Longrightarrow> extractLoop (lit @ exprStart @ r) es = Inr es"
proof (induction lit)
  case Nil
  have "\<not> strContains (CHR ''{'' # r) exprStart"
    using scanExpr_Incomplete [of 0 r "[]"] assms by (simp add: strContains_def exprStart_def)
  then have "extractLoop (CHR ''{'' # r) es = Inr es" by (rule extractLoop_none)
  then show ?case
    using assms by (subst extractLoop.simps) (simp add: exprStart_def)
next
  case (Cons c lit)
  then have "\<not> strContains lit exprStart" by (auto simp: strContains_def split: if_splits)
  then have IH: "extractLoop (lit @ exprStart @ r) es = Inr es" by (rule Cons.IH)
  show ?case
    using strIndex_literal [OF Cons.prems, of r] assms IH
    by (subst extractLoop.simps) simp
qed

lemma extractLoop_literalTail: "literalTail s \<Longrightarrow> extractLoop s es = Inr es"
proof (cases "strIndex s exprStart")
  case None
  then show ?thesis by (simp add: extractLoop.simps [of s])
next
  case (Some i)
  assume "literalTail s"
  then have "scanExpr 1 (drop (i + length exprStart) s) [] = Incomplete"
    using scanExpr_Incomplete [of 0] Some by (simp add: literalTail_def)
  then show ?thesis using extractLoop_incomplete strIndex_Some_split [OF Some] by metis
qed

lemma extract_render:
  "list_all wfPiece ps \<Longrightarrow>
   extractLoop (concat (map renderPiece ps) @ tail) es = extractLoop tail (es @ map snd ps)"
  by (induction ps arbitrary: es) (simp_all add: renderPiece_def wfPiece_def extractLoop_piece)

lemma extract_decompose:
  "extractLoop s es = Inr fs \<Longrightarrow>
   \<exists>t. wfTemplate t \<and> s = renderTemplate t \<and> fs = es @ map snd (fst t)"
proof (induction "length s" arbitrary: s es rule: less_induct)
  case less
  have tail: ?case if "literalTail s"
    using extractLoop_literalTail [OF that, of es] less.prems that
    by (intro exI [of _ "([], s)"]) (simp add: wfTemplate_def renderTemplate_def)
  show ?case
  proof (cases "strIndex s exprStart")
    case None
    then show ?thesis by (intro tail) (simp add: literalTail_def)
  next
    case (Some i)
    show ?thesis
    proof (cases "scanExpr 1 (drop (i + length exprStart) s) []")
      case Nested
      then show ?thesis using Some less.prems by (simp add: extractLoop.simps [of s])
    next
      case (Closed e rest)
      then have e: "drop (i + length exprStart) s = e @ CHR ''}'' # rest" "plainExpr e"
        using scanExpr_Closed [of 0 "drop (i + length exprStart) s" "[]" e rest]
        by (auto simp: plainExpr_def)
      have "length rest < length s" using scanExpr_shorter [OF Closed] by simp
      moreover have "extractLoop rest (es @ [e]) = Inr fs"
        using less.prems Some Closed by (simp add: extractLoop.simps [of s])
      ultimately obtain t where t: "wfTemplate t" "rest = renderTemplate t"
          "fs = (es @ [e]) @ map snd (fst t)"
        using less.hyps by blast
      have "s = renderPiece (take i s, e) @ rest"
        using strIndex_Some_split [OF Some] e by (simp add: renderPiece_def wrapExpr_def exprEnd_def)
      then show ?thesis using t e strIndex_Some_split [OF Some]
        by (intro exI [of _ "((take i s, e) # fst t, snd t)"])
          (simp add: wfTemplate_def wfPiece_def renderTemplate_def)
    next
      case Incomplete
      then show ?thesis
        using Some scanExpr_Incomplete [of 0] by (intro tail) (simp add: literalTail_def)
    qed
  qed
qed

lemma extract_iff:
  "extractExpressions s = Inr es \<longleftrightarrow>
   (\<exists>t. wfTemplate t \<and> s = renderTemplate t \<and> es = map snd (fst t))"
  using extract_decompose [of s "[]" es]
  by (auto simp: extractExpressions_def renderTemplate_def wfTemplate_def extract_render
      extractLoop_literalTail)

lemma extract_wrap: "plainExpr e \<Longrightarrow> extractExpressions (wrapExpr e) = Inr [e]"
  using extractLoop_piece [of "[]" e "[]" "[]"]
  by (simp add: extractExpressions_def extractLoop.simps [of "[]"] strContains_def exprStart_def)

lemma wfTemplate_plain: "wfTemplate t \<Longrightarrow> e \<in> set (map snd (fst t)) \<Longrightarrow> plainExpr e"
  by (auto simp: wfTemplate_def wfPiece_def list_all_iff)

lemma standalone_iff: "isStandaloneExpression s = Inr True \<longleftrightarrow> (\<exists>e. plainExpr e \<and> s = wrapExpr e)"
proof
  assume "isStandaloneExpression s = Inr True"
  then obtain es where es: "extractExpressions s = Inr es" "length es = 1" "s = wrapExpr (es ! 0)"
    by (auto simp: isStandaloneExpression_def wrapExpr_def split: sum.splits)
  then have "es ! 0 \<in> set es" by simp
  then have "plainExpr (es ! 0)"
    using es(1) wfTemplate_plain by (auto simp: extract_iff)
  with es(3) show "\<exists>e. plainExpr e \<and> s = wrapExpr e" by blast
qed (auto simp: isStandaloneExpression_def extract_wrap, simp add: wrapExpr_def)

lemma trim_wrap: "trimSet (wrapExpr e) ''${}'' = trimSet e ''${}''"
  using trimSet_snoc [of "CHR ''}''" "''${}''" e]
  by (simp add: wrapExpr_def exprStart_def exprEnd_def trimSet_Cons)

lemma parseConditionStep_Inr:
  "parseConditionStep c acc = Inr r \<longleftrightarrow>
   (\<exists>e. plainExpr e \<and> c = wrapExpr e \<and> r = acc @ [trimSet e ''${}''])"
proof -
  have "parseConditionStep c acc = Inr r \<longleftrightarrow>
      isStandaloneExpression c = Inr True \<and> r = acc @ [trimSet c ''${}'']"
    by (auto simp: parseConditionStep_def split: sum.splits)
  then show ?thesis by (auto simp: standalone_iff trim_wrap)
qed

lemma parseConditions_iff:
  "foldRes parseConditionStep cs acc = Inr r \<longleftrightarrow>
   (\<exists>es. list_all plainExpr es \<and> cs = map wrapExpr es \<and> r = acc @ map (\<lambda>e. trimSet e ''${}'') es)"
proof (induction cs arbitrary: acc)
  case (Cons c cs)
  have "foldRes parseConditionStep (c # cs) acc = Inr r \<longleftrightarrow>
      (\<exists>acc'. parseConditionStep c acc = Inr acc' \<and> foldRes parseConditionStep cs acc' = Inr r)"
    by (auto split: sum.splits)
  also have "\<dots> \<longleftrightarrow> (\<exists>e es. plainExpr e \<and> c = wrapExpr e \<and> list_all plainExpr es \<and> cs = map wrapExpr es
      \<and> r = (acc @ [trimSet e ''${}'']) @ map (\<lambda>e. trimSet e ''${}'') es)"
    unfolding Cons.IH parseConditionStep_Inr by blast
  also have "\<dots> \<longleftrightarrow> (\<exists>es. list_all plainExpr es \<and> c # cs = map wrapExpr es
      \<and> r = acc @ map (\<lambda>e. trimSet e ''${}'') es)"
    (is "?L \<longleftrightarrow> ?R")
  proof
    assume ?L
    then obtain e es where "plainExpr e" "c = wrapExpr e" "list_all plainExpr es" "cs = map wrapExpr es"
        "r = (acc @ [trimSet e ''${}'']) @ map (\<lambda>e. trimSet e ''${}'') es" by blast
    then show ?R by (intro exI [of _ "e # es"]) simp
  next
    assume ?R
    then show ?L by (fastforce simp: Cons_eq_map_conv)
  qed
  finally show ?case .
qed auto

section \<open>Properties\<close>

text \<open>
  C19. \<open>extractExpressions\<close> reads a template: it returns \<open>es\<close> exactly when the string is literal
  text without \<open>${\<close> alternating with the expressions \<open>es\<close> between \<open>${\<close> and \<open>}\<close>, each with
  matching braces and no \<open>${\<close> inside, followed by text in which at most one more expression
  opens and never closes. On every other string it returns the nesting error.
\<close>

theorem extract_expressions_iff_template:
  "(extractExpressions s = Inr es \<longleftrightarrow>
     (\<exists>t. wfTemplate t \<and> s = renderTemplate t \<and> es = map snd (fst t)))
   \<and> (extractExpressions s = Inl err \<longleftrightarrow>
       err = ErrNestedExpression \<and> (\<nexists>t. wfTemplate t \<and> s = renderTemplate t))"
proof
  have "extractLoop s' es' = Inl err' \<Longrightarrow> err' = ErrNestedExpression" for s' es' err'
  proof (induction s' es' rule: extractLoop.induct)
    case (1 s expressions)
    then show ?case by (simp add: extractLoop.simps [of s] split: option.splits scan_result.splits)
  qed
  then show "extractExpressions s = Inl err \<longleftrightarrow>
       err = ErrNestedExpression \<and> (\<nexists>t. wfTemplate t \<and> s = renderTemplate t)"
    using extract_iff [of s] unfolding extractExpressions_def
    by (cases "extractLoop s []") (metis Inl_Inr_False sum.inject(1))+
qed (rule extract_iff)

text \<open>
  \<open>isStandaloneExpression\<close> answers true exactly for \<open>${e}\<close> with matching braces and no
  \<open>${\<close> in \<open>e\<close>: text that starts with \<open>${\<close> and ends with a brace, such as \<open>${a}-${b}\<close>, is not
  taken for one expression.
\<close>

lemma standalone_expression_iff:
  "isStandaloneExpression s = Inr True \<longleftrightarrow> (\<exists>e. plainExpr e \<and> s = exprStart @ e @ exprEnd)"
  by (simp add: standalone_iff wrapExpr_def)

text \<open>
  \<open>ParseConditionExpressions\<close> succeeds exactly when every condition is one standalone
  expression, and returns, in order, each expression without the dollar signs and braces at
  both of its ends: also those that belong to the expression itself are removed.
\<close>

lemma parse_conditions_iff:
  "ParseConditionExpressions cs = Inr r \<longleftrightarrow>
   (\<exists>es. list_all plainExpr es \<and> cs = map wrapExpr es \<and> r = map (\<lambda>e. trimSet e ''${}'') es)"
  by (simp add: ParseConditionExpressions_def parseConditions_iff)

text \<open>A map literal loses its braces: \<open>${{'a': 1}}\<close> becomes \<open>'a': 1\<close>, no expression of CEL.\<close>

lemma parse_conditions_strips_map_literal:
  "ParseConditionExpressions [''${{x: 1}}''] = Inr [''x: 1'']"
  by code_simp

end
