(* ===== verification/Variables.thy ===== *)
theory Variables
  imports Kro_Prelude
begin

text \<open>
  The descriptors of \<open>src/internal/graph/variable/variable.go\<close> that the parser, the graph
  builder and the runtime exchange, and the part of the OpenAPI schema (\<open>spec.Schema\<close>) that
  those components read.
\<close>

section \<open>OpenAPI schemas\<close>

text \<open>
  \<open>Properties\<close> is nil or a map, \<open>AdditionalProperties\<close> nil or a schema pointer with the flag
  \<open>Allows\<close>; \<open>Items\<close> is read only through \<open>Items.Schema\<close>, so it is the schema pointer. Bounds are
  the bit patterns of the numbers (\<open>float64\<close> for \<open>Minimum\<close> and \<open>Maximum\<close>, \<open>int64\<close> for the rest).
\<close>

datatype schema = Schema
  (schemaType: "string list")
  (schemaProperties: "(string \<times> schema) list option")
  (schemaAdditional: "(schema option \<times> bool) option")
  (schemaItems: "schema option")
  (schemaOneOf: "schema list")
  (schemaExtensions: "(string \<times> val) list")
  (schemaEnum: "val list")
  (schemaMinimum: "64 word option")
  (schemaMaximum: "64 word option")
  (schemaMinItems: "64 word option")
  (schemaMaxItems: "64 word option")

definition emptySchema :: schema where
  "emptySchema = Schema [] None None None [] [] [] None None None None"

primrec withType :: "string list \<Rightarrow> schema \<Rightarrow> schema" where
  "withType ts (Schema t p a i os e n mn mx mi ma) = Schema ts p a i os e n mn mx mi ma"

lemma withType_sel [simp]:
  "schemaType (withType ts s) = ts"
  "schemaProperties (withType ts s) = schemaProperties s"
  "schemaAdditional (withType ts s) = schemaAdditional s"
  "schemaItems (withType ts s) = schemaItems s"
  "schemaExtensions (withType ts s) = schemaExtensions s"
  by (cases s; simp)+

section \<open>Variables\<close>

record FieldDescriptor =
  Path :: string
  Expressions :: "string list"
  ExpectedType :: string
  ExpectedSchema :: "schema option"
  StandaloneExpression :: bool

datatype ResourceVariableKind =
    ResourceVariableKindStatic
  | ResourceVariableKindDynamic
  | ResourceVariableKindReadyWhen
  | ResourceVariableKindIncludeWhen

record ResourceField = FieldDescriptor +
  Kind :: ResourceVariableKind
  Dependencies :: "string list"

definition AddDependencies :: "ResourceField \<Rightarrow> string list \<Rightarrow> ResourceField" where
  "AddDependencies rv dep = rv\<lparr>Dependencies := foldl appendNew (Dependencies rv) dep\<rparr>"

primrec kindString :: "ResourceVariableKind \<Rightarrow> string" where
  "kindString ResourceVariableKindStatic = ''static''"
| "kindString ResourceVariableKindDynamic = ''dynamic''"
| "kindString ResourceVariableKindReadyWhen = ''readyWhen''"
| "kindString ResourceVariableKindIncludeWhen = ''includeWhen''"

definition IsStatic :: "ResourceVariableKind \<Rightarrow> bool" where
  "IsStatic k = (k = ResourceVariableKindStatic)"

definition IsDynamic :: "ResourceVariableKind \<Rightarrow> bool" where
  "IsDynamic k = (k = ResourceVariableKindDynamic)"

definition IsIncludeWhen :: "ResourceVariableKind \<Rightarrow> bool" where
  "IsIncludeWhen k = (k = ResourceVariableKindIncludeWhen)"

lemma set_foldl_appendNew [simp]: "set (foldl appendNew xs ys) = set xs \<union> set ys"
  by (induction ys arbitrary: xs) auto

lemma distinct_foldl_appendNew [simp]: "distinct (foldl appendNew xs ys) \<longleftrightarrow> distinct xs"
  by (induction ys arbitrary: xs) auto

lemma AddDependencies_set [simp]:
  "set (Dependencies (AddDependencies rv dep)) = set (Dependencies rv) \<union> set dep"
  by (simp add: AddDependencies_def)

lemma AddDependencies_distinct:
  "distinct (Dependencies rv) \<Longrightarrow> distinct (Dependencies (AddDependencies rv dep))"
  by (simp add: AddDependencies_def)

end
