(* ===== verification/Resolver.thy ===== *)
theory Resolver
  imports Fieldpath Expr_Parser Variables "HOL-Library.Sublist"
begin

text \<open>
  The field resolver, \<open>src/internal/runtime/resolver/resolver.go\<close>: reading and writing a value of
  a nested object along a field path, and replacing the expressions of a field.

  The code writes through references to maps and slices; here every operation returns the
  object it leaves behind, also when it returns an error, and a node that the code reaches
  through its parent is written back into the parent. The values of one object are trees: two
  fields that share one map or slice are not modelled. An object with a key twice does not
  occur. Allocating a slice succeeds.

  \<open>None\<close> as the result of an operation on a path stands for a call that does not return,
  because \<open>fieldpath.Parse\<close> does not, or that panics. The \<open>%v\<close> verb of \<open>fmt\<close> is modelled except for
  the digits of a \<open>float64\<close>, which are a parameter.
\<close>

section \<open>The \<open>%v\<close> verb\<close>

function fmtV :: "(64 word \<Rightarrow> string) \<Rightarrow> val \<Rightarrow> string" where
  "fmtV ff VNil = ''<nil>''"
| "fmtV ff (VBool b) = (if b then ''true'' else ''false'')"
| "fmtV ff (VInt w) = itoa (sint w)"
| "fmtV ff (VUint w) = itoa (uint w)"
| "fmtV ff (VFloat w) = ff w"
| "fmtV ff (VStr s) = s"
| "fmtV ff (VList vs) = ''['' @ joinWith '' '' (map (fmtV ff) vs) @ '']''"
| "fmtV ff (VMap m) =
     ''map['' @ joinWith '' '' (map (\<lambda>kv. fst kv @ '':'' @ fmtV ff (snd kv)) (sort_key fst m)) @ '']''"
  by pat_completeness auto
termination
proof (relation "measure (\<lambda>(ff, v). size v)", goal_cases)
  case (2 ff vs v)
  then show ?case by (induction vs) auto
next
  case (3 ff m kv)
  then have "kv \<in> set m" by simp
  then show ?case by (induction m) auto
qed simp

definition fmtStrings :: "string list \<Rightarrow> string" where
  "fmtStrings ss = ''['' @ joinWith '' '' ss @ '']''"

section \<open>State and results\<close>

datatype resolver_error =
    InvalidPath string fieldpath_error
  | ExpectedArray Segment
  | IndexOutOfBounds int
  | ExpectedMap Segment
  | KeyNotFound string
  | ExpectedArrayOrNil Segment val
  | GettingValue resolver_error
  | SettingValue resolver_error
  | NoDataProvided string
  | ExpectedStringValue string

record ResolutionResult =
  resPath :: string
  resResolved :: bool
  resOriginal :: string
  resReplaced :: val
  resError :: "resolver_error option"

record ResolutionSummary =
  TotalExpressions :: nat
  ResolvedExpressions :: nat
  Results :: "ResolutionResult list"
  Errors :: "resolver_error list"

record Resolver_state =
  resource :: "val gomap"
  data :: "val gomap"

definition NewResolver :: "val gomap \<Rightarrow> val gomap \<Rightarrow> Resolver_state" where
  "NewResolver res dat = \<lparr>resource = res, data = dat\<rparr>"

section \<open>Reading\<close>

definition getStep :: "Segment \<Rightarrow> val \<Rightarrow> resolver_error + val" where
  "getStep segment current =
     (if segIndex segment \<ge> 0 then
        (case current of
           VList array \<Rightarrow>
             (if segIndex segment \<ge> int (length array) then Inl (IndexOutOfBounds (segIndex segment))
              else Inr (array ! nat (segIndex segment)))
         | _ \<Rightarrow> Inl (ExpectedArray segment))
      else
        (case current of
           VMap currentMap \<Rightarrow>
             (case map_of currentMap (segName segment) of
                Some v \<Rightarrow> Inr v
              | None \<Rightarrow> Inl (KeyNotFound (segName segment)))
         | _ \<Rightarrow> Inl (ExpectedMap segment)))"

definition getSegments :: "Segment list \<Rightarrow> val \<Rightarrow> resolver_error + val" where
  "getSegments segments current = foldRes getStep segments current"

definition getValueFromPath :: "Resolver_state \<Rightarrow> string \<Rightarrow> (resolver_error + val) option" where
  "getValueFromPath r path0 =
     (let path = trimPrefix path0 ''.'' in
      case Parse path of
        None \<Rightarrow> None
      | Some (Inl err) \<Rightarrow> Some (Inl (InvalidPath path err))
      | Some (Inr segments) \<Rightarrow> Some (getSegments segments (VMap (resource r))))"

section \<open>Writing\<close>

text \<open>\<open>updateParent\<close>: put a value into the parent, at the key of a map or the index of a slice.\<close>

definition updateParent :: "val \<Rightarrow> string \<Rightarrow> int \<Rightarrow> val \<Rightarrow> val" where
  "updateParent parent key index v =
     (case parent of
        VMap p \<Rightarrow> VMap (AList.update key v p)
      | VList p \<Rightarrow> VList (p[nat index := v])
      | _ \<Rightarrow> parent)"

definition isArraySeg :: "Segment \<Rightarrow> bool" where
  "isArraySeg s = (segIndex s \<ge> 0)"

definition emptyContainer :: "bool \<Rightarrow> val" where
  "emptyContainer nextIsArray = (if nextIsArray then VList [] else VMap [])"

definition handleArraySegment :: "val \<Rightarrow> Segment \<Rightarrow> resolver_error + val list" where
  "handleArraySegment current segment =
     (case current of
        VNil \<Rightarrow> Inr (replicate (nat (segIndex segment + 1)) VNil)
      | VList array \<Rightarrow>
          (if segIndex segment \<ge> int (length array)
           then Inr (array @ replicate (nat (segIndex segment + 1) - length array) VNil)
           else Inr array)
      | _ \<Rightarrow> Inl (ExpectedArrayOrNil segment current))"

definition getOrCreateNext :: "val list \<Rightarrow> int \<Rightarrow> bool \<Rightarrow> val" where
  "getOrCreateNext array index nextIsArray =
     (if array ! nat index = VNil then emptyContainer nextIsArray else array ! nat index)"

definition mapOrCreateNext :: "val gomap \<Rightarrow> string \<Rightarrow> bool \<Rightarrow> val" where
  "mapOrCreateNext m name nextIsArray =
     (case map_of m name of
        None \<Rightarrow> emptyContainer nextIsArray
      | Some v \<Rightarrow> if v = VNil then emptyContainer nextIsArray else v)"

text \<open>
  The loop of \<open>setValueAtPath\<close> from a node on: the node as it is left, and the error. The last
  segment writes the value, an inner one goes on with the child, which is then back in place.
\<close>

fun setSegments :: "Segment list \<Rightarrow> val \<Rightarrow> val \<Rightarrow> val \<times> resolver_error option" where
  "setSegments [] v current = (current, None)"
| "setSegments (segment # rest) v current =
     (if isArraySeg segment then
        (case handleArraySegment current segment of
           Inl err \<Rightarrow> (current, Some err)
         | Inr array \<Rightarrow>
             (case rest of
                [] \<Rightarrow> (updateParent (VList array) [] (segIndex segment) v, None)
              | next # _ \<Rightarrow>
                  (let (child, err) =
                         setSegments rest v (getOrCreateNext array (segIndex segment) (isArraySeg next))
                   in (updateParent (VList array) [] (segIndex segment) child, err))))
      else
        (case current of
           VMap currentMap \<Rightarrow>
             (case rest of
                [] \<Rightarrow> (updateParent (VMap currentMap) (segName segment) 0 v, None)
              | next # _ \<Rightarrow>
                  (let (child, err) =
                         setSegments rest v (mapOrCreateNext currentMap (segName segment) (isArraySeg next))
                   in (updateParent (VMap currentMap) (segName segment) 0 child, err)))
         | _ \<Rightarrow> (current, Some (ExpectedMap segment))))"

text \<open>The object is always a map again: \<open>setSegments\<close> keeps the kind of the root.\<close>

definition asMap :: "val \<Rightarrow> val gomap" where
  "asMap v = (case v of VMap m \<Rightarrow> m | _ \<Rightarrow> [])"

definition setValueAtPath ::
  "Resolver_state \<Rightarrow> string \<Rightarrow> val \<Rightarrow> (Resolver_state \<times> resolver_error option) option" where
  "setValueAtPath r path v =
     (case Parse path of
        None \<Rightarrow> None
      | Some (Inl err) \<Rightarrow> Some (r, Some (InvalidPath path err))
      | Some (Inr segments) \<Rightarrow>
          (if segments = [] then Some (r, None)
           else let (root, err) = setSegments segments v (VMap (resource r))
                in Some (r\<lparr>resource := asMap root\<rparr>, err)))"

definition UpsertValueAtPath ::
  "Resolver_state \<Rightarrow> string \<Rightarrow> val \<Rightarrow> (Resolver_state \<times> resolver_error option) option" where
  "UpsertValueAtPath r path v = setValueAtPath r path v"

section \<open>Resolving\<close>

text \<open>The loop over the expressions of a template string.\<close>

definition replaceStep :: "(64 word \<Rightarrow> string) \<Rightarrow> val gomap \<Rightarrow> string \<Rightarrow> string \<Rightarrow> resolver_error + string" where
  "replaceStep ff dat expr replaced =
     (case map_of dat (trimSet expr ''${}'') of
        None \<Rightarrow> Inl (NoDataProvided expr)
      | Some replacement \<Rightarrow> Inr (replaceAll replaced (''${'' @ expr @ ''}'') (fmtV ff replacement)))"

definition finishField ::
  "Resolver_state \<Rightarrow> ResolutionResult \<Rightarrow> string \<Rightarrow> val \<Rightarrow> (Resolver_state \<times> ResolutionResult) option" where
  "finishField r result path v =
     (case setValueAtPath r path v of
        None \<Rightarrow> None
      | Some (r', Some err) \<Rightarrow> Some (r', result\<lparr>resError := Some (SettingValue err)\<rparr>)
      | Some (r', None) \<Rightarrow> Some (r', result\<lparr>resResolved := True, resReplaced := v\<rparr>))"

definition resolveField ::
  "(64 word \<Rightarrow> string) \<Rightarrow> Resolver_state \<Rightarrow> FieldDescriptor \<Rightarrow>
   (Resolver_state \<times> ResolutionResult) option" where
  "resolveField ff r field =
     (let result = \<lparr>resPath = Path field, resResolved = False,
                    resOriginal = fmtStrings (Expressions field), resReplaced = VNil, resError = None\<rparr> in
      case getValueFromPath r (Path field) of
        None \<Rightarrow> None
      | Some (Inl err) \<Rightarrow> Some (r, result\<lparr>resError := Some (GettingValue err)\<rparr>)
      | Some (Inr v) \<Rightarrow>
          (if StandaloneExpression field then
             (case Expressions field of
                [] \<Rightarrow> None
              | expr # _ \<Rightarrow>
                  (case map_of (data r) (trimSet expr ''${}'') of
                     None \<Rightarrow> Some (r, result\<lparr>resError := Some (NoDataProvided expr)\<rparr>)
                   | Some resolvedValue \<Rightarrow> finishField r result (Path field) resolvedValue))
           else
             (case v of
                VStr strValue \<Rightarrow>
                  (case foldRes (replaceStep ff (data r)) (Expressions field) strValue of
                     Inl err \<Rightarrow> Some (r, result\<lparr>resError := Some err\<rparr>)
                   | Inr replaced \<Rightarrow> finishField r result (Path field) (VStr replaced))
              | _ \<Rightarrow> Some (r, result\<lparr>resError := Some (ExpectedStringValue (Path field))\<rparr>))))"

fun resolveLoop ::
  "(64 word \<Rightarrow> string) \<Rightarrow> FieldDescriptor list \<Rightarrow> Resolver_state \<Rightarrow> ResolutionSummary \<Rightarrow>
   (Resolver_state \<times> ResolutionSummary) option" where
  "resolveLoop ff [] r summary = Some (r, summary)"
| "resolveLoop ff (field # fs) r summary =
     (case resolveField ff r field of
        None \<Rightarrow> None
      | Some (r', result) \<Rightarrow>
          resolveLoop ff fs r'
            (summary\<lparr>Results := Results summary @ [result],
                     ResolvedExpressions :=
                       ResolvedExpressions summary + (if resResolved result then 1 else 0),
                     Errors := Errors summary @ (case resError result of None \<Rightarrow> [] | Some e \<Rightarrow> [e])\<rparr>))"

definition Resolve ::
  "(64 word \<Rightarrow> string) \<Rightarrow> Resolver_state \<Rightarrow> FieldDescriptor list \<Rightarrow>
   (Resolver_state \<times> ResolutionSummary) option" where
  "Resolve ff r expressions =
     resolveLoop ff expressions r
       \<lparr>TotalExpressions = length expressions, ResolvedExpressions = 0, Results = [], Errors = []\<rparr>"

section \<open>Reading and writing along segments\<close>

text \<open>What a segment addresses: an index, or a key. A negative index counts as a name.\<close>

definition segKey :: "Segment \<Rightarrow> string + int" where
  "segKey s = (if isArraySeg s then Inr (segIndex s) else Inl (segName s))"

definition independent :: "Segment list \<Rightarrow> Segment list \<Rightarrow> bool" where
  "independent p q = (\<not> prefix (map segKey p) (map segKey q) \<and> \<not> prefix (map segKey q) (map segKey p))"

lemma independent_Cons:
  "independent (s # p) (t # q) \<longleftrightarrow> segKey s \<noteq> segKey t \<or> independent p q"
  by (auto simp: independent_def)

lemma independent_Nil [simp]: "\<not> independent [] q" "\<not> independent p []"
  by (auto simp: independent_def)

lemma independent_sym: "independent p q \<Longrightarrow> independent q p"
  by (auto simp: independent_def)

lemma getSegments_Nil [simp]: "getSegments [] c = Inr c"
  by (simp add: getSegments_def)

lemma getSegments_Cons:
  "getSegments (s # ss) c = (case getStep s c of Inl e \<Rightarrow> Inl e | Inr c' \<Rightarrow> getSegments ss c')"
  by (simp add: getSegments_def split: sum.splits)

lemma getSegments_VNil [simp]: "getSegments (s # ss) VNil \<noteq> Inr w"
  by (simp add: getSegments_Cons getStep_def)

lemma handleArraySegment_fits:
  "isArraySeg s \<Longrightarrow> handleArraySegment c s = Inr array \<Longrightarrow> nat (segIndex s) < length array"
  by (auto simp: handleArraySegment_def isArraySeg_def split: val.splits if_splits)

text \<open>The slot of a node that a segment addresses: reading it, and the node with it replaced.\<close>

lemma getStep_update_array:
  "isArraySeg s \<Longrightarrow> nat (segIndex s) < length array \<Longrightarrow>
   getStep s (updateParent (VList array) k (segIndex s) x) = Inr x"
  by (auto simp: getStep_def updateParent_def isArraySeg_def)

lemma getStep_update_map:
  "\<not> isArraySeg s \<Longrightarrow> getStep s (updateParent (VMap m) (segName s) i x) = Inr x"
  by (auto simp: getStep_def updateParent_def isArraySeg_def gomap_simps)

text \<open>One step of writing: the slot that is gone into, and how the node is rebuilt around it.\<close>

definition slotChild :: "Segment \<Rightarrow> bool \<Rightarrow> val \<Rightarrow> (resolver_error + val \<times> (val \<Rightarrow> val))" where
  "slotChild s nextIsArray c =
     (if isArraySeg s then
        (case handleArraySegment c s of
           Inl e \<Rightarrow> Inl e
         | Inr array \<Rightarrow> Inr (getOrCreateNext array (segIndex s) nextIsArray,
                            updateParent (VList array) [] (segIndex s)))
      else
        (case c of
           VMap m \<Rightarrow> Inr (mapOrCreateNext m (segName s) nextIsArray, updateParent (VMap m) (segName s) 0)
         | _ \<Rightarrow> Inl (ExpectedMap s)))"

lemma setSegments_last:
  "setSegments [s] v c =
     (case slotChild s False c of Inl e \<Rightarrow> (c, Some e) | Inr (_, put) \<Rightarrow> (put v, None))"
  by (simp add: slotChild_def split: sum.splits val.splits)

lemma setSegments_step:
  "setSegments (s # t # rest) v c =
     (case slotChild s (isArraySeg t) c of
        Inl e \<Rightarrow> (c, Some e)
      | Inr (child, put) \<Rightarrow> (case setSegments (t # rest) v child of (child', err) \<Rightarrow> (put child', err)))"
  by (simp add: slotChild_def Let_def split: sum.splits val.splits prod.splits)

lemma setSegments_Nil: "setSegments [] v c = (c, None)"
  by simp

declare setSegments.simps [simp del]

lemma slotChild_get:
  "slotChild s b c = Inr (child, put) \<Longrightarrow> getStep s (put x) = Inr x"
  by (auto simp: slotChild_def getStep_update_array getStep_update_map handleArraySegment_fits
      split: if_splits sum.splits val.splits)

lemma slotChild_get_other:
  assumes "slotChild s b c = Inr (child, put)" and "segKey s \<noteq> segKey t" and "getStep t c = Inr w"
  shows "getStep t (put x) = Inr w"
proof (cases "isArraySeg s")
  case True
  then obtain array where h: "handleArraySegment c s = Inr array" "put = updateParent (VList array) [] (segIndex s)"
    using assms(1) by (auto simp: slotChild_def split: sum.splits)
  obtain xs where c: "c = VList xs" "isArraySeg t" "nat (segIndex t) < length xs" "w = xs ! nat (segIndex t)"
    using h(1) assms(3)
    by (auto simp: handleArraySegment_def getStep_def isArraySeg_def split: val.splits if_splits option.splits)
  have "nat (segIndex s) \<noteq> nat (segIndex t)"
    using assms(2) True c(2) by (auto simp: segKey_def isArraySeg_def)
  moreover have "nat (segIndex t) < length array" "array ! nat (segIndex t) = xs ! nat (segIndex t)"
    using h(1) c(1,3) by (auto simp: handleArraySegment_def nth_append split: if_splits)
  ultimately show ?thesis
    using c h(2) by (auto simp: getStep_def updateParent_def isArraySeg_def)
next
  case False
  then obtain m where c: "c = VMap m" "put = updateParent (VMap m) (segName s) 0"
    using assms(1) by (auto simp: slotChild_def split: val.splits)
  then have t: "\<not> isArraySeg t" "map_of m (segName t) = Some w"
    using assms(3) by (auto simp: getStep_def isArraySeg_def split: if_splits option.splits)
  then have "segName s \<noteq> segName t" using assms(2) False by (auto simp: segKey_def)
  then show ?thesis using c t by (simp add: getStep_def updateParent_def isArraySeg_def gomap_simps)
qed

lemma emptyContainer_not_nil [simp]: "emptyContainer b \<noteq> VNil"
  by (simp add: emptyContainer_def)

text \<open>The slot that is gone into holds what was read there, unless that was nil or missing.\<close>

lemma slotChild_child:
  assumes "slotChild s b c = Inr (child, put)" and "getStep s c = Inr w"
  shows "child = (if w = VNil then emptyContainer b else w)"
proof (cases "isArraySeg s")
  case True
  then show ?thesis using assms
    by (auto simp: slotChild_def getStep_def handleArraySegment_def getOrCreateNext_def isArraySeg_def
        split: val.splits if_splits sum.splits)
next
  case False
  then show ?thesis using assms
    by (auto simp: slotChild_def getStep_def mapOrCreateNext_def isArraySeg_def
        split: val.splits option.splits if_splits)
qed

lemma slotChild_existing:
  "getStep s c = Inr w \<Longrightarrow> \<exists>child put. slotChild s b c = Inr (child, put)"
  by (auto simp: slotChild_def getStep_def handleArraySegment_def isArraySeg_def
      split: val.splits if_splits option.splits)

lemma slotChild_rebuild:
  assumes "slotChild s b c = Inr (child, put)" and "getStep s c = Inr w"
  shows "put w = c"
proof (cases "isArraySeg s")
  case True
  then show ?thesis using assms
    by (auto simp: slotChild_def getStep_def handleArraySegment_def updateParent_def isArraySeg_def
        split: val.splits if_splits sum.splits)
next
  case False
  have same: "map_of m k = Some u \<Longrightarrow> AList.update k u m = m" for m k and u :: val
    by (induction m) auto
  from False show ?thesis using assms
    by (auto simp: slotChild_def getStep_def updateParent_def isArraySeg_def same
        split: val.splits option.splits if_splits)
qed

lemma segKey_getStep: "segKey s = segKey t \<Longrightarrow> getStep s c = Inr x \<longleftrightarrow> getStep t c = Inr x"
  by (auto simp: segKey_def getStep_def isArraySeg_def split: if_splits val.splits option.splits)

lemma getSegments_set:
  "ss \<noteq> [] \<Longrightarrow> setSegments ss v c = (c', None) \<Longrightarrow> getSegments ss c' = Inr v"
proof (induction ss arbitrary: c c' rule: induct_list012)
  case (2 s)
  then show ?case
    by (auto simp: setSegments_last getSegments_Cons slotChild_get split: sum.splits)
next
  case (3 s t ss)
  then obtain child put child' where
      "slotChild s (isArraySeg t) c = Inr (child, put)" "setSegments (t # ss) v child = (child', None)"
      "c' = put child'"
    by (auto simp: setSegments_step split: sum.splits prod.splits)
  with 3 show ?case by (simp add: getSegments_Cons [of s] slotChild_get)
qed simp

lemma getSegments_set_other:
  "setSegments p v c = (c', None) \<Longrightarrow> independent p q \<Longrightarrow> getSegments q c = Inr w \<Longrightarrow>
   getSegments q c' = Inr w"
proof (induction p arbitrary: q c c' rule: induct_list012)
  case (2 s)
  then obtain child put where put: "slotChild s False c = Inr (child, put)" "c' = put v"
    by (auto simp: setSegments_last split: sum.splits)
  obtain t q' where q: "q = t # q'" using 2 by (cases q) auto
  then have "segKey s \<noteq> segKey t" using 2 by (simp add: independent_Cons)
  then show ?case
    using slotChild_get_other [OF put(1)] "2.prems"(3) put(2) by (auto simp: q getSegments_Cons split: sum.splits)
next
  case (3 s u p)
  then obtain child put child' where
      put: "slotChild s (isArraySeg u) c = Inr (child, put)" "setSegments (u # p) v child = (child', None)"
        "c' = put child'"
    by (auto simp: setSegments_step split: sum.splits prod.splits)
  obtain t q' where q: "q = t # q'" using 3 by (cases q) auto
  obtain x where x: "getStep t c = Inr x" "getSegments q' x = Inr w"
    using "3.prems"(3) by (auto simp: q getSegments_Cons split: sum.splits)
  show ?case
  proof (cases "segKey s = segKey t")
    case False
    then show ?thesis
      using slotChild_get_other [OF put(1)] x put(3) by (auto simp: q getSegments_Cons)
  next
    case True
    then have "getStep s c = Inr x" using x(1) segKey_getStep by metis
    moreover have indep: "independent (u # p) q'" using "3.prems"(2) True by (simp add: q independent_Cons)
    then have "x \<noteq> VNil" using x(2) by (cases q') auto
    ultimately have "child = x" using slotChild_child [OF put(1)] by simp
    then have "getSegments q' child' = Inr w" using "3.IH"(2) put(2) indep x(2) by blast
    moreover have "getStep t c' = Inr child'"
      using slotChild_get [OF put(1)] True put(3) segKey_getStep by metis
    ultimately show ?thesis by (simp add: q getSegments_Cons)
  qed
qed simp

text \<open>A place that can be read can be written, and a failed write leaves the object as it was.\<close>

lemma setSegments_existing:
  "getSegments p c = Inr w \<Longrightarrow> snd (setSegments p v c) = None"
proof (induction p arbitrary: c rule: induct_list012)
  case (2 s)
  then show ?case
    using slotChild_existing [of s c _ False]
    by (fastforce simp: setSegments_last getSegments_Cons split: sum.splits prod.splits)
next
  case (3 s t p)
  then obtain x where x: "getStep s c = Inr x" "getSegments (t # p) x = Inr w"
    by (auto simp: getSegments_Cons split: sum.splits)
  obtain child put where put: "slotChild s (isArraySeg t) c = Inr (child, put)"
    using slotChild_existing [OF x(1)] by blast
  have "x \<noteq> VNil" using x(2) by auto
  then have "child = x" using slotChild_child [OF put x(1)] by simp
  then show ?case using "3.IH"(2) [OF x(2)] put by (simp add: setSegments_step case_prod_beta)
qed (simp add: setSegments_Nil)

lemma setSegments_fresh: "snd (setSegments (t # p) v (emptyContainer (isArraySeg t))) = None"
proof (induction p arbitrary: t)
  case Nil
  show ?case
    by (simp add: setSegments_last slotChild_def emptyContainer_def handleArraySegment_def isArraySeg_def)
next
  case (Cons u p)
  have "\<exists>put. slotChild t (isArraySeg u) (emptyContainer (isArraySeg t)) = Inr (emptyContainer (isArraySeg u), put)"
    by (auto simp: slotChild_def emptyContainer_def handleArraySegment_def getOrCreateNext_def
        mapOrCreateNext_def isArraySeg_def nth_append)
  then show ?case using Cons.IH [of u] by (auto simp: setSegments_step split: prod.splits)
qed

lemma slotChild_missing:
  assumes "slotChild s b c = Inr (child, put)" and "getStep s c = Inl e"
  shows "child = emptyContainer b"
proof (cases "isArraySeg s")
  case True
  then show ?thesis using assms
    by (auto simp: slotChild_def getStep_def handleArraySegment_def getOrCreateNext_def isArraySeg_def nth_append
        split: val.splits if_splits sum.splits)
next
  case False
  then show ?thesis using assms
    by (auto simp: slotChild_def getStep_def mapOrCreateNext_def isArraySeg_def
        split: val.splits option.splits if_splits)
qed

lemma setSegments_error_unchanged:
  "snd (setSegments p v c) = Some e \<Longrightarrow> fst (setSegments p v c) = c"
proof (induction p arbitrary: c rule: induct_list012)
  case (2 s)
  then show ?case by (auto simp: setSegments_last split: sum.splits)
next
  case (3 s t p)
  show ?case
  proof (cases "slotChild s (isArraySeg t) c")
    case (Inr cp)
    then obtain child put where put: "slotChild s (isArraySeg t) c = Inr (child, put)" by (cases cp) auto
    then have err: "snd (setSegments (t # p) v child) = Some e"
      using "3.prems" by (auto simp: setSegments_step split: prod.splits)
    then have "child \<noteq> emptyContainer (isArraySeg t)" using setSegments_fresh [of t p v] by auto
    then obtain x where "getStep s c = Inr x" "child = x"
      using slotChild_missing [OF put] slotChild_child [OF put] by (metis sumE)
    then have "put child = c" using slotChild_rebuild [OF put] by simp
    then show ?thesis using "3.IH"(2) [OF err] put by (simp add: setSegments_step case_prod_beta)
  qed (simp add: setSegments_step)
qed (simp add: setSegments_Nil)

lemma setSegments_map: "setSegments p v (VMap m) = (c', err) \<Longrightarrow> \<exists>m'. c' = VMap m'"
  by (cases p rule: remdups_adj.cases)
    (auto simp: setSegments_Nil setSegments_last setSegments_step slotChild_def updateParent_def
      handleArraySegment_def split: if_splits prod.splits)

section \<open>Reading and writing along paths\<close>

text \<open>
  The interface a client of the resolver uses: places that can be read and written, and a
  relation of places that lie apart. The client lemma rewrites a list of places that lie
  apart, each with a function of what it held.
\<close>

locale path_store =
  fixes readAt :: "'p \<Rightarrow> 's \<Rightarrow> 'v option"
    and writeAt :: "'p \<Rightarrow> 'v \<Rightarrow> 's \<Rightarrow> 's option"
    and apart :: "'p \<Rightarrow> 'p \<Rightarrow> bool"
  assumes read_write: "writeAt p v s = Some s' \<Longrightarrow> readAt p s' = Some v"
    and read_write_apart:
      "writeAt p v s = Some s' \<Longrightarrow> apart p q \<Longrightarrow> readAt q s = Some w \<Longrightarrow> readAt q s' = Some w"
    and write_readable: "readAt p s = Some w \<Longrightarrow> \<exists>s'. writeAt p v s = Some s'"
begin

primrec modifyAll :: "('p \<times> ('v \<Rightarrow> 'v option)) list \<Rightarrow> 's \<Rightarrow> 's option" where
  "modifyAll [] s = Some s"
| "modifyAll (j # js) s =
     (case readAt (fst j) s of None \<Rightarrow> None
      | Some v \<Rightarrow> (case snd j v of None \<Rightarrow> None
         | Some w \<Rightarrow> (case writeAt (fst j) w s of None \<Rightarrow> None | Some s' \<Rightarrow> modifyAll js s')))"

lemma modifyAll_apart:
  "modifyAll js s = Some s' \<Longrightarrow> \<forall>j \<in> set js. apart (fst j) q \<Longrightarrow> readAt q s = Some w \<Longrightarrow>
   readAt q s' = Some w"
  by (induction js arbitrary: s) (auto split: option.splits dest: read_write_apart)

lemma modifyAll_spec:
  assumes "sorted_wrt (\<lambda>i j. apart (fst i) (fst j) \<and> apart (fst j) (fst i)) js"
    and "\<forall>j \<in> set js. \<exists>v w. readAt (fst j) s = Some v \<and> snd j v = Some w"
  shows "\<exists>s'. modifyAll js s = Some s' \<and>
     (\<forall>j \<in> set js. readAt (fst j) s' = Option.bind (readAt (fst j) s) (snd j))"
  using assms
proof (induction js arbitrary: s)
  case (Cons j js)
  then obtain v w where vw: "readAt (fst j) s = Some v" "snd j v = Some w" by auto
  then obtain t where t: "writeAt (fst j) w s = Some t" using write_readable by blast
  have keep: "readAt (fst i) t = readAt (fst i) s" if "i \<in> set js" for i
    using that Cons.prems read_write_apart [OF t, of "fst i"] by fastforce
  have rest: "sorted_wrt (\<lambda>i j. apart (fst i) (fst j) \<and> apart (fst j) (fst i)) js"
      "\<forall>i \<in> set js. \<exists>v w. readAt (fst i) t = Some v \<and> snd i v = Some w"
    using Cons.prems keep by auto
  obtain s' where s': "modifyAll js t = Some s'"
      "\<forall>i \<in> set js. readAt (fst i) s' = Option.bind (readAt (fst i) t) (snd i)"
    using Cons.IH [of t, OF rest] by blast
  have "readAt (fst j) s' = Some w"
    using modifyAll_apart [OF s'(1), of "fst j" w] read_write [OF t] Cons.prems(1) by auto
  then show ?case using vw t s' keep by auto
qed simp

end

definition readPath :: "string \<Rightarrow> Resolver_state \<Rightarrow> val option" where
  "readPath path r =
     (case Parse path of
        Some (Inr (s # ss)) \<Rightarrow>
          (case getValueFromPath r path of Some (Inr v) \<Rightarrow> Some v | _ \<Rightarrow> None)
      | _ \<Rightarrow> None)"

definition writePath :: "string \<Rightarrow> val \<Rightarrow> Resolver_state \<Rightarrow> Resolver_state option" where
  "writePath path v r =
     (case Parse path of
        Some (Inr (s # ss)) \<Rightarrow>
          (case setValueAtPath r path v of Some (r', None) \<Rightarrow> Some r' | _ \<Rightarrow> None)
      | _ \<Rightarrow> None)"

definition apartPaths :: "string \<Rightarrow> string \<Rightarrow> bool" where
  "apartPaths p q =
     (case (Parse p, Parse q) of
        (Some (Inr ss), Some (Inr ts)) \<Rightarrow> independent ss ts
      | _ \<Rightarrow> False)"

lemma Parse_leading_dot: "Parse (CHR ''.'' # cs) = Some (Inr segs) \<Longrightarrow> segs = []"
proof (cases cs)
  case Nil
  assume "Parse (CHR ''.'' # cs) = Some (Inr segs)"
  then show ?thesis using Nil
    by (simp add: Parse_def parseLoop_step parseStep_def fieldPart_def indexPart_def startsIndex_def skipDot_def)
next
  case (Cons c cs')
  assume "Parse (CHR ''.'' # cs) = Some (Inr segs)"
  then show ?thesis using Cons
    by (simp add: Parse_def parseLoop_step parseStep_def fieldPart_def parseUnquotedField_def unquotedChar_def)
qed

lemma trimPrefix_parsed: "Parse path = Some (Inr (s # ss)) \<Longrightarrow> trimPrefix path ''.'' = path"
  using Parse_leading_dot [of "tl path" "s # ss"] by (cases path) (auto simp: trimPrefix_def)

lemma readPath_iff:
  "readPath path r = Some v \<longleftrightarrow>
   (\<exists>s ss. Parse path = Some (Inr (s # ss)) \<and> getSegments (s # ss) (VMap (resource r)) = Inr v)"
  by (auto simp: readPath_def getValueFromPath_def trimPrefix_parsed split: option.splits sum.splits list.splits)

lemma writePath_iff:
  "writePath path v r = Some r' \<longleftrightarrow>
   (\<exists>s ss m. Parse path = Some (Inr (s # ss)) \<and>
      setSegments (s # ss) v (VMap (resource r)) = (VMap m, None) \<and> r' = r\<lparr>resource := m\<rparr>)"
proof -
  have "\<exists>m. c' = VMap m \<and> asMap c' = m" if "setSegments p v (VMap (resource r)) = (c', e)" for p c' e
    using setSegments_map [OF that] by (auto simp: asMap_def)
  then show ?thesis
    by (fastforce simp: writePath_def setValueAtPath_def asMap_def
        split: option.splits sum.splits list.splits prod.splits)
qed

interpretation fields: path_store readPath writePath apartPaths
proof
  fix p q v w s s'
  assume wr: "writePath p v s = Some s'"
  then show "readPath p s' = Some v" by (auto simp: readPath_iff writePath_iff getSegments_set)
  assume "apartPaths p q" and "readPath q s = Some w"
  then show "readPath q s' = Some w"
    using wr by (auto simp: readPath_iff writePath_iff apartPaths_def getSegments_set_other)
next
  fix p s v and w :: val
  assume "readPath p s = Some w"
  then obtain t ts where t: "Parse p = Some (Inr (t # ts))" "getSegments (t # ts) (VMap (resource s)) = Inr w"
    by (auto simp: readPath_iff)
  obtain m where "setSegments (t # ts) v (VMap (resource s)) = (VMap m, None)"
    using setSegments_existing [OF t(2), of v] setSegments_map by (metis prod.collapse)
  then show "\<exists>s'. writePath p v s = Some s'" using t(1) by (auto simp: writePath_iff)
qed

section \<open>Resolving fields\<close>

text \<open>The value a field is given: the datum of its expression, or the text with all replaced.\<close>

definition fieldValue :: "(64 word \<Rightarrow> string) \<Rightarrow> val gomap \<Rightarrow> FieldDescriptor \<Rightarrow> val \<Rightarrow> val option" where
  "fieldValue ff dat field v =
     (if StandaloneExpression field then
        (case Expressions field of [] \<Rightarrow> None | e # _ \<Rightarrow> map_of dat (trimSet e ''${}''))
      else
        (case v of
           VStr s \<Rightarrow> (case foldRes (replaceStep ff dat) (Expressions field) s of
                        Inl _ \<Rightarrow> None | Inr t \<Rightarrow> Some (VStr t))
         | _ \<Rightarrow> None))"

lemma finishField_write:
  "writePath path w r = Some r' \<Longrightarrow>
   finishField r res path w = Some (r', res\<lparr>resResolved := True, resReplaced := w\<rparr>)"
  by (auto simp: writePath_def finishField_def split: option.splits sum.splits list.splits)

lemma resolveField_ok:
  assumes "readPath (Path f) r = Some v" and "fieldValue ff (data r) f v = Some w"
    and "writePath (Path f) w r = Some r'"
  shows "\<exists>res. resolveField ff r f = Some (r', res) \<and> resResolved res \<and> resError res = None"
proof -
  have "getValueFromPath r (Path f) = Some (Inr v)"
    using assms(1) by (auto simp: readPath_def split: option.splits sum.splits list.splits)
  then show ?thesis
    using assms(2) finishField_write [OF assms(3)]
    by (auto simp: resolveField_def fieldValue_def Let_def split: if_splits list.splits val.splits sum.splits)
qed

lemma writePath_data: "writePath p v r = Some r' \<Longrightarrow> data r' = data r"
  by (auto simp: writePath_iff)

lemma resolveLoop_ok:
  "fields.modifyAll (map (\<lambda>f. (Path f, fieldValue ff (data r) f)) fs) r = Some r' \<Longrightarrow>
   \<exists>sm'. resolveLoop ff fs r sm = Some (r', sm') \<and> TotalExpressions sm' = TotalExpressions sm \<and>
     Errors sm' = Errors sm \<and> ResolvedExpressions sm' = ResolvedExpressions sm + length fs"
proof (induction fs arbitrary: r sm)
  case (Cons f fs)
  then obtain v w t where step: "readPath (Path f) r = Some v" "fieldValue ff (data r) f v = Some w"
      "writePath (Path f) w r = Some t"
      "fields.modifyAll (map (\<lambda>f. (Path f, fieldValue ff (data r) f)) fs) t = Some r'"
    by (auto split: option.splits)
  then obtain res where "resolveField ff r f = Some (t, res)" "resResolved res" "resError res = None"
    using resolveField_ok by blast
  then show ?case using Cons.IH [of t] step(4) writePath_data [OF step(3)] by fastforce
qed simp

lemma Resolve_all:
  assumes "sorted_wrt (\<lambda>f g. apartPaths (Path f) (Path g)) fs"
    and "\<forall>f \<in> set fs. readPath (Path f) r = Some (old f) \<and> fieldValue ff (data r) f (old f) = Some (new f)"
  shows "\<exists>r' sm. Resolve ff r fs = Some (r', sm) \<and> Errors sm = [] \<and>
    ResolvedExpressions sm = TotalExpressions sm \<and> TotalExpressions sm = length fs \<and>
    (\<forall>f \<in> set fs. getValueFromPath r' (Path f) = Some (Inr (new f)))"
proof -
  let ?js = "map (\<lambda>f. (Path f, fieldValue ff (data r) f)) fs"
  have sym: "apartPaths p q \<Longrightarrow> apartPaths q p" for p q
    by (auto simp: apartPaths_def independent_sym split: option.splits sum.splits)
  have "sorted_wrt (\<lambda>i j. apartPaths (fst i) (fst j) \<and> apartPaths (fst j) (fst i)) ?js"
    using assms(1) sym by (auto simp: sorted_wrt_map elim: sorted_wrt_mono_rel [rotated])
  moreover have "\<forall>j \<in> set ?js. \<exists>v w. readPath (fst j) r = Some v \<and> snd j v = Some w"
    using assms(2) by fastforce
  ultimately obtain r' where r': "fields.modifyAll ?js r = Some r'"
      "\<forall>j \<in> set ?js. readPath (fst j) r' = Option.bind (readPath (fst j) r) (snd j)"
    using fields.modifyAll_spec by blast
  have "getValueFromPath r' (Path f) = Some (Inr (new f))" if "f \<in> set fs" for f
  proof -
    have "readPath (Path f) r' = Some (new f)" using r'(2) assms(2) that by simp
    then show ?thesis by (auto simp: readPath_def split: option.splits sum.splits list.splits)
  qed
  then show ?thesis using resolveLoop_ok [OF r'(1)] unfolding Resolve_def by fastforce
qed

subsection \<open>Templates\<close>

definition noDollar :: "string \<Rightarrow> bool" where
  "noDollar s = (CHR ''$'' \<notin> set s)"

lemma replaceAll_skip:
  "noDollar w \<Longrightarrow> replaceAll (w @ s) (CHR ''$'' # old) x = w @ replaceAll s (CHR ''$'' # old) x"
proof (induction w)
  case (Cons c w)
  then show ?case
    by (subst replaceAll.simps) (auto simp: noDollar_def)
qed simp

lemma replaceAll_Nil: "replaceAll [] old x = []"
  by (subst replaceAll.simps) simp

lemma plainExpr_unique:
  assumes "plainExpr e" and "plainExpr e'" and "e @ CHR ''}'' # t = e' @ CHR ''}'' # t'"
  shows "e = e'"
proof -
  have "scanExpr 1 (e @ CHR ''}'' # t) [] = Closed e t" "scanExpr 1 (e' @ CHR ''}'' # t') [] = Closed e' t'"
    using scanExpr_plain [of 0 e t "[]"] scanExpr_plain [of 0 e' t' "[]"] assms(1,2)
    by (simp_all add: plainExpr_def)
  then show ?thesis unfolding assms(3) by simp
qed

lemma wrapExpr_dollar: "wrapExpr e = CHR ''$'' # CHR ''{'' # e @ ''}''"
  by (simp add: wrapExpr_def exprStart_def exprEnd_def)

lemma wrapExpr_inj: "wrapExpr e = wrapExpr e' \<longleftrightarrow> e = e'"
  by (simp add: wrapExpr_def)

lemma replaceAll_wrap:
  assumes "plainExpr e" and "plainExpr e'" and "noDollar e'"
  shows "replaceAll (wrapExpr e' @ s) (wrapExpr e) x =
     (if e' = e then x else wrapExpr e') @ replaceAll s (wrapExpr e) x"
proof (cases "e' = e")
  case True
  then show ?thesis
    by (subst replaceAll.simps) (simp add: wrapExpr_dollar hasPrefix_iff)
next
  case False
  have "\<not> hasPrefix (wrapExpr e' @ s) (wrapExpr e)"
    using plainExpr_unique [OF assms(2,1), of s] False by (auto simp: hasPrefix_iff wrapExpr_dollar)
  moreover have "noDollar (CHR ''{'' # e' @ ''}'')" using assms(3) by (simp add: noDollar_def)
  ultimately show ?thesis
    using False replaceAll_skip [of "CHR ''{'' # e' @ ''}''" s "CHR ''{'' # e @ ''}''" x]
    by (subst replaceAll.simps) (simp add: wrapExpr_dollar)
qed

text \<open>A template whose expressions are shown by \<open>g\<close>.\<close>

definition renderWith :: "(string \<Rightarrow> string) \<Rightarrow> template \<Rightarrow> string" where
  "renderWith g t = concat (map (\<lambda>p. fst p @ g (snd p)) (fst t)) @ snd t"

definition dollarFree :: "template \<Rightarrow> bool" where
  "dollarFree t =
     (list_all (\<lambda>p. noDollar (fst p) \<and> plainExpr (snd p) \<and> noDollar (snd p)) (fst t) \<and> noDollar (snd t))"

lemma replaceAll_render:
  assumes "plainExpr e" and "dollarFree (ps, tail)"
    and "\<And>e'. g e' = wrapExpr e' \<or> noDollar (g e')"
  shows "replaceAll (renderWith g (ps, tail)) (wrapExpr e) x =
     renderWith (\<lambda>e'. if g e' = wrapExpr e then x else g e') (ps, tail)"
  using assms(2)
proof (induction ps)
  case Nil
  then show ?case
    using replaceAll_skip [of tail "[]" "CHR ''{'' # e @ ''}''" x]
    by (simp add: renderWith_def dollarFree_def wrapExpr_dollar replaceAll_Nil)
next
  case (Cons p ps)
  let ?s = "renderWith g (ps, tail)"
  have p: "noDollar (fst p)" "plainExpr (snd p)" "noDollar (snd p)" and ps: "dollarFree (ps, tail)"
    using Cons.prems by (auto simp: dollarFree_def)
  have lit: "replaceAll (fst p @ r) (wrapExpr e) x = fst p @ replaceAll r (wrapExpr e) x" for r
    using replaceAll_skip [OF p(1)] by (simp add: wrapExpr_dollar)
  have "replaceAll (g (snd p) @ ?s) (wrapExpr e) x =
      (if g (snd p) = wrapExpr e then x else g (snd p)) @ replaceAll ?s (wrapExpr e) x"
  proof (cases "g (snd p) = wrapExpr (snd p)")
    case True
    then show ?thesis using replaceAll_wrap [OF assms(1) p(2,3)] by (auto simp: wrapExpr_inj)
  next
    case False
    then have "noDollar (g (snd p))" using assms(3) by blast
    moreover from this have "g (snd p) \<noteq> wrapExpr e" by (auto simp: noDollar_def wrapExpr_dollar)
    ultimately show ?thesis using replaceAll_skip by (simp add: wrapExpr_dollar)
  qed
  then show ?case using lit Cons.IH [OF ps] by (simp add: renderWith_def)
qed

lemma replaceSteps_render:
  assumes t: "dollarFree t" and es: "list_all plainExpr es"
    and dat: "\<And>e. e \<in> set es \<Longrightarrow> \<exists>v. map_of dat (trimSet e ''${}'') = Some v \<and> noDollar (fmtV ff v)"
    and g: "\<And>e'. g e' = wrapExpr e' \<or> noDollar (g e')"
  shows "foldRes (replaceStep ff dat) es (renderWith g t) =
     Inr (renderWith (\<lambda>e. if e \<in> set es \<and> g e = wrapExpr e
        then fmtV ff (the (map_of dat (trimSet e ''${}''))) else g e) t)"
  using es dat g
proof (induction es arbitrary: g)
  case (Cons e es)
  let ?v = "\<lambda>e. fmtV ff (the (map_of dat (trimSet e ''${}'')))"
  let ?g = "\<lambda>e'. if g e' = wrapExpr e then ?v e else g e'"
  have v: "noDollar (?v e)" "map_of dat (trimSet e ''${}'') \<noteq> None" using Cons.prems(2) [of e] by auto
  have eq: "g e' = wrapExpr e \<longleftrightarrow> e' = e \<and> g e = wrapExpr e" for e'
    using Cons.prems(3) [of e'] by (auto simp: wrapExpr_inj noDollar_def wrapExpr_dollar)
  have "replaceStep ff dat e (renderWith g t) = Inr (renderWith ?g t)"
    using replaceAll_render [of e "fst t" "snd t" g "?v e"] Cons.prems t v
    by (auto simp: replaceStep_def wrapExpr_dollar)
  moreover have "foldRes (replaceStep ff dat) es (renderWith ?g t) =
      Inr (renderWith (\<lambda>e'. if e' \<in> set es \<and> ?g e' = wrapExpr e' then ?v e' else ?g e') t)"
    using Cons.prems v by (intro Cons.IH) auto
  moreover have "(\<lambda>e'. if e' \<in> set es \<and> ?g e' = wrapExpr e' then ?v e' else ?g e') =
      (\<lambda>e'. if e' \<in> set (e # es) \<and> g e' = wrapExpr e' then ?v e' else g e')"
  proof
    fix e'
    have "?v e \<noteq> wrapExpr e" using v(1) by (auto simp: noDollar_def wrapExpr_dollar)
    then show "(if e' \<in> set es \<and> ?g e' = wrapExpr e' then ?v e' else ?g e') =
        (if e' \<in> set (e # es) \<and> g e' = wrapExpr e' then ?v e' else g e')"
      using eq [of e'] by (cases "e' = e") auto
  qed
  ultimately show ?case by simp
qed (simp add: renderWith_def)

section \<open>Properties\<close>

definition sampleResolver :: Resolver_state where
  "sampleResolver =
     NewResolver [(''spec'', VMap [(''size'', VInt 3), (''name'', VStr ''${schema.spec.name}-db'')])]
       [(''schema.spec.name'', VStr ''web'')]"

definition sampleWritten :: Resolver_state where
  "sampleWritten =
     sampleResolver\<lparr>resource := [(''spec'', VMap [(''size'', VInt 3), (''name'', VStr ''${schema.spec.name}-db''),
        (''ports'', VList [VNil, VMap [(''port'', VInt 80)]])])]\<rparr>"

definition sampleField :: FieldDescriptor where
  "sampleField = \<lparr>Path = ''spec.name'', Expressions = [''schema.spec.name''], ExpectedType = ''string'',
     ExpectedSchema = None, StandaloneExpression = False\<rparr>"

text \<open>
  C20. A write along a path that returns no error is read back along the same path, and what
  was read along any path that lies apart (neither one's segments are a prefix of the other's)
  is still read there: creating and growing maps and slices on the way moves nothing else.
\<close>

theorem resolver_get_after_set:
  assumes "setValueAtPath r path v = Some (r', None)"
    and "Parse path = Some (Inr segs)" and "segs \<noteq> []"
  shows "getValueFromPath r' path = Some (Inr v) \<and>
    (\<forall>q segs' w. Parse q = Some (Inr segs') \<longrightarrow> independent segs segs' \<longrightarrow>
       getValueFromPath r q = Some (Inr w) \<longrightarrow> getValueFromPath r' q = Some (Inr w))"
proof -
  obtain s ss where segs: "segs = s # ss" using assms(3) by (cases segs) auto
  have wr: "writePath path v r = Some r'" using assms(1,2) by (simp add: writePath_def segs)
  have "readPath path r' = Some v" using wr by (rule fields.read_write)
  then have "getValueFromPath r' path = Some (Inr v)"
    by (auto simp: readPath_def split: option.splits sum.splits list.splits)
  moreover have "getValueFromPath r' q = Some (Inr w)"
    if other: "Parse q = Some (Inr segs')" "independent segs segs'" "getValueFromPath r q = Some (Inr w)" for q segs' w
  proof -
    obtain t ts where "segs' = t # ts" using other(2) by (cases segs') auto
    then have "readPath q r = Some w" "apartPaths path q"
      using other assms(2) by (simp_all add: readPath_def apartPaths_def)
    then have "readPath q r' = Some w" using wr fields.read_write_apart by blast
    then show ?thesis by (auto simp: readPath_def split: option.splits sum.splits list.splits)
  qed
  ultimately show ?thesis by blast
qed

theorem resolver_get_after_set_witness:
  "getValueFromPath sampleWritten ''spec.ports[1].port'' = Some (Inr (VInt 80)) \<and>
   getValueFromPath sampleWritten ''spec.size'' = Some (Inr (VInt 3))"
proof -
  have set: "setValueAtPath sampleResolver ''spec.ports[1].port'' (VInt 80) = Some (sampleWritten, None)"
    by code_simp
  have parse: "Parse ''spec.ports[1].port'' =
      Some (Inr [NewNamedSegment ''spec'', NewNamedSegment ''ports'', NewIndexedSegment 1, NewNamedSegment ''port''])"
    by code_simp
  have other: "Parse ''spec.size'' = Some (Inr [NewNamedSegment ''spec'', NewNamedSegment ''size''])"
    "independent [NewNamedSegment ''spec'', NewNamedSegment ''ports'', NewIndexedSegment 1, NewNamedSegment ''port'']
       [NewNamedSegment ''spec'', NewNamedSegment ''size'']"
    "getValueFromPath sampleResolver ''spec.size'' = Some (Inr (VInt 3))"
    by code_simp+
  show ?thesis using resolver_get_after_set [OF set parse] other by blast
qed

text \<open>
  C21. A field is either resolved or reports an error, and a field that reports an error
  leaves the object as it was: also a failed write has created and grown nothing.
\<close>

theorem resolver_error_is_atomic:
  assumes "resolveField ff r field = Some (r', result)"
  shows "(resResolved result \<longleftrightarrow> resError result = None) \<and> (resError result \<noteq> None \<longrightarrow> r' = r)"
proof -
  have "fst (setSegments segs v (VMap m)) = VMap m" if "snd (setSegments segs v (VMap m)) = Some e"
    for segs v m e using setSegments_error_unchanged [OF that] .
  then have fin: "(resResolved res' \<longleftrightarrow> resError res' = None) \<and> (resError res' \<noteq> None \<longrightarrow> r1 = r)"
    if "finishField r res path v = Some (r1, res')" "\<not> resResolved res" "resError res = None" for res path v r1 res'
    using that
    by (fastforce simp: finishField_def setValueAtPath_def asMap_def Let_def case_prod_beta
        split: option.splits sum.splits prod.splits if_splits)
  show ?thesis
    using assms
    by (auto simp: resolveField_def Let_def dest: fin
        split: option.splits sum.splits if_splits list.splits val.splits)
qed

theorem resolver_error_is_atomic_witness:
  "\<exists>result. resolveField (\<lambda>w. []) (sampleResolver\<lparr>data := []\<rparr>) sampleField = Some (sampleResolver\<lparr>data := []\<rparr>, result)
     \<and> resError result = Some (NoDataProvided ''schema.spec.name'') \<and> \<not> resResolved result"
proof -
  have run: "\<exists>result. resolveField (\<lambda>w. []) (sampleResolver\<lparr>data := []\<rparr>) sampleField = Some (sampleResolver\<lparr>data := []\<rparr>, result)
     \<and> resError result = Some (NoDataProvided ''schema.spec.name'')"
    by (rule exI [of _ "\<lparr>resPath = ''spec.name'', resResolved = False, resOriginal = ''[schema.spec.name]'',
          resReplaced = VNil, resError = Some (NoDataProvided ''schema.spec.name'')\<rparr>"]) code_simp
  then obtain result where "resolveField (\<lambda>w. []) (sampleResolver\<lparr>data := []\<rparr>) sampleField =
      Some (sampleResolver\<lparr>data := []\<rparr>, result)" "resError result = Some (NoDataProvided ''schema.spec.name'')"
    by blast
  then show ?thesis using resolver_error_is_atomic by fastforce
qed

text \<open>
  When the fields lie apart, every field can be read and every expression has a datum,
  \<open>Resolve\<close> returns, resolves all of them without an error, and afterwards every field holds
  the value computed from what it held before all of them were resolved: the order of the
  fields does not matter.
\<close>

lemma resolver_resolves_all_fields:
  assumes "sorted_wrt (\<lambda>f g. apartPaths (Path f) (Path g)) fs"
    and "\<forall>f \<in> set fs. readPath (Path f) r = Some (old f) \<and> fieldValue ff (data r) f (old f) = Some (new f)"
  shows "\<exists>r' sm. Resolve ff r fs = Some (r', sm) \<and> Errors sm = [] \<and>
    ResolvedExpressions sm = TotalExpressions sm \<and> TotalExpressions sm = length fs \<and>
    (\<forall>f \<in> set fs. getValueFromPath r' (Path f) = Some (Inr (new f)))"
  using assms by (rule Resolve_all)

lemma resolver_resolves_all_fields_witness:
  "\<exists>r' sm. Resolve (\<lambda>w. []) sampleResolver [sampleField] = Some (r', sm) \<and> Errors sm = [] \<and>
     getValueFromPath r' ''spec.name'' = Some (Inr (VStr ''web-db''))"
proof -
  have "readPath (Path sampleField) sampleResolver = Some (VStr ''${schema.spec.name}-db'')"
    "fieldValue (\<lambda>w. []) (data sampleResolver) sampleField (VStr ''${schema.spec.name}-db'') = Some (VStr ''web-db'')"
    by code_simp+
  then have "\<exists>r' sm. Resolve (\<lambda>w. []) sampleResolver [sampleField] = Some (r', sm) \<and> Errors sm = [] \<and>
      ResolvedExpressions sm = TotalExpressions sm \<and> TotalExpressions sm = length [sampleField] \<and>
      (\<forall>f \<in> set [sampleField]. getValueFromPath r' (Path f) = Some (Inr (VStr ''web-db'')))"
    by (intro resolver_resolves_all_fields [where old = "\<lambda>f. VStr ''${schema.spec.name}-db''"]) simp_all
  then show ?thesis by (auto simp: sampleField_def)
qed

text \<open>
  A field whose text is a template is given the text in which every expression is
  replaced by the printed value of its datum and nothing else is changed, also when an
  expression occurs twice or one expression is a part of another one. No literal text, no
  expression and no printed value may hold a dollar sign.
\<close>

lemma resolver_template_value:
  assumes "dollarFree t" and "\<not> StandaloneExpression field" and "Expressions field = map snd (fst t)"
    and "\<forall>e \<in> set (Expressions field). map_of dat (trimSet e ''${}'') = Some (datum e) \<and> noDollar (fmtV ff (datum e))"
  shows "fieldValue ff dat field (VStr (renderTemplate t)) =
    Some (VStr (concat (map (\<lambda>p. fst p @ fmtV ff (datum (snd p))) (fst t)) @ snd t))"
proof -
  let ?es = "map snd (fst t)"
  have es: "list_all plainExpr ?es" using assms(1) by (auto simp: dollarFree_def list_all_iff)
  have dat: "\<exists>v. map_of dat (trimSet e ''${}'') = Some v \<and> noDollar (fmtV ff v)" if "e \<in> set ?es" for e
    using that assms(3,4) by metis
  have "foldRes (replaceStep ff dat) ?es (renderWith wrapExpr t) =
      Inr (renderWith (\<lambda>e. if e \<in> set ?es \<and> wrapExpr e = wrapExpr e
        then fmtV ff (the (map_of dat (trimSet e ''${}''))) else wrapExpr e) t)"
    by (rule replaceSteps_render [OF assms(1) es dat]) auto
  moreover have "renderWith wrapExpr t = renderTemplate t"
    by (simp add: renderWith_def renderTemplate_def renderPiece_def [abs_def])
  moreover have "renderWith (\<lambda>e. if e \<in> set ?es \<and> wrapExpr e = wrapExpr e
      then fmtV ff (the (map_of dat (trimSet e ''${}''))) else wrapExpr e) t =
      concat (map (\<lambda>p. fst p @ fmtV ff (datum (snd p))) (fst t)) @ snd t"
  proof -
    have "fmtV ff (the (map_of dat (trimSet (snd p) ''${}''))) = fmtV ff (datum (snd p))" if "p \<in> set (fst t)" for p
      using assms(3,4) that by simp
    then show ?thesis by (simp add: renderWith_def cong: map_cong)
  qed
  ultimately show ?thesis using assms(2,3) by (simp add: fieldValue_def)
qed

lemma resolver_template_value_witness:
  "fieldValue (\<lambda>w. []) (data sampleResolver) sampleField (VStr (renderTemplate ([([], ''schema.spec.name'')], ''-db''))) =
     Some (VStr ''web-db'')"
proof -
  have "dollarFree ([([], ''schema.spec.name'')], ''-db'')" by code_simp
  moreover have "\<not> StandaloneExpression sampleField" by code_simp
  moreover have "Expressions sampleField = map snd (fst ([([] :: string, ''schema.spec.name'')], ''-db''))" by code_simp
  moreover have "\<forall>e \<in> set (Expressions sampleField).
      map_of (data sampleResolver) (trimSet e ''${}'') = Some ((\<lambda>e. VStr ''web'') e)
      \<and> noDollar (fmtV (\<lambda>w. []) ((\<lambda>e. VStr ''web'') e))" by code_simp
  ultimately have "fieldValue (\<lambda>w. []) (data sampleResolver) sampleField
      (VStr (renderTemplate ([([], ''schema.spec.name'')], ''-db''))) =
      Some (VStr (concat (map (\<lambda>p. fst p @ fmtV (\<lambda>w. []) ((\<lambda>e. VStr ''web'') (snd p)))
        (fst ([([] :: string, ''schema.spec.name'')], ''-db''))) @ snd ([([] :: string, ''schema.spec.name'')], ''-db'')))"
    by (rule resolver_template_value)
  then show ?thesis by simp
qed

end
