(* ===== verification/Resource_Parser.thy ===== *)
theory Resource_Parser
  imports Resolver
begin

text \<open>
  The resource parser, \<open>src/internal/graph/parser/parser.go\<close> and \<open>schemaless.go\<close>: the fields of a
  resource that hold expressions, with the path of each, checked against the schema of the
  resource or without one.

  Ranging over a map goes through the entries in the order in which the map is represented;
  the lemmas hold for every order. \<open>validateSchema\<close> writes the type it infers into the schema;
  here it returns the schema it leaves behind, which is the one the rest of the call reads.
\<close>

section \<open>Operations\<close>

datatype parser_error =
    SchemaIsNil string
  | NotASingleType "string list"
  | ExpectedObjectType string
  | ErrorGettingFieldSchema string parser_error
  | SchemaNotFound string
  | ExpectedArrayType string
  | InvalidArraySchema string
  | ExpectedStringType string
  | ExpectedNumberType string
  | ExpectedIntegerType string
  | ExpectedBooleanType string
  | UnexpectedType string
  | ExpressionError expr_error
  | ParserPanic

definition xKubernetesPreserveUnknownFields :: string where
  "xKubernetesPreserveUnknownFields = ''x-kubernetes-preserve-unknown-fields''"

definition joinPathAndFieldName :: "string \<Rightarrow> string \<Rightarrow> string" where
  "joinPathAndFieldName path fieldName =
     (if fieldName = [] \<or> strContains fieldName ''.'' then path @ ''['' @ goQuote fieldName @ '']''
      else if path = [] then fieldName
      else path @ ''.'' @ fieldName)"

definition itemPath :: "string \<Rightarrow> nat \<Rightarrow> string" where
  "itemPath path i = path @ ''['' @ itoa (int i) @ '']''"

definition validateSchema :: "schema option \<Rightarrow> string \<Rightarrow> parser_error + schema" where
  "validateSchema sch path =
     (case sch of
        None \<Rightarrow> Inl (SchemaIsNil path)
      | Some s \<Rightarrow>
          (if length (schemaType s) \<noteq> 1 then
             (case schemaOneOf s of
                [] \<Rightarrow> Inl (NotASingleType (schemaType s))
              | alt # _ \<Rightarrow>
                  (case schemaType alt of
                     [] \<Rightarrow> Inl ParserPanic
                   | t # _ \<Rightarrow> Inr (withType [t] s)))
           else Inr s))"

definition getExpectedType :: "schema \<Rightarrow> string" where
  "getExpectedType s =
     (case schemaType s of
        [] \<Rightarrow> []
      | t # _ \<Rightarrow>
          (if t \<noteq> [] then t
           else case schemaAdditional s of
                  Some (_, True) \<Rightarrow> ''any''
                | _ \<Rightarrow> []))"

definition additionalAllowed :: "schema \<Rightarrow> bool" where
  "additionalAllowed s = (case schemaAdditional s of None \<Rightarrow> False | Some (_, allows) \<Rightarrow> allows)"

definition getFieldSchema :: "schema \<Rightarrow> string \<Rightarrow> parser_error + schema" where
  "getFieldSchema s field =
     (case Option.bind (schemaProperties s) (\<lambda>ps. map_of ps field) of
        Some fieldSchema \<Rightarrow> Inr fieldSchema
      | None \<Rightarrow>
          (case schemaAdditional s of
             None \<Rightarrow> Inl (SchemaNotFound field)
           | Some (Some a, _) \<Rightarrow> Inr a
           | Some (None, allows) \<Rightarrow> if allows then Inr emptySchema else Inl (SchemaNotFound field)))"

definition getArrayItemSchema :: "schema \<Rightarrow> string \<Rightarrow> parser_error + schema" where
  "getArrayItemSchema s path =
     (case schemaItems s of Some i \<Rightarrow> Inr i | None \<Rightarrow> Inl (InvalidArraySchema path))"

text \<open>The extension that stops the parser at an object; a value that is no boolean panics.\<close>

definition preserveUnknownFields :: "schema \<Rightarrow> parser_error + bool" where
  "preserveUnknownFields s =
     (case map_of (schemaExtensions s) xKubernetesPreserveUnknownFields of
        None \<Rightarrow> Inr False
      | Some (VBool enabled) \<Rightarrow> Inr enabled
      | Some _ \<Rightarrow> Inl ParserPanic)"

definition isInteger :: "val \<Rightarrow> bool" where
  "isInteger v = (case v of VInt _ \<Rightarrow> True | _ \<Rightarrow> False)"

definition parseString :: "string \<Rightarrow> schema \<Rightarrow> string \<Rightarrow> string \<Rightarrow> parser_error + FieldDescriptor list" where
  "parseString field s path expectedType =
     (case isStandaloneExpression field of
        Inl err \<Rightarrow> Inl (ExpressionError err)
      | Inr ok \<Rightarrow>
          (if ok then
             Inr [\<lparr>Path = path, Expressions = [trimSet field ''${}''], ExpectedType = expectedType,
                   ExpectedSchema = Some s, StandaloneExpression = True\<rparr>]
           else if expectedType \<noteq> ''string'' \<and> expectedType \<noteq> ''any'' then Inl (ExpectedStringType path)
           else case extractExpressions field of
                  Inl err \<Rightarrow> Inl (ExpressionError err)
                | Inr expressions \<Rightarrow>
                    (if length expressions > 0 then
                       Inr [\<lparr>Path = path, Expressions = expressions, ExpectedType = expectedType,
                             ExpectedSchema = None, StandaloneExpression = False\<rparr>]
                     else Inr [])))"

definition parseScalarTypes :: "val \<Rightarrow> string \<Rightarrow> string \<Rightarrow> parser_error + FieldDescriptor list" where
  "parseScalarTypes field path expectedType =
     (if expectedType = ''any'' then Inr []
      else if expectedType = ''number'' then
        (case field of VFloat _ \<Rightarrow> Inr [] | _ \<Rightarrow> Inl (ExpectedNumberType path))
      else if expectedType = ''integer'' then
        (if isInteger field then Inr [] else Inl (ExpectedIntegerType path))
      else if expectedType = ''boolean'' then
        (case field of VBool _ \<Rightarrow> Inr [] | _ \<Rightarrow> Inl (ExpectedBooleanType path))
      else Inl (UnexpectedType path))"

function (sequential)
  parseResource :: "val \<Rightarrow> schema option \<Rightarrow> string \<Rightarrow> parser_error + FieldDescriptor list" and
  parseObject :: "val gomap \<Rightarrow> schema \<Rightarrow> string \<Rightarrow> string \<Rightarrow> parser_error + FieldDescriptor list" and
  parseArray :: "val list \<Rightarrow> schema \<Rightarrow> string \<Rightarrow> string \<Rightarrow> parser_error + FieldDescriptor list"
where
  "parseResource res sch path =
     (case validateSchema sch path of
        Inl err \<Rightarrow> Inl err
      | Inr s \<Rightarrow>
          (let expectedType = getExpectedType s in
           case res of
             VMap field \<Rightarrow> parseObject field s path expectedType
           | VList field \<Rightarrow> parseArray field s path expectedType
           | VStr field \<Rightarrow> parseString field s path expectedType
           | VNil \<Rightarrow> Inr []
           | _ \<Rightarrow> parseScalarTypes res path expectedType))"
| "parseObject field s path expectedType =
     (if expectedType \<noteq> ''object'' \<and> \<not> additionalAllowed s then Inl (ExpectedObjectType path)
      else case preserveUnknownFields s of
        Inl err \<Rightarrow> Inl err
      | Inr True \<Rightarrow> Inr []
      | Inr False \<Rightarrow> concatMapRes (\<lambda>(fieldName, v).
          (case getFieldSchema s fieldName of
             Inl err \<Rightarrow> Inl (ErrorGettingFieldSchema (path @ ''.'' @ fieldName) err)
           | Inr fieldSchema \<Rightarrow> parseResource v (Some fieldSchema) (joinPathAndFieldName path fieldName))) field)"
| "parseArray field s path expectedType =
     (if expectedType \<noteq> ''array'' then Inl (ExpectedArrayType path)
      else case getArrayItemSchema s path of
        Inl err \<Rightarrow> Inl err
      | Inr itemSchema \<Rightarrow>
          concatMapRes (\<lambda>(i, item). parseResource item (Some itemSchema) (itemPath path i)) (enumerate 0 field))"
  by pat_completeness auto
termination
proof (relation "measure (\<lambda>x. case x of Inl (v, _, _) \<Rightarrow> size v
    | Inr (Inl (m, _)) \<Rightarrow> size_list (size_prod (\<lambda>_. 0) size) m
    | Inr (Inr (vs, _)) \<Rightarrow> size_list size vs)", goal_cases)
  case (4 field s path expectedType)
  then show ?case by (induction field) auto
next
  case (5 field s path expectedType itemSchema item i x)
  then have "x \<in> set field" by (auto simp: in_set_enumerate_eq)
  then show ?case by (induction field) auto
qed auto

definition ParseResource :: "val gomap \<Rightarrow> schema option \<Rightarrow> parser_error + FieldDescriptor list" where
  "ParseResource res resourceSchema = parseResource (VMap res) resourceSchema []"

text \<open>The branch of \<open>parseSchemalessResource\<close> for a string.\<close>

definition schemalessString :: "string \<Rightarrow> string \<Rightarrow> parser_error + FieldDescriptor list" where
  "schemalessString field path =
     (case isStandaloneExpression field of
        Inl err \<Rightarrow> Inl (ExpressionError err)
      | Inr ok \<Rightarrow>
          (if ok then
             Inr [\<lparr>Path = path, Expressions = [trimSet field ''${}''], ExpectedType = ''any'',
                   ExpectedSchema = None, StandaloneExpression = True\<rparr>]
           else case extractExpressions field of
                  Inl err \<Rightarrow> Inl (ExpressionError err)
                | Inr expressions \<Rightarrow>
                    (if length expressions > 0 then
                       Inr [\<lparr>Path = path, Expressions = expressions, ExpectedType = ''any'',
                             ExpectedSchema = None, StandaloneExpression = False\<rparr>]
                     else Inr [])))"

function parseSchemalessResource :: "val \<Rightarrow> string \<Rightarrow> parser_error + FieldDescriptor list" where
  "parseSchemalessResource res path =
     (case res of
        VMap field \<Rightarrow>
          concatMapRes (\<lambda>(k, v). parseSchemalessResource v (joinPathAndFieldName path k)) field
      | VList field \<Rightarrow>
          concatMapRes (\<lambda>(i, item). parseSchemalessResource item (itemPath path i)) (enumerate 0 field)
      | VStr field \<Rightarrow> schemalessString field path
      | _ \<Rightarrow> Inr [])"
  by pat_completeness auto
termination
  by (relation "measure (\<lambda>(v, _). size v)") (auto dest: val_size_map val_size_enumerate)

declare parseSchemalessResource.simps [simp del]
  parseResource.simps [simp del] parseObject.simps [simp del] parseArray.simps [simp del]

definition ParseSchemalessResource :: "val gomap \<Rightarrow> parser_error + FieldDescriptor list" where
  "ParseSchemalessResource res = parseSchemalessResource (VMap res) []"

section \<open>The strings of a resource\<close>

function leaves :: "val \<Rightarrow> (Segment list \<times> string) list" where
  "leaves v =
     (case v of
        VStr s \<Rightarrow> [([], s)]
      | VMap m \<Rightarrow> concat (map (\<lambda>(k, x). map (apfst (Cons (NewNamedSegment k))) (leaves x)) m)
      | VList vs \<Rightarrow>
          concat (map (\<lambda>(i, x). map (apfst (Cons (NewIndexedSegment (int i)))) (leaves x)) (enumerate 0 vs))
      | _ \<Rightarrow> [])"
  by pat_completeness auto
termination
  by (relation "measure size") (auto dest: val_size_map val_size_enumerate)

declare leaves.simps [simp del]

lemma leaves_simps [simp]:
  "leaves (VStr s) = [([], s)]"
  "leaves (VMap m) = concat (map (\<lambda>(k, x). map (apfst (Cons (NewNamedSegment k))) (leaves x)) m)"
  "leaves (VList vs) =
     concat (map (\<lambda>(i, x). map (apfst (Cons (NewIndexedSegment (int i)))) (leaves x)) (enumerate 0 vs))"
  "leaves VNil = []" "leaves (VBool b) = []" "leaves (VInt w) = []" "leaves (VUint w) = []"
  "leaves (VFloat w) = []"
  by (simp_all add: leaves.simps)

text \<open>The path of a place below a path, as the parser writes it.\<close>

definition appendSegment :: "string \<Rightarrow> Segment \<Rightarrow> string" where
  "appendSegment path s =
     (if segIndex s \<noteq> -1 then itemPath path (nat (segIndex s)) else joinPathAndFieldName path (segName s))"

definition pathFrom :: "string \<Rightarrow> Segment list \<Rightarrow> string" where
  "pathFrom path segs = foldl appendSegment path segs"

lemma pathFrom_simps [simp]:
  "pathFrom path [] = path"
  "pathFrom path (NewNamedSegment k # p) = pathFrom (joinPathAndFieldName path k) p"
  "pathFrom path (NewIndexedSegment (int i) # p) = pathFrom (itemPath path i) p"
  by (simp_all add: pathFrom_def appendSegment_def NewNamedSegment_def NewIndexedSegment_def)

lemma schemaless_leaves:
  "parseSchemalessResource v path =
     concatMapRes (\<lambda>(p, s). schemalessString s (pathFrom path p)) (leaves v)"
proof (induction v path rule: parseSchemalessResource.induct)
  case (1 res path)
  show ?case
  proof (cases res)
    case (VMap m)
    then have "parseSchemalessResource res path =
        concatMapRes (\<lambda>(k, v). parseSchemalessResource v (joinPathAndFieldName path k)) m"
      by (subst parseSchemalessResource.simps) simp
    also have "\<dots> = concatMapRes (\<lambda>(k, v). concatMapRes
        (\<lambda>(p, s). schemalessString s (pathFrom (joinPathAndFieldName path k) p)) (leaves v)) m"
      using 1(2) VMap by (auto intro!: concatMapRes_cong)
    finally show ?thesis using VMap
      by (simp add: concatMapRes_concat concatMapRes_map case_prod_unfold)
  next
    case (VList vs)
    then have "parseSchemalessResource res path =
        concatMapRes (\<lambda>(i, v). parseSchemalessResource v (itemPath path i)) (enumerate 0 vs)"
      by (subst parseSchemalessResource.simps) simp
    also have "\<dots> = concatMapRes (\<lambda>(i, v). concatMapRes
        (\<lambda>(p, s). schemalessString s (pathFrom (itemPath path i) p)) (leaves v)) (enumerate 0 vs)"
      using 1(1) VList by (auto intro!: concatMapRes_cong)
    finally show ?thesis using VList
      by (simp add: concatMapRes_concat concatMapRes_map case_prod_unfold)
  qed (subst parseSchemalessResource.simps, simp split: sum.splits)+
qed

lemma joinedPath_Nil_iff: "joinedPath segs = [] \<longleftrightarrow> segs = []"
  by (cases segs) (auto simp: joinedPath_def joinPiece_def skipDot_def split: if_splits)

lemma joinedPath_snoc:
  "joinedPath (segs @ [s]) = (if segs = [] then skipDot (joinPiece s) else joinedPath segs @ joinPiece s)"
proof (cases segs)
  case (Cons t ts)
  then show ?thesis by (auto simp: joinedPath_def joinPiece_def skipDot_def)
qed (simp add: joinedPath_def)

lemma appendSegment_joined:
  assumes "wfSegment s"
  shows "appendSegment (joinedPath segs) s = joinedPath (segs @ [s])"
proof -
  have "segIndex s \<noteq> -1 \<Longrightarrow> 0 \<le> segIndex s"
    using assms by (auto simp: wfSegment_def isIndexed_def isNamed_def)
  then show ?thesis
    by (auto simp: appendSegment_def joinedPath_snoc joinedPath_Nil_iff joinPiece_def
        joinPathAndFieldName_def itemPath_def skipDot_def)
qed

lemma pathFrom_joined:
  "list_all wfSegment p \<Longrightarrow> pathFrom (joinedPath segs) p = joinedPath (segs @ p)"
proof (induction p arbitrary: segs)
  case (Cons s p)
  then show ?case using appendSegment_joined [of s segs] Cons.IH [of "segs @ [s]"]
    by (simp add: pathFrom_def)
qed (simp add: pathFrom_def)

lemma Parse_pathFrom:
  "list_all wfSegment p \<Longrightarrow> longTail p \<Longrightarrow> Parse (pathFrom [] p) = Some (Inr p)"
  using pathFrom_joined [of p "[]"] parseLoop_joined [of p "[]"]
  by (simp add: Parse_def joinedPath_def skipDot_def)

text \<open>No key occurs twice in a map.\<close>

function distinctKeys :: "val \<Rightarrow> bool" where
  "distinctKeys v =
     (case v of
        VMap m \<Rightarrow> distinct (map fst m) \<and> list_all (\<lambda>(k, x). distinctKeys x) m
      | VList vs \<Rightarrow> list_all (\<lambda>x. distinctKeys x) vs
      | _ \<Rightarrow> True)"
  by pat_completeness auto
termination
  by (relation "measure size") (auto dest: val_size_map val_size_list)

declare distinctKeys.simps [simp del]

lemma distinctKeys_simps [simp]:
  "distinctKeys (VMap m) \<longleftrightarrow> distinct (map fst m) \<and> (\<forall>(k, x) \<in> set m. distinctKeys x)"
  "distinctKeys (VList vs) \<longleftrightarrow> (\<forall>x \<in> set vs. distinctKeys x)"
  by (subst distinctKeys.simps, simp add: list_all_iff)+

lemma getStep_new [simp]:
  "getStep (NewNamedSegment k) (VMap m) = (case map_of m k of Some v \<Rightarrow> Inr v | None \<Rightarrow> Inl (KeyNotFound k))"
  "getStep (NewIndexedSegment (int i)) (VList vs) =
     (if length vs \<le> i then Inl (IndexOutOfBounds (int i)) else Inr (vs ! i))"
  by (simp_all add: getStep_def NewNamedSegment_def NewIndexedSegment_def split: option.splits)

lemma segKey_new [simp]:
  "segKey (NewNamedSegment k) = Inl k" "segKey (NewIndexedSegment (int i)) = Inr (int i)"
  by (simp_all add: segKey_def isArraySeg_def NewNamedSegment_def NewIndexedSegment_def)

lemma leaf_read:
  "distinctKeys v \<Longrightarrow> (p, s) \<in> set (leaves v) \<Longrightarrow> getSegments p v = Inr (VStr s)"
proof (induction v arbitrary: p rule: val_tree_induct)
  case (VMap m)
  then obtain k x q where kx: "(k, x) \<in> set m" "p = NewNamedSegment k # q" "(q, s) \<in> set (leaves x)" by auto
  then have "map_of m k = Some x" "distinctKeys x" using VMap.prems(1) by auto
  then show ?case using VMap.IH [OF kx(1)] kx by (simp add: getSegments_Cons)
next
  case (VList vs)
  then obtain i x q where ix: "(i, x) \<in> set (enumerate 0 vs)" "p = NewIndexedSegment (int i) # q"
      "(q, s) \<in> set (leaves x)" by auto
  then have "i < length vs" "x = vs ! i" by (auto simp: in_set_enumerate_eq)
  moreover from this have "x \<in> set vs" by simp
  ultimately show ?case using VList.IH [of x q] VList.prems(1) ix(2,3) by (simp add: getSegments_Cons)
next
  case (scalar v)
  then show ?case by (cases v) auto
qed

lemma leaf_complete:
  "getSegments p v = Inr (VStr s) \<Longrightarrow> \<exists>q. (q, s) \<in> set (leaves v) \<and> map segKey q = map segKey p"
proof (induction v arbitrary: p rule: val_tree_induct)
  case (VMap m)
  then obtain t q where p: "p = t # q" by (cases p) auto
  with VMap.prems obtain x where x: "map_of m (segName t) = Some x" "\<not> isArraySeg t" "getSegments q x = Inr (VStr s)"
    by (auto simp: getSegments_Cons getStep_def isArraySeg_def split: if_splits option.splits)
  then have mem: "(segName t, x) \<in> set m" by (simp add: map_of_SomeD)
  then obtain r where "(r, s) \<in> set (leaves x)" "map segKey r = map segKey q" using VMap.IH x(3) by blast
  then show ?case using mem x(2) p
    by (intro exI [of _ "NewNamedSegment (segName t) # r"]) (force simp: segKey_def [of t])
next
  case (VList vs)
  then obtain t q where p: "p = t # q" by (cases p) auto
  with VList.prems obtain i where i: "segIndex t = int i" "i < length vs" "isArraySeg t" "getSegments q (vs ! i) = Inr (VStr s)"
    by (auto simp: getSegments_Cons getStep_def isArraySeg_def split: if_splits)
      (metis nat_0_le not_le zless_nat_conj nat_less_iff)
  then obtain r where r: "(r, s) \<in> set (leaves (vs ! i))" "map segKey r = map segKey q"
    using VList.IH [of "vs ! i"] by auto
  have "(i, vs ! i) \<in> set (enumerate 0 vs)" using i(2) by (simp add: in_set_enumerate_eq)
  then show ?case using r i p
    by (intro exI [of _ "NewIndexedSegment (int i) # r"]) (force simp: segKey_def [of t])
next
  case (scalar v)
  then show ?case
    by (cases p; cases v) (auto simp: getSegments_Cons getStep_def split: if_splits)
qed

lemma leaves_apart:
  "distinctKeys v \<Longrightarrow> sorted_wrt (\<lambda>x y. independent (fst x) (fst y)) (leaves v)"
proof (induction v rule: val_tree_induct)
  case (VMap m)
  have "sorted_wrt (\<lambda>a b. fst a \<noteq> fst b) m"
    using VMap.prems by (simp add: distinct_conv_nth sorted_wrt_iff_nth_less)
  then have "sorted_wrt (\<lambda>xs ys. \<forall>x \<in> set xs. \<forall>y \<in> set ys. independent (fst x) (fst y))
      (map (\<lambda>(k, x). map (apfst (Cons (NewNamedSegment k))) (leaves x)) m)"
    by (auto simp: sorted_wrt_map independent_Cons elim!: sorted_wrt_mono_rel [rotated])
  moreover have "sorted_wrt (\<lambda>x y. independent (fst x) (fst y)) (map (apfst (Cons (NewNamedSegment k))) (leaves x))"
    if "(k, x) \<in> set m" for k x
    using VMap.IH [OF that] VMap.prems that by (auto simp: sorted_wrt_map independent_Cons)
  ultimately show ?case by (auto intro!: sorted_wrt_concat)
next
  case (VList vs)
  have "sorted_wrt (\<lambda>a b. fst a \<noteq> fst b) (enumerate 0 vs)"
    by (simp add: sorted_wrt_iff_nth_less nth_enumerate_eq)
  then have "sorted_wrt (\<lambda>xs ys. \<forall>x \<in> set xs. \<forall>y \<in> set ys. independent (fst x) (fst y))
      (map (\<lambda>(i, x). map (apfst (Cons (NewIndexedSegment (int i)))) (leaves x)) (enumerate 0 vs))"
    by (auto simp: sorted_wrt_map independent_Cons elim!: sorted_wrt_mono_rel [rotated])
  moreover have "sorted_wrt (\<lambda>x y. independent (fst x) (fst y)) (map (apfst (Cons (NewIndexedSegment (int i)))) (leaves x))"
    if "(i, x) \<in> set (enumerate 0 vs)" for i x
  proof -
    have "x \<in> set vs" using that by (auto simp: in_set_enumerate_eq)
    then show ?thesis using VList.IH VList.prems by (auto simp: sorted_wrt_map independent_Cons)
  qed
  ultimately show ?case by (auto intro!: sorted_wrt_concat)
next
  case (scalar v)
  then show ?case by (cases v) auto
qed

section \<open>Descriptors and leaves\<close>

declare leaves_simps [simp del]

text \<open>
  The parser can write the path of every string, and \<open>Parse\<close> reads it: see \<open>wfSegment\<close> and
  \<open>longTail\<close> in \<open>Fieldpath\<close>.
\<close>

definition addressable :: "val gomap \<Rightarrow> bool" where
  "addressable m = list_all (\<lambda>x. list_all wfSegment (fst x) \<and> longTail (fst x)) (leaves (VMap m))"

lemma schemalessString_Inr:
  "schemalessString s path = Inr fds \<Longrightarrow> fd \<in> set fds \<Longrightarrow> fds = [fd] \<and> Path fd = path"
  by (auto simp: schemalessString_def split: sum.splits if_splits)

lemma schemalessString_some:
  "schemalessString s path = Inr fds \<Longrightarrow> extractExpressions s = Inr es \<Longrightarrow> es \<noteq> [] \<Longrightarrow> fds \<noteq> []"
  by (auto simp: schemalessString_def split: sum.splits if_splits)

lemma leaves_nonempty_path: "(p, s) \<in> set (leaves (VMap m)) \<Longrightarrow> p \<noteq> []"
  by (auto simp: leaves_simps)

lemma addressable_Parse:
  "addressable m \<Longrightarrow> (p, s) \<in> set (leaves (VMap m)) \<Longrightarrow> Parse (pathFrom [] p) = Some (Inr p)"
  by (rule Parse_pathFrom) (auto simp: addressable_def list_all_iff)

lemma schemaless_run:
  "ParseSchemalessResource m = Inr fds \<Longrightarrow>
   concatMapRes (\<lambda>(p, s). schemalessString s (pathFrom [] p)) (leaves (VMap m)) = Inr fds"
  by (simp add: ParseSchemalessResource_def schemaless_leaves)

lemma schemaless_descriptor:
  assumes "ParseSchemalessResource m = Inr fds" and "distinctKeys (VMap m)" and "addressable m"
    and "fd \<in> set fds"
  shows "\<exists>s. readPath (Path fd) (NewResolver m dat) = Some (VStr s) \<and> schemalessString s (Path fd) = Inr [fd]"
proof -
  obtain x ys where x: "x \<in> set (leaves (VMap m))"
      "(\<lambda>(p, s). schemalessString s (pathFrom [] p)) x = Inr ys" "fd \<in> set ys"
    using concatMapRes_mem [OF schemaless_run [OF assms(1)] assms(4)] by blast
  then obtain p s where leaf: "(p, s) \<in> set (leaves (VMap m))" "schemalessString s (pathFrom [] p) = Inr ys"
      "fd \<in> set ys"
    by (metis case_prod_beta prod.collapse)
  then have fd: "ys = [fd]" "Path fd = pathFrom [] p" using schemalessString_Inr by blast+
  have "getSegments p (VMap m) = Inr (VStr s)" using leaf_read [OF assms(2) leaf(1)] .
  then have "readPath (Path fd) (NewResolver m dat) = Some (VStr s)"
    using addressable_Parse [OF assms(3) leaf(1)] leaves_nonempty_path [OF leaf(1)] fd(2)
    by (auto simp: readPath_iff NewResolver_def neq_Nil_conv)
  then show ?thesis using leaf(2) fd by auto
qed

lemma schemaless_apart:
  assumes "ParseSchemalessResource m = Inr fds" and "distinctKeys (VMap m)" and "addressable m"
  shows "sorted_wrt (\<lambda>f g. apartPaths (Path f) (Path g)) fds"
proof (rule sorted_wrt_concatMapRes [where R = "\<lambda>x y. x \<in> set (leaves (VMap m)) \<and> y \<in> set (leaves (VMap m))
      \<and> independent (fst x) (fst y)"])
  show "concatMapRes (\<lambda>(p, s). schemalessString s (pathFrom [] p)) (leaves (VMap m)) = Inr fds"
    using assms(1) by (rule schemaless_run)
  show "sorted_wrt (\<lambda>x y. x \<in> set (leaves (VMap m)) \<and> y \<in> set (leaves (VMap m)) \<and> independent (fst x) (fst y))
      (leaves (VMap m))"
    using leaves_apart [OF assms(2)] by (auto elim!: sorted_wrt_mono_rel [rotated])
next
  fix x y ys ys' and a b :: FieldDescriptor
  assume xy: "x \<in> set (leaves (VMap m)) \<and> y \<in> set (leaves (VMap m)) \<and> independent (fst x) (fst y)"
    and "(case x of (p, s) \<Rightarrow> schemalessString s (pathFrom [] p)) = Inr ys" "a \<in> set ys"
    and "(case y of (p, s) \<Rightarrow> schemalessString s (pathFrom [] p)) = Inr ys'" "b \<in> set ys'"
  then have "Path a = pathFrom [] (fst x)" "Path b = pathFrom [] (fst y)"
    using schemalessString_Inr by (metis case_prod_beta)+
  then show "apartPaths (Path a) (Path b)"
    using xy addressable_Parse [OF assms(3), of "fst x" "snd x"] addressable_Parse [OF assms(3), of "fst y" "snd y"]
    by (simp add: apartPaths_def)
next
  fix x and ys :: "FieldDescriptor list"
  assume "(case x of (p, s) \<Rightarrow> schemalessString s (pathFrom [] p)) = Inr ys"
  then have "ys = [] \<or> (\<exists>fd. ys = [fd])"
    using schemalessString_Inr by (metis case_prod_beta list.set_intros(1) neq_Nil_conv)
  then show "sorted_wrt (\<lambda>f g. apartPaths (Path f) (Path g)) ys" by auto
qed

lemma schemaless_complete:
  assumes "ParseSchemalessResource m = Inr fds" and "addressable m"
    and "getSegments p (VMap m) = Inr (VStr s)" and "extractExpressions s = Inr es" and "es \<noteq> []"
  shows "\<exists>fd \<in> set fds. \<exists>q. Parse (Path fd) = Some (Inr q) \<and> map segKey q = map segKey p"
proof -
  obtain q where q: "(q, s) \<in> set (leaves (VMap m))" "map segKey q = map segKey p"
    using leaf_complete [OF assms(3)] by blast
  obtain ys where ys: "schemalessString s (pathFrom [] q) = Inr ys" "set ys \<subseteq> set fds"
    using concatMapRes_mem_in [OF schemaless_run [OF assms(1)] q(1)] by auto
  then obtain fd where "fd \<in> set ys" using schemalessString_some assms(4,5) by (metis last_in_set)
  then show ?thesis
    using ys q(2) schemalessString_Inr [OF ys(1)] addressable_Parse [OF assms(2) q(1)] by (metis subsetD)
qed

section \<open>With and without a schema\<close>

text \<open>What a descriptor says apart from the type the schema gives.\<close>

definition untyped :: "FieldDescriptor \<Rightarrow> string \<times> string list \<times> bool" where
  "untyped fd = (Path fd, Expressions fd, StandaloneExpression fd)"

text \<open>No object schema inside stops the parser.\<close>

fun noPreserve :: "schema \<Rightarrow> bool" where
  "noPreserve (Schema t p a i os e n mn mx mi ma) =
     (map_of e xKubernetesPreserveUnknownFields \<noteq> Some (VBool True)
      \<and> (case p of None \<Rightarrow> True | Some ps \<Rightarrow> list_all (\<lambda>(k, s). noPreserve s) ps)
      \<and> (case a of Some (Some s, _) \<Rightarrow> noPreserve s | _ \<Rightarrow> True)
      \<and> (case i of None \<Rightarrow> True | Some s \<Rightarrow> noPreserve s))"

lemma noPreserve_withType [simp]: "noPreserve (withType ts s) = noPreserve s"
  by (cases s) simp

lemma noPreserve_field: "noPreserve s \<Longrightarrow> getFieldSchema s k = Inr s' \<Longrightarrow> noPreserve s'"
  by (cases s)
    (auto simp: getFieldSchema_def emptySchema_def list_all_iff bind_eq_Some_conv
      split: option.splits if_splits dest!: map_of_SomeD)

lemma noPreserve_items: "noPreserve s \<Longrightarrow> getArrayItemSchema s path = Inr s' \<Longrightarrow> noPreserve s'"
  by (cases s) (auto simp: getArrayItemSchema_def split: option.splits)

lemma noPreserve_object: "noPreserve s \<Longrightarrow> preserveUnknownFields s \<noteq> Inr True"
  by (cases s) (auto simp: preserveUnknownFields_def split: option.splits val.splits)

lemma validateSchema_noPreserve: "validateSchema (Some s) path = Inr s' \<Longrightarrow> noPreserve s' = noPreserve s"
  by (auto simp: validateSchema_def split: if_splits list.splits)

lemma parseString_untyped:
  "parseString f s path ty = Inr fds \<Longrightarrow>
   \<exists>gds. schemalessString f path = Inr gds \<and> map untyped gds = map untyped fds"
  by (auto simp: parseString_def schemalessString_def untyped_def split: sum.splits if_splits)

lemma parseScalarTypes_Inr: "parseScalarTypes f path ty = Inr fds \<Longrightarrow> fds = []"
  by (auto simp: parseScalarTypes_def split: if_splits val.splits)

lemma parseResource_untyped:
  "parseResource v (Some s) path = Inr fds \<Longrightarrow> noPreserve s \<Longrightarrow>
   \<exists>gds. parseSchemalessResource v path = Inr gds \<and> map untyped gds = map untyped fds"
proof (induction v arbitrary: s path fds rule: val_tree_induct)
  case (VMap m)
  then obtain s' where s': "noPreserve s'" "parseObject m s' path (getExpectedType s') = Inr fds"
    by (auto simp: parseResource.simps [of "VMap m"] Let_def split: sum.splits dest!: validateSchema_noPreserve)
  then have run: "concatMapRes (\<lambda>(k, v). case getFieldSchema s' k of
        Inl err \<Rightarrow> Inl (ErrorGettingFieldSchema (path @ ''.'' @ k) err)
      | Inr fs \<Rightarrow> parseResource v (Some fs) (joinPathAndFieldName path k)) m = Inr fds"
    using noPreserve_object by (auto simp: parseObject.simps split: if_splits sum.splits bool.splits)
  have "\<exists>gds. concatMapRes (\<lambda>(k, v). parseSchemalessResource v (joinPathAndFieldName path k)) m = Inr gds
      \<and> map untyped gds = map untyped fds"
    using VMap.IH noPreserve_field [OF s'(1)]
    by (intro concatMapRes_rel [OF run]) (fastforce split: sum.splits)
  then show ?case by (subst parseSchemalessResource.simps) simp
next
  case (VList vs)
  then obtain s' where s': "noPreserve s'" "parseArray vs s' path (getExpectedType s') = Inr fds"
    by (auto simp: parseResource.simps [of "VList vs"] Let_def split: sum.splits dest!: validateSchema_noPreserve)
  then obtain i where i: "noPreserve i"
      "concatMapRes (\<lambda>(j, item). parseResource item (Some i) (itemPath path j)) (enumerate 0 vs) = Inr fds"
    using noPreserve_items by (auto simp: parseArray.simps split: if_splits sum.splits)
  have "\<exists>gds. concatMapRes (\<lambda>(j, item). parseSchemalessResource item (itemPath path j)) (enumerate 0 vs) = Inr gds
      \<and> map untyped gds = map untyped fds"
    using VList.IH i(1) by (intro concatMapRes_rel [OF i(2)]) (auto simp: in_set_enumerate_eq)
  then show ?case by (subst parseSchemalessResource.simps) simp
next
  case (scalar v)
  show ?case
  proof (cases "\<exists>f. v = VStr f")
    case True
    then obtain f where f: "v = VStr f" by blast
    then obtain s' where "parseString f s' path (getExpectedType s') = Inr fds"
      using scalar.prems(1) by (auto simp: parseResource.simps [of "VStr f"] Let_def split: sum.splits)
    then show ?thesis using parseString_untyped by (subst parseSchemalessResource.simps) (simp add: f)
  next
    case False
    then have "parseSchemalessResource v path = Inr []"
      using scalar.hyps by (subst parseSchemalessResource.simps) (simp split: val.splits)
    moreover have "fds = []"
      using False scalar
      by (subst (asm) parseResource.simps)
        (auto simp: Let_def split: sum.splits val.splits dest: parseScalarTypes_Inr)
    ultimately show ?thesis by simp
  qed
qed

lemma untyped_Path: "map untyped gds = map untyped fds \<Longrightarrow> map Path gds = map Path fds"
proof -
  have "map Path xs = map fst (map untyped xs)" for xs by (simp add: untyped_def)
  then show "map untyped gds = map untyped fds \<Longrightarrow> map Path gds = map Path fds" by metis
qed

lemma fieldValue_untyped: "untyped f = untyped g \<Longrightarrow> fieldValue ff dat f = fieldValue ff dat g"
  by (simp add: fieldValue_def untyped_def fun_eq_iff split: val.splits)

definition dataFor :: "val gomap \<Rightarrow> FieldDescriptor list \<Rightarrow> bool" where
  "dataFor dat fds =
     list_all (\<lambda>fd. list_all (\<lambda>e. map_of dat (trimSet e ''${}'') \<noteq> None) (Expressions fd)) fds"

lemma replaceSteps_data:
  "list_all (\<lambda>e. map_of dat (trimSet e ''${}'') \<noteq> None) es \<Longrightarrow>
   \<exists>t. foldRes (replaceStep ff dat) es s = Inr t"
  by (induction es arbitrary: s) (auto simp: replaceStep_def split: option.splits)

lemma fieldValue_some:
  assumes "schemalessString s (Path fd) = Inr [fd]"
    and "list_all (\<lambda>e. map_of dat (trimSet e ''${}'') \<noteq> None) (Expressions fd)"
  shows "\<exists>w. fieldValue ff dat fd (VStr s) = Some w"
proof (cases "StandaloneExpression fd")
  case True
  then have "Expressions fd = [trimSet s ''${}'']"
    using assms(1) by (cases fd) (auto simp: schemalessString_def split: sum.splits if_splits)
  then show ?thesis using assms(2) True by (auto simp: fieldValue_def)
next
  case False
  then show ?thesis using replaceSteps_data [OF assms(2), of ff s] by (auto simp: fieldValue_def)
qed

section \<open>Properties\<close>

definition sampleResource :: "val gomap" where
  "sampleResource =
     [(''spec'', VMap [(''name'', VStr ''${schema.spec.name}-db''),
                      (''ports'', VList [VStr ''${schema.spec.port}'', VInt 80])])]"

definition typedSchema :: "string \<Rightarrow> schema" where
  "typedSchema t = withType [t] emptySchema"

definition sampleSchema :: schema where
  "sampleSchema =
     Schema [''object''] (Some [(''spec'', Schema [''object'']
       (Some [(''name'', typedSchema ''string''),
              (''ports'', Schema [''array''] None None (Some (typedSchema ''integer'')) [] [] [] None None None None)])
       None None [] [] [] None None None None)]) None None [] [] [] None None None None"

definition sampleData :: "val gomap" where
  "sampleData = [(''schema.spec.name'', VStr ''web''), (''schema.spec.port'', VInt 8080)]"

text \<open>
  C22. In a resource no map of which has a key twice, and all of whose string fields are \<open>addressable\<close>,
  the descriptors of \<open>ParseSchemalessResource\<close> are the strings of the resource that hold an
  expression. The path of a descriptor leads back, by \<open>Parse\<close> and \<open>getValueFromPath\<close>, to the
  string it was made from; every string with an expression has a descriptor; and the paths of
  any two descriptors lie apart. Addressable means that the parser can write the path of the field and
  \<open>Parse\<close> read it: the last key is not one byte long (on such a path \<open>Parse\<close> never returns, by
  \<open>fieldpath_parse_single_char_diverges\<close> of \<open>Fieldpath\<close>), a key without a dot has no opening bracket, and
  a key that is empty or has a dot consists of characters that the quoting leaves as they are. For a resource with another
  key the claim fails.
\<close>

theorem schemaless_descriptors_are_the_expressions:
  assumes "ParseSchemalessResource m = Inr fds" and "distinctKeys (VMap m)" and "addressable m"
  shows "(\<forall>fd \<in> set fds. \<exists>s. readPath (Path fd) (NewResolver m dat) = Some (VStr s)
            \<and> schemalessString s (Path fd) = Inr [fd])
    \<and> (\<forall>p s es. getSegments p (VMap m) = Inr (VStr s) \<longrightarrow> extractExpressions s = Inr es \<longrightarrow> es \<noteq> [] \<longrightarrow>
        (\<exists>fd \<in> set fds. \<exists>q. Parse (Path fd) = Some (Inr q) \<and> map segKey q = map segKey p))
    \<and> sorted_wrt (\<lambda>f g. apartPaths (Path f) (Path g)) fds"
  using schemaless_descriptor [OF assms] schemaless_complete [OF assms(1,3)] schemaless_apart [OF assms]
  by blast

theorem schemaless_descriptors_are_the_expressions_witness:
  "\<exists>fds. ParseSchemalessResource sampleResource = Inr fds \<and>
     map Path fds = [''spec.name'', ''spec.ports[0]''] \<and> sorted_wrt (\<lambda>f g. apartPaths (Path f) (Path g)) fds"
proof -
  have "\<exists>fds. ParseSchemalessResource sampleResource = Inr fds \<and> map Path fds = [''spec.name'', ''spec.ports[0]'']"
    by (rule exI [of _ "[\<lparr>Path = ''spec.name'', Expressions = [''schema.spec.name''], ExpectedType = ''any'',
          ExpectedSchema = None, StandaloneExpression = False\<rparr>,
         \<lparr>Path = ''spec.ports[0]'', Expressions = [''schema.spec.port''], ExpectedType = ''any'',
          ExpectedSchema = None, StandaloneExpression = True\<rparr>]"]) code_simp
  then obtain fds where fds: "ParseSchemalessResource sampleResource = Inr fds"
      "map Path fds = [''spec.name'', ''spec.ports[0]'']" by (elim exE conjE)
  have sample: "distinctKeys (VMap sampleResource)" "addressable sampleResource" by code_simp+
  show ?thesis
    using fds schemaless_descriptors_are_the_expressions [OF fds(1) sample] by (intro exI [of _ fds] conjI) simp_all
qed

text \<open>
  C23. Where no object schema preserves unknown fields, parsing with a schema only adds a type
  check and the expected types: when \<open>ParseResource\<close> succeeds, so does
  \<open>ParseSchemalessResource\<close>, with the same paths, expressions and standalone flags in the same
  order.
\<close>

theorem parse_resource_refines_schemaless:
  assumes "ParseResource m (Some s) = Inr fds" and "noPreserve s"
  shows "\<exists>gds. ParseSchemalessResource m = Inr gds \<and> map untyped gds = map untyped fds"
  using parseResource_untyped assms by (simp add: ParseResource_def ParseSchemalessResource_def)

theorem parse_resource_refines_schemaless_witness:
  "\<exists>gds. ParseSchemalessResource sampleResource = Inr gds \<and>
     map untyped gds = [(''spec.name'', [''schema.spec.name''], False), (''spec.ports[0]'', [''schema.spec.port''], True)]"
proof -
  have "\<exists>fds. ParseResource sampleResource (Some sampleSchema) = Inr fds \<and>
     map untyped fds = [(''spec.name'', [''schema.spec.name''], False), (''spec.ports[0]'', [''schema.spec.port''], True)]"
    by (rule exI [of _ "[\<lparr>Path = ''spec.name'', Expressions = [''schema.spec.name''], ExpectedType = ''string'',
          ExpectedSchema = None, StandaloneExpression = False\<rparr>,
         \<lparr>Path = ''spec.ports[0]'', Expressions = [''schema.spec.port''], ExpectedType = ''integer'',
          ExpectedSchema = Some (typedSchema ''integer''), StandaloneExpression = True\<rparr>]"]) code_simp
  moreover have "noPreserve sampleSchema" by code_simp
  ultimately show ?thesis using parse_resource_refines_schemaless by metis
qed

text \<open>
  C24. What the parser finds the resolver can resolve, in a resource without duplicate keys whose string
  fields are \<open>addressable\<close> (\<open>Resolve\<close> does not return on a field with a last key of one byte) and under a
  schema that nowhere preserves unknown fields (the parser skips the objects there): with a datum for every
  expression that \<open>ParseResource\<close> found, \<open>Resolve\<close> returns without an error, resolves every descriptor, and leaves
  at the path of each the value computed from the string that was there.
\<close>

theorem parsed_fields_resolve:
  assumes "ParseResource m (Some s) = Inr fds" and "noPreserve s"
    and "distinctKeys (VMap m)" and "addressable m" and "dataFor dat fds"
  shows "\<exists>r' sm. Resolve ff (NewResolver m dat) fds = Some (r', sm) \<and> Errors sm = [] \<and>
    ResolvedExpressions sm = length fds \<and>
    (\<forall>fd \<in> set fds. \<exists>str w. readPath (Path fd) (NewResolver m dat) = Some (VStr str) \<and>
       fieldValue ff dat fd (VStr str) = Some w \<and> getValueFromPath r' (Path fd) = Some (Inr w))"
proof -
  let ?r = "NewResolver m dat"
  obtain gds where gds: "ParseSchemalessResource m = Inr gds" "map untyped gds = map untyped fds"
    using parseResource_untyped [of "VMap m" s "[]" fds] assms(1,2)
    by (auto simp: ParseResource_def ParseSchemalessResource_def)
  have apart: "sorted_wrt (\<lambda>f g. apartPaths (Path f) (Path g)) fds"
    using schemaless_apart [OF gds(1) assms(3,4)] untyped_Path [OF gds(2)]
    by (metis sorted_wrt_map)
  have ok: "\<exists>str w. readPath (Path fd) ?r = Some (VStr str) \<and> fieldValue ff dat fd (VStr str) = Some w"
    if fd: "fd \<in> set fds" for fd
  proof -
    have "untyped fd \<in> set (map untyped gds)" using fd gds(2) by simp
    then obtain gd where gd: "gd \<in> set gds" "untyped gd = untyped fd" by auto
    then obtain str where str: "readPath (Path gd) ?r = Some (VStr str)" "schemalessString str (Path gd) = Inr [gd]"
      using schemaless_descriptor [OF gds(1) assms(3,4)] by blast
    moreover have "list_all (\<lambda>e. map_of dat (trimSet e ''${}'') \<noteq> None) (Expressions gd)"
      using assms(5) fd gd(2) by (auto simp: dataFor_def list_all_iff untyped_def)
    ultimately obtain w where "fieldValue ff dat gd (VStr str) = Some w" using fieldValue_some by blast
    then show ?thesis using str(1) gd(2) fieldValue_untyped [OF gd(2)] by (auto simp: untyped_def)
  qed
  define old where "old = (\<lambda>fd :: FieldDescriptor. the (readPath (Path fd) ?r))"
  define new where "new = (\<lambda>fd. the (fieldValue ff dat fd (old fd)))"
  have each: "\<forall>fd \<in> set fds. readPath (Path fd) ?r = Some (old fd) \<and> fieldValue ff (data ?r) fd (old fd) = Some (new fd)"
    using ok by (fastforce simp: old_def new_def NewResolver_def)
  show ?thesis using Resolve_all [OF apart each] ok each by (fastforce simp: NewResolver_def)
qed

theorem parsed_fields_resolve_witness:
  "\<exists>r' sm. Resolve (\<lambda>w. []) (NewResolver sampleResource sampleData)
     [\<lparr>Path = ''spec.name'', Expressions = [''schema.spec.name''], ExpectedType = ''string'',
       ExpectedSchema = None, StandaloneExpression = False\<rparr>,
      \<lparr>Path = ''spec.ports[0]'', Expressions = [''schema.spec.port''], ExpectedType = ''integer'',
       ExpectedSchema = Some (typedSchema ''integer''), StandaloneExpression = True\<rparr>] = Some (r', sm)
     \<and> Errors sm = [] \<and> ResolvedExpressions sm = 2"
proof -
  let ?fds = "[\<lparr>Path = ''spec.name'', Expressions = [''schema.spec.name''], ExpectedType = ''string'',
       ExpectedSchema = None, StandaloneExpression = False\<rparr>,
      \<lparr>Path = ''spec.ports[0]'', Expressions = [''schema.spec.port''], ExpectedType = ''integer'',
       ExpectedSchema = Some (typedSchema ''integer''), StandaloneExpression = True\<rparr>]"
  have "ParseResource sampleResource (Some sampleSchema) = Inr ?fds" "noPreserve sampleSchema"
    "distinctKeys (VMap sampleResource)" "addressable sampleResource" "dataFor sampleData ?fds"
    by code_simp+
  from parsed_fields_resolve [OF this, of "\<lambda>w. []"] show ?thesis by auto
qed

text \<open>
  A field that only \<open>additionalProperties: true\<close> allows is always rejected: its schema is the
  empty one, which has no single type.
\<close>

lemma additional_allowed_field_rejected:
  "parseResource v (Some emptySchema) path = Inl (NotASingleType [])"
  by (subst parseResource.simps) (simp add: validateSchema_def emptySchema_def)

end
