(* ===== verification/Cel_Env.thy ===== *)
theory Cel_Env
  imports Kro_Prelude
begin

text \<open>
  The CEL interface of \<open>src/pkg/cel\<close> and the evaluation of one expression
  (\<open>evaluateExpression\<close> in \<open>src/internal/runtime/runtime.go\<close>).

  cel-go itself is a parameter, the record \<open>cel\<close>: creating an environment with variables,
  compiling, building a program and evaluating it each return an error or succeed, as functions
  of the variables declared and of the text of the expression. A CEL value is seen through its
  type and through its conversion to Go, as \<open>GoNativeType\<close> does.
\<close>

datatype refval =
    RBool bool
  | RInt "64 word"
  | RUint "64 word"
  | RDouble "64 word"
  | RString string
  | RList "string + val"
  | RMap "string + val"
  | RNull
  | ROther string val

record cel =
  celNewEnv :: "string list \<Rightarrow> string option"
  celCompile :: "string list \<Rightarrow> string \<Rightarrow> string option"
  celProgram :: "string list \<Rightarrow> string \<Rightarrow> string option"
  celEval :: "string list \<Rightarrow> string \<Rightarrow> val gomap \<Rightarrow> string + refval"

text \<open>An environment is known by the variables it declares.\<close>

type_synonym cel_env = "string list"

record envOptions =
  optResourceIDs :: "string list"
  optCustomDeclarations :: "string list"

datatype EnvOption =
    WithResourceIDs "string list"
  | WithCustomDeclarations "string list"

definition applyOption :: "EnvOption \<Rightarrow> envOptions \<Rightarrow> envOptions" where
  "applyOption opt opts =
     (case opt of
        WithResourceIDs ids \<Rightarrow> opts\<lparr>optResourceIDs := optResourceIDs opts @ ids\<rparr>
      | WithCustomDeclarations ds \<Rightarrow> opts\<lparr>optCustomDeclarations := optCustomDeclarations opts @ ds\<rparr>)"

definition DefaultEnvironment :: "cel \<Rightarrow> EnvOption list \<Rightarrow> string + cel_env" where
  "DefaultEnvironment C options =
     (let opts = fold applyOption options \<lparr>optResourceIDs = [], optCustomDeclarations = []\<rparr> in
      case celNewEnv C (optResourceIDs opts) of
        Some err \<Rightarrow> Inl err
      | None \<Rightarrow> Inr (optResourceIDs opts))"

text \<open>\<open>GoNativeType\<close>: the Go value, and the error.\<close>

definition GoNativeType :: "refval \<Rightarrow> val \<times> string option" where
  "GoNativeType v =
     (case v of
        RBool b \<Rightarrow> (VBool b, None)
      | RInt w \<Rightarrow> (VInt w, None)
      | RUint w \<Rightarrow> (VUint w, None)
      | RDouble w \<Rightarrow> (VFloat w, None)
      | RString s \<Rightarrow> (VStr s, None)
      | RList (Inr x) \<Rightarrow> (x, None)
      | RList (Inl err) \<Rightarrow> (VNil, Some err)
      | RMap (Inr x) \<Rightarrow> (x, None)
      | RMap (Inl err) \<Rightarrow> (VNil, Some err)
      | RNull \<Rightarrow> (VNil, None)
      | ROther ty x \<Rightarrow> (x, Some (''unsupported type: '' @ ty)))"

definition IsBoolType :: "refval \<Rightarrow> bool" where
  "IsBoolType v = (case v of RBool _ \<Rightarrow> True | _ \<Rightarrow> False)"

definition evaluateExpression :: "cel \<Rightarrow> cel_env \<Rightarrow> val gomap \<Rightarrow> string \<Rightarrow> string + val" where
  "evaluateExpression C env ctxt expression =
     (case celCompile C env expression of
        Some err \<Rightarrow> Inl (''failed compiling expression '' @ expression @ '': '' @ err)
      | None \<Rightarrow>
          (case celProgram C env expression of
             Some err \<Rightarrow> Inl (''failed programming expression '' @ expression @ '': '' @ err)
           | None \<Rightarrow>
               (case celEval C env expression ctxt of
                  Inl err \<Rightarrow> Inl (''failed evaluating expression '' @ expression @ '': '' @ err)
                | Inr v \<Rightarrow>
                    (case GoNativeType v of
                       (x, None) \<Rightarrow> Inr x
                     | (x, Some err) \<Rightarrow> Inl err))))"

lemma IsBoolType_native: "IsBoolType v \<longleftrightarrow> (\<exists>b. v = RBool b)"
  by (auto simp: IsBoolType_def split: refval.splits)

text \<open>A boolean CEL value is a Go boolean: the type assertions \<open>out.(bool)\<close> rest on it.\<close>

lemma evaluate_bool:
  "celCompile C env e = None \<Longrightarrow> celProgram C env e = None \<Longrightarrow> celEval C env e ctxt = Inr v \<Longrightarrow> IsBoolType v \<Longrightarrow>
   \<exists>b. evaluateExpression C env ctxt e = Inr (VBool b)"
  by (auto simp: evaluateExpression_def IsBoolType_native GoNativeType_def)

text \<open>Custom declarations never reach the environment.\<close>

lemma custom_declarations_ignored:
  "DefaultEnvironment C [WithCustomDeclarations ds] = DefaultEnvironment C []"
  by (simp add: DefaultEnvironment_def applyOption_def split: option.splits)

lemma DefaultEnvironment_ids:
  "DefaultEnvironment C [WithResourceIDs ids] = (case celNewEnv C ids of Some err \<Rightarrow> Inl err | None \<Rightarrow> Inr ids)"
  by (simp add: DefaultEnvironment_def applyOption_def split: option.splits)

end
