(* ===== verification/Graph_Resource.thy ===== *)
theory Graph_Resource
  imports Variables
begin

text \<open>
  A resource of the graph, \<open>src/internal/graph/resource.go\<close>: what the graph builder produces and
  the runtime and the instance controller use, with \<open>GetResourceTopLevelFieldNames\<close> of
  \<open>src/internal/graph/schema/schema.go\<close>. The custom resource definition is carried along
  unread.
\<close>

record GroupVersionResource =
  gvrGroup :: string
  gvrVersion :: string
  gvrResource :: string

record GroupVersionKind =
  gvkGroup :: string
  gvkVersion :: string
  gvkKind :: string

record Resource =
  resId :: string
  resGvr :: GroupVersionResource
  resSchema :: "schema option"
  resCrd :: "val option"
  originalObject :: "val gomap"
  emulatedObject :: "val gomap option"
  resVariables :: "ResourceField list"
  resDependencies :: "string list"
  readyWhenExpressions :: "string list"
  includeWhenExpressions :: "string list"
  resNamespaced :: bool

definition HasDependency :: "Resource \<Rightarrow> string \<Rightarrow> bool" where
  "HasDependency r dep = list_ex (\<lambda>d. d = dep) (resDependencies r)"

definition addDependency :: "string \<Rightarrow> Resource \<Rightarrow> Resource" where
  "addDependency dep r =
     (if \<not> HasDependency r dep then r\<lparr>resDependencies := resDependencies r @ [dep]\<rparr> else r)"

definition addDependencies :: "string list \<Rightarrow> Resource \<Rightarrow> Resource" where
  "addDependencies deps r = fold addDependency deps r"

definition GetResourceTopLevelFieldNames :: "schema option \<Rightarrow> string list" where
  "GetResourceTopLevelFieldNames sch =
     (case sch of
        None \<Rightarrow> []
      | Some s \<Rightarrow>
          (case schemaProperties s of
             None \<Rightarrow> []
           | Some ps \<Rightarrow> sort (filter (\<lambda>n. n \<noteq> ''apiVersion'' \<and> n \<noteq> ''kind'') (map fst ps))))"

definition GetTopLevelFields :: "Resource \<Rightarrow> string list" where
  "GetTopLevelFields r = GetResourceTopLevelFieldNames (resSchema r)"

text \<open>\<open>DeepCopy\<close> leaves out the custom resource definition and the emulated object.\<close>

definition DeepCopy :: "Resource \<Rightarrow> Resource" where
  "DeepCopy r = r\<lparr>resCrd := None, emulatedObject := None\<rparr>"

lemma HasDependency_iff: "HasDependency r dep \<longleftrightarrow> dep \<in> set (resDependencies r)"
  by (auto simp: HasDependency_def list_ex_iff)

lemma addDependency_set [simp]: "set (resDependencies (addDependency dep r)) = insert dep (set (resDependencies r))"
  by (auto simp: addDependency_def HasDependency_iff)

lemma addDependency_distinct:
  "distinct (resDependencies r) \<Longrightarrow> distinct (resDependencies (addDependency dep r))"
  by (auto simp: addDependency_def HasDependency_iff)

lemma addDependency_more [simp]:
  "resId (addDependency dep r) = resId r" "resVariables (addDependency dep r) = resVariables r"
  "originalObject (addDependency dep r) = originalObject r"
  by (simp_all add: addDependency_def)

lemma addDependencies_set [simp]:
  "set (resDependencies (addDependencies deps r)) = set (resDependencies r) \<union> set deps"
  unfolding addDependencies_def by (induction deps arbitrary: r) auto

lemma addDependencies_distinct:
  "distinct (resDependencies r) \<Longrightarrow> distinct (resDependencies (addDependencies deps r))"
  unfolding addDependencies_def by (induction deps arbitrary: r) (auto simp: addDependency_distinct)

lemma addDependencies_more [simp]:
  "resId (addDependencies deps r) = resId r" "resVariables (addDependencies deps r) = resVariables r"
  "originalObject (addDependencies deps r) = originalObject r"
  unfolding addDependencies_def by (induction deps arbitrary: r) auto

lemma DeepCopy_sel [simp]:
  "resId (DeepCopy r) = resId r" "resDependencies (DeepCopy r) = resDependencies r"
  "resVariables (DeepCopy r) = resVariables r" "originalObject (DeepCopy r) = originalObject r"
  by (simp_all add: DeepCopy_def)

end
