(* ===== verification/Runtime.thy ===== *)
theory Runtime
  imports Resource_Parser Cel_Env Graph_Resource
begin

text \<open>
  The runtime of one instance, \<open>src/internal/runtime/runtime.go\<close> and \<open>state.go\<close>: it evaluates the
  expressions of the resources as the resources they depend on become known, and writes the
  values into the objects to create.

  An \<open>expressionEvaluationState\<close> is shared by pointer between the cache and the variable lists of
  the resources: the states are kept in a store (\<open>rtStore\<close>) and the cache and the lists hold
  addresses. Ranging over a map goes through its entries in the order of its representation.
  An operation returns the state it leaves behind and the error; \<open>NoReturn\<close> stands for a panic
  or for a call into the resolver that does not return. CEL is the parameter of \<open>Cel_Env\<close>.
\<close>

section \<open>State\<close>

datatype ResourceState =
    ResourceStateResolved
  | ResourceStateWaitingOnDependencies
  | ResourceStateWaitingOnReadiness
  | ResourceStateIgnoredByConditions

record expressionEvaluationState =
  eesExpression :: string
  eesDependencies :: "string list"
  eesKind :: ResourceVariableKind
  eesResolved :: bool
  eesValue :: val

datatype runtime_error =
    PlainError string
  | EvalError bool string
  | ResolveErrors "resolver_error list"
  | SetValueError string resolver_error
  | Wrapped string runtime_error
  | NoReturn

record ResourceGroupRuntime =
  rtInstance :: Resource
  rtResources :: "Resource gomap"
  resolvedResources :: "val gomap gomap"
  runtimeVariables :: "nat list gomap"
  expressionsCache :: "nat gomap"
  rtStore :: "expressionEvaluationState list"
  topologicalOrder :: "string list"
  ignoredByConditionsResources :: "string list"

type_synonym rt = ResourceGroupRuntime

section \<open>Construction\<close>

definition variablesOf :: "rt \<Rightarrow> string \<Rightarrow> nat list" where
  "variablesOf r ident = (case map_of (runtimeVariables r) ident of None \<Rightarrow> [] | Some as \<Rightarrow> as)"

definition addVariable :: "string \<Rightarrow> nat \<Rightarrow> rt \<Rightarrow> rt" where
  "addVariable ident addr r = r\<lparr>runtimeVariables := AList.update ident (variablesOf r ident @ [addr]) (runtimeVariables r)\<rparr>"

definition newState :: "string \<Rightarrow> string list \<Rightarrow> ResourceVariableKind \<Rightarrow> expressionEvaluationState" where
  "newState expr deps kind =
     \<lparr>eesExpression = expr, eesDependencies = deps, eesKind = kind, eesResolved = False, eesValue = VNil\<rparr>"

definition cacheState :: "expressionEvaluationState \<Rightarrow> rt \<Rightarrow> rt" where
  "cacheState ees r =
     r\<lparr>rtStore := rtStore r @ [ees],
       expressionsCache := AList.update (eesExpression ees) (length (rtStore r)) (expressionsCache r)\<rparr>"

definition addExpression :: "string \<Rightarrow> ResourceField \<Rightarrow> string \<Rightarrow> rt \<Rightarrow> rt" where
  "addExpression ident v expr r =
     (case map_of (expressionsCache r) expr of
        Some ec \<Rightarrow> addVariable ident ec r
      | None \<Rightarrow>
          cacheState (newState expr (Dependencies v) (Kind v)) (addVariable ident (length (rtStore r)) r))"

definition addVariables :: "string \<Rightarrow> ResourceField list \<Rightarrow> rt \<Rightarrow> rt" where
  "addVariables ident vs r = fold (\<lambda>v. fold (addExpression ident v) (Expressions v)) vs r"

definition addReadyWhen :: "string \<Rightarrow> rt \<Rightarrow> rt" where
  "addReadyWhen expr r = cacheState (newState expr [] ResourceVariableKindReadyWhen) r"

definition addResource :: "string \<times> Resource \<Rightarrow> rt \<Rightarrow> rt" where
  "addResource x r =
     fold addReadyWhen (readyWhenExpressions (snd x)) (addVariables (fst x) (resVariables (snd x)) r)"

definition emptyRuntime :: "Resource \<Rightarrow> Resource gomap \<Rightarrow> string list \<Rightarrow> rt" where
  "emptyRuntime inst resources order =
     \<lparr>rtInstance = inst, rtResources = resources, resolvedResources = [], runtimeVariables = [],
      expressionsCache = [], rtStore = [], topologicalOrder = order, ignoredByConditionsResources = []\<rparr>"

section \<open>Evaluation\<close>

definition instanceObject :: "rt \<Rightarrow> val gomap" where
  "instanceObject r = originalObject (rtInstance r)"

definition resolveState :: "nat \<Rightarrow> val \<Rightarrow> rt \<Rightarrow> rt" where
  "resolveState addr v r =
     r\<lparr>rtStore := (rtStore r)[addr := (rtStore r ! addr)\<lparr>eesResolved := True, eesValue := v\<rparr>]\<rparr>"

definition staticStep :: "cel \<Rightarrow> cel_env \<Rightarrow> nat \<Rightarrow> rt \<Rightarrow> rt \<times> runtime_error option" where
  "staticStep C env addr r =
     (let v = rtStore r ! addr in
      if IsStatic (eesKind v) then
        (case evaluateExpression C env [(''schema'', VMap (instanceObject r))] (eesExpression v) of
           Inl err \<Rightarrow> (r, Some (PlainError err))
         | Inr x \<Rightarrow> (resolveState addr x r, None))
      else (r, None))"

definition evaluateStaticVariables :: "cel \<Rightarrow> rt \<Rightarrow> rt \<times> runtime_error option" where
  "evaluateStaticVariables C r =
     (case DefaultEnvironment C [WithResourceIDs [''schema'']] of
        Inl err \<Rightarrow> (r, Some (PlainError err))
      | Inr env \<Rightarrow> loopE (staticStep C env) (map snd (expressionsCache r)) r)"

definition containsAllElements :: "string list \<Rightarrow> string list \<Rightarrow> bool" where
  "containsAllElements outer inner = list_all (List.member outer) inner"

text \<open>The objects of the dependencies; a dependency that is not resolved is a nil pointer.\<close>

definition evalContext :: "rt \<Rightarrow> string list \<Rightarrow> val gomap option" where
  "evalContext r deps =
     (if list_all (\<lambda>d. map_of (resolvedResources r) d \<noteq> None) deps
      then Some (AList.update ''schema'' (VMap (instanceObject r))
             (fold (\<lambda>d m. AList.update d (VMap (the (map_of (resolvedResources r) d))) m) deps []))
      else None)"

definition dynamicStep :: "cel \<Rightarrow> cel_env \<Rightarrow> nat \<Rightarrow> rt \<Rightarrow> rt \<times> runtime_error option" where
  "dynamicStep C env addr r =
     (let v = rtStore r ! addr in
      if IsDynamic (eesKind v) then
        (if eesResolved v then (r, None)
         else if length (eesDependencies v) > 0
              \<and> \<not> containsAllElements (map fst (resolvedResources r) @ [''schema'']) (eesDependencies v)
         then (r, None)
         else case evalContext r (eesDependencies v) of
                None \<Rightarrow> (r, Some NoReturn)
              | Some ctxt \<Rightarrow>
                  (case evaluateExpression C env ctxt (eesExpression v) of
                     Inl err \<Rightarrow> (r, Some (EvalError (strContains err ''no such key'') err))
                   | Inr x \<Rightarrow> (resolveState addr x r, None)))
      else (r, None))"

definition evaluateDynamicVariables :: "cel \<Rightarrow> rt \<Rightarrow> rt \<times> runtime_error option" where
  "evaluateDynamicVariables C r =
     (case DefaultEnvironment C [WithResourceIDs (map fst (resolvedResources r) @ [''schema''])] of
        Inl err \<Rightarrow> (r, Some (PlainError err))
      | Inr env \<Rightarrow> loopE (dynamicStep C env) (map snd (expressionsCache r)) r)"

definition instanceStep :: "ResourceField \<Rightarrow> rt \<Rightarrow> rt \<times> runtime_error option" where
  "instanceStep v r =
     (case Expressions v of
        [] \<Rightarrow> (r, Some NoReturn)
      | expr # _ \<Rightarrow>
          (case map_of (expressionsCache r) expr of
             None \<Rightarrow> (r, None)
           | Some addr \<Rightarrow>
               (if eesResolved (rtStore r ! addr) then
                  (case UpsertValueAtPath (NewResolver (instanceObject r) []) (Path v) (eesValue (rtStore r ! addr)) of
                     None \<Rightarrow> (r, Some NoReturn)
                   | Some (rs, err) \<Rightarrow>
                       (r\<lparr>rtInstance := (rtInstance r)\<lparr>originalObject := resource rs\<rparr>\<rparr>,
                        map_option (SetValueError (Path v)) err))
                else (r, None))))"

definition evaluateInstanceStatuses :: "rt \<Rightarrow> rt \<times> runtime_error option" where
  "evaluateInstanceStatuses r = loopE instanceStep (resVariables (rtInstance r)) r"

definition exprValues :: "rt \<Rightarrow> val gomap" where
  "exprValues r =
     fold (\<lambda>addr m. let v = rtStore r ! addr in
             if eesResolved v then AList.update (eesExpression v) (eesValue v) m else m)
       (map snd (expressionsCache r)) []"

definition setObject :: "string \<Rightarrow> val gomap \<Rightarrow> rt \<Rightarrow> rt" where
  "setObject ident obj r =
     r\<lparr>rtResources := AList.update ident ((the (map_of (rtResources r) ident))\<lparr>originalObject := obj\<rparr>) (rtResources r)\<rparr>"

definition evaluateResourceExpressions ::
  "(64 word \<Rightarrow> string) \<Rightarrow> string \<Rightarrow> rt \<Rightarrow> rt \<times> runtime_error option" where
  "evaluateResourceExpressions ff ident r =
     (case map_of (rtResources r) ident of
        None \<Rightarrow> (r, Some NoReturn)
      | Some res \<Rightarrow>
          (case Resolve ff (NewResolver (originalObject res) (exprValues r))
                  (map FieldDescriptor.truncate (resVariables res)) of
             None \<Rightarrow> (r, Some NoReturn)
           | Some (rs, summary) \<Rightarrow>
               (setObject ident (resource rs) r,
                if Errors summary \<noteq> [] then Some (ResolveErrors (Errors summary)) else None)))"

definition resourceVariablesResolved :: "rt \<Rightarrow> string \<Rightarrow> bool" where
  "resourceVariablesResolved r ident =
     list_all (\<lambda>addr. \<not> (IsDynamic (eesKind (rtStore r ! addr)) \<and> \<not> eesResolved (rtStore r ! addr)))
       (variablesOf r ident)"

text \<open>\<open>None\<close>: the id is not in the graph, and the call on the nil resource panics.\<close>

definition canProcessResource :: "rt \<Rightarrow> string \<Rightarrow> bool option" where
  "canProcessResource r ident =
     (case map_of (rtResources r) ident of
        None \<Rightarrow> None
      | Some res \<Rightarrow>
          Some (list_all (resourceVariablesResolved r) (resDependencies res) \<and> resourceVariablesResolved r ident))"

definition propagateStep :: "(64 word \<Rightarrow> string) \<Rightarrow> string \<Rightarrow> rt \<Rightarrow> rt \<times> runtime_error option" where
  "propagateStep ff ident r =
     (case canProcessResource r ident of
        None \<Rightarrow> (r, Some NoReturn)
      | Some True \<Rightarrow>
          (case evaluateResourceExpressions ff ident r of
             (r', err) \<Rightarrow> (r', map_option (Wrapped (''failed to evaluate resource variables for '' @ ident)) err))
      | Some False \<Rightarrow> (r, None))"

definition propagateResourceVariables :: "(64 word \<Rightarrow> string) \<Rightarrow> rt \<Rightarrow> rt \<times> runtime_error option" where
  "propagateResourceVariables ff r = loopE (propagateStep ff) (map fst (rtResources r)) r"

definition NewResourceGroupRuntime ::
  "(64 word \<Rightarrow> string) \<Rightarrow> cel \<Rightarrow> Resource \<Rightarrow> Resource gomap \<Rightarrow> string list \<Rightarrow> runtime_error + rt" where
  "NewResourceGroupRuntime ff C inst resources order =
     (let r = addVariables ''instance'' (resVariables inst) (fold addResource resources (emptyRuntime inst resources order)) in
      case evaluateStaticVariables C r of
        (r1, Some err) \<Rightarrow> Inl (Wrapped ''failed to evaluate static variables'' err)
      | (r1, None) \<Rightarrow>
          (case propagateResourceVariables ff r1 of
             (r2, Some err) \<Rightarrow> Inl (Wrapped ''failed to propagate resource variables'' err)
           | (r2, None) \<Rightarrow> Inr r2))"

section \<open>The interface\<close>

definition GetResource :: "rt \<Rightarrow> string \<Rightarrow> (val gomap option \<times> ResourceState) option" where
  "GetResource r ident =
     (case map_of (resolvedResources r) ident of
        Some obj \<Rightarrow> Some (Some obj, ResourceStateResolved)
      | None \<Rightarrow>
          (case canProcessResource r ident of
             None \<Rightarrow> None
           | Some True \<Rightarrow> Some (Some (originalObject (the (map_of (rtResources r) ident))), ResourceStateResolved)
           | Some False \<Rightarrow> Some (None, ResourceStateWaitingOnDependencies)))"

definition SetResource :: "string \<Rightarrow> val gomap \<Rightarrow> rt \<Rightarrow> rt" where
  "SetResource ident obj r = r\<lparr>resolvedResources := AList.update ident obj (resolvedResources r)\<rparr>"

definition GetInstance :: "rt \<Rightarrow> val gomap" where
  "GetInstance r = instanceObject r"

definition SetInstance :: "val gomap \<Rightarrow> rt \<Rightarrow> rt" where
  "SetInstance obj r = r\<lparr>rtInstance := (rtInstance r)\<lparr>originalObject := obj\<rparr>\<rparr>"

definition allExpressionsAreResolved :: "rt \<Rightarrow> bool" where
  "allExpressionsAreResolved r = list_all (\<lambda>addr. eesResolved (rtStore r ! addr)) (map snd (expressionsCache r))"

definition Synchronize :: "(64 word \<Rightarrow> string) \<Rightarrow> cel \<Rightarrow> rt \<Rightarrow> rt \<times> bool \<times> runtime_error option" where
  "Synchronize ff C r =
     (if allExpressionsAreResolved r \<and> length (resolvedResources r) = length (rtResources r) then (r, False, None)
      else case evaluateDynamicVariables C r of
        (r1, Some err) \<Rightarrow> (r1, True, Some (Wrapped ''failed to evaluate dynamic variables'' err))
      | (r1, None) \<Rightarrow>
          (case propagateResourceVariables ff r1 of
             (r2, Some err) \<Rightarrow> (r2, True, Some (Wrapped ''failed to propagate resource variables'' err))
           | (r2, None) \<Rightarrow>
               (case evaluateInstanceStatuses r2 of
                  (r3, Some err) \<Rightarrow> (r3, True, Some (Wrapped ''failed to evaluate instance statuses'' err))
                | (r3, None) \<Rightarrow> (r3, True, None))))"

text \<open>The loops over condition expressions stop at the first that is not true.\<close>

datatype condition_result =
    AllTrue
  | SomeFalse string
  | ConditionError string string
  | ConditionPanic

fun checkConditions :: "cel \<Rightarrow> cel_env \<Rightarrow> val gomap \<Rightarrow> string list \<Rightarrow> condition_result" where
  "checkConditions C env ctxt [] = AllTrue"
| "checkConditions C env ctxt (e # es) =
     (case evaluateExpression C env ctxt e of
        Inl err \<Rightarrow> ConditionError e err
      | Inr (VBool True) \<Rightarrow> checkConditions C env ctxt es
      | Inr (VBool False) \<Rightarrow> SomeFalse e
      | Inr _ \<Rightarrow> ConditionPanic)"

definition IsResourceReady :: "cel \<Rightarrow> rt \<Rightarrow> string \<Rightarrow> bool \<times> string \<times> runtime_error option" where
  "IsResourceReady C r ident =
     (case map_of (resolvedResources r) ident of
        None \<Rightarrow> (False, ''resource '' @ ident @ '' is not resolved'', None)
      | Some observed \<Rightarrow>
          (case map_of (rtResources r) ident of
             None \<Rightarrow> (False, [], Some NoReturn)
           | Some res \<Rightarrow>
               (if readyWhenExpressions res = [] then (True, [], None)
                else case DefaultEnvironment C [WithResourceIDs [ident]] of
                       Inl err \<Rightarrow> (False, [], Some (PlainError (''failed creating new Environment: '' @ err)))
                     | Inr env \<Rightarrow>
                         (case checkConditions C env [(ident, VMap observed)] (readyWhenExpressions res) of
                            AllTrue \<Rightarrow> (True, [], None)
                          | SomeFalse e \<Rightarrow> (False, ''expression '' @ e @ '' evaluated to false'', None)
                          | ConditionError e err \<Rightarrow>
                              (False, [], Some (PlainError (''failed evaluating expressison '' @ e @ '': '' @ err)))
                          | ConditionPanic \<Rightarrow> (False, [], Some NoReturn)))))"

definition IgnoreResource :: "string \<Rightarrow> rt \<Rightarrow> rt" where
  "IgnoreResource ident r = r\<lparr>ignoredByConditionsResources := List.insert ident (ignoredByConditionsResources r)\<rparr>"

definition areDependenciesIgnored :: "rt \<Rightarrow> Resource \<Rightarrow> bool" where
  "areDependenciesIgnored r res = list_ex (\<lambda>p. List.member (ignoredByConditionsResources r) p) (resDependencies res)"

definition WantToCreateResource :: "cel \<Rightarrow> rt \<Rightarrow> string \<Rightarrow> bool \<times> runtime_error option" where
  "WantToCreateResource C r ident =
     (case map_of (rtResources r) ident of
        None \<Rightarrow> (False, Some NoReturn)
      | Some res \<Rightarrow>
          (if areDependenciesIgnored r res then (False, None)
           else if includeWhenExpressions res = [] then (True, None)
           else case DefaultEnvironment C [WithResourceIDs [''schema'']] of
                  Inl err \<Rightarrow> (False, None)
                | Inr env \<Rightarrow>
                    (case checkConditions C env [(''schema'', VMap (instanceObject r))] (includeWhenExpressions res) of
                       AllTrue \<Rightarrow> (True, None)
                     | SomeFalse e \<Rightarrow> (False, Some (PlainError (''Skipping resource creation due to condition '' @ e)))
                     | ConditionError e err \<Rightarrow> (False, Some (PlainError err))
                     | ConditionPanic \<Rightarrow> (False, Some NoReturn))))"

section \<open>Invariant\<close>

text \<open>
  Every address is in the store, the cache maps an expression to a state of that expression,
  and no expression is cached twice.
\<close>

definition rt_inv :: "rt \<Rightarrow> bool" where
  "rt_inv r =
     ((\<forall>(e, a) \<in> set (expressionsCache r). a < length (rtStore r) \<and> eesExpression (rtStore r ! a) = e)
      \<and> distinct (map fst (expressionsCache r))
      \<and> (\<forall>(i, as) \<in> set (runtimeVariables r). \<forall>a \<in> set as. a < length (rtStore r)))"

lemma rt_invI:
  assumes "\<And>e a. (e, a) \<in> set (expressionsCache r) \<Longrightarrow> a < length (rtStore r) \<and> eesExpression (rtStore r ! a) = e"
    and "distinct (map fst (expressionsCache r))"
    and "\<And>i as a. (i, as) \<in> set (runtimeVariables r) \<Longrightarrow> a \<in> set as \<Longrightarrow> a < length (rtStore r)"
  shows "rt_inv r"
  using assms unfolding rt_inv_def by blast

lemma rt_inv_cache:
  "rt_inv r \<Longrightarrow> (e, a) \<in> set (expressionsCache r) \<Longrightarrow> a < length (rtStore r) \<and> eesExpression (rtStore r ! a) = e"
  by (auto simp: rt_inv_def)

lemma rt_inv_variables: "rt_inv r \<Longrightarrow> a \<in> set (variablesOf r i) \<Longrightarrow> a < length (rtStore r)"
  by (cases "map_of (runtimeVariables r) i") (fastforce simp: rt_inv_def variablesOf_def dest: map_of_SomeD)+

lemma rt_inv_distinct: "rt_inv r \<Longrightarrow> distinct (map fst (expressionsCache r))"
  by (simp add: rt_inv_def)

lemma in_set_update: "(k, v) \<in> set (AList.update x y m) \<Longrightarrow> (k, v) \<in> set m \<or> (k = x \<and> v = y)"
  by (induction m) (auto split: if_splits)

text \<open>
  The parts the evaluation never changes, and the store: a state keeps its expression,
  dependencies and kind, and only states that are not resolved change.
\<close>

definition same_shape :: "rt \<Rightarrow> rt \<Rightarrow> bool" where
  "same_shape r r' =
     (expressionsCache r' = expressionsCache r \<and> runtimeVariables r' = runtimeVariables r
      \<and> resolvedResources r' = resolvedResources r \<and> length (rtStore r') = length (rtStore r)
      \<and> (\<forall>a < length (rtStore r). eesExpression (rtStore r' ! a) = eesExpression (rtStore r ! a)
           \<and> eesDependencies (rtStore r' ! a) = eesDependencies (rtStore r ! a)
           \<and> eesKind (rtStore r' ! a) = eesKind (rtStore r ! a)))"

lemma same_shape_refl [simp]: "same_shape r r"
  by (simp add: same_shape_def)

lemma same_shape_trans: "same_shape r s \<Longrightarrow> same_shape s t \<Longrightarrow> same_shape r t"
  by (simp add: same_shape_def)

lemma same_shape_inv: "same_shape r r' \<Longrightarrow> rt_inv r \<Longrightarrow> rt_inv r'"
proof -
  assume s: "same_shape r r'" and i: "rt_inv r"
  have "eesExpression (rtStore r' ! a) = eesExpression (rtStore r ! a)" if "a < length (rtStore r)" for a
    using s that by (simp add: same_shape_def)
  then show ?thesis using s i unfolding same_shape_def rt_inv_def by fastforce
qed

lemma same_shape_resolveState: "same_shape r (resolveState a x r)"
  by (auto simp: same_shape_def resolveState_def nth_list_update_if)

lemma same_shape_variablesOf: "same_shape r r' \<Longrightarrow> variablesOf r' = variablesOf r"
  by (simp add: same_shape_def variablesOf_def fun_eq_iff)

text \<open>The value an evaluation of a dynamic expression must have.\<close>

definition dynamicEnv :: "rt \<Rightarrow> cel_env" where
  "dynamicEnv r = map fst (resolvedResources r) @ [''schema'']"

definition evaluatesTo :: "cel \<Rightarrow> rt \<Rightarrow> nat \<Rightarrow> val \<Rightarrow> bool" where
  "evaluatesTo C r a x =
     (case evalContext r (eesDependencies (rtStore r ! a)) of
        None \<Rightarrow> False
      | Some ctxt \<Rightarrow> evaluateExpression C (dynamicEnv r) ctxt (eesExpression (rtStore r ! a)) = Inr x)"

text \<open>What a round of dynamic evaluation may do to one state.\<close>

definition dynamicUpdate :: "cel \<Rightarrow> rt \<Rightarrow> rt \<Rightarrow> nat \<Rightarrow> bool" where
  "dynamicUpdate C r r' a =
     (rtStore r' ! a = rtStore r ! a \<or>
      (\<not> eesResolved (rtStore r ! a) \<and> IsDynamic (eesKind (rtStore r ! a)) \<and>
       (\<exists>x. evaluatesTo C r a x \<and> rtStore r' ! a = (rtStore r ! a)\<lparr>eesResolved := True, eesValue := x\<rparr>)))"

definition dynamicRound :: "cel \<Rightarrow> rt \<Rightarrow> rt \<Rightarrow> bool" where
  "dynamicRound C r r' =
     (same_shape r r' \<and> rtInstance r' = rtInstance r \<and> rtResources r' = rtResources r
      \<and> (\<forall>a < length (rtStore r). dynamicUpdate C r r' a))"

lemma dynamicRound_refl [simp]: "dynamicRound C r r"
  by (simp add: dynamicRound_def dynamicUpdate_def)

lemma evalContext_same:
  "resolvedResources r' = resolvedResources r \<Longrightarrow> rtInstance r' = rtInstance r \<Longrightarrow> evalContext r' = evalContext r"
  by (simp add: evalContext_def fun_eq_iff instanceObject_def)

lemma dynamicRound_step:
  assumes "dynamicRound C r s" and "dynamicStep C (dynamicEnv r) a s = (s', err)" and "a < length (rtStore r)"
  shows "dynamicRound C r s'"
proof (cases "s' = s")
  case False
  have shape: "same_shape r s" "rtInstance s = rtInstance r" "rtResources s = rtResources r"
    using assms(1) by (simp_all add: dynamicRound_def)
  have ctxt: "evalContext s = evalContext r" using shape by (intro evalContext_same) (simp_all add: same_shape_def)
  obtain x where x: "IsDynamic (eesKind (rtStore s ! a))" "\<not> eesResolved (rtStore s ! a)" "s' = resolveState a x s"
      "\<exists>c. evalContext s (eesDependencies (rtStore s ! a)) = Some c
        \<and> evaluateExpression C (dynamicEnv r) c (eesExpression (rtStore s ! a)) = Inr x"
    using assms(2) False
    by (auto simp: dynamicStep_def Let_def split: if_splits option.splits sum.splits)
  have same: "rtStore s ! a = rtStore r ! a"
    using assms(1,3) x(2) by (auto simp: dynamicRound_def dynamicUpdate_def)
  have "evaluatesTo C r a x" using x(4) same ctxt by (auto simp: evaluatesTo_def)
  then have "dynamicUpdate C r s' b" if "b < length (rtStore r)" for b
    using that x(1,2,3) same assms(1,3) shape(1)
    by (auto simp: dynamicUpdate_def dynamicRound_def resolveState_def same_shape_def nth_list_update_if)
  then show ?thesis
    using shape x(3) same_shape_trans [OF shape(1) same_shape_resolveState]
    by (auto simp: dynamicRound_def resolveState_def)
qed (use assms(1) in simp)

lemma evaluateDynamic_round:
  assumes "rt_inv r" and "evaluateDynamicVariables C r = (r', err)"
  shows "dynamicRound C r r'"
proof (cases "DefaultEnvironment C [WithResourceIDs (map fst (resolvedResources r) @ [''schema''])]")
  case (Inr env)
  then have env: "env = dynamicEnv r" by (auto simp: DefaultEnvironment_ids dynamicEnv_def split: option.splits)
  have "loopE (dynamicStep C (dynamicEnv r)) (map snd (expressionsCache r)) r = (r', err)"
    using assms(2) Inr env by (simp add: evaluateDynamicVariables_def)
  then show ?thesis
  proof (rule loopE_invariant)
    fix a s s' e
    assume "a \<in> set (map snd (expressionsCache r))" and "dynamicRound C r s"
      and "dynamicStep C (dynamicEnv r) a s = (s', e)"
    then show "dynamicRound C r s'" using dynamicRound_step rt_inv_cache [OF assms(1)] by fastforce
  qed simp
qed (use assms(2) in \<open>simp add: evaluateDynamicVariables_def\<close>)

text \<open>A round without an error resolves everything whose dependencies are known.\<close>

definition available :: "rt \<Rightarrow> nat \<Rightarrow> bool" where
  "available r a = list_all (List.member (dynamicEnv r)) (eesDependencies (rtStore r ! a))"

lemma dynamicStep_resolves:
  "dynamicStep C env a s = (s', None) \<Longrightarrow> a < length (rtStore s) \<Longrightarrow> IsDynamic (eesKind (rtStore s ! a)) \<Longrightarrow>
   available s a \<Longrightarrow> eesResolved (rtStore s' ! a)"
  by (auto simp: dynamicStep_def Let_def available_def dynamicEnv_def containsAllElements_def resolveState_def
      split: if_splits option.splits sum.splits)

lemma dynamicStep_keeps:
  "dynamicStep C env a s = (s', e) \<Longrightarrow> eesResolved (rtStore s ! b) \<Longrightarrow> eesResolved (rtStore s' ! b)"
  by (cases "b < length (rtStore s)")
    (auto simp: dynamicStep_def Let_def resolveState_def nth_list_update_if split: if_splits option.splits sum.splits)

lemma evaluateDynamic_resolves:
  assumes "rt_inv r" and "evaluateDynamicVariables C r = (r', None)"
    and "a \<in> snd ` set (expressionsCache r)" and "IsDynamic (eesKind (rtStore r ! a))" and "available r a"
  shows "eesResolved (rtStore r' ! a)"
proof -
  obtain env where env: "DefaultEnvironment C [WithResourceIDs (map fst (resolvedResources r) @ [''schema''])] = Inr env"
      "loopE (dynamicStep C env) (map snd (expressionsCache r)) r = (r', None)"
    using assms(2) by (auto simp: evaluateDynamicVariables_def split: sum.splits)
  have e: "env = dynamicEnv r" using env(1) by (auto simp: DefaultEnvironment_ids dynamicEnv_def split: option.splits)
  let ?Q = "\<lambda>a s. IsDynamic (eesKind (rtStore r ! a)) \<longrightarrow> available r a \<longrightarrow> eesResolved (rtStore s ! a)"
  have "dynamicRound C r r' \<and> (\<forall>a \<in> set (map snd (expressionsCache r)). ?Q a r')"
  proof (rule loopE_all [OF env(2)])
    fix a s s'
    assume a: "a \<in> set (map snd (expressionsCache r))" "dynamicRound C r s" "dynamicStep C env a s = (s', None)"
    then have len: "a < length (rtStore r)" using rt_inv_cache [OF assms(1)] by auto
    have "eesKind (rtStore s ! a) = eesKind (rtStore r ! a)" "available s a = available r a" "a < length (rtStore s)"
      using a(2) len by (auto simp: dynamicRound_def same_shape_def available_def dynamicEnv_def)
    then show "dynamicRound C r s' \<and> ?Q a s'"
      using dynamicRound_step [of C r s a s' None] dynamicStep_resolves [OF a(3)] a len e by simp
  next
    fix a b s s'
    assume "?Q a s" and "dynamicStep C env b s = (s', None)"
    then show "?Q a s'" using dynamicStep_keeps by blast
  qed simp
  then show ?thesis using assms(3-5) by auto
qed

section \<open>Propagation\<close>

text \<open>Writing values into objects changes no expression state.\<close>

definition sameStates :: "rt \<Rightarrow> rt \<Rightarrow> bool" where
  "sameStates r r' =
     (expressionsCache r' = expressionsCache r \<and> runtimeVariables r' = runtimeVariables r
      \<and> resolvedResources r' = resolvedResources r \<and> rtStore r' = rtStore r)"

lemma sameStates_refl [simp]: "sameStates r r"
  by (simp add: sameStates_def)

lemma sameStates_trans: "sameStates r s \<Longrightarrow> sameStates s t \<Longrightarrow> sameStates r t"
  by (simp add: sameStates_def)

lemma sameStates_shape: "sameStates r r' \<Longrightarrow> same_shape r r'"
  by (simp add: sameStates_def same_shape_def)

lemma sameStates_exprValues: "sameStates r r' \<Longrightarrow> exprValues r' = exprValues r"
  by (simp add: sameStates_def exprValues_def)

lemma sameStates_resolved: "sameStates r r' \<Longrightarrow> resourceVariablesResolved r' = resourceVariablesResolved r"
  by (simp add: sameStates_def resourceVariablesResolved_def variablesOf_def fun_eq_iff)

lemma setObject_states [simp]: "sameStates r (setObject i obj r)" "rtInstance (setObject i obj r) = rtInstance r"
  by (simp_all add: sameStates_def setObject_def)

lemma setObject_resources:
  "map_of (rtResources r) i = Some res \<Longrightarrow>
   map_of (rtResources (setObject i obj r)) = (map_of (rtResources r))(i \<mapsto> res\<lparr>originalObject := obj\<rparr>)"
  by (simp add: setObject_def gomap_simps)

lemma propagateStep_frame:
  assumes "propagateStep ff i r = (r', e)"
  shows "sameStates r r' \<and> rtInstance r' = rtInstance r \<and> (\<forall>j. j \<noteq> i \<longrightarrow> map_of (rtResources r') j = map_of (rtResources r) j)"
proof -
  have "\<exists>res. map_of (rtResources r) i = Some res" if "r' \<noteq> r"
    using assms that by (auto simp: propagateStep_def canProcessResource_def split: option.splits)
  then show ?thesis
    using assms setObject_resources
    by (cases "r' = r")
      (auto simp: propagateStep_def evaluateResourceExpressions_def split: option.splits bool.splits prod.splits)
qed

interpretation others: frame "\<lambda>r r'. sameStates r r' \<and> rtInstance r' = rtInstance r \<and> map_of (rtResources r') i = map_of (rtResources r) i" for i
  by unfold_locales (auto intro: sameStates_trans)

interpretation resources: frame "\<lambda>r r'. sameStates r r' \<and> rtResources r' = rtResources r"
  by unfold_locales (auto intro: sameStates_trans)

interpretation inst: frame "\<lambda>r r'. sameStates r r' \<and> rtInstance r' = rtInstance r"
  by unfold_locales (auto intro: sameStates_trans)

lemma propagate_frame:
  assumes "loopE (propagateStep ff) is r = (r', e)" and "i \<notin> set is"
  shows "sameStates r r' \<and> rtInstance r' = rtInstance r \<and> map_of (rtResources r') i = map_of (rtResources r) i"
proof (rule others.loop_kept [OF assms(1)])
  fix j s s' e
  assume "j \<in> set is" and "propagateStep ff j s = (s', e)"
  then show "sameStates s s' \<and> rtInstance s' = rtInstance s \<and> map_of (rtResources s') i = map_of (rtResources s) i"
    using propagateStep_frame assms(2) by metis
qed

lemma propagate_states:
  "propagateResourceVariables ff r = (r', e) \<Longrightarrow> sameStates r r' \<and> rtInstance r' = rtInstance r"
  unfolding propagateResourceVariables_def by (erule inst.loop_kept) (drule propagateStep_frame, simp)

text \<open>The object a resource has after propagation: its fields resolved from the known values.\<close>

definition resolvesObject :: "(64 word \<Rightarrow> string) \<Rightarrow> rt \<Rightarrow> Resource \<Rightarrow> val gomap \<Rightarrow> bool" where
  "resolvesObject ff r res obj =
     (\<exists>rs sm. Resolve ff (NewResolver (originalObject res) (exprValues r))
                (map FieldDescriptor.truncate (resVariables res)) = Some (rs, sm)
        \<and> Errors sm = [] \<and> obj = resource rs)"

lemma propagateStep_object:
  assumes "propagateStep ff i s = (s', None)" and "map_of (rtResources s) i = Some res"
    and "canProcessResource s i = Some True"
  shows "\<exists>obj. resolvesObject ff s res obj \<and> map_of (rtResources s') i = Some (res\<lparr>originalObject := obj\<rparr>)"
  using assms
  by (auto simp: propagateStep_def evaluateResourceExpressions_def resolvesObject_def setObject_resources
      split: option.splits prod.splits if_splits)

lemma canProcess_states:
  "sameStates r s \<Longrightarrow> map_of (rtResources s) i = map_of (rtResources r) i \<Longrightarrow>
   canProcessResource s i = canProcessResource r i"
  using sameStates_resolved [of r s] by (simp add: canProcessResource_def split: option.splits)

lemma propagate_object:
  assumes "loopE (propagateStep ff) is s = (s', None)" and "distinct is" and "i \<in> set is"
    and "sameStates r s" and "map_of (rtResources s) i = Some res" and "canProcessResource s i = Some True"
  shows "\<exists>obj. resolvesObject ff r res obj \<and> map_of (rtResources s') i = Some (res\<lparr>originalObject := obj\<rparr>)"
  using assms
proof (induction "is" arbitrary: s)
  case (Cons j js)
  from Cons.prems(1) obtain t where t: "propagateStep ff j s = (t, None)" "loopE (propagateStep ff) js t = (s', None)"
    by (auto split: prod.splits option.splits)
  have st: "sameStates s t" using propagateStep_frame [OF t(1)] by blast
  show ?case
  proof (cases "j = i")
    case True
    then have "i \<notin> set js" using Cons.prems(2) by auto
    then have "map_of (rtResources s') i = map_of (rtResources t) i" using propagate_frame [OF t(2)] by blast
    then show ?thesis
      using propagateStep_object [of ff i s t res] t(1) True Cons.prems sameStates_exprValues [OF Cons.prems(4)]
      by (auto simp: resolvesObject_def)
  next
    case False
    then have same: "map_of (rtResources t) i = map_of (rtResources s) i" using propagateStep_frame [OF t(1)] by auto
    show ?thesis
      using False Cons.prems same st canProcess_states [OF st same] sameStates_trans [OF Cons.prems(4) st]
      by (intro Cons.IH [OF t(2)]) auto
  qed
qed simp

lemma instanceStep_frame:
  "instanceStep v r = (r', e) \<Longrightarrow> sameStates r r' \<and> rtResources r' = rtResources r"
  by (auto simp: instanceStep_def sameStates_def split: list.splits option.splits if_splits)

lemma evaluateInstance_frame:
  "evaluateInstanceStatuses r = (r', e) \<Longrightarrow> sameStates r r' \<and> rtResources r' = rtResources r"
  unfolding evaluateInstanceStatuses_def by (erule resources.loop_kept) (rule instanceStep_frame)

section \<open>Synchronisation\<close>

text \<open>What a call of \<open>Synchronize\<close> may do to the expression states.\<close>

definition statesRound :: "cel \<Rightarrow> rt \<Rightarrow> rt \<Rightarrow> bool" where
  "statesRound C r r' = (same_shape r r' \<and> (\<forall>a < length (rtStore r). dynamicUpdate C r r' a))"

lemma statesRound_same: "dynamicRound C r s \<Longrightarrow> sameStates s t \<Longrightarrow> statesRound C r t"
  using sameStates_shape same_shape_trans
  by (auto simp: statesRound_def dynamicRound_def dynamicUpdate_def sameStates_def)

lemma Synchronize_cases:
  assumes "Synchronize ff C r = (r', again, err)"
  obtains "r' = r" "\<not> again" "err = None"
  | r1 e where "evaluateDynamicVariables C r = (r1, e)" "sameStates r1 r'" "err = None \<Longrightarrow> e = None" "again"
      "err = None \<Longrightarrow> \<exists>r2. propagateResourceVariables ff r1 = (r2, None) \<and> rtResources r' = rtResources r2"
proof (cases "allExpressionsAreResolved r \<and> length (resolvedResources r) = length (rtResources r)")
  case True
  then show thesis using assms that(1) by (auto simp: Synchronize_def)
next
  case False
  obtain r1 e1 where r1: "evaluateDynamicVariables C r = (r1, e1)" by fastforce
  obtain r2 e2 where r2: "propagateResourceVariables ff r1 = (r2, e2)" by fastforce
  obtain r3 e3 where r3: "evaluateInstanceStatuses r2 = (r3, e3)" by fastforce
  have s2: "sameStates r1 r2" using propagate_states [OF r2] by simp
  have s3: "sameStates r1 r3" "rtResources r3 = rtResources r2"
    using evaluateInstance_frame [OF r3] sameStates_trans [OF s2] by simp_all
  consider e where "e1 = Some e" "r' = r1" "again" "err \<noteq> None"
    | e where "e1 = None" "e2 = Some e" "r' = r2" "again" "err \<noteq> None"
    | "e1 = None" "e2 = None" "r' = r3" "again" "err = None \<longrightarrow> e3 = None"
    using assms False r1 r2 r3 unfolding Synchronize_def
    by (cases e1; cases e2; cases e3) auto
  then show thesis
  proof cases
    case 1
    then show ?thesis using that(2) [of r1 e1] r1 by auto
  next
    case 2
    then show ?thesis using that(2) [of r1 e1] r1 s2 by auto
  next
    case 3
    then show ?thesis using that(2) [of r1 e1] r1 r2 s3 by auto
  qed
qed

section \<open>Construction\<close>

text \<open>
  While the runtime is built nothing is resolved yet, and every step only adds: states,
  variables and cached expressions.
\<close>

definition fresh_inv :: "rt \<Rightarrow> bool" where
  "fresh_inv r = (rt_inv r \<and> (\<forall>a < length (rtStore r). \<not> eesResolved (rtStore r ! a)))"

definition grows :: "rt \<Rightarrow> rt \<Rightarrow> bool" where
  "grows r r' =
     (prefix (rtStore r) (rtStore r') \<and> fst ` set (expressionsCache r) \<subseteq> fst ` set (expressionsCache r')
      \<and> (\<forall>i. set (variablesOf r i) \<subseteq> set (variablesOf r' i)))"

text \<open>The expression is among the variables of the resource.\<close>

definition listed :: "rt \<Rightarrow> string \<Rightarrow> string \<Rightarrow> bool" where
  "listed r i e = (\<exists>a \<in> set (variablesOf r i). a < length (rtStore r) \<and> eesExpression (rtStore r ! a) = e)"

lemma grows_refl [simp]: "grows r r"
  by (simp add: grows_def)

lemma grows_trans: "grows r s \<Longrightarrow> grows s t \<Longrightarrow> grows r t"
  unfolding grows_def by (meson prefix_order.trans subset_trans)

lemma grows_listed: "grows r r' \<Longrightarrow> listed r i e \<Longrightarrow> listed r' i e"
proof -
  assume g: "grows r r'" and "listed r i e"
  then obtain a where a: "a \<in> set (variablesOf r i)" "a < length (rtStore r)" "eesExpression (rtStore r ! a) = e"
    by (auto simp: listed_def)
  obtain t where "rtStore r' = rtStore r @ t" using g by (auto simp: grows_def prefix_def)
  then have "a < length (rtStore r')" "rtStore r' ! a = rtStore r ! a" using a(2) by (simp_all add: nth_append)
  moreover have "a \<in> set (variablesOf r' i)" using g a(1) by (auto simp: grows_def)
  ultimately show ?thesis using a(3) by (auto simp: listed_def)
qed

lemma fold_grows: "(\<And>x r. grows r (f x r)) \<Longrightarrow> grows r (fold f xs r)"
  by (induction xs arbitrary: r) (auto intro: grows_trans)

lemma variablesOf_addVariable:
  "variablesOf (addVariable i a r) j = (if j = i then variablesOf r i @ [a] else variablesOf r j)"
  by (simp add: variablesOf_def addVariable_def gomap_simps)

lemma variablesOf_cacheState [simp]: "variablesOf (cacheState s r) = variablesOf r"
  by (simp add: variablesOf_def cacheState_def fun_eq_iff)

lemma fst_update: "fst ` set (AList.update k v m) = insert k (fst ` set m)"
  by (simp add: dom_map_of_conv_image_fst [symmetric] update_conv')

lemma grows_addVariable [simp]: "grows r (addVariable i a r)"
proof -
  have "rtStore (addVariable i a r) = rtStore r" "expressionsCache (addVariable i a r) = expressionsCache r"
    by (simp_all add: addVariable_def)
  then show ?thesis by (auto simp: grows_def variablesOf_addVariable)
qed

lemma grows_cacheState [simp]: "grows r (cacheState s r)"
  by (simp add: grows_def) (auto simp: cacheState_def fst_update)

lemma grows_addExpression [simp]: "grows r (addExpression i v e r)"
  unfolding addExpression_def
  by (auto split: option.splits intro: grows_trans [OF grows_addVariable grows_cacheState])

lemma grows_addVariables [simp]: "grows r (addVariables i vs r)"
  unfolding addVariables_def by (intro fold_grows) simp

lemma grows_addResource [simp]: "grows r (addResource x r)"
  unfolding addResource_def
  by (rule grows_trans [OF grows_addVariables fold_grows]) (simp add: addReadyWhen_def)

lemma fresh_addVariable:
  assumes "fresh_inv r" and "a < length (rtStore r)"
  shows "fresh_inv (addVariable i a r)"
proof -
  have "a' < length (rtStore r)" if "(j, as) \<in> set (runtimeVariables (addVariable i a r))" "a' \<in> set as" for j as a'
  proof -
    have "(j, as) \<in> set (runtimeVariables r) \<or> as = variablesOf r i @ [a]"
      using that(1) in_set_update by (fastforce simp: addVariable_def)
    moreover have "rt_inv r" using assms(1) by (simp add: fresh_inv_def)
    ultimately show ?thesis
      using that(2) assms(2) rt_inv_variables [of r a' i] by (elim disjE) (auto simp: rt_inv_def)
  qed
  then have "rt_inv (addVariable i a r)"
    using assms(1) rt_inv_cache [of r] rt_inv_distinct [of r]
    by (intro rt_invI) (auto simp: fresh_inv_def addVariable_def)
  then show ?thesis using assms(1) by (simp add: fresh_inv_def addVariable_def)
qed

lemma fresh_cacheState:
  assumes "fresh_inv r" and "\<not> eesResolved s"
  shows "fresh_inv (cacheState s r)"
proof -
  have "rt_inv (cacheState s r)"
  proof (rule rt_invI)
    fix e a
    assume "(e, a) \<in> set (expressionsCache (cacheState s r))"
    then have "(e, a) \<in> set (expressionsCache r) \<or> (e = eesExpression s \<and> a = length (rtStore r))"
      using in_set_update by (fastforce simp: cacheState_def)
    then show "a < length (rtStore (cacheState s r)) \<and> eesExpression (rtStore (cacheState s r) ! a) = e"
      using assms(1) rt_inv_cache by (fastforce simp: fresh_inv_def cacheState_def nth_append)
  next
    show "distinct (map fst (expressionsCache (cacheState s r)))"
      using assms(1) by (simp add: fresh_inv_def rt_inv_def cacheState_def distinct_update)
  next
    fix i as a
    assume "(i, as) \<in> set (runtimeVariables (cacheState s r))" and "a \<in> set as"
    then show "a < length (rtStore (cacheState s r))"
      using assms(1) by (fastforce simp: fresh_inv_def rt_inv_def cacheState_def)
  qed
  then show ?thesis using assms by (auto simp: fresh_inv_def cacheState_def nth_append less_Suc_eq)
qed

lemma addExpression_new:
  "map_of (expressionsCache r) e = None \<Longrightarrow>
   addExpression i v e r =
     addVariable i (length (rtStore r)) (cacheState (newState e (Dependencies v) (Kind v)) r)"
  by (simp add: addExpression_def addVariable_def cacheState_def variablesOf_def)

lemma addExpression_fresh:
  assumes "fresh_inv r"
  shows "fresh_inv (addExpression i v e r) \<and> listed (addExpression i v e r) i e"
proof (cases "map_of (expressionsCache r) e")
  case None
  let ?s = "cacheState (newState e (Dependencies v) (Kind v)) r"
  have "fresh_inv ?s" using assms by (intro fresh_cacheState) (simp_all add: newState_def)
  moreover have "length (rtStore r) < length (rtStore ?s)" "eesExpression (rtStore ?s ! length (rtStore r)) = e"
    by (simp_all add: cacheState_def newState_def)
  ultimately show ?thesis
    using fresh_addVariable [of ?s "length (rtStore r)" i] None
    by (auto simp: addExpression_new listed_def variablesOf_addVariable) (simp_all add: addVariable_def)
next
  case (Some a)
  then have "a < length (rtStore r)" "eesExpression (rtStore r ! a) = e"
    using assms rt_inv_cache [of r e a] map_of_SomeD [OF Some] by (simp_all add: fresh_inv_def)
  then show ?thesis
    using fresh_addVariable [OF assms] Some
    by (auto simp: addExpression_def listed_def variablesOf_addVariable) (simp_all add: addVariable_def)
qed

text \<open>A fold whose steps keep an invariant and each establish something that growth keeps.\<close>

lemma fold_establishes:
  assumes "fresh_inv r" and "\<And>x r. fresh_inv r \<Longrightarrow> fresh_inv (f x r) \<and> Q x (f x r)"
    and "\<And>x r. grows r (f x r)" and "\<And>x r r'. Q x r \<Longrightarrow> grows r r' \<Longrightarrow> Q x r'"
  shows "fresh_inv (fold f xs r) \<and> (\<forall>x \<in> set xs. Q x (fold f xs r))"
  using assms(1)
proof (induction xs arbitrary: r)
  case (Cons x xs)
  have x: "fresh_inv (f x r)" "Q x (f x r)" using assms(2) [OF Cons.prems] by simp_all
  have "grows (f x r) (fold f xs (f x r))" by (rule fold_grows) (rule assms(3))
  then have "Q x (fold f xs (f x r))" by (rule assms(4) [OF x(2)])
  then show ?case using Cons.IH [OF x(1)] by simp
next
  case Nil
  then show ?case by (simp only: fold_simps list.set) blast
qed

lemma addVariables_fresh:
  assumes "fresh_inv r"
  shows "fresh_inv (addVariables i vs r) \<and> (\<forall>v \<in> set vs. \<forall>e \<in> set (Expressions v). listed (addVariables i vs r) i e)"
  unfolding addVariables_def
proof (rule fold_establishes [where Q = "\<lambda>v r. \<forall>e \<in> set (Expressions v). listed r i e"])
  fix v r
  assume "fresh_inv r"
  then show "fresh_inv (fold (addExpression i v) (Expressions v) r)
      \<and> (\<forall>e \<in> set (Expressions v). listed (fold (addExpression i v) (Expressions v) r) i e)"
    by (rule fold_establishes) (use addExpression_fresh grows_listed in auto)
qed (use assms in \<open>auto intro: fold_grows grows_listed\<close>)

lemma addResource_fresh:
  assumes "fresh_inv r"
  shows "fresh_inv (addResource x r)
    \<and> (\<forall>v \<in> set (resVariables (snd x)). \<forall>e \<in> set (Expressions v). listed (addResource x r) (fst x) e)"
proof -
  let ?s = "addVariables (fst x) (resVariables (snd x)) r"
  have "fresh_inv (fold addReadyWhen es s)" if "fresh_inv s" for es s
    using that fresh_cacheState
    by (induction es arbitrary: s) (simp_all add: addReadyWhen_def newState_def)
  moreover have "grows ?s (addResource x r)"
    unfolding addResource_def by (rule fold_grows) (simp add: addReadyWhen_def)
  ultimately show ?thesis
    using addVariables_fresh [OF assms] grows_listed by (auto simp: addResource_def)
qed

definition builtRuntime :: "Resource \<Rightarrow> Resource gomap \<Rightarrow> string list \<Rightarrow> rt" where
  "builtRuntime inst resources order =
     addVariables ''instance'' (resVariables inst) (fold addResource resources (emptyRuntime inst resources order))"

lemma builtRuntime_fresh:
  "fresh_inv (builtRuntime inst resources order) \<and>
   (\<forall>(i, res) \<in> set resources. \<forall>v \<in> set (resVariables res). \<forall>e \<in> set (Expressions v).
      listed (builtRuntime inst resources order) i e) \<and>
   (\<forall>v \<in> set (resVariables inst). \<forall>e \<in> set (Expressions v). listed (builtRuntime inst resources order) ''instance'' e)"
proof -
  have "fresh_inv (emptyRuntime inst resources order)" by (simp add: fresh_inv_def rt_inv_def emptyRuntime_def)
  then have "fresh_inv (fold addResource resources (emptyRuntime inst resources order)) \<and>
      (\<forall>x \<in> set resources. \<forall>v \<in> set (resVariables (snd x)). \<forall>e \<in> set (Expressions v).
        listed (fold addResource resources (emptyRuntime inst resources order)) (fst x) e)"
    by (rule fold_establishes) (use addResource_fresh grows_listed in auto)
  then show ?thesis
    unfolding builtRuntime_def using addVariables_fresh grows_listed [OF grows_addVariables] by fastforce
qed

lemma addVariables_parts [simp]:
  "rtInstance (addVariables i vs r) = rtInstance r" "rtResources (addVariables i vs r) = rtResources r"
  "topologicalOrder (addVariables i vs r) = topologicalOrder r"
proof -
  have e: "rtInstance (addExpression i v e s) = rtInstance s \<and> rtResources (addExpression i v e s) = rtResources s
      \<and> topologicalOrder (addExpression i v e s) = topologicalOrder s" for v e s
    by (simp add: addExpression_def addVariable_def cacheState_def split: option.splits)
  have "rtInstance (fold (addExpression i v) es s) = rtInstance s \<and> rtResources (fold (addExpression i v) es s) = rtResources s
      \<and> topologicalOrder (fold (addExpression i v) es s) = topologicalOrder s" for v es s
    by (induction es arbitrary: s) (simp_all add: e)
  then have "rtInstance (addVariables i vs r) = rtInstance r \<and> rtResources (addVariables i vs r) = rtResources r
      \<and> topologicalOrder (addVariables i vs r) = topologicalOrder r"
    unfolding addVariables_def by (induction vs arbitrary: r) simp_all
  then show "rtInstance (addVariables i vs r) = rtInstance r" "rtResources (addVariables i vs r) = rtResources r"
    "topologicalOrder (addVariables i vs r) = topologicalOrder r" by simp_all
qed

lemma addResource_parts [simp]:
  "rtInstance (addResource x r) = rtInstance r" "rtResources (addResource x r) = rtResources r"
  "topologicalOrder (addResource x r) = topologicalOrder r"
proof -
  have "rtInstance (fold addReadyWhen es s) = rtInstance s \<and> rtResources (fold addReadyWhen es s) = rtResources s
      \<and> topologicalOrder (fold addReadyWhen es s) = topologicalOrder s" for es s
    by (induction es arbitrary: s) (simp_all add: addReadyWhen_def cacheState_def)
  then show "rtInstance (addResource x r) = rtInstance r" "rtResources (addResource x r) = rtResources r"
    "topologicalOrder (addResource x r) = topologicalOrder r" by (simp_all add: addResource_def)
qed

lemma builtRuntime_parts:
  "rtInstance (builtRuntime inst resources order) = inst" "rtResources (builtRuntime inst resources order) = resources"
  "topologicalOrder (builtRuntime inst resources order) = order"
proof -
  have "rtInstance (fold addResource xs r) = rtInstance r \<and> rtResources (fold addResource xs r) = rtResources r
      \<and> topologicalOrder (fold addResource xs r) = topologicalOrder r" for xs r
    by (induction xs arbitrary: r) simp_all
  then show "rtInstance (builtRuntime inst resources order) = inst" "rtResources (builtRuntime inst resources order) = resources"
    "topologicalOrder (builtRuntime inst resources order) = order"
    by (simp_all add: builtRuntime_def emptyRuntime_def)
qed

section \<open>Static variables\<close>

definition staticValue :: "cel \<Rightarrow> Resource \<Rightarrow> string \<Rightarrow> string + val" where
  "staticValue C inst e = evaluateExpression C [''schema''] [(''schema'', VMap (originalObject inst))] e"

text \<open>After the static evaluation the static states have their values, the others are as before.\<close>

definition staticRound :: "cel \<Rightarrow> rt \<Rightarrow> rt \<Rightarrow> bool" where
  "staticRound C r r' =
     (same_shape r r' \<and> rtInstance r' = rtInstance r \<and> rtResources r' = rtResources r
      \<and> topologicalOrder r' = topologicalOrder r
      \<and> (\<forall>a < length (rtStore r). \<not> IsStatic (eesKind (rtStore r ! a)) \<longrightarrow> rtStore r' ! a = rtStore r ! a))"

lemma staticRound_step:
  assumes "staticRound C r s" and "staticStep C [''schema''] a s = (s', err)" and "a < length (rtStore r)"
  shows "staticRound C r s'"
proof (cases "s' = s")
  case False
  then obtain x where x: "IsStatic (eesKind (rtStore s ! a))" "s' = resolveState a x s"
    using assms(2) by (auto simp: staticStep_def Let_def split: if_splits sum.splits)
  have "IsStatic (eesKind (rtStore r ! a))" using x(1) assms(1,3) by (simp add: staticRound_def same_shape_def)
  moreover have "same_shape r s'"
    using assms(1) x(2) same_shape_trans [OF _ same_shape_resolveState] by (auto simp: staticRound_def)
  ultimately show ?thesis
    using assms(1) x(2) by (auto simp: staticRound_def resolveState_def nth_list_update_if)
qed (use assms(1) in simp)

lemma evaluateStatic_round:
  assumes "rt_inv r" and "evaluateStaticVariables C r = (r', None)"
  shows "staticRound C r r' \<and> (\<forall>(e, a) \<in> set (expressionsCache r). IsStatic (eesKind (rtStore r ! a)) \<longrightarrow>
    eesResolved (rtStore r' ! a) \<and> staticValue C (rtInstance r) e = Inr (eesValue (rtStore r' ! a)))"
proof -
  let ?Q = "\<lambda>a s. IsStatic (eesKind (rtStore r ! a)) \<longrightarrow>
    eesResolved (rtStore s ! a) \<and> staticValue C (rtInstance r) (eesExpression (rtStore r ! a)) = Inr (eesValue (rtStore s ! a))"
  have run: "loopE (staticStep C [''schema'']) (map snd (expressionsCache r)) r = (r', None)"
    using assms(2) by (auto simp: evaluateStaticVariables_def DefaultEnvironment_ids split: option.splits sum.splits)
  have "staticRound C r r' \<and> (\<forall>a \<in> set (map snd (expressionsCache r)). ?Q a r')"
  proof (rule loopE_all [OF run])
    fix a s s'
    assume a: "a \<in> set (map snd (expressionsCache r))" "staticRound C r s" "staticStep C [''schema''] a s = (s', None)"
    then have len: "a < length (rtStore r)" using rt_inv_cache [OF assms(1)] by auto
    then have "?Q a s'" using a(2,3)
      by (auto simp: staticStep_def Let_def staticRound_def same_shape_def resolveState_def staticValue_def
          instanceObject_def split: sum.splits if_splits)
    then show "staticRound C r s' \<and> ?Q a s'" using staticRound_step [OF a(2,3) len] by simp
  next
    fix a b s s'
    assume b: "b \<in> set (map snd (expressionsCache r))" "staticRound C r s" "?Q a s" "staticStep C [''schema''] b s = (s', None)"
    then have "b < length (rtStore r)" using rt_inv_cache [OF assms(1)] by auto
    then show "?Q a s'" using b(2,3,4)
      by (auto simp: staticStep_def Let_def staticRound_def same_shape_def resolveState_def staticValue_def
          instanceObject_def nth_list_update_if split: sum.splits if_splits)
  qed (simp add: staticRound_def)
  then show ?thesis using rt_inv_cache [OF assms(1)] by fastforce
qed

section \<open>Conditions\<close>

lemma checkConditions_AllTrue:
  "checkConditions C env ctxt es = AllTrue \<longleftrightarrow> (\<forall>e \<in> set es. evaluateExpression C env ctxt e = Inr (VBool True))"
proof (induction es)
  case (Cons e es)
  then show ?case
    by (simp split: sum.splits val.splits bool.splits)
qed simp

text \<open>The variables of the resources are the cached states: no other state has replaced one.\<close>

definition coherent :: "rt \<Rightarrow> bool" where
  "coherent r = (\<forall>i. \<forall>a \<in> set (variablesOf r i). a \<in> snd ` set (expressionsCache r))"

lemma resourceVariablesResolved_iff:
  "resourceVariablesResolved r i \<longleftrightarrow>
   (\<forall>a \<in> set (variablesOf r i). IsDynamic (eesKind (rtStore r ! a)) \<longrightarrow> eesResolved (rtStore r ! a))"
  by (auto simp: resourceVariablesResolved_def list_all_iff)

section \<open>Properties\<close>

definition sampleCel :: cel where
  "sampleCel = \<lparr>celNewEnv = (\<lambda>ids. None), celCompile = (\<lambda>ids e. None), celProgram = (\<lambda>ids e. None),
     celEval = (\<lambda>ids e ctxt. Inr (if e = ''schema.spec.name'' then RString ''web'' else RInt 7))\<rparr>"

definition sampleGvr :: GroupVersionResource where
  "sampleGvr = \<lparr>gvrGroup = ''apps'', gvrVersion = ''v1'', gvrResource = ''deployments''\<rparr>"

definition sampleVariable :: "string \<Rightarrow> string \<Rightarrow> ResourceVariableKind \<Rightarrow> string list \<Rightarrow> ResourceField" where
  "sampleVariable path e k deps =
     \<lparr>Path = path, Expressions = [e], ExpectedType = ''any'', ExpectedSchema = None, StandaloneExpression = True,
      Kind = k, Dependencies = deps\<rparr>"

definition sampleNode :: "string \<Rightarrow> val gomap \<Rightarrow> ResourceField list \<Rightarrow> string list \<Rightarrow> Resource" where
  "sampleNode i obj vs deps =
     \<lparr>resId = i, resGvr = sampleGvr, resSchema = None, resCrd = None, originalObject = obj, emulatedObject = None,
      resVariables = vs, resDependencies = deps, readyWhenExpressions = [], includeWhenExpressions = [], resNamespaced = True\<rparr>"

definition sampleInstance :: Resource where
  "sampleInstance = sampleNode ''instance'' [(''spec'', VMap [(''name'', VStr ''web'')])] [] []"

definition sampleResources :: "Resource gomap" where
  "sampleResources =
     [(''vpc'', sampleNode ''vpc'' [(''name'', VStr ''${schema.spec.name}'')]
         [sampleVariable ''name'' ''schema.spec.name'' ResourceVariableKindStatic []] []),
      (''subnet'', sampleNode ''subnet'' [(''vpcID'', VStr ''${vpc.status.id}'')]
         [sampleVariable ''vpcID'' ''vpc.status.id'' ResourceVariableKindDynamic [''vpc'']] [''vpc''])]"

definition sampleRuntime :: rt where
  "sampleRuntime =
     \<lparr>rtInstance = sampleInstance,
      rtResources =
        [(''vpc'', sampleNode ''vpc'' [(''name'', VStr ''web'')]
            [sampleVariable ''name'' ''schema.spec.name'' ResourceVariableKindStatic []] []),
         (''subnet'', sampleNode ''subnet'' [(''vpcID'', VStr ''${vpc.status.id}'')]
            [sampleVariable ''vpcID'' ''vpc.status.id'' ResourceVariableKindDynamic [''vpc'']] [''vpc''])],
      resolvedResources = [], runtimeVariables = [(''vpc'', [0]), (''subnet'', [1])],
      expressionsCache = [(''schema.spec.name'', 0), (''vpc.status.id'', 1)],
      rtStore = [\<lparr>eesExpression = ''schema.spec.name'', eesDependencies = [], eesKind = ResourceVariableKindStatic,
                   eesResolved = True, eesValue = VStr ''web''\<rparr>,
                 newState ''vpc.status.id'' [''vpc''] ResourceVariableKindDynamic],
      topologicalOrder = [''vpc'', ''subnet''], ignoredByConditionsResources = []\<rparr>"

definition sampleRuntimeVpc :: rt where
  "sampleRuntimeVpc = SetResource ''vpc'' [(''name'', VStr ''web''), (''status'', VMap [(''id'', VInt 7)])] sampleRuntime"

lemma sampleRuntime_new:
  "NewResourceGroupRuntime (\<lambda>w. []) sampleCel sampleInstance sampleResources [''vpc'', ''subnet''] = Inr sampleRuntime"
  by code_simp

lemma sampleRuntimeVpc_inv: "rt_inv sampleRuntimeVpc"
  by (simp add: rt_inv_def sampleRuntimeVpc_def SetResource_def sampleRuntime_def newState_def)

lemma sampleRuntimeVpc_sync:
  "\<exists>r'. Synchronize (\<lambda>w. []) sampleCel sampleRuntimeVpc = (r', True, None)"
proof -
  have "case Synchronize (\<lambda>w. []) sampleCel sampleRuntimeVpc of (r', again, err) \<Rightarrow> again \<and> err = None"
    by code_simp
  then show ?thesis by (auto split: prod.splits)
qed

text \<open>
  A runtime that \<open>NewResourceGroupRuntime\<close> returns keeps the objects of the graph apart from
  their resolved fields, lists every expression of every resource and of the instance, and has
  resolved exactly the static expressions, each to its value on the instance; every other
  expression is unresolved.
\<close>

lemma new_runtime_resolves_static:
  assumes "NewResourceGroupRuntime ff C inst resources order = Inr r"
  shows "rt_inv r \<and> rtInstance r = inst \<and>
    (\<forall>(i, res) \<in> set resources. \<forall>v \<in> set (resVariables res). \<forall>e \<in> set (Expressions v). listed r i e) \<and>
    (\<forall>v \<in> set (resVariables inst). \<forall>e \<in> set (Expressions v). listed r ''instance'' e) \<and>
    (\<forall>(e, a) \<in> set (expressionsCache r).
       if IsStatic (eesKind (rtStore r ! a))
       then eesResolved (rtStore r ! a) \<and> staticValue C inst e = Inr (eesValue (rtStore r ! a))
       else \<not> eesResolved (rtStore r ! a))"
proof -
  let ?b = "builtRuntime inst resources order"
  obtain r1 where r1: "evaluateStaticVariables C ?b = (r1, None)" "propagateResourceVariables ff r1 = (r, None)"
    using assms by (auto simp: NewResourceGroupRuntime_def Let_def builtRuntime_def split: prod.splits option.splits)
  have b: "fresh_inv ?b" "rt_inv ?b" using builtRuntime_fresh [of inst resources order] by (auto simp: fresh_inv_def)
  have st: "staticRound C ?b r1" and vals: "\<forall>(e, a) \<in> set (expressionsCache ?b). IsStatic (eesKind (rtStore ?b ! a)) \<longrightarrow>
      eesResolved (rtStore r1 ! a) \<and> staticValue C inst e = Inr (eesValue (rtStore r1 ! a))"
    using evaluateStatic_round [OF b(2) r1(1)] by (simp_all add: builtRuntime_parts)
  have same: "sameStates r1 r" "rtInstance r = rtInstance r1" using propagate_states [OF r1(2)] by simp_all
  have shape: "same_shape ?b r" using st same_shape_trans sameStates_shape [OF same(1)] by (auto simp: staticRound_def)
  then have "listed r i e" if "listed ?b i e" for i e
    using that same_shape_variablesOf [OF shape] by (auto simp: listed_def same_shape_def)
  moreover have "if IsStatic (eesKind (rtStore r ! a))
       then eesResolved (rtStore r ! a) \<and> staticValue C inst e = Inr (eesValue (rtStore r ! a))
       else \<not> eesResolved (rtStore r ! a)" if ea: "(e, a) \<in> set (expressionsCache r)" for e a
  proof -
    have mem: "(e, a) \<in> set (expressionsCache ?b)" using ea shape by (simp add: same_shape_def)
    then have len: "a < length (rtStore ?b)" using rt_inv_cache [OF b(2)] by blast
    then have "eesKind (rtStore r ! a) = eesKind (rtStore ?b ! a)" using shape by (simp add: same_shape_def)
    moreover have "rtStore r ! a = rtStore r1 ! a" using same(1) by (simp add: sameStates_def)
    moreover have "\<not> eesResolved (rtStore ?b ! a)" using b(1) len by (simp add: fresh_inv_def)
    ultimately show ?thesis using vals mem st len by (auto simp: staticRound_def)
  qed
  ultimately show ?thesis
    using builtRuntime_fresh [of inst resources order] same_shape_inv [OF shape b(2)] same(2) st
    by (auto simp: staticRound_def builtRuntime_parts)
qed

lemma new_runtime_resolves_static_witness:
  "staticValue sampleCel sampleInstance ''schema.spec.name'' = Inr (VStr ''web'') \<and>
   listed sampleRuntime ''subnet'' ''vpc.status.id''"
proof -
  have cached: "(''schema.spec.name'', 0) \<in> set (expressionsCache sampleRuntime)"
    and static: "IsStatic (eesKind (rtStore sampleRuntime ! 0))" "eesValue (rtStore sampleRuntime ! 0) = VStr ''web''"
    by (simp_all add: sampleRuntime_def IsStatic_def)
  have var: "(''subnet'', sampleNode ''subnet'' [(''vpcID'', VStr ''${vpc.status.id}'')]
      [sampleVariable ''vpcID'' ''vpc.status.id'' ResourceVariableKindDynamic [''vpc'']] [''vpc'']) \<in> set sampleResources"
    by (simp add: sampleResources_def)
  note new = new_runtime_resolves_static [OF sampleRuntime_new]
  have "staticValue sampleCel sampleInstance ''schema.spec.name'' = Inr (VStr ''web'')"
    using bspec [OF conjunct2 [OF conjunct2 [OF conjunct2 [OF conjunct2 [OF new]]]] cached] static by simp
  moreover have "listed sampleRuntime ''subnet'' ''vpc.status.id''"
    using bspec [OF conjunct1 [OF conjunct2 [OF conjunct2 [OF new]]] var]
    by (simp add: sampleNode_def sampleVariable_def)
  ultimately show ?thesis by (rule conjI)
qed

text \<open>
  C7. \<open>Synchronize\<close>, whether it returns an error or not, keeps the invariant and never changes
  an expression that is already resolved; an expression it resolves is a dynamic one whose
  dependencies are all known, and gets the value of its evaluation on them. If it returns no
  error and asks to be called again, every cached dynamic expression whose dependencies are
  known is resolved.
\<close>

theorem synchronize_resolves_available:
  assumes "rt_inv r" and "Synchronize ff C r = (r', again, err)"
  shows "rt_inv r' \<and>
    (\<forall>a < length (rtStore r). rtStore r' ! a = rtStore r ! a \<or>
       (\<not> eesResolved (rtStore r ! a) \<and> IsDynamic (eesKind (rtStore r ! a)) \<and>
        (\<exists>x. evaluatesTo C r a x \<and> rtStore r' ! a = (rtStore r ! a)\<lparr>eesResolved := True, eesValue := x\<rparr>))) \<and>
    (err = None \<longrightarrow> again \<longrightarrow> (\<forall>a \<in> snd ` set (expressionsCache r).
       IsDynamic (eesKind (rtStore r ! a)) \<longrightarrow> available r a \<longrightarrow> eesResolved (rtStore r' ! a)))"
  using assms(2)
proof (cases rule: Synchronize_cases)
  case 1
  then show ?thesis using assms(1) by simp
next
  case (2 r1 e)
  have round: "statesRound C r r'" using statesRound_same [OF evaluateDynamic_round [OF assms(1) 2(1)] 2(2)] .
  have "eesResolved (rtStore r' ! a)"
    if "err = None" "a \<in> snd ` set (expressionsCache r)" "IsDynamic (eesKind (rtStore r ! a))" "available r a" for a
    using evaluateDynamic_resolves [OF assms(1), of C r1 a] 2(1,2) 2(3) [OF that(1)] that by (simp add: sameStates_def)
  then show ?thesis
    using round same_shape_inv [OF _ assms(1)] by (auto simp: statesRound_def dynamicUpdate_def)
qed

theorem synchronize_resolves_available_witness:
  "\<exists>r'. Synchronize (\<lambda>w. []) sampleCel sampleRuntimeVpc = (r', True, None) \<and> eesResolved (rtStore r' ! 1)"
proof -
  obtain r' where r': "Synchronize (\<lambda>w. []) sampleCel sampleRuntimeVpc = (r', True, None)"
    using sampleRuntimeVpc_sync by blast
  have "(1::nat) \<in> snd ` set (expressionsCache sampleRuntimeVpc)" "IsDynamic (eesKind (rtStore sampleRuntimeVpc ! 1))"
    "available sampleRuntimeVpc 1"
    by code_simp+
  then show ?thesis using synchronize_resolves_available [OF sampleRuntimeVpc_inv r'] r' by blast
qed

text \<open>What the two halves of \<open>Synchronize\<close> do for one resource.\<close>

lemma propagate_dependencies:
  assumes "propagateResourceVariables ff r = (r', err)" and "map_of (rtResources r) i = Some res"
  shows "\<exists>res'. map_of (rtResources r') i = Some res' \<and> resDependencies res' = resDependencies res"
proof (rule loopE_invariant [OF assms(1) [unfolded propagateResourceVariables_def]])
  fix j s s' e
  assume "\<exists>res'. map_of (rtResources s) i = Some res' \<and> resDependencies res' = resDependencies res"
    and "propagateStep ff j s = (s', e)"
  then show "\<exists>res'. map_of (rtResources s') i = Some res' \<and> resDependencies res' = resDependencies res"
    by (auto simp: propagateStep_def evaluateResourceExpressions_def setObject_resources
        split: option.splits bool.splits prod.splits)
qed (use assms(2) in simp)

lemma dynamicRound_kind:
  assumes "rt_inv r" and "dynamicRound C r r'" and "a \<in> set (variablesOf r j)"
  shows "eesKind (rtStore r' ! a) = eesKind (rtStore r ! a)"
  using assms(2) rt_inv_variables [OF assms(1,3)] by (simp add: dynamicRound_def same_shape_def)

text \<open>Only the states in the cache are evaluated.\<close>

lemma evaluateDynamic_uncached:
  assumes "evaluateDynamicVariables C r = (r', e)" and "a \<notin> snd ` set (expressionsCache r)"
  shows "rtStore r' ! a = rtStore r ! a"
proof (cases "DefaultEnvironment C [WithResourceIDs (map fst (resolvedResources r) @ [''schema''])]")
  case (Inr env)
  then have loop: "loopE (dynamicStep C env) (map snd (expressionsCache r)) r = (r', e)"
    using assms(1) by (simp add: evaluateDynamicVariables_def)
  show ?thesis
  proof (rule loopE_invariant [OF loop])
    fix b s s' err
    assume b: "b \<in> set (map snd (expressionsCache r))" and s: "rtStore s ! a = rtStore r ! a" "dynamicStep C env b s = (s', err)"
    have "b \<noteq> a" using b assms(2) by auto
    then show "rtStore s' ! a = rtStore r ! a"
      using s by (auto simp: dynamicStep_def Let_def resolveState_def split: if_splits option.splits sum.splits)
  qed simp
qed (use assms(1) in \<open>simp add: evaluateDynamicVariables_def\<close>)

lemma evaluateDynamic_ready:
  assumes "rt_inv r" and "evaluateDynamicVariables C r = (r', None)"
    and "\<forall>a \<in> set (variablesOf r j). IsDynamic (eesKind (rtStore r ! a)) \<longrightarrow>
      a \<in> snd ` set (expressionsCache r) \<and> available r a"
  shows "resourceVariablesResolved r' j"
proof -
  have round: "dynamicRound C r r'" using evaluateDynamic_round [OF assms(1,2)] .
  then have vars: "variablesOf r' = variablesOf r" using same_shape_variablesOf by (simp add: dynamicRound_def)
  show ?thesis
    unfolding resourceVariablesResolved_iff vars
  proof (intro ballI impI)
    fix a
    assume "a \<in> set (variablesOf r j)" "IsDynamic (eesKind (rtStore r' ! a))"
    then have a: "a \<in> set (variablesOf r j)" "IsDynamic (eesKind (rtStore r ! a))"
      using dynamicRound_kind [OF assms(1) round] by simp_all
    then show "eesResolved (rtStore r' ! a)" using evaluateDynamic_resolves [OF assms(1,2)] assms(3) by blast
  qed
qed

text \<open>
  C8. After a call of \<open>Synchronize\<close> that returned no error, a resource that was not set yet is
  offered by \<open>GetResource\<close> as soon as the dependencies of its expressions, and of those of the
  resources it depends on, are known, provided that the states of these expressions are the ones in the
  cache; the object offered is the one in which the resolver has replaced every expression field
  without an error. It is offered only when all of these expressions are resolved. The proviso is
  needed: a state that has been replaced in the cache, as \<open>NewResourceGroupRuntime\<close> does when a condition
  of \<open>readyWhen\<close> has the text of the expression, is not evaluated, and as long as it is unresolved the
  resource is not offered.
\<close>

theorem synchronize_offers_resource:
  assumes "rt_inv r" and "distinct (map fst (rtResources r))"
    and "Synchronize ff C r = (r', True, None)"
    and "map_of (rtResources r) i = Some res" and "map_of (resolvedResources r) i = None"
  shows "((\<forall>j \<in> insert i (set (resDependencies res)). \<forall>a \<in> set (variablesOf r j).
        IsDynamic (eesKind (rtStore r ! a)) \<longrightarrow> a \<in> snd ` set (expressionsCache r) \<and> available r a) \<longrightarrow>
      (\<exists>obj. GetResource r' i = Some (Some obj, ResourceStateResolved) \<and> resolvesObject ff r' res obj)) \<and>
    (\<forall>obj. GetResource r' i = Some (Some obj, ResourceStateResolved) \<longrightarrow>
      (\<forall>j \<in> insert i (set (resDependencies res)). \<forall>a \<in> set (variablesOf r j).
         IsDynamic (eesKind (rtStore r ! a)) \<longrightarrow> eesResolved (rtStore r' ! a))) \<and>
    ((\<exists>j \<in> insert i (set (resDependencies res)). \<exists>a \<in> set (variablesOf r j).
        IsDynamic (eesKind (rtStore r ! a)) \<and> a \<notin> snd ` set (expressionsCache r) \<and> \<not> eesResolved (rtStore r ! a)) \<longrightarrow>
      (\<forall>obj. GetResource r' i \<noteq> Some (Some obj, ResourceStateResolved)))"
  using assms(3)
proof (cases rule: Synchronize_cases)
  case (2 r1 e)
  then obtain r2 where r2: "propagateResourceVariables ff r1 = (r2, None)" "rtResources r' = rtResources r2" by auto
  have round: "dynamicRound C r r1" using evaluateDynamic_round [OF assms(1) 2(1)] .
  have e: "evaluateDynamicVariables C r = (r1, None)" using 2(1,3) by simp
  have shape: "same_shape r r1" "rtResources r1 = rtResources r" using round by (simp_all add: dynamicRound_def)
  have vars: "variablesOf r1 = variablesOf r" using same_shape_variablesOf [OF shape(1)] .
  note kind = dynamicRound_kind [OF assms(1) round]
  have unset: "map_of (resolvedResources r') i = None" using 2(2) shape(1) assms(5) by (simp add: sameStates_def same_shape_def)
  have res1: "map_of (rtResources r1) i = Some res" using shape(2) assms(4) by simp
  have res': "\<exists>res'. map_of (rtResources r') i = Some res' \<and> resDependencies res' = resDependencies res"
    using propagate_dependencies [OF r2(1) res1] r2(2) by simp
  have ready: "resourceVariablesResolved r' j \<longleftrightarrow>
      (\<forall>a \<in> set (variablesOf r j). IsDynamic (eesKind (rtStore r ! a)) \<longrightarrow> eesResolved (rtStore r' ! a))" for j
    using sameStates_resolved [OF 2(2)] 2(2) vars kind by (simp add: resourceVariablesResolved_iff sameStates_def)
  have can: "canProcessResource r' i = Some (\<forall>j \<in> insert i (set (resDependencies res)). resourceVariablesResolved r' j)"
    using res' by (auto simp: canProcessResource_def list_all_iff)
  have offered: "\<forall>j \<in> insert i (set (resDependencies res)). \<forall>a \<in> set (variablesOf r j).
      IsDynamic (eesKind (rtStore r ! a)) \<longrightarrow> eesResolved (rtStore r' ! a)"
    if "GetResource r' i = Some (Some obj, ResourceStateResolved)" for obj
  proof -
    have "canProcessResource r' i = Some True"
      using that unset by (auto simp: GetResource_def split: option.splits bool.splits)
    then show ?thesis using can ready by simp
  qed
  have uncached: "rtStore r' ! a = rtStore r ! a" if "a \<notin> snd ` set (expressionsCache r)" for a
    using evaluateDynamic_uncached [OF 2(1) that] 2(2) by (simp add: sameStates_def)
  show ?thesis
  proof (intro conjI impI allI)
    assume avail: "\<forall>j \<in> insert i (set (resDependencies res)). \<forall>a \<in> set (variablesOf r j).
        IsDynamic (eesKind (rtStore r ! a)) \<longrightarrow> a \<in> snd ` set (expressionsCache r) \<and> available r a"
    then have ready1: "resourceVariablesResolved r1 j" if "j \<in> insert i (set (resDependencies res))" for j
      using evaluateDynamic_ready [OF assms(1) e, of j] that by blast
    then have "canProcessResource r1 i = Some True" using res1 by (simp add: canProcessResource_def list_all_iff)
    then obtain obj where obj: "resolvesObject ff r1 res obj" "map_of (rtResources r2) i = Some (res\<lparr>originalObject := obj\<rparr>)"
      using propagate_object [OF r2(1) [unfolded propagateResourceVariables_def], of i r1 res] res1 assms(2) shape(2)
      by (metis (no_types, lifting) map_of_eq_None_iff list.set_map option.distinct(1) sameStates_refl)
    moreover have "canProcessResource r' i = Some True"
      using can ready1 sameStates_resolved [OF 2(2)] by simp
    ultimately show "\<exists>obj. GetResource r' i = Some (Some obj, ResourceStateResolved) \<and> resolvesObject ff r' res obj"
      using unset r2(2) sameStates_exprValues [OF 2(2)] by (simp add: GetResource_def resolvesObject_def)
  next
    fix obj
    assume "GetResource r' i = Some (Some obj, ResourceStateResolved)"
    then show "\<forall>j \<in> insert i (set (resDependencies res)). \<forall>a \<in> set (variablesOf r j).
         IsDynamic (eesKind (rtStore r ! a)) \<longrightarrow> eesResolved (rtStore r' ! a)" by (rule offered)
  next
    fix obj
    assume "\<exists>j \<in> insert i (set (resDependencies res)). \<exists>a \<in> set (variablesOf r j).
        IsDynamic (eesKind (rtStore r ! a)) \<and> a \<notin> snd ` set (expressionsCache r) \<and> \<not> eesResolved (rtStore r ! a)"
    then show "GetResource r' i \<noteq> Some (Some obj, ResourceStateResolved)" using offered uncached by metis
  qed
qed simp

theorem synchronize_offers_resource_witness:
  "\<exists>r' obj. Synchronize (\<lambda>w. []) sampleCel sampleRuntimeVpc = (r', True, None) \<and>
     GetResource r' ''subnet'' = Some (Some obj, ResourceStateResolved)"
proof -
  obtain r' where r': "Synchronize (\<lambda>w. []) sampleCel sampleRuntimeVpc = (r', True, None)"
    using sampleRuntimeVpc_sync by blast
  let ?res = "sampleNode ''subnet'' [(''vpcID'', VStr ''${vpc.status.id}'')]
      [sampleVariable ''vpcID'' ''vpc.status.id'' ResourceVariableKindDynamic [''vpc'']] [''vpc'']"
  have keys: "distinct (map fst (rtResources sampleRuntimeVpc))"
    "map_of (rtResources sampleRuntimeVpc) ''subnet'' = Some ?res"
    "map_of (resolvedResources sampleRuntimeVpc) ''subnet'' = None"
    by (simp_all add: sampleRuntimeVpc_def SetResource_def sampleRuntime_def)
  have "\<forall>j \<in> insert ''subnet'' (set (resDependencies ?res)). \<forall>a \<in> set (variablesOf sampleRuntimeVpc j).
        IsDynamic (eesKind (rtStore sampleRuntimeVpc ! a)) \<longrightarrow>
        a \<in> snd ` set (expressionsCache sampleRuntimeVpc) \<and> available sampleRuntimeVpc a"
    by code_simp
  then show ?thesis using synchronize_offers_resource [OF sampleRuntimeVpc_inv keys(1) r' keys(2,3)] r' by blast
qed

text \<open>
  The case the proviso is about: \<open>subnet\<close> has the field \<open>${vpc.status.id}\<close>, and \<open>vpc\<close>, which comes later
  in the map, has the same text as a condition of \<open>readyWhen\<close>. The state of the condition takes the place of
  the state of the field, and \<open>subnet\<close> still waits for its dependencies when \<open>vpc\<close> is there.
\<close>

definition clashingResources :: "Resource gomap" where
  "clashingResources =
     [(''subnet'', sampleNode ''subnet'' [(''vpcID'', VStr ''${vpc.status.id}'')]
         [sampleVariable ''vpcID'' ''vpc.status.id'' ResourceVariableKindDynamic [''vpc'']] [''vpc'']),
      (''vpc'', (sampleNode ''vpc'' [(''name'', VStr ''web'')] [] []) \<lparr>readyWhenExpressions := [''vpc.status.id'']\<rparr>)]"

lemma condition_replaces_field:
  "case NewResourceGroupRuntime (\<lambda>w. []) sampleCel sampleInstance clashingResources [''vpc'', ''subnet''] of
     Inl e \<Rightarrow> False
   | Inr r \<Rightarrow>
       (case Synchronize (\<lambda>w. []) sampleCel (SetResource ''vpc'' [(''status'', VMap [(''id'', VInt 7)])] r) of
          (r', again, err) \<Rightarrow> again \<and> err = None \<and> GetResource r' ''subnet'' = Some (None, ResourceStateWaitingOnDependencies))"
  by code_simp

text \<open>
  A resource is ready exactly when it was set and every readiness expression evaluates to
  true on the object that was set; it is to be created exactly when none of its dependencies is
  ignored and every condition evaluates to true on the instance. Neither is answered together
  with an error.
\<close>

lemma runtime_conditions_iff:
  "(IsResourceReady C r i = (True, reason, err) \<longleftrightarrow>
     reason = [] \<and> err = None \<and>
     (\<exists>obs res. map_of (resolvedResources r) i = Some obs \<and> map_of (rtResources r) i = Some res \<and>
        (readyWhenExpressions res = [] \<or> celNewEnv C [i] = None \<and>
         (\<forall>e \<in> set (readyWhenExpressions res). evaluateExpression C [i] [(i, VMap obs)] e = Inr (VBool True))))) \<and>
   (WantToCreateResource C r i = (True, err) \<longleftrightarrow>
     err = None \<and>
     (\<exists>res. map_of (rtResources r) i = Some res \<and>
        (\<forall>d \<in> set (resDependencies res). d \<notin> set (ignoredByConditionsResources r)) \<and>
        (includeWhenExpressions res = [] \<or> celNewEnv C [''schema''] = None \<and>
         (\<forall>e \<in> set (includeWhenExpressions res).
            evaluateExpression C [''schema''] [(''schema'', VMap (instanceObject r))] e = Inr (VBool True)))))"
proof
  show "IsResourceReady C r i = (True, reason, err) \<longleftrightarrow>
     reason = [] \<and> err = None \<and>
     (\<exists>obs res. map_of (resolvedResources r) i = Some obs \<and> map_of (rtResources r) i = Some res \<and>
        (readyWhenExpressions res = [] \<or> celNewEnv C [i] = None \<and>
         (\<forall>e \<in> set (readyWhenExpressions res). evaluateExpression C [i] [(i, VMap obs)] e = Inr (VBool True))))"
    unfolding IsResourceReady_def DefaultEnvironment_ids
    by (auto simp: checkConditions_AllTrue [symmetric] split: option.splits if_splits condition_result.splits sum.splits)
  show "WantToCreateResource C r i = (True, err) \<longleftrightarrow>
     err = None \<and>
     (\<exists>res. map_of (rtResources r) i = Some res \<and>
        (\<forall>d \<in> set (resDependencies res). d \<notin> set (ignoredByConditionsResources r)) \<and>
        (includeWhenExpressions res = [] \<or> celNewEnv C [''schema''] = None \<and>
         (\<forall>e \<in> set (includeWhenExpressions res).
            evaluateExpression C [''schema''] [(''schema'', VMap (instanceObject r))] e = Inr (VBool True))))"
    unfolding WantToCreateResource_def DefaultEnvironment_ids
    by (auto simp: checkConditions_AllTrue [symmetric] areDependenciesIgnored_def list_ex_iff
        split: option.splits if_splits condition_result.splits sum.splits)
qed

lemma runtime_conditions_iff_witness:
  "IsResourceReady sampleCel sampleRuntimeVpc ''vpc'' = (True, [], None) \<and>
   WantToCreateResource sampleCel sampleRuntimeVpc ''subnet'' = (True, None)"
proof -
  have vpc: "map_of (resolvedResources sampleRuntimeVpc) ''vpc'' = Some [(''name'', VStr ''web''), (''status'', VMap [(''id'', VInt 7)])]"
    "\<exists>res. map_of (rtResources sampleRuntimeVpc) ''vpc'' = Some res \<and> readyWhenExpressions res = []"
    "\<exists>res. map_of (rtResources sampleRuntimeVpc) ''subnet'' = Some res \<and> resDependencies res = [''vpc''] \<and> includeWhenExpressions res = []"
    "ignoredByConditionsResources sampleRuntimeVpc = []"
    by (simp_all add: sampleRuntimeVpc_def SetResource_def sampleRuntime_def sampleNode_def)
  then show ?thesis
    using runtime_conditions_iff [of sampleCel sampleRuntimeVpc "''vpc''" "[]" None]
      runtime_conditions_iff [of sampleCel sampleRuntimeVpc "''subnet''" "[]" None]
    by (metis empty_iff empty_set)
qed

text \<open>
  A cached readiness expression is never resolved, so a graph that has one is never reported as
  done: \<open>Synchronize\<close> always asks to be called again.
\<close>

lemma synchronize_never_done_with_readyWhen:
  assumes "rt_inv r" and "(e, a) \<in> set (expressionsCache r)"
    and "eesKind (rtStore r ! a) = ResourceVariableKindReadyWhen" and "\<not> eesResolved (rtStore r ! a)"
    and "Synchronize ff C r = (r', again, err)"
  shows "again \<and> \<not> eesResolved (rtStore r' ! a)"
  using assms(5)
proof (cases rule: Synchronize_cases)
  case 1
  moreover have "\<not> allExpressionsAreResolved r"
    using assms(2,4) by (force simp: allExpressionsAreResolved_def list_all_iff)
  ultimately show ?thesis using assms(5) by (auto simp: Synchronize_def split: prod.splits option.splits)
next
  case (2 r1 d)
  have "statesRound C r r'" using statesRound_same [OF evaluateDynamic_round [OF assms(1) 2(1)] 2(2)] .
  then have "dynamicUpdate C r r' a" using rt_inv_cache [OF assms(1,2)] by (simp add: statesRound_def)
  then show ?thesis using 2(4) assms(3,4) by (auto simp: dynamicUpdate_def IsDynamic_def)
qed

end
