(* ===== verification/Requeue.thy ===== *)
theory Requeue
  imports Runtime
begin

text \<open>
  Errors as the controllers pass them on: \<open>src/pkg/requeue/requeue.go\<close> and the errors it wraps.
  An error is what \<open>fmt.Errorf\<close> made of a text, with or without another error inside; an error the
  API server returned, of which only \<open>IsNotFound\<close> is asked; an error of the runtime; or one of the
  three requeue errors, whose inner error may be nil. A duration is a 64-bit number of nanoseconds.
\<close>

datatype goerror =
    Errorf string
  | ErrorfWrap string goerror
  | NotReady string "runtime_error option"
  | NotFound string
  | APIError string
  | RuntimeErr runtime_error
  | NoRequeue "goerror option"
  | RequeueNeeded "goerror option"
  | RequeueNeededAfter "goerror option" "64 word"

definition DefaultRequeueAfterDuration :: "64 word" where
  "DefaultRequeueAfterDuration = 30 * 1000000000"

definition requeueNone :: "goerror option \<Rightarrow> goerror" where
  "requeueNone err = NoRequeue err"

definition Needed :: "goerror option \<Rightarrow> goerror" where
  "Needed err = RequeueNeeded err"

definition NeededAfter :: "goerror option \<Rightarrow> 64 word \<Rightarrow> goerror" where
  "NeededAfter err duration = RequeueNeededAfter err duration"

text \<open>\<open>Error\<close>; the text of an error of the runtime is an argument, as it prints values.\<close>

fun errorText :: "(runtime_error \<Rightarrow> string) \<Rightarrow> goerror \<Rightarrow> string" where
  "errorText tx (Errorf s) = s"
| "errorText tx (ErrorfWrap s e) = s @ '': '' @ errorText tx e"
| "errorText tx (NotReady reason e) =
     ''resource not ready: '' @ reason @ '': '' @ (case e of None \<Rightarrow> ''%!w(<nil>)'' | Some r \<Rightarrow> tx r)"
| "errorText tx (NotFound s) = s"
| "errorText tx (APIError s) = s"
| "errorText tx (RuntimeErr r) = tx r"
| "errorText tx (NoRequeue None) = []"
| "errorText tx (NoRequeue (Some e)) = errorText tx e"
| "errorText tx (RequeueNeeded None) = []"
| "errorText tx (RequeueNeeded (Some e)) = errorText tx e"
| "errorText tx (RequeueNeededAfter None d) = []"
| "errorText tx (RequeueNeededAfter (Some e) d) = errorText tx e"

fun Unwrap :: "goerror \<Rightarrow> goerror option" where
  "Unwrap (ErrorfWrap s e) = Some e"
| "Unwrap (NotReady reason (Some e)) = Some (RuntimeErr e)"
| "Unwrap (NoRequeue e) = e"
| "Unwrap (RequeueNeeded e) = e"
| "Unwrap (RequeueNeededAfter e d) = e"
| "Unwrap _ = None"

definition Duration :: "goerror \<Rightarrow> 64 word" where
  "Duration e = (case e of RequeueNeededAfter _ d \<Rightarrow> d | _ \<Rightarrow> 0)"

definition IsNotFound :: "goerror \<Rightarrow> bool" where
  "IsNotFound e = (case e of NotFound _ \<Rightarrow> True | _ \<Rightarrow> False)"

definition isRequeue :: "goerror \<Rightarrow> bool" where
  "isRequeue e = (case e of NoRequeue _ \<Rightarrow> True | RequeueNeeded _ \<Rightarrow> True | RequeueNeededAfter _ _ \<Rightarrow> True | _ \<Rightarrow> False)"

end
