(* ===== verification/Metadata.thy ===== *)
theory Metadata
  imports Graph_Resource
begin

text \<open>
  Finalizers, labels, selectors, owner references and group-version-kinds,
  \<open>src/internal/metadata/\<close>.

  The interface \<open>metav1.Object\<close> is the record \<open>metav1Object\<close> of the methods the package calls;
  \<open>objectMeta\<close> is its implementation by the struct \<open>ObjectMeta\<close>, whose methods read and write one
  field each. The methods of an unstructured object, and the functions \<open>NestedStringSlice\<close> and
  \<open>SetNestedStringSlice\<close>, belong to apimachinery and are arguments. A nil map of labels is \<open>None\<close>.
\<close>

section \<open>Objects\<close>

record 'o metav1Object =
  GetName :: "'o \<Rightarrow> string"
  GetNamespace :: "'o \<Rightarrow> string"
  GetUID :: "'o \<Rightarrow> string"
  GetLabels :: "'o \<Rightarrow> string gomap option"
  SetLabels :: "'o \<Rightarrow> string gomap \<Rightarrow> 'o"
  GetFinalizers :: "'o \<Rightarrow> string list"
  SetFinalizers :: "'o \<Rightarrow> string list \<Rightarrow> 'o"

record ObjectMeta =
  metaName :: string
  metaNamespace :: string
  metaUID :: string
  metaLabels :: "string gomap option"
  metaFinalizers :: "string list"

definition objectMeta :: "ObjectMeta metav1Object" where
  "objectMeta =
     \<lparr>GetName = metaName, GetNamespace = metaNamespace, GetUID = metaUID, GetLabels = metaLabels,
      SetLabels = (\<lambda>m ls. m\<lparr>metaLabels := Some ls\<rparr>), GetFinalizers = metaFinalizers,
      SetFinalizers = (\<lambda>m fs. m\<lparr>metaFinalizers := fs\<rparr>)\<rparr>"

section \<open>Finalizers\<close>

definition KroDomainName :: string where
  "KroDomainName = ''kro.run''"

definition kroFinalizer :: string where
  "kroFinalizer = KroDomainName @ ''/finalizer''"

fun containsString :: "string list \<Rightarrow> string \<Rightarrow> bool" where
  "containsString [] s = False"
| "containsString (item # items) s = (if item = s then True else containsString items s)"

fun removeString :: "string list \<Rightarrow> string \<Rightarrow> string list" where
  "removeString [] s = []"
| "removeString (item # items) s = (if item \<noteq> s then item # removeString items s else removeString items s)"

definition getInstanceFinalizerName :: "string \<Rightarrow> string" where
  "getInstanceFinalizerName uid = uid @ ''.'' @ kroFinalizer"

definition HasResourceGroupFinalizer :: "'o metav1Object \<Rightarrow> 'o \<Rightarrow> bool" where
  "HasResourceGroupFinalizer M obj = containsString (GetFinalizers M obj) kroFinalizer"

definition SetResourceGroupFinalizer :: "'o metav1Object \<Rightarrow> 'o \<Rightarrow> 'o" where
  "SetResourceGroupFinalizer M obj =
     (if \<not> HasResourceGroupFinalizer M obj then SetFinalizers M obj (GetFinalizers M obj @ [kroFinalizer]) else obj)"

definition RemoveResourceGroupFinalizer :: "'o metav1Object \<Rightarrow> 'o \<Rightarrow> 'o" where
  "RemoveResourceGroupFinalizer M obj = SetFinalizers M obj (removeString (GetFinalizers M obj) kroFinalizer)"

definition HasInstanceFinalizer :: "'o metav1Object \<Rightarrow> 'o \<Rightarrow> string \<Rightarrow> bool" where
  "HasInstanceFinalizer M obj uid = containsString (GetFinalizers M obj) (getInstanceFinalizerName uid)"

definition SetInstanceFinalizer :: "'o metav1Object \<Rightarrow> 'o \<Rightarrow> string \<Rightarrow> 'o" where
  "SetInstanceFinalizer M obj uid =
     (if \<not> HasInstanceFinalizer M obj uid
      then SetFinalizers M obj (GetFinalizers M obj @ [getInstanceFinalizerName uid]) else obj)"

definition RemoveInstanceFinalizer :: "'o metav1Object \<Rightarrow> 'o \<Rightarrow> string \<Rightarrow> 'o" where
  "RemoveInstanceFinalizer M obj uid =
     SetFinalizers M obj (removeString (GetFinalizers M obj) (getInstanceFinalizerName uid))"

subsection \<open>Unstructured objects\<close>

text \<open>
  \<open>NestedStringSlice\<close> returns the list and whether it was found, or an error;
  \<open>SetNestedStringSlice\<close> the changed object or an error.
\<close>

record nested =
  NestedStringSlice :: "val gomap \<Rightarrow> string list \<Rightarrow> string + string list \<times> bool"
  SetNestedStringSlice :: "val gomap \<Rightarrow> string list \<Rightarrow> string list \<Rightarrow> string + val gomap"

definition SetInstanceFinalizerUnstructured :: "nested \<Rightarrow> val gomap \<Rightarrow> string \<Rightarrow> string + val gomap" where
  "SetInstanceFinalizerUnstructured N obj uid =
     (case NestedStringSlice N obj [''metadata'', ''finalizers''] of
        Inl err \<Rightarrow> Inl (''error getting finalizers: '' @ err)
      | Inr (finalizers, found) \<Rightarrow>
          (if \<not> found \<or> \<not> containsString finalizers (getInstanceFinalizerName uid) then
             (case SetNestedStringSlice N obj (finalizers @ [getInstanceFinalizerName uid]) [''metadata'', ''finalizers''] of
                Inl err \<Rightarrow> Inl (''error setting finalizers: '' @ err)
              | Inr obj' \<Rightarrow> Inr obj')
           else Inr obj))"

definition RemoveInstanceFinalizerUnstructured :: "nested \<Rightarrow> val gomap \<Rightarrow> string \<Rightarrow> string + val gomap" where
  "RemoveInstanceFinalizerUnstructured N obj uid =
     (case NestedStringSlice N obj [''metadata'', ''finalizers''] of
        Inl err \<Rightarrow> Inl (''error getting finalizers: '' @ err)
      | Inr (finalizers, found) \<Rightarrow>
          (if found then
             (case SetNestedStringSlice N obj (removeString finalizers (getInstanceFinalizerName uid)) [''metadata'', ''finalizers''] of
                Inl err \<Rightarrow> Inl (''error setting finalizers: '' @ err)
              | Inr obj' \<Rightarrow> Inr obj')
           else Inr obj))"

definition HasInstanceFinalizerUnstructured :: "nested \<Rightarrow> val gomap \<Rightarrow> string \<Rightarrow> string + bool" where
  "HasInstanceFinalizerUnstructured N obj uid =
     (case NestedStringSlice N obj [''metadata'', ''finalizers''] of
        Inl err \<Rightarrow> Inl (''error getting finalizers: '' @ err)
      | Inr (finalizers, found) \<Rightarrow>
          (if \<not> found then Inr False else Inr (containsString finalizers (getInstanceFinalizerName uid))))"

section \<open>Labels\<close>

definition LabelKroPrefix :: string where "LabelKroPrefix = KroDomainName @ ''/''"

definition NodeIDLabel :: string where "NodeIDLabel = LabelKroPrefix @ ''node-id''"
definition OwnedLabel :: string where "OwnedLabel = LabelKroPrefix @ ''owned''"
definition KroVersionLabel :: string where "KroVersionLabel = LabelKroPrefix @ ''kro-version''"
definition ControllerPodIDLabel :: string where "ControllerPodIDLabel = LabelKroPrefix @ ''controller-pod-id''"
definition InstanceIDLabel :: string where "InstanceIDLabel = LabelKroPrefix @ ''instance-id''"
definition InstanceLabel :: string where "InstanceLabel = LabelKroPrefix @ ''instance-name''"
definition InstanceNamespaceLabel :: string where "InstanceNamespaceLabel = LabelKroPrefix @ ''instance-namespace''"
definition ResourceGroupIDLabel :: string where "ResourceGroupIDLabel = LabelKroPrefix @ ''resource-group-id''"
definition ResourceGroupNameLabel :: string where "ResourceGroupNameLabel = LabelKroPrefix @ ''resource-group-name''"
definition ResourceGroupNamespaceLabel :: string where
  "ResourceGroupNamespaceLabel = LabelKroPrefix @ ''resource-group-namespace''"

lemmas label_defs = LabelKroPrefix_def NodeIDLabel_def OwnedLabel_def KroVersionLabel_def ControllerPodIDLabel_def
  InstanceIDLabel_def InstanceLabel_def InstanceNamespaceLabel_def ResourceGroupIDLabel_def ResourceGroupNameLabel_def
  ResourceGroupNamespaceLabel_def

definition booleanFromString :: "string \<Rightarrow> bool" where
  "booleanFromString s = (s = ''true'')"

definition stringFromBoolean :: "bool \<Rightarrow> string" where
  "stringFromBoolean b = (if b then ''true'' else ''false'')"

definition setLabel :: "'o metav1Object \<Rightarrow> string \<Rightarrow> string \<Rightarrow> 'o \<Rightarrow> 'o" where
  "setLabel M key v obj =
     SetLabels M obj (AList.update key v (case GetLabels M obj of None \<Rightarrow> [] | Some labels \<Rightarrow> labels))"

definition IsKroOwned :: "ObjectMeta \<Rightarrow> bool" where
  "IsKroOwned m =
     (case metaLabels m of None \<Rightarrow> False
      | Some labels \<Rightarrow> (case map_of labels OwnedLabel of None \<Rightarrow> False | Some v \<Rightarrow> booleanFromString v))"

text \<open>
  \<open>SetKroOwned\<close> and \<open>SetKroUnowned\<close> take the struct by value: what the caller keeps is its own
  struct, which shares the map of labels if there is one.
\<close>

definition callerAfter :: "ObjectMeta \<Rightarrow> ObjectMeta \<Rightarrow> ObjectMeta" where
  "callerAfter caller callee = (case metaLabels caller of None \<Rightarrow> caller | Some _ \<Rightarrow> caller\<lparr>metaLabels := metaLabels callee\<rparr>)"

definition SetKroOwned :: "ObjectMeta \<Rightarrow> ObjectMeta" where
  "SetKroOwned m = callerAfter m (setLabel objectMeta OwnedLabel (stringFromBoolean True) m)"

definition SetKroUnowned :: "ObjectMeta \<Rightarrow> ObjectMeta" where
  "SetKroUnowned m = callerAfter m (setLabel objectMeta OwnedLabel (stringFromBoolean False) m)"

type_synonym labeler = "string gomap"

definition ApplyLabels :: "'o metav1Object \<Rightarrow> labeler \<Rightarrow> 'o \<Rightarrow> 'o" where
  "ApplyLabels M gl obj = fold (\<lambda>(k, v). setLabel M k v) gl obj"

definition copyLabels :: "labeler \<Rightarrow> labeler" where
  "copyLabels gl = fold (\<lambda>(k, v). AList.update k v) gl []"

definition mergeStep :: "string \<times> string \<Rightarrow> labeler \<Rightarrow> string + labeler" where
  "mergeStep x newLabels =
     (case map_of newLabels (fst x) of
        Some _ \<Rightarrow> Inl (''duplicate labels: found key '' @ fst x @ '' in both maps'')
      | None \<Rightarrow> Inr (AList.update (fst x) (snd x) newLabels))"

definition Merge :: "labeler \<Rightarrow> labeler \<Rightarrow> string + labeler" where
  "Merge gl other = foldRes mergeStep other (copyLabels gl)"

definition NewResourceGroupLabeler :: "'o metav1Object \<Rightarrow> 'o \<Rightarrow> labeler" where
  "NewResourceGroupLabeler M rgMeta =
     [(ResourceGroupIDLabel, GetUID M rgMeta), (ResourceGroupNameLabel, GetName M rgMeta),
      (ResourceGroupNamespaceLabel, GetNamespace M rgMeta)]"

definition NewInstanceLabeler :: "'o metav1Object \<Rightarrow> 'o \<Rightarrow> labeler" where
  "NewInstanceLabeler M instanceMeta =
     [(InstanceIDLabel, GetUID M instanceMeta), (InstanceLabel, GetName M instanceMeta),
      (InstanceNamespaceLabel, GetNamespace M instanceMeta)]"

definition NewKroMetaLabeler :: "string \<Rightarrow> string \<Rightarrow> labeler" where
  "NewKroMetaLabeler kroVersion controllerPodID =
     [(OwnedLabel, ''true''), (KroVersionLabel, kroVersion), (ControllerPodIDLabel, controllerPodID)]"

subsection \<open>Selectors\<close>

record LabelSelector =
  MatchLabels :: "string gomap"

definition NewInstanceSelector :: "'o metav1Object \<Rightarrow> 'o \<Rightarrow> LabelSelector" where
  "NewInstanceSelector M inst = \<lparr>MatchLabels = [(InstanceIDLabel, GetUID M inst)]\<rparr>"

definition NewResourceGroupSelector :: "'o metav1Object \<Rightarrow> 'o \<Rightarrow> LabelSelector" where
  "NewResourceGroupSelector M rg = \<lparr>MatchLabels = [(ResourceGroupIDLabel, GetUID M rg)]\<rparr>"

definition NewInstanceAndResourceGroupSelector ::
  "'o metav1Object \<Rightarrow> 'o \<Rightarrow> 'p metav1Object \<Rightarrow> 'p \<Rightarrow> LabelSelector" where
  "NewInstanceAndResourceGroupSelector M inst Q rg =
     \<lparr>MatchLabels = [(InstanceIDLabel, GetUID M inst), (ResourceGroupIDLabel, GetUID Q rg)]\<rparr>"

definition NewNodeAndInstanceAndResourceGroupSelector ::
  "'n metav1Object \<Rightarrow> 'n \<Rightarrow> 'o metav1Object \<Rightarrow> 'o \<Rightarrow> 'p metav1Object \<Rightarrow> 'p \<Rightarrow> LabelSelector" where
  "NewNodeAndInstanceAndResourceGroupSelector N node M inst Q rg =
     \<lparr>MatchLabels = [(NodeIDLabel, GetName N node), (InstanceIDLabel, GetUID M inst), (ResourceGroupIDLabel, GetUID Q rg)]\<rparr>"

section \<open>Group, version, kind\<close>

definition asString :: "val option \<Rightarrow> string option" where
  "asString v = (case v of Some (VStr s) \<Rightarrow> Some s | _ \<Rightarrow> None)"

definition ExtractGVKFromUnstructured :: "val gomap \<Rightarrow> string + GroupVersionKind" where
  "ExtractGVKFromUnstructured obj =
     (case asString (map_of obj ''kind'') of
        None \<Rightarrow> Inl ''kind not found or not a string''
      | Some kind \<Rightarrow>
          (case asString (map_of obj ''apiVersion'') of
             None \<Rightarrow> Inl ''apiVersion not found or not a string''
           | Some apiVersion \<Rightarrow>
               (let parts = splitOn (CHR ''/'') apiVersion in
                if length parts > 2 then Inl (''invalid apiVersion format: '' @ apiVersion)
                else if length parts = 2
                then Inr \<lparr>gvkGroup = parts ! 0, gvkVersion = parts ! 1, gvkKind = kind\<rparr>
                else Inr \<lparr>gvkGroup = [], gvkVersion = parts ! 0, gvkKind = kind\<rparr>)))"

definition KroInstancesGroupSuffix :: string where "KroInstancesGroupSuffix = KroDomainName"

definition GetResourceGroupInstanceGVK :: "string \<Rightarrow> string \<Rightarrow> GroupVersionKind" where
  "GetResourceGroupInstanceGVK apiVersion kind =
     \<lparr>gvkGroup = KroInstancesGroupSuffix, gvkVersion = apiVersion, gvkKind = kind\<rparr>"

text \<open>\<open>pluralize\<close> and \<open>singularize\<close> are those of the package flect.\<close>

definition GetResourceGroupInstanceGVR :: "(string \<Rightarrow> string) \<Rightarrow> string \<Rightarrow> string \<Rightarrow> GroupVersionResource" where
  "GetResourceGroupInstanceGVR pluralize apiVersion kind =
     (let pluralKind = pluralize (toLower kind) in
      \<lparr>gvrGroup = pluralKind @ ''.'' @ KroInstancesGroupSuffix, gvrVersion = apiVersion, gvrResource = pluralKind\<rparr>)"

definition GVRtoGVK :: "(string \<Rightarrow> string) \<Rightarrow> GroupVersionResource \<Rightarrow> GroupVersionKind" where
  "GVRtoGVK singularize gvr =
     \<lparr>gvkGroup = gvrGroup gvr, gvkVersion = gvrVersion gvr, gvkKind = singularize (gvrResource gvr)\<rparr>"

definition GVKtoGVR :: "(string \<Rightarrow> string) \<Rightarrow> GroupVersionKind \<Rightarrow> GroupVersionResource" where
  "GVKtoGVR pluralize gvk =
     \<lparr>gvrGroup = gvkGroup gvk, gvrVersion = gvkVersion gvk, gvrResource = toLower (pluralize (gvkKind gvk))\<rparr>"

section \<open>Owner references\<close>

record OwnerReference =
  ownerName :: string
  ownerKind :: string
  ownerAPIVersion :: string
  ownerController :: bool
  ownerUID :: string

text \<open>\<open>gvString\<close> prints a group version (\<open>GroupVersion.String\<close> of apimachinery).\<close>

definition NewResourceGroupOwnerReference :: "(string \<Rightarrow> string \<Rightarrow> string) \<Rightarrow> string \<Rightarrow> string \<Rightarrow> OwnerReference" where
  "NewResourceGroupOwnerReference gvString name uid =
     \<lparr>ownerName = name, ownerKind = ''ResourceGroup'', ownerAPIVersion = gvString KroDomainName ''v1alpha1'',
      ownerController = False, ownerUID = uid\<rparr>"

definition NewInstanceOwnerReference ::
  "(string \<Rightarrow> string \<Rightarrow> string) \<Rightarrow> GroupVersionKind \<Rightarrow> string \<Rightarrow> string \<Rightarrow> OwnerReference" where
  "NewInstanceOwnerReference gvString gvk name uid =
     \<lparr>ownerName = name, ownerKind = gvkKind gvk, ownerAPIVersion = gvString (gvkGroup gvk) (gvkVersion gvk),
      ownerController = True, ownerUID = uid\<rparr>"

section \<open>Laws\<close>

lemma containsString_iff [simp]: "containsString xs s \<longleftrightarrow> s \<in> set xs"
  by (induction xs) auto

lemma removeString_eq [simp]: "removeString xs s = removeAll s xs"
  by (induction xs) auto

lemma finalizerName_inj [simp]: "getInstanceFinalizerName u = getInstanceFinalizerName v \<longleftrightarrow> u = v"
  by (simp add: getInstanceFinalizerName_def)

lemma finalizerName_kro [simp]: "getInstanceFinalizerName u \<noteq> kroFinalizer" "kroFinalizer \<noteq> getInstanceFinalizerName u"
  by (simp_all add: getInstanceFinalizerName_def append_self_conv2)

definition labelsOf :: "'o metav1Object \<Rightarrow> 'o \<Rightarrow> string gomap" where
  "labelsOf M obj = (case GetLabels M obj of None \<Rightarrow> [] | Some ls \<Rightarrow> ls)"

text \<open>
  What the package relies on of an object: a list of finalizers or a map of labels that was set is
  read back, and setting one of them leaves the rest alone.
\<close>

locale metav1_object =
  fixes ops :: "'o metav1Object"
  assumes finalizers_set: "GetFinalizers ops (SetFinalizers ops o1 fs) = fs"
    and labels_set: "GetLabels ops (SetLabels ops o1 ls) = Some ls"
    and finalizers_labels: "GetFinalizers ops (SetLabels ops o1 ls) = GetFinalizers ops o1"
    and labels_finalizers: "GetLabels ops (SetFinalizers ops o1 fs) = GetLabels ops o1"
begin

lemma instance_finalizer_set:
  "set (GetFinalizers ops (SetInstanceFinalizer ops o1 uid)) = insert (getInstanceFinalizerName uid) (set (GetFinalizers ops o1))"
  by (auto simp: SetInstanceFinalizer_def HasInstanceFinalizer_def finalizers_set)

lemma instance_finalizer_roundtrip:
  "\<not> HasInstanceFinalizer ops o1 uid \<Longrightarrow>
   GetFinalizers ops (RemoveInstanceFinalizer ops (SetInstanceFinalizer ops o1 uid) uid) = GetFinalizers ops o1"
  by (simp add: RemoveInstanceFinalizer_def SetInstanceFinalizer_def HasInstanceFinalizer_def finalizers_set)

lemma has_after_set: "HasInstanceFinalizer ops (SetInstanceFinalizer ops o1 u) v \<longleftrightarrow> v = u \<or> HasInstanceFinalizer ops o1 v"
  using instance_finalizer_set by (auto simp: HasInstanceFinalizer_def)

lemma has_after_remove:
  "HasInstanceFinalizer ops (RemoveInstanceFinalizer ops o1 u) v \<longleftrightarrow> v \<noteq> u \<and> HasInstanceFinalizer ops o1 v"
  by (auto simp: HasInstanceFinalizer_def RemoveInstanceFinalizer_def finalizers_set)

lemma group_has_after_set:
  "HasResourceGroupFinalizer ops (SetResourceGroupFinalizer ops o1)"
  "HasResourceGroupFinalizer ops (SetInstanceFinalizer ops o1 u) = HasResourceGroupFinalizer ops o1"
  by (simp_all add: HasResourceGroupFinalizer_def SetResourceGroupFinalizer_def instance_finalizer_set finalizers_set)

lemma group_has_after_remove:
  "\<not> HasResourceGroupFinalizer ops (RemoveResourceGroupFinalizer ops o1)"
  "HasResourceGroupFinalizer ops (RemoveInstanceFinalizer ops o1 u) = HasResourceGroupFinalizer ops o1"
  by (simp_all add: HasResourceGroupFinalizer_def RemoveResourceGroupFinalizer_def RemoveInstanceFinalizer_def finalizers_set)

lemma labelsOf_setLabel: "labelsOf ops (setLabel ops k v o1) = AList.update k v (labelsOf ops o1)"
  by (simp add: labelsOf_def setLabel_def labels_set)

lemma labelsOf_apply: "map_of (labelsOf ops (ApplyLabels ops gl o1)) = map_of (labelsOf ops o1) ++ map_of (rev gl)"
  unfolding ApplyLabels_def
proof (induction gl arbitrary: o1)
  case (Cons x gl)
  then show ?case by (cases x) (auto simp: labelsOf_setLabel update_conv' map_add_def fun_eq_iff split: option.splits)
qed simp

lemma finalizers_apply: "GetFinalizers ops (ApplyLabels ops gl o1) = GetFinalizers ops o1"
  unfolding ApplyLabels_def by (induction gl arbitrary: o1) (auto simp: setLabel_def finalizers_labels split: prod.splits)

end

interpretation om: metav1_object objectMeta
  by unfold_locales (simp_all add: objectMeta_def)

text \<open>
  What the package relies on of the nested lists of an unstructured object: a list that was set is
  found, a list that is not found reads as empty, and setting keeps the fields outside of the one the
  path starts with. Setting may fail where reading does not, as it does under \<open>metadata: null\<close>.
\<close>

definition nested_strings :: "nested \<Rightarrow> bool" where
  "nested_strings N \<longleftrightarrow>
     (\<forall>obj xs path obj'. SetNestedStringSlice N obj xs path = Inr obj' \<longrightarrow> NestedStringSlice N obj' path = Inr (xs, True)) \<and>
     (\<forall>obj xs path. NestedStringSlice N obj path = Inr (xs, False) \<longrightarrow> xs = []) \<and>
     (\<forall>obj xs p path obj' k. SetNestedStringSlice N obj xs (p # path) = Inr obj' \<longrightarrow> k \<noteq> p \<longrightarrow> map_of obj' k = map_of obj k)"

lemma nested_set:
  assumes "nested_strings N" and "SetNestedStringSlice N obj xs (p # path) = Inr obj'"
  shows "NestedStringSlice N obj' (p # path) = Inr (xs, True)" "(map_of obj')(p := None) = (map_of obj)(p := None)"
  using assms unfolding nested_strings_def by (blast, fastforce)

lemma nested_missing: "nested_strings N \<Longrightarrow> NestedStringSlice N obj path = Inr (xs, False) \<Longrightarrow> xs = []"
  unfolding nested_strings_def by blast

text \<open>The list of finalizers with one more name, which is not added twice.\<close>

definition withFinalizer :: "string \<Rightarrow> string list \<Rightarrow> string list" where
  "withFinalizer f xs = (if f \<in> set xs then xs else xs @ [f])"

abbreviation finalizersPath :: "string list" where
  "finalizersPath \<equiv> [''metadata'', ''finalizers'']"

text \<open>The three functions, when the finalizers of an unstructured object can be read.\<close>

lemma set_unstructured:
  assumes "nested_strings N" and "NestedStringSlice N obj finalizersPath = Inr (xs, found)"
    and "f = getInstanceFinalizerName u"
  shows "case SetInstanceFinalizerUnstructured N obj u of
      Inl e \<Rightarrow> f \<notin> set xs \<and> isl (SetNestedStringSlice N obj (withFinalizer f xs) finalizersPath)
    | Inr obj' \<Rightarrow> NestedStringSlice N obj' finalizersPath = Inr (withFinalizer f xs, True) \<and>
        (map_of obj')(''metadata'' := None) = (map_of obj)(''metadata'' := None)"
proof (cases "f \<in> set xs")
  case True
  then have found using nested_missing [OF assms(1), of obj finalizersPath xs] assms(2) by (cases found) auto
  then show ?thesis using True assms(2,3) by (simp add: SetInstanceFinalizerUnstructured_def withFinalizer_def)
next
  case False
  note set = nested_set [OF assms(1), of obj "xs @ [f]" "''metadata''" "[''finalizers'']"]
  show ?thesis
  proof (cases "SetNestedStringSlice N obj (xs @ [f]) finalizersPath")
    case (Inl e)
    then show ?thesis using False assms(2,3) by (simp add: SetInstanceFinalizerUnstructured_def withFinalizer_def)
  next
    case (Inr obj')
    then show ?thesis using False assms(2,3) set [OF Inr] by (simp add: SetInstanceFinalizerUnstructured_def withFinalizer_def)
  qed
qed

lemma remove_unstructured:
  assumes "nested_strings N" and "NestedStringSlice N obj finalizersPath = Inr (xs, found)"
    and "f = getInstanceFinalizerName u"
  shows "case RemoveInstanceFinalizerUnstructured N obj u of
      Inl e \<Rightarrow> found \<and> isl (SetNestedStringSlice N obj (removeAll f xs) finalizersPath)
    | Inr obj' \<Rightarrow> NestedStringSlice N obj' finalizersPath = Inr (removeAll f xs, found) \<and>
        (map_of obj')(''metadata'' := None) = (map_of obj)(''metadata'' := None)"
proof (cases found)
  case True
  note set = nested_set [OF assms(1), of obj "removeAll f xs" "''metadata''" "[''finalizers'']"]
  show ?thesis
  proof (cases "SetNestedStringSlice N obj (removeAll f xs) finalizersPath")
    case (Inl e)
    then show ?thesis using True assms(2,3) by (simp add: RemoveInstanceFinalizerUnstructured_def)
  next
    case (Inr obj')
    then show ?thesis using True assms(2,3) set [OF Inr] by (simp add: RemoveInstanceFinalizerUnstructured_def)
  qed
next
  case False
  then have "xs = []" using nested_missing [OF assms(1), of obj finalizersPath xs] assms(2) by simp
  then show ?thesis using False assms(2) by (simp add: RemoveInstanceFinalizerUnstructured_def)
qed

lemma has_unstructured:
  assumes "nested_strings N" and "NestedStringSlice N obj finalizersPath = Inr (xs, found)"
  shows "HasInstanceFinalizerUnstructured N obj u = Inr (getInstanceFinalizerName u \<in> set xs)"
  using assms(2) nested_missing [OF assms(1), of obj finalizersPath xs]
  by (cases found) (simp_all add: HasInstanceFinalizerUnstructured_def)

section \<open>Merging labels\<close>

lemma map_of_copyLabels: "map_of (copyLabels gl) = map_of (rev gl)"
proof -
  have "map_of (fold (\<lambda>(k, v). AList.update k v) gl m) = map_of m ++ map_of (rev gl)" for m
    by (induction gl arbitrary: m) (auto simp: update_conv' map_add_def fun_eq_iff split: option.splits)
  then show ?thesis by (simp add: copyLabels_def)
qed

lemma mergeSteps:
  "distinct (map fst other) \<Longrightarrow> fst ` set other \<inter> dom (map_of m) = {} \<Longrightarrow>
   \<exists>m'. foldRes mergeStep other m = Inr m' \<and> map_of m' = map_of m ++ map_of other"
proof (induction other arbitrary: m)
  case (Cons x other)
  let ?m = "AList.update (fst x) (snd x) m"
  have "fst x \<notin> dom (map_of m)" using Cons.prems(2) by auto
  then have step: "mergeStep x m = Inr ?m" by (simp add: mergeStep_def domIff)
  have new: "fst x \<notin> fst ` set other" "distinct (map fst other)" using Cons.prems(1) by auto
  have "dom (map_of ?m) = insert (fst x) (dom (map_of m))" by (auto simp: update_conv')
  with Cons.prems(2) new(1) have "fst ` set other \<inter> dom (map_of ?m) = {}" by auto
  from Cons.IH [OF new(2) this] obtain m' where m': "foldRes mergeStep other ?m = Inr m'" "map_of m' = map_of ?m ++ map_of other"
    by blast
  have "map_of other (fst x) = None" using new(1) by (simp add: map_of_eq_None_iff)
  then have "map_of ?m ++ map_of other = map_of m ++ map_of (x # other)"
    by (cases x) (auto simp: update_conv' map_add_def fun_eq_iff split: option.splits)
  with m'(2) have "map_of m' = map_of m ++ map_of (x # other)" by (simp only:)
  moreover have "foldRes mergeStep (x # other) m = Inr m'" using m'(1) step by simp
  ultimately show ?case by blast
qed simp

text \<open>A key that is in both maps is an error.\<close>

lemma mergeSteps_duplicate:
  "k \<in> fst ` set other \<Longrightarrow> k \<in> dom (map_of m) \<Longrightarrow> \<exists>err. foldRes mergeStep other m = Inl err"
proof (induction other arbitrary: m)
  case (Cons x other)
  show ?case
  proof (cases "map_of m (fst x)")
    case None
    then have "k \<noteq> fst x" using Cons.prems(2) by auto
    then have "k \<in> fst ` set other" "k \<in> dom (map_of (AList.update (fst x) (snd x) m))"
      using Cons.prems by (auto simp: update_conv')
    then show ?thesis using Cons.IH None by (simp add: mergeStep_def)
  qed (simp add: mergeStep_def)
qed simp

lemma Merge_disjoint:
  assumes "distinct (map fst gl)" and "distinct (map fst other)" and "fst ` set gl \<inter> fst ` set other = {}"
  shows "\<exists>m. Merge gl other = Inr m \<and> map_of m = map_of gl ++ map_of other"
proof -
  have gl: "map_of (copyLabels gl) = map_of gl"
    using assms(1) map_of_inject_set [of "rev gl" gl] by (simp add: map_of_copyLabels rev_map [symmetric])
  then have "dom (map_of (copyLabels gl)) = fst ` set gl" by (simp add: dom_map_of_conv_image_fst)
  then show ?thesis
    using mergeSteps [OF assms(2), of "copyLabels gl"] gl assms(3) by (simp add: Merge_def Int_commute)
qed

lemma map_of_apply_merged:
  assumes "metav1_object U" and "distinct (map fst gl)"
  shows "map_of (labelsOf U (ApplyLabels U gl obj)) = map_of (labelsOf U obj) ++ map_of gl"
  using metav1_object.labelsOf_apply [OF assms(1), of gl obj] assms(2) map_of_inject_set [of "rev gl" gl]
  by (simp add: rev_map [symmetric])

text \<open>A selector matches the labels that carry each of its pairs.\<close>

definition selects :: "LabelSelector \<Rightarrow> string gomap \<Rightarrow> bool" where
  "selects sel labels = list_all (\<lambda>(k, v). map_of labels k = Some v) (MatchLabels sel)"

lemma distinct_keys_foldRes_merge: "foldRes mergeStep other m = Inr m' \<Longrightarrow> distinct (map fst m) \<Longrightarrow> distinct (map fst m')"
  by (induction other arbitrary: m) (auto simp: mergeStep_def distinct_update split: option.splits sum.splits)

lemma distinct_keys_Merge: "Merge gl other = Inr m \<Longrightarrow> distinct (map fst m)"
proof -
  assume m: "Merge gl other = Inr m"
  have "distinct (map fst (fold (\<lambda>(k, v). AList.update k v) gl a))" if "distinct (map fst a)" for a :: labeler
    using that by (induction gl arbitrary: a) (auto simp: distinct_update split: prod.splits)
  then have "distinct (map fst (copyLabels gl))" by (simp add: copyLabels_def)
  then show ?thesis using m distinct_keys_foldRes_merge by (auto simp: Merge_def)
qed

section \<open>Properties\<close>


definition sampleNested :: nested where
  "sampleNested =
     \<lparr>NestedStringSlice = (\<lambda>obj path.
        (case map_of obj (joinWith ''.'' path) of
           None \<Rightarrow> Inr ([], False)
         | Some (VList vs) \<Rightarrow> Inr (map (\<lambda>v. case v of VStr s \<Rightarrow> s | _ \<Rightarrow> []) vs, True)
         | Some _ \<Rightarrow> Inl ''not a list'')),
      SetNestedStringSlice = (\<lambda>obj xs path. Inr (AList.update (joinWith ''.'' path) (VList (map VStr xs)) obj))\<rparr>"

text \<open>
  A reading of the two functions of apimachinery: a missing or null field on the way is not found, a
  list with something else than strings is an error, and null cannot be descended into for writing.
\<close>

fun readStrings :: "val gomap \<Rightarrow> string list \<Rightarrow> string + string list \<times> bool" where
  "readStrings obj [] = Inr ([], False)"
| "readStrings obj [p] =
     (case map_of obj p of
        None \<Rightarrow> Inr ([], False)
      | Some (VList vs) \<Rightarrow>
          (if list_all (\<lambda>v. case v of VStr _ \<Rightarrow> True | _ \<Rightarrow> False) vs
           then Inr (map (\<lambda>v. case v of VStr s \<Rightarrow> s | _ \<Rightarrow> []) vs, True) else Inl ''not a string'')
      | Some _ \<Rightarrow> Inl ''not a list'')"
| "readStrings obj (p # q # path) =
     (case map_of obj p of
        None \<Rightarrow> Inr ([], False)
      | Some VNil \<Rightarrow> Inr ([], False)
      | Some (VMap m) \<Rightarrow> readStrings m (q # path)
      | Some _ \<Rightarrow> Inl ''not a map'')"

fun writeStrings :: "val gomap \<Rightarrow> string list \<Rightarrow> string list \<Rightarrow> string + val gomap" where
  "writeStrings obj xs [] = Inl ''no path''"
| "writeStrings obj xs [p] = Inr (AList.update p (VList (map VStr xs)) obj)"
| "writeStrings obj xs (p # q # path) =
     (case map_of obj p of
        None \<Rightarrow> (case writeStrings [] xs (q # path) of Inl e \<Rightarrow> Inl e | Inr m \<Rightarrow> Inr (AList.update p (VMap m) obj))
      | Some (VMap m) \<Rightarrow> (case writeStrings m xs (q # path) of Inl e \<Rightarrow> Inl e | Inr m' \<Rightarrow> Inr (AList.update p (VMap m') obj))
      | Some _ \<Rightarrow> Inl ''not a map'')"

definition unstructuredNested :: nested where
  "unstructuredNested = \<lparr>NestedStringSlice = readStrings, SetNestedStringSlice = writeStrings\<rparr>"

lemma read_write: "writeStrings obj xs path = Inr obj' \<Longrightarrow> readStrings obj' path = Inr (xs, True)"
  by (induction obj xs path arbitrary: obj' rule: writeStrings.induct)
    (auto simp: update_conv' comp_def list_all_iff split: option.splits val.splits sum.splits)

lemma read_missing: "readStrings obj path = Inr (xs, False) \<Longrightarrow> xs = []"
  by (induction obj path rule: readStrings.induct) (auto split: option.splits val.splits if_splits)

lemma write_elsewhere: "writeStrings obj xs (p # path) = Inr obj' \<Longrightarrow> k \<noteq> p \<Longrightarrow> map_of obj' k = map_of obj k"
  by (cases path) (auto simp: update_conv' split: option.splits val.splits sum.splits)

lemma unstructuredNested_ok: "nested_strings unstructuredNested"
  using read_write read_missing write_elsewhere unfolding nested_strings_def unstructuredNested_def by auto

lemma null_metadata_not_writable:
  "HasInstanceFinalizerUnstructured unstructuredNested [(''metadata'', VNil)] u = Inr False"
  "isl (SetInstanceFinalizerUnstructured unstructuredNested [(''metadata'', VNil)] u)"
  by (simp_all add: HasInstanceFinalizerUnstructured_def SetInstanceFinalizerUnstructured_def unstructuredNested_def)

definition exampleFinalized :: "val gomap" where
  "exampleFinalized = [(''kind'', VStr ''Net''), (''metadata'', VMap [(''finalizers'', VList [VStr ''other/finalizer''])])]"


text \<open>
  C28. The labelers of an instance, of its resource group and of the controller never clash, and a
  resource they are applied to is found by the selector for the instance and the resource group; its
  other labels and its finalizers are kept.
\<close>

theorem subresource_labels_select:
  assumes "metav1_object U"
  shows "\<exists>gl m. Merge (NewKroMetaLabeler version pod) (NewResourceGroupLabeler objectMeta rg) = Inr gl \<and>
    Merge (NewInstanceLabeler U inst) gl = Inr m \<and>
    selects (NewInstanceAndResourceGroupSelector U inst objectMeta rg) (labelsOf U (ApplyLabels U m obj)) \<and>
    map_of (labelsOf U (ApplyLabels U m obj)) OwnedLabel = Some ''true'' \<and>
    GetFinalizers U (ApplyLabels U m obj) = GetFinalizers U obj \<and>
    (\<forall>k. map_of m k = None \<longrightarrow> map_of (labelsOf U (ApplyLabels U m obj)) k = map_of (labelsOf U obj) k)"
proof -
  let ?rg = "NewResourceGroupLabeler objectMeta rg" and ?kro = "NewKroMetaLabeler version pod"
    and ?inst = "NewInstanceLabeler U inst"
  note keys = NewResourceGroupLabeler_def NewKroMetaLabeler_def NewInstanceLabeler_def label_defs
  obtain gl where gl: "Merge ?kro ?rg = Inr gl" "map_of gl = map_of ?kro ++ map_of ?rg"
    using Merge_disjoint [of ?kro ?rg] by (auto simp: keys)
  have dom: "fst ` set gl = fst ` set ?rg \<union> fst ` set ?kro"
    using arg_cong [OF gl(2), of dom] by (simp add: dom_map_of_conv_image_fst)
  obtain m where m: "Merge ?inst gl = Inr m" "map_of m = map_of ?inst ++ map_of gl"
    using Merge_disjoint [of ?inst gl] distinct_keys_Merge [OF gl(1)] dom by (auto simp: keys)
  have labels: "map_of (labelsOf U (ApplyLabels U m obj)) = map_of (labelsOf U obj) ++ map_of m"
    using map_of_apply_merged [OF assms distinct_keys_Merge [OF m(1)]] .
  have "map_of m InstanceIDLabel = Some (GetUID U inst)" "map_of m ResourceGroupIDLabel = Some (GetUID objectMeta rg)"
    "map_of m OwnedLabel = Some ''true''"
    by (simp_all add: m(2) gl(2) keys map_add_def)
  then have "selects (NewInstanceAndResourceGroupSelector U inst objectMeta rg) (labelsOf U (ApplyLabels U m obj))"
    "map_of (labelsOf U (ApplyLabels U m obj)) OwnedLabel = Some ''true''"
    by (simp_all add: selects_def NewInstanceAndResourceGroupSelector_def labels)
  moreover have "\<forall>k. map_of m k = None \<longrightarrow> map_of (labelsOf U (ApplyLabels U m obj)) k = map_of (labelsOf U obj) k"
    by (simp add: labels map_add_def)
  ultimately show ?thesis
    using gl(1) m(1) metav1_object.finalizers_apply [OF assms] by blast
qed

theorem subresource_labels_select_witness:
  "\<exists>m. selects (NewInstanceAndResourceGroupSelector objectMeta
        \<lparr>metaName = ''a'', metaNamespace = ''d'', metaUID = ''7f'', metaLabels = None, metaFinalizers = []\<rparr> objectMeta
        \<lparr>metaName = ''g'', metaNamespace = ''d'', metaUID = ''8a'', metaLabels = None, metaFinalizers = []\<rparr>)
      (labelsOf objectMeta (ApplyLabels objectMeta m
        \<lparr>metaName = ''x'', metaNamespace = ''d'', metaUID = [], metaLabels = None, metaFinalizers = []\<rparr>))"
  using subresource_labels_select [OF om.metav1_object_axioms,
      where rg = "\<lparr>metaName = ''g'', metaNamespace = ''d'', metaUID = ''8a'', metaLabels = None, metaFinalizers = []\<rparr>"
        and inst = "\<lparr>metaName = ''a'', metaNamespace = ''d'', metaUID = ''7f'', metaLabels = None, metaFinalizers = []\<rparr>"]
  by blast

text \<open>A struct without labels that is passed by value keeps none.\<close>

lemma set_kro_owned_lost: "metaLabels m = None \<Longrightarrow> \<not> IsKroOwned (SetKroOwned m)"
  by (simp add: SetKroOwned_def callerAfter_def IsKroOwned_def)

end
