(* ===== verification/Dag.thy ===== *)
theory Dag
  imports Kro_Prelude "HOL-Library.Product_Lexorder"
begin

text \<open>
  The dependency graph of \<open>src/internal/graph/dag/dag.go\<close>: its state, every operation, the
  invariant (well-formed and acyclic) and its preservation, the correctness of the cycle
  search and of the topological sort.

  The two depth-first searches of the code are closures that recurse over the neighbours of a
  node. Here each is one function over the list of neighbours still to visit; entering and
  leaving a node are the statements before and after the loop of the closure. A lookup of a
  node that is no vertex dereferences a nil pointer in the code: the searches return \<open>None\<close>
  there, and the lemmas show that it never happens on a well-formed graph.
\<close>

section \<open>State and operations\<close>

record Vertex =
  vertexID :: string
  Edges :: "string list"

record DirectedAcyclicGraph =
  Vertices :: "Vertex gomap"

datatype dag_error =
    NodeExists string
  | NodeMissing string
  | SelfReference
  | CycleError string string "string list"
  | GraphHasCycle

definition NewDirectedAcyclicGraph :: DirectedAcyclicGraph where
  "NewDirectedAcyclicGraph = \<lparr>Vertices = []\<rparr>"

definition AddVertex :: "DirectedAcyclicGraph \<Rightarrow> string \<Rightarrow> dag_error + DirectedAcyclicGraph" where
  "AddVertex d i =
     (case map_of (Vertices d) i of
        Some _ \<Rightarrow> Inl (NodeExists i)
      | None \<Rightarrow> Inr (d\<lparr>Vertices := AList.update i \<lparr>vertexID = i, Edges = []\<rparr> (Vertices d)\<rparr>))"

definition formatCycle :: "string list \<Rightarrow> string" where
  "formatCycle cycle = joinWith '' -> '' cycle"

subsection \<open>HasCycle\<close>

record cycle_state =
  cyc_visited :: "string list"
  cyc_recStack :: "string list"
  cyc_path :: "string list"

definition enterNode :: "string \<Rightarrow> cycle_state \<Rightarrow> cycle_state" where
  "enterNode n st =
     st\<lparr>cyc_visited := n # cyc_visited st, cyc_recStack := n # cyc_recStack st,
        cyc_path := cyc_path st @ [n]\<rparr>"

definition leaveNode :: "string \<Rightarrow> cycle_state \<Rightarrow> cycle_state" where
  "leaveNode n st =
     st\<lparr>cyc_recStack := removeAll n (cyc_recStack st), cyc_path := butlast (cyc_path st)\<rparr>"

function dfsCycle ::
  "DirectedAcyclicGraph \<Rightarrow> string list \<Rightarrow> cycle_state \<Rightarrow> (bool \<times> cycle_state) option" where
  "dfsCycle d [] st = Some (False, st)"
| "dfsCycle d (n # ns) st =
     (if n \<notin> set (cyc_visited st) then
        (case map_of (Vertices d) n of
           None \<Rightarrow> None
         | Some v \<Rightarrow>
             (case dfsCycle d (Edges v) (enterNode n st) of
                None \<Rightarrow> None
              | Some (b, st') \<Rightarrow> if b then Some (True, st') else dfsCycle d ns (leaveNode n st')))
      else if n \<in> set (cyc_recStack st) then Some (True, st\<lparr>cyc_path := cyc_path st @ [n]\<rparr>)
      else dfsCycle d ns st)"
  by pat_completeness auto

lemma enterNode_visited [simp]: "cyc_visited (enterNode n st) = n # cyc_visited st"
  by (simp add: enterNode_def)

lemma leaveNode_visited [simp]: "cyc_visited (leaveNode n st) = cyc_visited st"
  by (simp add: leaveNode_def)

lemma dfsCycle_visited_mono:
  "dfsCycle_dom (d, ns, st) \<Longrightarrow> dfsCycle d ns st = Some (b, st') \<Longrightarrow>
   set (cyc_visited st) \<subseteq> set (cyc_visited st')"
proof (induction d ns st arbitrary: b st' rule: dfsCycle.pinduct)
  case (2 d n ns st)
  then show ?case
    by (fastforce simp: dfsCycle.psimps split: if_splits option.splits prod.splits)
qed (simp add: dfsCycle.psimps)

definition vertexNames :: "DirectedAcyclicGraph \<Rightarrow> string set" where
  "vertexNames d = fst ` set (Vertices d)"

lemma finite_vertexNames [simp]: "finite (vertexNames d)"
  by (simp add: vertexNames_def)

lemma vertexNames_iff: "n \<in> vertexNames d \<longleftrightarrow> (\<exists>v. map_of (Vertices d) n = Some v)"
  using map_of_eq_None_iff [of "Vertices d" n] unfolding vertexNames_def
  by (cases "map_of (Vertices d) n") simp_all

lemma unvisited_decreases:
  assumes "n \<in> vertexNames d" and "n \<notin> V" and "V \<subseteq> V'" and "n \<in> V'"
  shows "card (vertexNames d - V') < card (vertexNames d - V)"
  using assms by (intro psubset_card_mono) auto

lemma unvisited_mono:
  "V \<subseteq> V' \<Longrightarrow> card (vertexNames d - V') \<le> card (vertexNames d - V)"
  by (intro card_mono) auto

termination dfsCycle
proof (relation "measures [\<lambda>(d, ns, st). card (vertexNames d - set (cyc_visited st)),
                           \<lambda>(d, ns, st). length ns]", goal_cases)
  case (2 d n ns st v)
  then have "card (vertexNames d - set (cyc_visited (enterNode n st)))
      < card (vertexNames d - set (cyc_visited st))"
    by (intro unvisited_decreases) (auto simp: vertexNames_iff)
  then show ?case by simp
next
  case (3 d n ns st v r b st')
  then have "set (cyc_visited (enterNode n st)) \<subseteq> set (cyc_visited st')"
    using dfsCycle_visited_mono by metis
  with 3 have "card (vertexNames d - set (cyc_visited (leaveNode n st')))
      < card (vertexNames d - set (cyc_visited st))"
    by (intro unvisited_decreases) (auto simp: vertexNames_iff)
  then show ?case by simp
qed auto

fun indexOf :: "string \<Rightarrow> string list \<Rightarrow> nat option" where
  "indexOf x [] = None"
| "indexOf x (y # ys) = (if y = x then Some 0 else map_option Suc (indexOf x ys))"

text \<open>The trimming of \<open>cyclePath\<close> to start at the repeated node.\<close>

definition trimCycle :: "string list \<Rightarrow> string list" where
  "trimCycle p =
     (let start = (case indexOf (last p) (butlast p) of None \<Rightarrow> 0 | Some i \<Rightarrow> i) in drop start p)"

fun hasCycleLoop ::
  "DirectedAcyclicGraph \<Rightarrow> string list \<Rightarrow> cycle_state \<Rightarrow> (bool \<times> string list) option" where
  "hasCycleLoop d [] st = Some (False, [])"
| "hasCycleLoop d (n # ns) st =
     (if n \<notin> set (cyc_visited st) then
        (case dfsCycle d [n] (st\<lparr>cyc_path := []\<rparr>) of
           None \<Rightarrow> None
         | Some (b, st') \<Rightarrow>
             if b then Some (True, trimCycle (cyc_path st')) else hasCycleLoop d ns st')
      else hasCycleLoop d ns st)"

definition HasCycle :: "DirectedAcyclicGraph \<Rightarrow> (bool \<times> string list) option" where
  "HasCycle d =
     hasCycleLoop d (map fst (Vertices d))
       \<lparr>cyc_visited = [], cyc_recStack = [], cyc_path = []\<rparr>"

subsection \<open>AddEdge\<close>

definition setEdges :: "DirectedAcyclicGraph \<Rightarrow> string \<Rightarrow> Vertex \<Rightarrow> string list \<Rightarrow> DirectedAcyclicGraph"
  where "setEdges d i v es = d\<lparr>Vertices := AList.update i (v\<lparr>Edges := es\<rparr>) (Vertices d)\<rparr>"

text \<open>
  The returned error (if any) and the graph after the call; \<open>None\<close> if the cycle search
  dereferences a missing vertex.
\<close>

definition AddEdge ::
  "DirectedAcyclicGraph \<Rightarrow> string \<Rightarrow> string \<Rightarrow> (dag_error option \<times> DirectedAcyclicGraph) option" where
  "AddEdge d from to =
     (case map_of (Vertices d) from of
        None \<Rightarrow> Some (Some (NodeMissing from), d)
      | Some fromNode \<Rightarrow>
          if map_of (Vertices d) to = None then Some (Some (NodeMissing to), d)
          else if from = to then Some (Some SelfReference, d)
          else
            (let d1 = setEdges d from fromNode (appendNew (Edges fromNode) to) in
             case HasCycle d1 of
               None \<Rightarrow> None
             | Some (hasCycle, cycle) \<Rightarrow>
                 if hasCycle
                 then Some (Some (CycleError from to cycle),
                            setEdges d1 from fromNode
                              (removeAll to (appendNew (Edges fromNode) to)))
                 else Some (None, d1)))"

subsection \<open>GetVertices, GetEdges, TopologicalSort\<close>

definition GetVertices :: "DirectedAcyclicGraph \<Rightarrow> string list" where
  "GetVertices d = sort (map fst (Vertices d))"

definition GetEdges :: "DirectedAcyclicGraph \<Rightarrow> (string \<times> string) list" where
  "GetEdges d = sort (concat (map (\<lambda>(from, node). map (\<lambda>to. (from, to)) (Edges node)) (Vertices d)))"

record topo_state =
  topo_visited :: "string list"
  topo_order :: "string list"

definition enterTopo :: "string \<Rightarrow> topo_state \<Rightarrow> topo_state" where
  "enterTopo n st = st\<lparr>topo_visited := n # topo_visited st\<rparr>"

definition leaveTopo :: "string \<Rightarrow> topo_state \<Rightarrow> topo_state" where
  "leaveTopo n st = st\<lparr>topo_order := topo_order st @ [n]\<rparr>"

function dfsTopo ::
  "DirectedAcyclicGraph \<Rightarrow> string list \<Rightarrow> topo_state \<Rightarrow> topo_state option" where
  "dfsTopo d [] st = Some st"
| "dfsTopo d (n # ns) st =
     (if n \<notin> set (topo_visited st) then
        (case map_of (Vertices d) n of
           None \<Rightarrow> None
         | Some v \<Rightarrow>
             (case dfsTopo d (sort (Edges v)) (enterTopo n st) of
                None \<Rightarrow> None
              | Some st' \<Rightarrow> dfsTopo d ns (leaveTopo n st')))
      else dfsTopo d ns st)"
  by pat_completeness auto

lemma enterTopo_simps [simp]:
  "topo_visited (enterTopo n st) = n # topo_visited st" "topo_order (enterTopo n st) = topo_order st"
  by (simp_all add: enterTopo_def)

lemma leaveTopo_simps [simp]:
  "topo_visited (leaveTopo n st) = topo_visited st" "topo_order (leaveTopo n st) = topo_order st @ [n]"
  by (simp_all add: leaveTopo_def)

lemma dfsTopo_visited_mono:
  "dfsTopo_dom (d, ns, st) \<Longrightarrow> dfsTopo d ns st = Some st' \<Longrightarrow>
   set (topo_visited st) \<subseteq> set (topo_visited st')"
proof (induction d ns st arbitrary: st' rule: dfsTopo.pinduct)
  case (2 d n ns st)
  then show ?case
    by (fastforce simp: dfsTopo.psimps split: if_splits option.splits)
qed (simp add: dfsTopo.psimps)

termination dfsTopo
proof (relation "measures [\<lambda>(d, ns, st). card (vertexNames d - set (topo_visited st)),
                           \<lambda>(d, ns, st). length ns]", goal_cases)
  case (2 d n ns st v)
  then have "card (vertexNames d - set (topo_visited (enterTopo n st)))
      < card (vertexNames d - set (topo_visited st))"
    by (intro unvisited_decreases) (auto simp: vertexNames_iff)
  then show ?case by simp
next
  case (3 d n ns st v st')
  then have "set (topo_visited (enterTopo n st)) \<subseteq> set (topo_visited st')"
    using dfsTopo_visited_mono by metis
  with 3 have "card (vertexNames d - set (topo_visited (leaveTopo n st')))
      < card (vertexNames d - set (topo_visited st))"
    by (intro unvisited_decreases) (auto simp: vertexNames_iff)
  then show ?case by simp
qed auto

definition TopologicalSort :: "DirectedAcyclicGraph \<Rightarrow> (dag_error + string list) option" where
  "TopologicalSort d =
     (case HasCycle d of
        None \<Rightarrow> None
      | Some (cyclic, _) \<Rightarrow>
          if cyclic then Some (Inl GraphHasCycle)
          else map_option (\<lambda>st. Inr (topo_order st))
                 (dfsTopo d (GetVertices d) \<lparr>topo_visited = [], topo_order = []\<rparr>))"

section \<open>The graph a state denotes\<close>

text \<open>The edge relation, well-formedness, and the invariant of the package.\<close>

definition edgeRel :: "DirectedAcyclicGraph \<Rightarrow> (string \<times> string) set" where
  "edgeRel d = {(a, b). \<exists>v. map_of (Vertices d) a = Some v \<and> b \<in> set (Edges v)}"

definition wf_dag :: "DirectedAcyclicGraph \<Rightarrow> bool" where
  "wf_dag d \<longleftrightarrow>
     distinct (map fst (Vertices d)) \<and>
     (\<forall>(i, v) \<in> set (Vertices d).
        vertexID v = i \<and> distinct (Edges v) \<and> set (Edges v) \<subseteq> fst ` set (Vertices d))"

definition dag_inv :: "DirectedAcyclicGraph \<Rightarrow> bool" where
  "dag_inv d \<longleftrightarrow> wf_dag d \<and> acyclic (edgeRel d)"

lemma wf_dag_edges:
  assumes "wf_dag d" and "map_of (Vertices d) i = Some v"
  shows "vertexID v = i" and "distinct (Edges v)" and "set (Edges v) \<subseteq> vertexNames d"
  using assms map_of_SomeD [OF assms(2)] by (auto simp: wf_dag_def vertexNames_def)

lemma edgeRel_edges: "map_of (Vertices d) a = Some v \<Longrightarrow> (a, b) \<in> edgeRel d \<longleftrightarrow> b \<in> set (Edges v)"
  by (simp add: edgeRel_def)

lemma edgeRel_verts: "wf_dag d \<Longrightarrow> (a, b) \<in> edgeRel d \<Longrightarrow> a \<in> vertexNames d \<and> b \<in> vertexNames d"
  using wf_dag_edges(3) by (fastforce simp: edgeRel_def vertexNames_iff)

section \<open>Correctness of HasCycle\<close>

abbreviation graph_path :: "('a \<times> 'a) set \<Rightarrow> 'a list \<Rightarrow> bool" where
  "graph_path E \<equiv> successively (\<lambda>a b. (a, b) \<in> E)"

text \<open>
  The finished nodes are those visited and off the recursion stack. They are closed under
  edges and lie on no cycle; the recursion stack is the path from the root to the current node.
\<close>

definition finished :: "cycle_state \<Rightarrow> string set" where
  "finished st = set (cyc_visited st) - set (cyc_recStack st)"

definition cyc_inv :: "(string \<times> string) set \<Rightarrow> cycle_state \<Rightarrow> bool" where
  "cyc_inv E st \<longleftrightarrow>
     set (cyc_recStack st) \<subseteq> set (cyc_visited st) \<and> set (cyc_path st) = set (cyc_recStack st) \<and>
     graph_path E (cyc_path st) \<and> E `` finished st \<subseteq> finished st \<and>
     (\<forall>x \<in> finished st. (x, x) \<notin> E\<^sup>+)"

lemma trancl_closed:
  assumes "(x, y) \<in> E\<^sup>+" and "E `` F \<subseteq> F" and "x \<in> F"
  shows "y \<in> F"
  using assms by (induction rule: trancl_induct) auto

lemma cyc_inv_enter:
  assumes "cyc_inv E st" and "n \<notin> set (cyc_visited st)"
    and "cyc_path st \<noteq> [] \<Longrightarrow> (last (cyc_path st), n) \<in> E"
  shows "cyc_inv E (enterNode n st)"
proof -
  have "finished (enterNode n st) = finished st"
    using assms(2) by (auto simp: finished_def enterNode_def)
  then show ?thesis
    using assms by (auto simp: cyc_inv_def enterNode_def successively_append_iff)
qed

lemma cyc_inv_leave:
  assumes inv: "cyc_inv E st'" and rec: "cyc_recStack st' = n # cyc_recStack st"
    and path: "cyc_path st' = cyc_path st @ [n]" and st: "cyc_inv E st"
    and n: "n \<notin> set (cyc_visited st)" and succs: "E `` {n} \<subseteq> finished st'"
  shows "cyc_inv E (leaveNode n st')"
    and "cyc_recStack (leaveNode n st') = cyc_recStack st"
    and "finished (leaveNode n st') = insert n (finished st')"
proof -
  have nrec: "n \<notin> set (cyc_recStack st)" using st n by (auto simp: cyc_inv_def)
  then show rec': "cyc_recStack (leaveNode n st') = cyc_recStack st"
    using rec by (simp add: leaveNode_def)
  have "n \<in> set (cyc_visited st')" using inv rec by (auto simp: cyc_inv_def)
  then show fin: "finished (leaveNode n st') = insert n (finished st')"
    using rec nrec by (auto simp: finished_def leaveNode_def)
  have closed: "E `` finished st' \<subseteq> finished st'" using inv by (simp add: cyc_inv_def)
  have "n \<notin> finished st'" using rec by (simp add: finished_def)
  then have "(n, n) \<notin> E\<^sup>+"
    using succs trancl_closed [OF _ closed] by (blast elim: converse_tranclE)
  moreover have "set (cyc_recStack (leaveNode n st')) \<subseteq> set (cyc_visited (leaveNode n st'))"
    using inv by (auto simp: cyc_inv_def leaveNode_def)
  moreover have "cyc_path (leaveNode n st') = cyc_path st" using path by (simp add: leaveNode_def)
  ultimately show "cyc_inv E (leaveNode n st')"
    using inv st succs unfolding cyc_inv_def fin rec' by auto
qed

definition closed_path :: "(string \<times> string) set \<Rightarrow> string list \<Rightarrow> bool" where
  "closed_path E p \<longleftrightarrow> graph_path E p \<and> (\<exists>q x. p = q @ [x] \<and> x \<in> set q)"

text \<open>What a call of the search guarantees, for either answer.\<close>

definition dfs_post ::
  "(string \<times> string) set \<Rightarrow> string list \<Rightarrow> cycle_state \<Rightarrow> bool \<times> cycle_state \<Rightarrow> bool" where
  "dfs_post E ns st r \<longleftrightarrow>
     (case r of (b, st') \<Rightarrow>
        if b then closed_path E (cyc_path st')
        else cyc_inv E st' \<and> cyc_recStack st' = cyc_recStack st \<and> cyc_path st' = cyc_path st \<and>
             set (cyc_visited st) \<subseteq> set (cyc_visited st') \<and> set ns \<subseteq> finished st')"

lemma finished_mono:
  "set (cyc_visited st) \<subseteq> set (cyc_visited st') \<Longrightarrow> cyc_recStack st' = cyc_recStack st \<Longrightarrow>
   finished st \<subseteq> finished st'"
  by (auto simp: finished_def)

lemma dfs_post_cons:
  assumes "dfs_post E ns st' r" and "cyc_recStack st' = cyc_recStack st"
    and "cyc_path st' = cyc_path st" and "set (cyc_visited st) \<subseteq> set (cyc_visited st')"
    and "n \<in> finished st'"
  shows "dfs_post E (n # ns) st r"
proof -
  obtain b st'' where r: "r = (b, st'')" by (cases r)
  show ?thesis
  proof (cases b)
    case True
    with assms(1) r show ?thesis by (simp add: dfs_post_def)
  next
    case False
    have "finished st' \<subseteq> finished st''"
      using assms(1) r False finished_mono [of st' st''] by (auto simp: dfs_post_def)
    with assms r False show ?thesis by (auto simp: dfs_post_def)
  qed
qed

text \<open>An edge back to a node on the stack closes a cycle.\<close>

lemma back_edge_closes:
  assumes "cyc_inv E st" and "n \<in> set (cyc_recStack st)" and "cyc_path st \<noteq> [] \<Longrightarrow> (last (cyc_path st), n) \<in> E"
  shows "closed_path E (cyc_path st @ [n])"
proof -
  have "n \<in> set (cyc_path st)" using assms(1,2) by (simp add: cyc_inv_def)
  moreover from this have "(last (cyc_path st), n) \<in> E" using assms(3) by force
  ultimately show ?thesis using assms(1) by (auto simp: closed_path_def cyc_inv_def successively_append_iff)
qed

lemma dfsCycle_correct:
  assumes "wf_dag d" and "set ns \<subseteq> vertexNames d" and "cyc_inv (edgeRel d) st"
    and "cyc_path st \<noteq> [] \<Longrightarrow> \<forall>n \<in> set ns. (last (cyc_path st), n) \<in> edgeRel d"
  shows "\<exists>r. dfsCycle d ns st = Some r \<and> dfs_post (edgeRel d) ns st r"
  using assms
proof (induction d ns st rule: dfsCycle.induct)
  case (1 d st)
  then show ?case by (simp add: dfs_post_def)
next
  case (2 d n ns st)
  let ?E = "edgeRel d"
  show ?case
  proof (cases "n \<in> set (cyc_visited st)")
    case vis: True
    show ?thesis
    proof (cases "n \<in> set (cyc_recStack st)")
      case True
      with back_edge_closes [OF "2.prems"(3)] "2.prems"(4) have "closed_path ?E (cyc_path st @ [n])" by simp
      with vis True show ?thesis by (simp add: dfs_post_def)
    next
      case False
      then have "\<exists>r. dfsCycle d ns st = Some r \<and> dfs_post ?E ns st r"
        using "2.IH"(3) vis "2.prems" by simp
      moreover have "n \<in> finished st" using vis False by (simp add: finished_def)
      ultimately show ?thesis using vis False dfs_post_cons [of ?E ns st] by fastforce
    qed
  next
    case nvis: False
    obtain v where v: "map_of (Vertices d) n = Some v"
      using "2.prems"(2) by (auto simp: vertexNames_iff)
    let ?st1 = "enterNode n st"
    have inv1: "cyc_inv ?E ?st1"
      using cyc_inv_enter "2.prems"(3,4) nvis by simp
    have succ: "\<forall>m \<in> set (Edges v). (last (cyc_path ?st1), m) \<in> ?E"
      using v by (simp add: enterNode_def edgeRel_edges)
    obtain b st' where rec: "dfsCycle d (Edges v) ?st1 = Some (b, st')"
        and post: "dfs_post ?E (Edges v) ?st1 (b, st')"
      using "2.IH"(1) [OF nvis v "2.prems"(1) wf_dag_edges(3) [OF "2.prems"(1) v] inv1] succ by auto
    show ?thesis
    proof (cases b)
      case True
      with post rec nvis v show ?thesis by (simp add: dfs_post_def)
    next
      case False
      have st': "cyc_inv ?E st'" "cyc_recStack st' = n # cyc_recStack st"
          "cyc_path st' = cyc_path st @ [n]" "set (n # cyc_visited st) \<subseteq> set (cyc_visited st')"
          "?E `` {n} \<subseteq> finished st'"
        using post False v by (auto simp: dfs_post_def enterNode_def edgeRel_edges)
      note leave = cyc_inv_leave [OF st'(1-3) "2.prems"(3) nvis st'(5)]
      have path: "cyc_path (leaveNode n st') = cyc_path st" using st'(3) by (simp add: leaveNode_def)
      have "\<exists>r. dfsCycle d ns (leaveNode n st') = Some r \<and> dfs_post ?E ns (leaveNode n st') r"
        using "2.IH"(2) [OF nvis v rec refl False "2.prems"(1) _ leave(1)] "2.prems"(2,4) path by simp
      then obtain r where r: "dfsCycle d ns (leaveNode n st') = Some r"
          and rpost: "dfs_post ?E ns (leaveNode n st') r" by blast
      have "dfs_post ?E (n # ns) st r"
        using dfs_post_cons [OF rpost leave(2) path] st'(4) leave(3) by auto
      with r rec False nvis v show ?thesis by simp
    qed
  qed
qed

lemma indexOf_Some: "x \<in> set xs \<Longrightarrow> \<exists>i ys zs. indexOf x xs = Some i \<and> xs = ys @ x # zs \<and> length ys = i"
proof (induction xs)
  case (Cons y ys)
  show ?case
  proof (cases "y = x")
    case True
    then show ?thesis by force
  next
    case False
    with Cons obtain i as bs where "indexOf x ys = Some i" "ys = as @ x # bs" "length as = i" by auto
    with False have "indexOf x (y # ys) = Some (Suc i) \<and> y # ys = (y # as) @ x # bs \<and> length (y # as) = Suc i"
      by simp
    then show ?thesis by blast
  qed
qed simp

text \<open>A closed path with its repeated node first: the cycle that is reported.\<close>

definition is_cycle :: "(string \<times> string) set \<Rightarrow> string list \<Rightarrow> bool" where
  "is_cycle E p \<longleftrightarrow> graph_path E p \<and> 2 \<le> length p \<and> hd p = last p"

lemma trimCycle_cycle:
  assumes "closed_path E p"
  shows "is_cycle E (trimCycle p)"
proof -
  obtain q x where p: "p = q @ [x]" and x: "x \<in> set q" using assms by (auto simp: closed_path_def)
  obtain i ys zs where i: "indexOf x q = Some i" "q = ys @ x # zs" "length ys = i"
    using indexOf_Some [OF x] by blast
  have "trimCycle p = drop i p" using p i(1) by (simp add: trimCycle_def)
  then have "trimCycle p = x # zs @ [x]" using p i(2,3) by simp
  moreover have "graph_path E (x # zs @ [x])"
    using assms p i(2) by (simp add: closed_path_def successively_append_iff)
  ultimately show ?thesis by (simp add: is_cycle_def)
qed

lemma graph_path_trancl:
  "graph_path E (x # xs) \<Longrightarrow> xs \<noteq> [] \<Longrightarrow> (x, last xs) \<in> E\<^sup>+"
proof (induction xs arbitrary: x)
  case (Cons y ys)
  then show ?case by (cases ys) (auto intro: trancl_into_trancl2)
qed simp

lemma is_cycle_trancl: "is_cycle E p \<Longrightarrow> \<exists>x. (x, x) \<in> E\<^sup>+"
proof -
  assume c: "is_cycle E p"
  then obtain x xs where p: "p = x # xs" and xs: "xs \<noteq> []"
    by (cases p; cases "tl p") (auto simp: is_cycle_def)
  with c have "(x, last xs) \<in> E\<^sup>+" by (auto simp: is_cycle_def intro: graph_path_trancl)
  with c p xs show ?thesis by (auto simp: is_cycle_def)
qed

text \<open>What the outer loop answers once the nodes \<open>V\<close> have been tried.\<close>

definition cycle_answer :: "(string \<times> string) set \<Rightarrow> string set \<Rightarrow> bool \<times> string list \<Rightarrow> bool" where
  "cycle_answer E V r \<longleftrightarrow>
     (case r of (b, p) \<Rightarrow>
        if b then is_cycle E p
        else \<exists>st. cyc_inv E st \<and> cyc_recStack st = [] \<and> V \<subseteq> set (cyc_visited st))"

lemma cycle_answer_mono: "cycle_answer E V r \<Longrightarrow> W \<subseteq> V \<Longrightarrow> cycle_answer E W r"
  unfolding cycle_answer_def by (auto split: prod.splits if_splits)

lemma hasCycleLoop_correct:
  assumes "wf_dag d" and "set ns \<subseteq> vertexNames d" and "cyc_inv (edgeRel d) st"
    and "cyc_recStack st = []"
  shows "\<exists>r. hasCycleLoop d ns st = Some r \<and>
           cycle_answer (edgeRel d) (set (cyc_visited st) \<union> set ns) r"
  using assms
proof (induction d ns st rule: hasCycleLoop.induct)
  case (1 d st)
  then show ?case by (auto simp: cycle_answer_def)
next
  case (2 d n ns st)
  show ?case
  proof (cases "n \<in> set (cyc_visited st)")
    case True
    with 2 obtain r where "hasCycleLoop d ns st = Some r"
        "cycle_answer (edgeRel d) (set (cyc_visited st) \<union> set ns) r"
      by auto
    with True show ?thesis by (auto intro: cycle_answer_mono)
  next
    case False
    let ?st0 = "st\<lparr>cyc_path := []\<rparr>"
    have "cyc_inv (edgeRel d) ?st0"
      using "2.prems"(3,4) by (simp add: cyc_inv_def finished_def)
    then obtain b st' where r: "dfsCycle d [n] ?st0 = Some (b, st')"
        and post: "dfs_post (edgeRel d) [n] ?st0 (b, st')"
      using dfsCycle_correct [of d "[n]" ?st0] "2.prems"(1,2) by auto
    show ?thesis
    proof (cases b)
      case True
      with r post False show ?thesis
        by (auto simp: dfs_post_def cycle_answer_def intro: trimCycle_cycle)
    next
      case nb: False
      have st': "cyc_inv (edgeRel d) st'" "cyc_recStack st' = []"
          "set (cyc_visited st) \<subseteq> set (cyc_visited st')" "n \<in> set (cyc_visited st')"
        using post nb "2.prems"(4) by (auto simp: dfs_post_def finished_def)
      from "2.IH"(1) [OF False r refl nb "2.prems"(1) _ st'(1,2)] "2.prems"(2)
      obtain r' where r': "hasCycleLoop d ns st' = Some r'"
          "cycle_answer (edgeRel d) (set (cyc_visited st') \<union> set ns) r'"
        by auto
      have "set (cyc_visited st) \<union> set (n # ns) \<subseteq> set (cyc_visited st') \<union> set ns"
        using st'(3,4) by auto
      with r' have "cycle_answer (edgeRel d) (set (cyc_visited st) \<union> set (n # ns)) r'"
        by (blast intro: cycle_answer_mono)
      with r r'(1) nb False show ?thesis by simp
    qed
  qed
qed

lemma trancl_start: "(x, y) \<in> E\<^sup>+ \<Longrightarrow> \<exists>z. (x, z) \<in> E"
  by (blast elim: converse_tranclE)

lemma HasCycle_answer:
  assumes "wf_dag d"
  shows "\<exists>r. HasCycle d = Some r \<and> cycle_answer (edgeRel d) (vertexNames d) r"
proof -
  let ?st = "\<lparr>cyc_visited = [], cyc_recStack = [], cyc_path = []\<rparr>"
  have "cyc_inv (edgeRel d) ?st" by (simp add: cyc_inv_def finished_def)
  from hasCycleLoop_correct [OF assms _ this, of "map fst (Vertices d)"] show ?thesis
    by (simp add: HasCycle_def vertexNames_def)
qed

lemma HasCycle_correct:
  assumes "wf_dag d"
  shows "\<exists>b p. HasCycle d = Some (b, p) \<and> (b \<longleftrightarrow> \<not> acyclic (edgeRel d)) \<and>
           (b \<longrightarrow> is_cycle (edgeRel d) p)"
proof -
  obtain b p where h: "HasCycle d = Some (b, p)"
      and r: "cycle_answer (edgeRel d) (vertexNames d) (b, p)"
    using HasCycle_answer [OF assms] by auto
  show ?thesis
  proof (cases b)
    case True
    with r have "is_cycle (edgeRel d) p" by (simp add: cycle_answer_def)
    with h True is_cycle_trancl show ?thesis by (auto simp: acyclic_def)
  next
    case False
    with r obtain st' where st': "cyc_inv (edgeRel d) st'" "cyc_recStack st' = []"
        "vertexNames d \<subseteq> set (cyc_visited st')" by (auto simp: cycle_answer_def)
    then have "vertexNames d \<subseteq> finished st'" by (simp add: finished_def)
    then have none: "(x, x) \<notin> (edgeRel d)\<^sup>+" if "x \<in> vertexNames d" for x
      using st'(1) that by (auto simp: cyc_inv_def)
    have "acyclic (edgeRel d)"
      unfolding acyclic_def
    proof (intro allI notI)
      fix x assume x: "(x, x) \<in> (edgeRel d)\<^sup>+"
      then have "x \<in> vertexNames d" using trancl_start edgeRel_verts [OF assms] by metis
      with none x show False by blast
    qed
    with h False show ?thesis by auto
  qed
qed

section \<open>The graph operations keep the invariant\<close>

lemma dag_inv_new: "dag_inv NewDirectedAcyclicGraph"
  by (simp add: dag_inv_def wf_dag_def edgeRel_def NewDirectedAcyclicGraph_def acyclic_def)

lemma vertexNames_update [simp]:
  "vertexNames (d\<lparr>Vertices := AList.update i v (Vertices d)\<rparr>) = insert i (vertexNames d)"
  by (simp add: vertexNames_def dom_update)

lemma set_update_subset: "set (AList.update k v al) \<subseteq> insert (k, v) (set al)"
  by (induction al) auto

lemma wf_dag_update:
  assumes "wf_dag d" and "vertexID v = i" and "distinct (Edges v)"
    and "set (Edges v) \<subseteq> insert i (vertexNames d)"
  shows "wf_dag (d\<lparr>Vertices := AList.update i v (Vertices d)\<rparr>)"
  unfolding wf_dag_def
proof (intro conjI ballI)
  show "distinct (map fst (Vertices (d\<lparr>Vertices := AList.update i v (Vertices d)\<rparr>)))"
    using assms(1) by (simp add: wf_dag_def distinct_update)
next
  fix x assume "x \<in> set (Vertices (d\<lparr>Vertices := AList.update i v (Vertices d)\<rparr>))"
  then have "x = (i, v) \<or> x \<in> set (Vertices d)" using set_update_subset by fastforce
  then show "case x of (i', v') \<Rightarrow> vertexID v' = i' \<and> distinct (Edges v') \<and>
      set (Edges v') \<subseteq> fst ` set (Vertices (d\<lparr>Vertices := AList.update i v (Vertices d)\<rparr>))"
    using assms by (auto simp: dom_update wf_dag_def vertexNames_def)
qed

lemma edgeRel_update:
  "edgeRel (d\<lparr>Vertices := AList.update i v (Vertices d)\<rparr>) =
   {(a, b). a \<noteq> i \<and> (a, b) \<in> edgeRel d} \<union> {i} \<times> set (Edges v)"
  by (auto simp: edgeRel_def gomap_simps split: if_splits)

lemma AddVertex_inv: "dag_inv d \<Longrightarrow> AddVertex d i = Inr d' \<Longrightarrow> dag_inv d'"
proof -
  assume d: "dag_inv d" and a: "AddVertex d i = Inr d'"
  then have new: "map_of (Vertices d) i = None"
    and d': "d' = d\<lparr>Vertices := AList.update i \<lparr>vertexID = i, Edges = []\<rparr> (Vertices d)\<rparr>"
    by (auto simp: AddVertex_def split: option.splits)
  from new have "edgeRel d' = edgeRel d" unfolding d' edgeRel_update by (auto simp: edgeRel_def)
  with d d' wf_dag_update [of d "\<lparr>vertexID = i, Edges = []\<rparr>" i] show ?thesis
    by (simp add: dag_inv_def)
qed

lemma setEdges_vertexNames [simp]:
  "map_of (Vertices d) i = Some w \<Longrightarrow> vertexNames (setEdges d i v es) = vertexNames d"
  by (auto simp: setEdges_def vertexNames_iff)

lemma wf_dag_setEdges:
  assumes "wf_dag d" and "map_of (Vertices d) i = Some v" and "distinct es"
    and "set es \<subseteq> vertexNames d"
  shows "wf_dag (setEdges d i v es)"
  using assms wf_dag_update [of d "v\<lparr>Edges := es\<rparr>" i] wf_dag_edges(1) [of d i v]
  by (auto simp: setEdges_def)

lemma edgeRel_setEdges:
  "edgeRel (setEdges d i v es) = {(a, b). a \<noteq> i \<and> (a, b) \<in> edgeRel d} \<union> {i} \<times> set es"
  by (simp add: setEdges_def edgeRel_update)

lemma edgeRel_split:
  "map_of (Vertices d) i = Some v \<Longrightarrow>
   edgeRel d = {(a, b). a \<noteq> i \<and> (a, b) \<in> edgeRel d} \<union> {i} \<times> set (Edges v)"
  by (auto simp: edgeRel_def)

lemma edgeRel_add:
  "map_of (Vertices d) from = Some v \<Longrightarrow>
   edgeRel (setEdges d from v (appendNew (Edges v) to)) = insert (from, to) (edgeRel d)"
  by (subst edgeRel_split [of d "from" v]) (auto simp: edgeRel_setEdges)

lemma edgeRel_add_remove:
  assumes "map_of (Vertices d) from = Some v" and "(from, to) \<notin> edgeRel d"
  shows "edgeRel (setEdges (setEdges d from v es) from v (removeAll to (appendNew (Edges v) to)))
         = edgeRel d"
proof -
  have "to \<notin> set (Edges v)" using assms by (simp add: edgeRel_edges)
  then have "set (removeAll to (appendNew (Edges v) to)) = set (Edges v)" by auto
  then show ?thesis
    by (subst edgeRel_split [of d "from" v, OF assms(1)]) (auto simp: edgeRel_setEdges)
qed

text \<open>
  The behaviour of \<open>AddEdge\<close> on every branch, over the denoted relation: the error is decided
  by the missing vertices, the self reference and a path back; the edge is there afterwards
  exactly when no error is returned, and a rejected edge leaves the relation as it was.
\<close>

definition addEdge_spec ::
  "DirectedAcyclicGraph \<Rightarrow> string \<Rightarrow> string \<Rightarrow> dag_error option \<times> DirectedAcyclicGraph \<Rightarrow> bool" where
  "addEdge_spec d from to r \<longleftrightarrow>
     (case r of
        (None, d') \<Rightarrow> edgeRel d' = insert (from, to) (edgeRel d) \<and> (to, from) \<notin> (edgeRel d)\<^sup>*
      | (Some (NodeMissing n), d') \<Rightarrow> d' = d \<and> n \<notin> vertexNames d \<and> (n = from \<or> n = to)
      | (Some SelfReference, d') \<Rightarrow> d' = d \<and> from = to
      | (Some (CycleError f t c), d') \<Rightarrow>
          f = from \<and> t = to \<and> edgeRel d' = edgeRel d \<and> (to, from) \<in> (edgeRel d)\<^sup>* \<and>
          is_cycle (insert (from, to) (edgeRel d)) c
      | (Some _, d') \<Rightarrow> False)"

lemma AddEdge_new_edge:
  assumes inv: "dag_inv d" and v: "map_of (Vertices d) from = Some v"
    and to: "to \<in> vertexNames d" and neq: "from \<noteq> to"
  shows "\<exists>r. AddEdge d from to = Some r \<and> addEdge_spec d from to r \<and> dag_inv (snd r) \<and>
           vertexNames (snd r) = vertexNames d"
proof -
  let ?d1 = "setEdges d from v (appendNew (Edges v) to)"
  let ?d2 = "setEdges ?d1 from v (removeAll to (appendNew (Edges v) to))"
  have wf: "wf_dag d" and acy: "acyclic (edgeRel d)" using inv by (auto simp: dag_inv_def)
  note edges = wf_dag_edges [OF wf v]
  have wf1: "wf_dag ?d1" using wf_dag_setEdges [OF wf v] edges to by simp
  have v1: "map_of (Vertices ?d1) from = Some (v\<lparr>Edges := appendNew (Edges v) to\<rparr>)"
    by (simp add: setEdges_def gomap_simps)
  have names1: "vertexNames ?d1 = vertexNames d" using v by simp
  have rel1: "edgeRel ?d1 = insert (from, to) (edgeRel d)" using edgeRel_add [OF v] .
  obtain b p where h: "HasCycle ?d1 = Some (b, p)" "b \<longleftrightarrow> \<not> acyclic (edgeRel ?d1)"
      "b \<longrightarrow> is_cycle (edgeRel ?d1) p"
    using HasCycle_correct [OF wf1] by blast
  obtain w where w: "map_of (Vertices d) to = Some w" using to by (auto simp: vertexNames_iff)
  have add: "AddEdge d from to =
      Some (if b then (Some (CycleError from to p), ?d2) else (None, ?d1))"
    using v w neq h(1) by (simp add: AddEdge_def Let_def)
  show ?thesis
  proof (cases b)
    case True
    then have path_back: "(to, from) \<in> (edgeRel d)\<^sup>*" using h(2) acy rel1 by (simp add: acyclic_insert)
    have "(from, to) \<notin> edgeRel d" using path_back acy by (meson acyclic_def rtrancl_into_trancl2)
    then have rel2: "edgeRel ?d2 = edgeRel d" using edgeRel_add_remove [OF v] by blast
    have "distinct (removeAll to (appendNew (Edges v) to))"
        "set (removeAll to (appendNew (Edges v) to)) \<subseteq> vertexNames ?d1"
      using edges(2,3) names1 by (simp add: distinct_removeAll, auto)
    from wf_dag_setEdges [OF wf1 v1 this]
    have "wf_dag (setEdges ?d1 from (v\<lparr>Edges := appendNew (Edges v) to\<rparr>)
        (removeAll to (appendNew (Edges v) to)))" .
    then have "wf_dag ?d2" by (simp add: setEdges_def)
    moreover have "vertexNames ?d2 = vertexNames d" using v1 names1 by (simp only: setEdges_vertexNames)
    ultimately show ?thesis
      using add True path_back rel1 rel2 h(3) acy by (simp add: addEdge_spec_def dag_inv_def)
  next
    case False
    then have "acyclic (edgeRel ?d1)" using h(2) by blast
    then have "(to, from) \<notin> (edgeRel d)\<^sup>*" using rel1 by (simp add: acyclic_insert)
    with add False rel1 wf1 names1 \<open>acyclic (edgeRel ?d1)\<close> show ?thesis
      by (simp add: addEdge_spec_def dag_inv_def)
  qed
qed

lemma AddEdge_correct:
  assumes "dag_inv d"
  shows "\<exists>r. AddEdge d from to = Some r \<and> addEdge_spec d from to r \<and> dag_inv (snd r) \<and>
           vertexNames (snd r) = vertexNames d"
proof (cases "map_of (Vertices d) from")
  case None
  then show ?thesis using assms by (simp add: AddEdge_def addEdge_spec_def vertexNames_iff)
next
  case (Some v)
  show ?thesis
  proof (cases "map_of (Vertices d) to")
    case None
    then show ?thesis
      using assms Some by (simp add: AddEdge_def addEdge_spec_def vertexNames_iff)
  next
    case to: (Some w)
    show ?thesis
    proof (cases "from = to")
      case True
      then show ?thesis using assms Some to by (simp add: AddEdge_def addEdge_spec_def)
    next
      case False
      then show ?thesis
        using AddEdge_new_edge [OF assms Some] to by (simp add: vertexNames_iff)
    qed
  qed
qed

section \<open>Correctness of TopologicalSort\<close>

text \<open>Every node of the list comes after all its successors.\<close>

definition succs_before :: "('a \<times> 'a) set \<Rightarrow> 'a list \<Rightarrow> bool" where
  "succs_before E xs \<longleftrightarrow> (\<forall>ys x zs. xs = ys @ x # zs \<longrightarrow> E `` {x} \<subseteq> set ys)"

lemma succs_before_Nil [simp]: "succs_before E []"
  by (simp add: succs_before_def)

lemma succs_before_snoc [simp]:
  "succs_before E (xs @ [x]) \<longleftrightarrow> succs_before E xs \<and> E `` {x} \<subseteq> set xs"
proof
  assume l: "succs_before E (xs @ [x])"
  then have "E `` {x} \<subseteq> set xs" unfolding succs_before_def by blast
  moreover have "succs_before E xs"
    unfolding succs_before_def
  proof (intro allI impI)
    fix ys y zs assume "xs = ys @ y # zs"
    then have "xs @ [x] = ys @ y # (zs @ [x])" by simp
    with l show "E `` {y} \<subseteq> set ys" unfolding succs_before_def by blast
  qed
  ultimately show "succs_before E xs \<and> E `` {x} \<subseteq> set xs" by blast
next
  assume r: "succs_before E xs \<and> E `` {x} \<subseteq> set xs"
  show "succs_before E (xs @ [x])"
    unfolding succs_before_def
  proof (intro allI impI)
    fix ys y zs assume eq: "xs @ [x] = ys @ y # zs"
    show "E `` {y} \<subseteq> set ys"
    proof (cases zs rule: rev_cases)
      case Nil
      with eq r show ?thesis by simp
    next
      case (snoc zs' z)
      with eq have "xs = ys @ y # zs'" by simp
      with r show ?thesis unfolding succs_before_def by blast
    qed
  qed
qed

text \<open>
  Between calls the nodes visited but not yet in the order are the ancestors of the node at
  hand, so in an acyclic graph a visited neighbour is already in the order.
\<close>

definition topo_inv :: "(string \<times> string) set \<Rightarrow> topo_state \<Rightarrow> bool" where
  "topo_inv E st \<longleftrightarrow>
     distinct (topo_order st) \<and> set (topo_order st) \<subseteq> set (topo_visited st) \<and>
     succs_before E (topo_order st)"

definition open_nodes :: "topo_state \<Rightarrow> string set" where
  "open_nodes st = set (topo_visited st) - set (topo_order st)"

text \<open>Leaving a node, the last that was entered, whose successors are all in the order.\<close>

lemma open_leave:
  assumes "open_nodes st' = insert n (open_nodes st)" and "n \<notin> set (topo_visited st)"
  shows "open_nodes (leaveTopo n st') = open_nodes st"
proof -
  have "open_nodes (leaveTopo n st') = open_nodes st' - {n}" by (auto simp: open_nodes_def)
  moreover have "n \<notin> open_nodes st" using assms(2) by (simp add: open_nodes_def)
  ultimately show ?thesis using assms(1) by auto
qed

lemma topo_inv_leave:
  assumes "topo_inv E st'" and "open_nodes st' = insert n (open_nodes st)" and "n \<notin> set (topo_visited st)"
    and "\<forall>m \<in> E `` {n}. m \<in> set (topo_visited st') \<and> m \<notin> open_nodes st'"
  shows "topo_inv E (leaveTopo n st')"
proof -
  have "n \<in> open_nodes st'" using assms(2) by simp
  then have "n \<notin> set (topo_order st')" "n \<in> set (topo_visited st')" by (simp_all add: open_nodes_def)
  moreover have "E `` {n} \<subseteq> set (topo_order st')" using assms(4) by (auto simp: open_nodes_def)
  ultimately show ?thesis using assms(1) by (simp add: topo_inv_def)
qed

lemma dfsTopo_correct:
  assumes "wf_dag d" and "acyclic (edgeRel d)" and "set ns \<subseteq> vertexNames d"
    and "topo_inv (edgeRel d) st" and "set (topo_visited st) \<subseteq> vertexNames d"
    and "\<forall>g \<in> open_nodes st. \<forall>n \<in> set ns. (g, n) \<in> (edgeRel d)\<^sup>+"
  shows "\<exists>st'. dfsTopo d ns st = Some st' \<and> topo_inv (edgeRel d) st' \<and>
           open_nodes st' = open_nodes st \<and> set (topo_visited st) \<union> set ns \<subseteq> set (topo_visited st') \<and>
           set (topo_visited st') \<subseteq> vertexNames d"
  using assms
proof (induction d ns st rule: dfsTopo.induct)
  case (1 d st)
  then show ?case by simp
next
  case (2 d n ns st)
  let ?E = "edgeRel d"
  show ?case
  proof (cases "n \<in> set (topo_visited st)")
    case True
    with "2.IH"(3) "2.prems" show ?thesis by auto
  next
    case nvis: False
    obtain v where v: "map_of (Vertices d) n = Some v"
      using "2.prems"(3) by (auto simp: vertexNames_iff)
    let ?st1 = "enterTopo n st"
    have inv1: "topo_inv ?E ?st1" using "2.prems"(4) by (auto simp: topo_inv_def)
    have open1: "open_nodes ?st1 = insert n (open_nodes st)"
      using nvis "2.prems"(4) by (auto simp: open_nodes_def topo_inv_def)
    have reach: "\<forall>g \<in> open_nodes ?st1. \<forall>m \<in> set (sort (Edges v)). (g, m) \<in> ?E\<^sup>+"
      using open1 "2.prems"(6) v by (auto simp: edgeRel_edges intro: trancl_into_trancl)
    obtain st' where st': "dfsTopo d (sort (Edges v)) ?st1 = Some st'" "topo_inv ?E st'"
        "open_nodes st' = open_nodes ?st1"
        "set (topo_visited ?st1) \<union> set (sort (Edges v)) \<subseteq> set (topo_visited st')"
        "set (topo_visited st') \<subseteq> vertexNames d"
      using "2.IH"(1) [OF nvis v "2.prems"(1,2) _ inv1 _ reach] "2.prems"(3,5)
        wf_dag_edges(3) [OF "2.prems"(1) v] by auto
    have "m \<notin> open_nodes st'" if "m \<in> set (Edges v)" for m
      using reach that st'(3) "2.prems"(2) by (auto simp: acyclic_def)
    then have "\<forall>m \<in> ?E `` {n}. m \<in> set (topo_visited st') \<and> m \<notin> open_nodes st'"
      using st'(4) v by (auto simp: edgeRel_edges)
    note inv2 = topo_inv_leave [OF st'(2) st'(3) [unfolded open1] nvis this] and open2 = open_leave [OF st'(3) [unfolded open1] nvis]
    obtain st'' where st'': "dfsTopo d ns (leaveTopo n st') = Some st''" "topo_inv ?E st''"
        "open_nodes st'' = open_nodes st"
        "set (topo_visited st') \<union> set ns \<subseteq> set (topo_visited st'')"
        "set (topo_visited st'') \<subseteq> vertexNames d"
      using "2.IH"(2) [OF nvis v st'(1) "2.prems"(1,2) _ inv2] "2.prems"(3,6) open2 st'(5) by auto
    with nvis v st'(1,4) show ?thesis by auto
  qed
qed

lemma set_GetVertices [simp]: "set (GetVertices d) = vertexNames d"
  by (simp add: GetVertices_def vertexNames_def)

lemma TopologicalSort_correct:
  assumes "dag_inv d"
  shows "\<exists>order. TopologicalSort d = Some (Inr order) \<and> distinct order \<and>
           set order = vertexNames d \<and> succs_before (edgeRel d) order"
proof -
  have wf: "wf_dag d" and acy: "acyclic (edgeRel d)" using assms by (auto simp: dag_inv_def)
  obtain p where h: "HasCycle d = Some (False, p)" using HasCycle_correct [OF wf] acy by auto
  let ?st = "\<lparr>topo_visited = [], topo_order = []\<rparr>"
  obtain st' where st': "dfsTopo d (GetVertices d) ?st = Some st'" "topo_inv (edgeRel d) st'"
      "open_nodes st' = {}" "vertexNames d \<subseteq> set (topo_visited st')"
      "set (topo_visited st') \<subseteq> vertexNames d"
    using dfsTopo_correct [OF wf acy, of "GetVertices d" ?st]
    by (auto simp: topo_inv_def open_nodes_def)
  then have "set (topo_order st') = vertexNames d"
    by (auto simp: open_nodes_def topo_inv_def)
  with h st'(1,2) show ?thesis by (auto simp: TopologicalSort_def topo_inv_def)
qed

section \<open>Determinism\<close>

text \<open>
  Two representations of the same graph differ in the order \<open>range\<close> visits their maps. The
  sorted accessors and the topological order do not depend on it.
\<close>

definition same_graph :: "DirectedAcyclicGraph \<Rightarrow> DirectedAcyclicGraph \<Rightarrow> bool" where
  "same_graph d e \<longleftrightarrow> vertexNames d = vertexNames e \<and> edgeRel d = edgeRel e"

lemma sort_eq_set:
  fixes xs ys :: "'a::linorder list"
  shows "distinct xs \<Longrightarrow> distinct ys \<Longrightarrow> set xs = set ys \<Longrightarrow> sort xs = sort ys"
  by (metis sorted_list_of_set_sort_remdups distinct_remdups_id)

lemma GetVertices_same:
  "wf_dag d \<Longrightarrow> wf_dag e \<Longrightarrow> same_graph d e \<Longrightarrow> GetVertices d = GetVertices e"
  unfolding GetVertices_def
  by (rule sort_eq_set) (auto simp: wf_dag_def same_graph_def vertexNames_def)

lemma sort_Edges_same:
  assumes "wf_dag d" "wf_dag e" "same_graph d e" "map_of (Vertices d) n = Some v"
    "map_of (Vertices e) n = Some w"
  shows "sort (Edges v) = sort (Edges w)"
proof (rule sort_eq_set)
  show "distinct (Edges v)" "distinct (Edges w)" using assms wf_dag_edges(2) by blast+
  have "edgeRel d `` {n} = edgeRel e `` {n}" using assms(3) by (simp add: same_graph_def)
  then show "set (Edges v) = set (Edges w)" using assms(4,5) by (auto simp: edgeRel_def)
qed

lemma dfsTopo_same:
  assumes "wf_dag d" "wf_dag e" "same_graph d e"
  shows "dfsTopo d ns st = dfsTopo e ns st"
  using assms
proof (induction d ns st rule: dfsTopo.induct)
  case (2 d n ns st)
  show ?case
  proof (cases "map_of (Vertices d) n")
    case None
    then have "map_of (Vertices e) n = None"
      using "2.prems"(3) by (metis not_None_eq same_graph_def vertexNames_iff)
    with None 2 show ?thesis by simp
  next
    case (Some v)
    then obtain w where w: "map_of (Vertices e) n = Some w"
      using "2.prems"(3) by (metis same_graph_def vertexNames_iff)
    then have "sort (Edges w) = sort (Edges v)"
      using sort_Edges_same [OF "2.prems"] Some by simp
    with Some w 2 show ?thesis by (simp split: option.splits)
  qed
qed simp

lemma TopologicalSort_same:
  assumes "dag_inv d" "dag_inv e" "same_graph d e"
  shows "TopologicalSort d = TopologicalSort e"
proof -
  have wf: "wf_dag d" "wf_dag e" using assms by (auto simp: dag_inv_def)
  obtain p q where "HasCycle d = Some (False, p)" "HasCycle e = Some (False, q)"
    using HasCycle_correct [OF wf(1)] HasCycle_correct [OF wf(2)] assms by (auto simp: dag_inv_def)
  then show ?thesis
    using GetVertices_same [OF wf assms(3)] dfsTopo_same [OF wf assms(3)]
    by (simp add: TopologicalSort_def)
qed

lemma set_GetEdges: "wf_dag d \<Longrightarrow> set (GetEdges d) = edgeRel d"
  by (auto simp: GetEdges_def edgeRel_def wf_dag_def dest: map_of_SomeD)

section \<open>The interface the builder and the controllers rely on\<close>

text \<open>
  A provider of creation orders: on every graph that satisfies its invariant it returns an
  enumeration of the vertices in which dependencies come first. The client facts are what the
  reconciler needs: walking the list forwards meets the dependencies of a resource before the
  resource, walking it backwards meets its dependents first.
\<close>

locale creation_order =
  fixes inv :: "'g \<Rightarrow> bool"
    and nodes :: "'g \<Rightarrow> string set"
    and deps :: "'g \<Rightarrow> (string \<times> string) set"
    and order_of :: "'g \<Rightarrow> string list option"
  assumes order_exists: "inv g \<Longrightarrow> \<exists>xs. order_of g = Some xs"
    and order_distinct: "inv g \<Longrightarrow> order_of g = Some xs \<Longrightarrow> distinct xs"
    and order_nodes: "inv g \<Longrightarrow> order_of g = Some xs \<Longrightarrow> set xs = nodes g"
    and order_deps: "inv g \<Longrightarrow> order_of g = Some xs \<Longrightarrow> succs_before (deps g) xs"
begin

lemma deps_before:
  assumes "inv g" "order_of g = Some xs" "xs = ys @ x # zs" "(x, y) \<in> deps g"
  shows "y \<in> set ys"
  using order_deps [OF assms(1,2)] assms(3,4) by (auto simp: succs_before_def)

lemma dependents_later:
  assumes "inv g" "order_of g = Some xs" "xs = ys @ y # zs" "(x, y) \<in> deps g" "x \<in> nodes g"
  shows "x \<in> set zs"
proof -
  have "x \<in> set xs" using order_nodes [OF assms(1,2)] assms(5) by simp
  then obtain as bs where x: "xs = as @ x # bs" by (meson split_list)
  have "y \<in> set as" using deps_before [OF assms(1,2) x assms(4)] .
  then obtain cs ds where "as = cs @ y # ds" by (meson split_list)
  with x have xs: "xs = cs @ y # ds @ x # bs" by simp
  have "distinct xs" using order_distinct [OF assms(1,2)] .
  then have "distinct (cs @ y # ds @ x # bs)" "distinct (ys @ y # zs)" using xs assms(3) by simp_all
  then have "y \<notin> set zs" "y \<notin> set ys" by simp_all
  then have "zs = ds @ x # bs" using xs assms(3) append_Cons_eq_iff [of y ys zs cs] by simp
  then show ?thesis by simp
qed

end

definition topoOrder :: "DirectedAcyclicGraph \<Rightarrow> string list option" where
  "topoOrder d = (case TopologicalSort d of Some (Inr xs) \<Rightarrow> Some xs | _ \<Rightarrow> None)"

lemma topoOrder_correct:
  assumes "dag_inv d"
  obtains xs where "topoOrder d = Some xs" "distinct xs" "set xs = vertexNames d"
    "succs_before (edgeRel d) xs"
  using TopologicalSort_correct [OF assms] by (auto simp: topoOrder_def)

interpretation topo: creation_order dag_inv vertexNames edgeRel topoOrder
  by unfold_locales (metis topoOrder_correct option.inject)+

section \<open>Call sequences\<close>

text \<open>
  A client drives the package by calls of \<open>AddVertex\<close> and \<open>AddEdge\<close>, and goes on after an
  error. \<open>runCalls\<close> is the graph after a sequence of calls, \<open>None\<close> if one of them panics.
\<close>

datatype dag_call = CallAddVertex string | CallAddEdge string string

fun runCalls :: "dag_call list \<Rightarrow> DirectedAcyclicGraph \<Rightarrow> DirectedAcyclicGraph option" where
  "runCalls [] d = Some d"
| "runCalls (CallAddVertex i # cs) d =
     (case AddVertex d i of Inl e \<Rightarrow> runCalls cs d | Inr d' \<Rightarrow> runCalls cs d')"
| "runCalls (CallAddEdge f t # cs) d =
     (case AddEdge d f t of None \<Rightarrow> None | Some (e, d') \<Rightarrow> runCalls cs d')"

lemma runCalls_inv: "dag_inv d \<Longrightarrow> \<exists>d'. runCalls cs d = Some d' \<and> dag_inv d'"
proof (induction cs d rule: runCalls.induct)
  case (2 i cs d)
  then show ?case by (auto split: sum.splits dest: AddVertex_inv)
next
  case (3 f t cs d)
  obtain e d' where "AddEdge d f t = Some (e, d')" "dag_inv d'"
    using AddEdge_correct [OF "3.prems", of f t] by auto
  with "3.IH" show ?case by auto
qed simp

section \<open>Properties\<close>

text \<open>
  C14. Whatever sequence of \<open>AddVertex\<close> and \<open>AddEdge\<close> calls builds the graph, no call panics,
  the graph stays well-formed and acyclic, and \<open>TopologicalSort\<close> returns without error an
  enumeration of exactly the vertices in which every vertex comes after all its dependencies.
\<close>

theorem dag_any_calls_topological_sort:
  "\<exists>d order. runCalls cs NewDirectedAcyclicGraph = Some d \<and> dag_inv d \<and>
     TopologicalSort d = Some (Inr order) \<and> distinct order \<and> set order = vertexNames d \<and>
     succs_before (edgeRel d) order"
proof -
  obtain d where d: "runCalls cs NewDirectedAcyclicGraph = Some d" "dag_inv d"
    using runCalls_inv [OF dag_inv_new] by blast
  with TopologicalSort_correct [OF d(2)] show ?thesis by blast
qed

text \<open>
  On a well-formed graph \<open>HasCycle\<close> returns, answers true exactly when the edge relation
  has a cycle, and the path it then reports is a cycle of the graph: it follows edges, starts
  and ends at the same vertex and is not trivial.
\<close>

lemma dag_has_cycle_iff:
  "wf_dag d \<Longrightarrow>
   \<exists>b p. HasCycle d = Some (b, p) \<and> (b \<longleftrightarrow> (\<exists>x. (x, x) \<in> (edgeRel d)\<^sup>+)) \<and>
     (b \<longrightarrow> is_cycle (edgeRel d) p)"
  using HasCycle_correct [of d] by (auto simp: acyclic_def)

definition two_cycle :: DirectedAcyclicGraph where
  "two_cycle = \<lparr>Vertices = [(''a'', \<lparr>vertexID = ''a'', Edges = [''b'']\<rparr>),
                            (''b'', \<lparr>vertexID = ''b'', Edges = [''a'']\<rparr>)]\<rparr>"

lemma dag_has_cycle_iff_witness:
  "wf_dag two_cycle \<and> HasCycle two_cycle = Some (True, [''a'', ''b'', ''a'']) \<and>
   (\<exists>x. (x, x) \<in> (edgeRel two_cycle)\<^sup>+)"
proof -
  have wf: "wf_dag two_cycle" by (simp add: wf_dag_def two_cycle_def)
  have h: "HasCycle two_cycle = Some (True, [''a'', ''b'', ''a''])"
    by (simp add: HasCycle_def two_cycle_def enterNode_def trimCycle_def)
  with wf show ?thesis using dag_has_cycle_iff [OF wf] by auto
qed

text \<open>
  C15. \<open>AddEdge\<close> on an acyclic graph returns with the error its branch names: a missing vertex,
  a self reference, or a cycle exactly when the target already reaches the source; it adds the
  edge otherwise. A rejected edge leaves the relation unchanged, and in every case the graph
  stays well-formed and acyclic over the same vertices.
\<close>

theorem dag_add_edge_spec:
  "dag_inv d \<Longrightarrow>
   \<exists>r. AddEdge d from to = Some r \<and> addEdge_spec d from to r \<and> dag_inv (snd r) \<and>
     vertexNames (snd r) = vertexNames d"
  by (rule AddEdge_correct)

definition one_edge :: DirectedAcyclicGraph where
  "one_edge = \<lparr>Vertices = [(''a'', \<lparr>vertexID = ''a'', Edges = [''b'']\<rparr>),
                           (''b'', \<lparr>vertexID = ''b'', Edges = []\<rparr>)]\<rparr>"

lemma one_edge_inv: "dag_inv one_edge"
proof -
  have "edgeRel one_edge = {(''a'', ''b'')}"
    by (auto simp: edgeRel_def one_edge_def split: if_splits)
  then have "acyclic (edgeRel one_edge)" by (auto simp: acyclic_def dest: trancl_start elim: tranclE)
  then show ?thesis by (simp add: dag_inv_def wf_dag_def one_edge_def)
qed

theorem dag_add_edge_spec_witness:
  "\<exists>d'. AddEdge one_edge ''b'' ''a'' = Some (Some (CycleError ''b'' ''a'' [''a'', ''b'', ''a'']), d') \<and>
     edgeRel d' = edgeRel one_edge \<and> dag_inv d'"
proof -
  obtain r where r: "AddEdge one_edge ''b'' ''a'' = Some r" "addEdge_spec one_edge ''b'' ''a'' r"
      "dag_inv (snd r)"
    using dag_add_edge_spec [OF one_edge_inv, of "''b''" "''a''"] by blast
  have "AddEdge one_edge ''b'' ''a'' = Some (Some (CycleError ''b'' ''a'' [''a'', ''b'', ''a'']), one_edge)"
    by (simp add: AddEdge_def one_edge_def setEdges_def appendNew_def HasCycle_def enterNode_def
        trimCycle_def)
  with r show ?thesis by auto
qed

text \<open>
  C16. The order does not depend on map iteration: two representations of the same acyclic graph
  give the same sorted vertices and the same topological order.
\<close>

theorem dag_sort_deterministic:
  "dag_inv d \<Longrightarrow> dag_inv e \<Longrightarrow> same_graph d e \<Longrightarrow>
   GetVertices d = GetVertices e \<and> TopologicalSort d = TopologicalSort e"
  using GetVertices_same TopologicalSort_same by (simp add: dag_inv_def)

theorem dag_sort_deterministic_witness:
  "TopologicalSort one_edge = TopologicalSort (one_edge\<lparr>Vertices := rev (Vertices one_edge)\<rparr>) \<and>
   Vertices one_edge \<noteq> rev (Vertices one_edge)"
proof -
  let ?e = "one_edge\<lparr>Vertices := rev (Vertices one_edge)\<rparr>"
  have same: "same_graph one_edge ?e"
    by (auto simp: same_graph_def vertexNames_def edgeRel_def one_edge_def split: if_splits)
  moreover have "wf_dag ?e" by (simp add: wf_dag_def one_edge_def)
  ultimately have "dag_inv ?e" using one_edge_inv by (simp add: dag_inv_def same_graph_def)
  with one_edge_inv same have "TopologicalSort one_edge = TopologicalSort ?e"
    using dag_sort_deterministic by blast
  then show ?thesis by (simp add: one_edge_def)
qed

end
