(* ===== verification/Inspector.thy ===== *)
theory Inspector
  imports Kro_Prelude
begin

text \<open>
  The expression inspector, \<open>src/pkg/cel/ast/inspector.go\<close>: which resources and functions a CEL
  expression refers to. The graph builder makes the edges of the dependency graph from it.

  Parsing an expression is a call into cel-go and a parameter (\<open>parse\<close>); the syntax tree it
  returns is the data type \<open>expr\<close>, with the kinds of \<open>exprpb.Expr\<close> that the inspector
  distinguishes. The set of active loop variables is a field of the inspector that the
  traversal changes: it is passed in and returned.
\<close>

section \<open>Syntax trees and results\<close>

datatype celConstant =
    BoolValue bool
  | BytesValue string
  | DoubleValue "64 word"
  | Int64Value "64 word"
  | StringValue string
  | Uint64Value "64 word"
  | NullValue
  | OtherConstant

datatype expr =
    ConstExpr celConstant
  | IdentExpr string
  | SelectExpr expr string
  | CallExpr "expr option" string "expr list"
  | ListExpr "expr list"
  | StructExpr string "entry list"
  | ComprehensionExpr string expr "expr option" "expr option" expr
and entry =
    FieldEntry string expr
  | MapEntry expr expr

record ResourceDependency =
  depID :: string
  depPath :: string

record FunctionCall =
  callName :: string
  callArguments :: "string list"

record UnknownResource =
  unknownID :: string
  unknownPath :: string

record ExpressionInspection =
  ResourceDependencies :: "ResourceDependency list"
  FunctionCalls :: "FunctionCall list"
  UnknownResources :: "UnknownResource list"
  UnknownFunctions :: "string list"

definition noInspection :: ExpressionInspection where
  "noInspection = \<lparr>ResourceDependencies = [], FunctionCalls = [], UnknownResources = [], UnknownFunctions = []\<rparr>"

text \<open>The four appends that follow every recursive call.\<close>

definition appendInspection :: "ExpressionInspection \<Rightarrow> ExpressionInspection \<Rightarrow> ExpressionInspection" where
  "appendInspection i j =
     \<lparr>ResourceDependencies = ResourceDependencies i @ ResourceDependencies j,
      FunctionCalls = FunctionCalls i @ FunctionCalls j,
      UnknownResources = UnknownResources i @ UnknownResources j,
      UnknownFunctions = UnknownFunctions i @ UnknownFunctions j\<rparr>"

definition addCall :: "ExpressionInspection \<Rightarrow> string \<Rightarrow> string list \<Rightarrow> ExpressionInspection" where
  "addCall i n args = i\<lparr>FunctionCalls := FunctionCalls i @ [\<lparr>callName = n, callArguments = args\<rparr>]\<rparr>"

section \<open>Printing\<close>

definition constantExpressionToString :: "(64 word \<Rightarrow> string) \<Rightarrow> celConstant \<Rightarrow> string" where
  "constantExpressionToString ff c =
     (case c of
        BoolValue b \<Rightarrow> if b then ''true'' else ''false''
      | BytesValue s \<Rightarrow> CHR ''b'' # CHR 0x22 # s @ [CHR 0x22]
      | DoubleValue w \<Rightarrow> ff w
      | Int64Value w \<Rightarrow> itoa (sint w)
      | StringValue s \<Rightarrow> goQuote s
      | Uint64Value w \<Rightarrow> itoa (uint w) @ ''u''
      | NullValue \<Rightarrow> ''null''
      | OtherConstant \<Rightarrow> ''<unknown constant>'')"

definition binaryOperators :: "string list" where
  "binaryOperators =
     [''_+_'', ''_-_'', ''_*_'', ''_/_'', ''_%_'', ''_<_'', ''_<=_'', ''_>_'', ''_>=_'', ''_==_'', ''_!=_'']"

text \<open>The operators of \<open>callExpressionToString\<close>; \<open>None\<close> falls through to the ordinary calls.\<close>

definition operatorToString :: "string \<Rightarrow> string list \<Rightarrow> string option" where
  "operatorToString f args =
     (if hasPrefix f ''_'' \<and> hasSuffix f ''_'' then
        (case args of
           [a, b] \<Rightarrow>
             if List.member binaryOperators f then
               Some (''('' @ a @ '' '' @ trimSet f ''_'' @ '' '' @ b @ '')'')
             else if f = ''_&&_'' then Some (''('' @ a @ '' && '' @ b @ '')'')
             else if f = ''_||_'' then Some (''('' @ a @ '' || '' @ b @ '')'')
             else if f = ''_[_]'' then Some (a @ ''['' @ b @ '']'')
             else None
         | [a, b, c] \<Rightarrow>
             if f = ''_?_:_'' then Some (''('' @ a @ '' ? '' @ b @ '' : '' @ c @ '')'') else None
         | _ \<Rightarrow> None)
      else None)"

definition callToString :: "string option \<Rightarrow> string \<Rightarrow> string list \<Rightarrow> string" where
  "callToString target f args =
     (case operatorToString f args of
        Some s \<Rightarrow> s
      | None \<Rightarrow>
          (case target of
             Some t \<Rightarrow> t @ ''.'' @ f @ ''('' @ joinWith '', '' args @ '')''
           | None \<Rightarrow> f @ ''('' @ joinWith '', '' args @ '')''))"

text \<open>
  The type name that \<open>%T\<close> prints for the one remaining kind is that of the comprehension node.
\<close>

fun exprToString :: "(64 word \<Rightarrow> string) \<Rightarrow> expr \<Rightarrow> string"
  and entryToString :: "(64 word \<Rightarrow> string) \<Rightarrow> bool \<Rightarrow> entry \<Rightarrow> string" where
  "exprToString ff (ConstExpr c) = constantExpressionToString ff c"
| "exprToString ff (IdentExpr n) = n"
| "exprToString ff (SelectExpr operand field) = exprToString ff operand @ ''.'' @ field"
| "exprToString ff (CallExpr target f args) =
     callToString (map_option (exprToString ff) target) f (map (exprToString ff) args)"
| "exprToString ff (ListExpr elements) = ''['' @ joinWith '', '' (map (exprToString ff) elements) @ '']''"
| "exprToString ff (StructExpr messageName entries) =
     messageName @ ''{'' @ joinWith '', '' (map (entryToString ff (messageName \<noteq> [])) entries) @ ''}''"
| "exprToString ff (ComprehensionExpr v r c s res) = ''<unknown expression type: *expr.Expr_ComprehensionExpr>''"
| "entryToString ff message (FieldEntry field value) =
     (if field \<noteq> [] then field @ '': '' @ exprToString ff value else [])"
| "entryToString ff message (MapEntry key value) =
     (if message then [] else exprToString ff key @ '': '' @ exprToString ff value)"

definition optToString :: "(64 word \<Rightarrow> string) \<Rightarrow> expr option \<Rightarrow> string" where
  "optToString ff e = (case e of None \<Rightarrow> ''<nil>'' | Some x \<Rightarrow> exprToString ff x)"

section \<open>Inspection\<close>

definition isInternalIdentifier :: "string \<Rightarrow> bool" where
  "isInternalIdentifier name = (name = ''__result__'' \<or> hasPrefix name ''$$'')"

definition internalFunctions :: "string list" where
  "internalFunctions =
     [''_+_'', ''_-_'', ''_*_'', ''_/_'', ''_%_'', ''_<_'', ''_<=_'', ''_>_'', ''_>=_'', ''_==_'', ''_!=_'',
      ''_&&_'', ''_||_'', ''_?_:_'', ''_[_]'', ''size'', ''in'', ''matches'', ''int'', ''uint'', ''double'',
      ''bool'', ''string'', ''bytes'', ''timestamp'', ''duration'', ''type'', ''filter'', ''map'', ''all'',
      ''exists'', ''exists_one'']"

definition isInternalFunction :: "string \<Rightarrow> bool" where
  "isInternalFunction name = List.member internalFunctions name"

record Inspector_state =
  insResources :: "string list"
  insFunctions :: "string list"
  loopVars :: "string list"

definition NewInspector :: "string list \<Rightarrow> string list \<Rightarrow> Inspector_state" where
  "NewInspector resources functions = \<lparr>insResources = resources, insFunctions = functions, loopVars = []\<rparr>"

definition joinDot :: "string \<Rightarrow> string \<Rightarrow> string" where
  "joinDot a path = (if path \<noteq> [] then a @ ''.'' @ path else a)"

definition inspectIdent :: "Inspector_state \<Rightarrow> string \<Rightarrow> string \<Rightarrow> ExpressionInspection" where
  "inspectIdent a name currentPath =
     (if List.member (loopVars a) name then noInspection
      else if List.member (insResources a) name then
        noInspection\<lparr>ResourceDependencies := [\<lparr>depID = name, depPath = joinDot name currentPath\<rparr>]\<rparr>
      else if \<not> isInternalIdentifier name then
        noInspection\<lparr>UnknownResources := [\<lparr>unknownID = name, unknownPath = joinDot name currentPath\<rparr>]\<rparr>
      else noInspection)"

definition enterLoop :: "string \<Rightarrow> Inspector_state \<Rightarrow> Inspector_state" where
  "enterLoop v a = a\<lparr>loopVars := List.insert v (loopVars a)\<rparr>"

definition leaveLoop :: "string \<Rightarrow> Inspector_state \<Rightarrow> Inspector_state" where
  "leaveLoop v a = a\<lparr>loopVars := removeAll v (loopVars a)\<rparr>"

function (sequential)
  inspectAst :: "(64 word \<Rightarrow> string) \<Rightarrow> expr \<Rightarrow> string \<Rightarrow> Inspector_state \<Rightarrow> ExpressionInspection \<times> Inspector_state" and
  inspectArgs :: "(64 word \<Rightarrow> string) \<Rightarrow> expr list \<Rightarrow> ExpressionInspection \<Rightarrow> Inspector_state \<Rightarrow> ExpressionInspection \<times> Inspector_state" and
  inspectCall :: "(64 word \<Rightarrow> string) \<Rightarrow> expr option \<Rightarrow> string \<Rightarrow> expr list \<Rightarrow> string \<Rightarrow> Inspector_state \<Rightarrow>
     ExpressionInspection \<times> Inspector_state" and
  inspectOpt :: "(64 word \<Rightarrow> string) \<Rightarrow> expr option \<Rightarrow> ExpressionInspection \<Rightarrow> Inspector_state \<Rightarrow> ExpressionInspection \<times> Inspector_state" and
  inspectComprehension :: "(64 word \<Rightarrow> string) \<Rightarrow> string \<Rightarrow> expr \<Rightarrow> expr option \<Rightarrow> expr option \<Rightarrow> expr \<Rightarrow> string \<Rightarrow>
     Inspector_state \<Rightarrow> ExpressionInspection \<times> Inspector_state"
where
  "inspectAst ff (SelectExpr operand field) currentPath a = inspectAst ff operand (joinDot field currentPath) a"
| "inspectAst ff (CallExpr target f args) currentPath a = inspectCall ff target f args currentPath a"
| "inspectAst ff (IdentExpr name) currentPath a = (inspectIdent a name currentPath, a)"
| "inspectAst ff (ComprehensionExpr v r c s res) currentPath a = inspectComprehension ff v r c s res currentPath a"
| "inspectAst ff _ currentPath a = (noInspection, a)"
| "inspectArgs ff [] inspection a = (inspection, a)"
| "inspectArgs ff (arg # args) inspection a =
     (let (argInspection, a1) = inspectAst ff arg [] a
      in inspectArgs ff args (appendInspection inspection argInspection) a1)"
| "inspectCall ff target f args currentPath a =
     (let (inspection, a1) = inspectArgs ff args noInspection a;
          inspection1 =
            (if List.member (insFunctions a) f \<and> target = None
             then addCall inspection f (map (exprToString ff) args) else inspection)
      in case target of
           Some t \<Rightarrow>
             (let (targetInspection, a2) = inspectAst ff t currentPath a1
              in (addCall (appendInspection inspection1 targetInspection) (exprToString ff t @ ''.'' @ f) [], a2))
         | None \<Rightarrow>
             (if \<not> isInternalFunction f
              then (inspection1\<lparr>UnknownFunctions := UnknownFunctions inspection1 @ [f]\<rparr>, a1)
              else (inspection1, a1)))"
| "inspectOpt ff None inspection a = (inspection, a)"
| "inspectOpt ff (Some e) inspection a =
     (let (eInspection, a1) = inspectAst ff e [] a in (appendInspection inspection eInspection, a1))"
| "inspectComprehension ff v r c s res currentPath a =
     (let (rangeInspection, a1) = inspectAst ff r currentPath (enterLoop v a);
          (inspection2, a2) = inspectOpt ff c (appendInspection noInspection rangeInspection) a1;
          (inspection3, a3) = inspectOpt ff s inspection2 a2;
          (resultInspection, a4) = inspectAst ff res [] a3;
          inspection4 = appendInspection inspection3 resultInspection
      in (case s of
            None \<Rightarrow> addCall inspection4 ''filter'' [exprToString ff r, optToString ff c, exprToString ff res]
          | Some _ \<Rightarrow> addCall inspection4 ''map'' [exprToString ff r, optToString ff s, exprToString ff res],
          leaveLoop v a4))"
  by pat_completeness auto
termination
  by (relation "measure (\<lambda>x. case x of
        Inl (Inl (ff, e, _)) \<Rightarrow> 2 * size e
      | Inl (Inr (ff, args, _)) \<Rightarrow> 2 * size_list size args
      | Inr (Inl (ff, t, _, args, _)) \<Rightarrow> 2 * (size_option size t + size_list size args) + 1
      | Inr (Inr (Inl (ff, e, _))) \<Rightarrow> 2 * size_option size e
      | Inr (Inr (Inr (ff, _, r, c, s, res, _))) \<Rightarrow>
          2 * (size r + size_option size c + size_option size s + size res) + 1)") auto

text \<open>\<open>Inspect\<close>: the inspector can be used again for the next expression.\<close>

definition Inspect ::
  "(64 word \<Rightarrow> string) \<Rightarrow> (string \<Rightarrow> string + expr) \<Rightarrow> string \<Rightarrow> Inspector_state \<Rightarrow>
   (string + ExpressionInspection) \<times> Inspector_state" where
  "Inspect ff parse expression a =
     (case parse expression of
        Inl err \<Rightarrow> (Inl (''failed to parse expression: '' @ err), a)
      | Inr e \<Rightarrow> (let (inspection, a1) = inspectAst ff e [] a in (Inr inspection, a1)))"

section \<open>Scopes\<close>

text \<open>
  The free identifiers of an expression. A comprehension binds its iteration variable in the
  condition, the step and the result, not in the range it iterates over.
\<close>

definition optSet :: "'a set option \<Rightarrow> 'a set" where
  "optSet x = (case x of None \<Rightarrow> {} | Some s \<Rightarrow> s)"

lemma optSet_simps [simp]: "optSet None = {}" "optSet (Some s) = s"
  by (simp_all add: optSet_def)

fun freeIdents :: "expr \<Rightarrow> string set" and entryIdents :: "entry \<Rightarrow> string set" where
  "freeIdents (ConstExpr c) = {}"
| "freeIdents (IdentExpr n) = {n}"
| "freeIdents (SelectExpr e f) = freeIdents e"
| "freeIdents (CallExpr t f args) = optSet (map_option freeIdents t) \<union> \<Union> (set (map freeIdents args))"
| "freeIdents (ListExpr es) = \<Union> (set (map freeIdents es))"
| "freeIdents (StructExpr n es) = \<Union> (set (map entryIdents es))"
| "freeIdents (ComprehensionExpr v r c s res) =
     freeIdents r \<union> (optSet (map_option freeIdents c) \<union> optSet (map_option freeIdents s) \<union> freeIdents res - {v})"
| "entryIdents (FieldEntry f e) = freeIdents e"
| "entryIdents (MapEntry k e) = freeIdents k \<union> freeIdents e"

fun iterVars :: "expr \<Rightarrow> string set" where
  "iterVars (SelectExpr e f) = iterVars e"
| "iterVars (CallExpr t f args) = optSet (map_option iterVars t) \<union> \<Union> (set (map iterVars args))"
| "iterVars (ComprehensionExpr v r c s res) =
     {v} \<union> iterVars r \<union> optSet (map_option iterVars c) \<union> optSet (map_option iterVars s) \<union> iterVars res"
| "iterVars _ = {}"

text \<open>
  The expressions on which the traversal is exact: list and struct literals mention no
  identifier, and the iteration variable of a comprehension neither occurs in its range nor is
  bound again inside.
\<close>

definition optAll :: "('a \<Rightarrow> bool) \<Rightarrow> 'a option \<Rightarrow> bool" where
  "optAll P x = (case x of None \<Rightarrow> True | Some y \<Rightarrow> P y)"

lemma optAll_simps [simp]: "optAll P None" "optAll P (Some y) = P y"
  by (simp_all add: optAll_def)

lemma optAll_cong [fundef_cong]:
  "x = y \<Longrightarrow> (\<And>z. y = Some z \<Longrightarrow> P z = Q z) \<Longrightarrow> optAll P x = optAll Q y"
  by (cases y) simp_all

fun inspectable :: "expr \<Rightarrow> bool" where
  "inspectable (SelectExpr e f) = inspectable e"
| "inspectable (CallExpr t f args) = (optAll inspectable t \<and> list_all inspectable args)"
| "inspectable (ComprehensionExpr v r c s res) =
     (v \<notin> freeIdents r \<and> v \<notin> iterVars r \<and> v \<notin> optSet (map_option iterVars c)
      \<and> v \<notin> optSet (map_option iterVars s) \<and> v \<notin> iterVars res
      \<and> inspectable r \<and> optAll inspectable c \<and> optAll inspectable s \<and> inspectable res)"
| "inspectable (ListExpr es) = (freeIdents (ListExpr es) = {})"
| "inspectable (StructExpr n es) = (freeIdents (StructExpr n es) = {})"
| "inspectable _ = True"

text \<open>What an inspection must report when the identifiers \<open>X\<close> were met.\<close>

definition reports :: "Inspector_state \<Rightarrow> ExpressionInspection \<Rightarrow> string set \<Rightarrow> bool" where
  "reports a i X =
     (depID ` set (ResourceDependencies i) = (X - set (loopVars a)) \<inter> set (insResources a) \<and>
      unknownID ` set (UnknownResources i) =
        {x \<in> X - set (loopVars a) - set (insResources a). \<not> isInternalIdentifier x})"

definition sameScope :: "Inspector_state \<Rightarrow> Inspector_state \<Rightarrow> bool" where
  "sameScope a b = (set (loopVars a) = set (loopVars b) \<and> insResources a = insResources b)"

definition inspectsTo :: "Inspector_state \<Rightarrow> string set \<Rightarrow> ExpressionInspection \<times> Inspector_state \<Rightarrow> bool" where
  "inspectsTo a X r = (reports a (fst r) X \<and> sameScope a (snd r))"

lemma reports_append: "reports a i X \<Longrightarrow> reports a j Y \<Longrightarrow> reports a (appendInspection i j) (X \<union> Y)"
  unfolding reports_def appendInspection_def by (auto simp: image_Un)

lemma appendInspection_none [simp]: "appendInspection noInspection i = i"
  by (simp add: appendInspection_def noInspection_def)

lemma reports_none [simp]: "reports a noInspection {}"
  by (simp add: reports_def noInspection_def)

lemma reports_calls [simp]:
  "reports a (addCall i n args) X = reports a i X" "reports a (i\<lparr>UnknownFunctions := u\<rparr>) X = reports a i X"
  by (simp_all add: reports_def addCall_def)

lemma reports_sameScope: "sameScope a b \<Longrightarrow> reports b i X \<longleftrightarrow> reports a i X"
  by (simp add: reports_def sameScope_def)

lemma sameScope_refl [simp]: "sameScope a a"
  by (simp add: sameScope_def)

lemma sameScope_trans: "sameScope a b \<Longrightarrow> sameScope b c \<Longrightarrow> sameScope a c"
  by (simp add: sameScope_def)

lemma sameScope_vars: "sameScope a b \<Longrightarrow> set (loopVars b) = set (loopVars a)"
  by (simp add: sameScope_def)

lemma reports_ident: "reports a (inspectIdent a n path) {n}"
  by (auto simp: reports_def inspectIdent_def noInspection_def)

lemma reports_loop: "reports (enterLoop v a) i X \<Longrightarrow> reports a i (X - {v})"
  unfolding reports_def enterLoop_def by auto

lemma sameScope_loop:
  "v \<notin> set (loopVars a) \<Longrightarrow> sameScope (enterLoop v a) b \<Longrightarrow> sameScope a (leaveLoop v b)"
  by (auto simp: sameScope_def enterLoop_def leaveLoop_def)

text \<open>The next step of a traversal, in the scope the previous one left.\<close>

lemma inspectsTo_then:
  assumes "inspectsTo a X (i, b)" and "inspectsTo b Y (j, c)"
  shows "inspectsTo a (X \<union> Y) (appendInspection i j, c)"
proof -
  have i: "reports a i X" "sameScope a b" and j: "reports b j Y" "sameScope b c"
    using assms by (simp_all add: inspectsTo_def)
  then have "reports a j Y" using reports_sameScope by simp
  then show ?thesis
    using i j reports_append sameScope_trans by (auto simp: inspectsTo_def)
qed

text \<open>A comprehension hides its variable.\<close>

lemma inspectsTo_leave:
  "inspectsTo (enterLoop v a) X (i, b) \<Longrightarrow> v \<notin> set (loopVars a) \<Longrightarrow> inspectsTo a (X - {v}) (i, leaveLoop v b)"
  using reports_loop sameScope_loop by (simp add: inspectsTo_def)

lemma inspectsTo_calls [simp]:
  "inspectsTo a X (addCall i n args, b) = inspectsTo a X (i, b)"
  "inspectsTo a X (i\<lparr>UnknownFunctions := u\<rparr>, b) = inspectsTo a X (i, b)"
  by (simp_all add: inspectsTo_def)

lemma inspectsTo_vars: "inspectsTo a X (i, b) \<Longrightarrow> set (loopVars b) = set (loopVars a)"
  by (simp add: inspectsTo_def sameScope_def)

lemma inspect_exact:
  "inspectable e \<Longrightarrow> iterVars e \<inter> set (loopVars a) = {} \<Longrightarrow>
     inspectsTo a (freeIdents e) (inspectAst ff e path a)"
  "list_all inspectable args \<Longrightarrow> \<Union> (set (map iterVars args)) \<inter> set (loopVars b) = {} \<Longrightarrow>
     inspectsTo a X (i, b) \<Longrightarrow> inspectsTo a (X \<union> \<Union> (set (map freeIdents args))) (inspectArgs ff args i b)"
  "optAll inspectable t \<Longrightarrow> list_all inspectable args \<Longrightarrow>
     (optSet (map_option iterVars t) \<union> \<Union> (set (map iterVars args))) \<inter> set (loopVars a) = {} \<Longrightarrow>
     inspectsTo a (optSet (map_option freeIdents t) \<union> \<Union> (set (map freeIdents args)))
       (inspectCall ff t f args path a)"
  "optAll inspectable t \<Longrightarrow> optSet (map_option iterVars t) \<inter> set (loopVars b) = {} \<Longrightarrow>
     inspectsTo a X (i, b) \<Longrightarrow> inspectsTo a (X \<union> optSet (map_option freeIdents t)) (inspectOpt ff t i b)"
  "inspectable (ComprehensionExpr v r c s res) \<Longrightarrow>
     iterVars (ComprehensionExpr v r c s res) \<inter> set (loopVars a) = {} \<Longrightarrow>
     inspectsTo a (freeIdents (ComprehensionExpr v r c s res)) (inspectComprehension ff v r c s res path a)"
proof (induction ff e path a and ff args i b and ff t f args path a and ff t i b and ff v r c s res path a
    arbitrary: and a X and and a X and
    rule: inspectAst_inspectArgs_inspectCall_inspectOpt_inspectComprehension.induct)
  case (3 ff n path a)
  then show ?case by (simp add: inspectsTo_def reports_ident)
next
  case (7 ff arg args i b)
  obtain j c where j: "inspectAst ff arg [] b = (j, c)" by fastforce
  have "iterVars arg \<inter> set (loopVars b) = {}" "inspectable arg" using "7.prems" by auto
  then have "inspectsTo b (freeIdents arg) (j, c)" using "7.IH"(1) j by auto
  then have "inspectsTo a (X \<union> freeIdents arg) (appendInspection i j, c)" "set (loopVars c) = set (loopVars b)"
    using "7.prems" inspectsTo_then inspectsTo_vars by blast+
  moreover have "\<Union> (set (map iterVars args)) \<inter> set (loopVars b) = {}" "list_all inspectable args"
    using "7.prems" by auto
  ultimately show ?case using "7.IH"(2) [OF j [symmetric] refl, of a "X \<union> freeIdents arg"] j
    by (simp add: Un_assoc)
next
  case (8 ff t f args path a)
  obtain i b where i: "inspectArgs ff args noInspection a = (i, b)" by fastforce
  have none: "inspectsTo a {} (noInspection, a)" by (simp add: inspectsTo_def)
  have ib: "inspectsTo a (\<Union> (set (map freeIdents args))) (i, b)"
    using "8.IH"(1) [OF _ _ none] "8.prems" i by (auto simp: Int_Un_distrib2)
  show ?case
  proof (cases t)
    case None
    then show ?thesis using ib i by (simp add: Let_def)
  next
    case (Some x)
    obtain j c where j: "inspectAst ff x path b = (j, c)" by fastforce
    have "inspectsTo b (freeIdents x) (j, c)"
      using "8.IH"(2) [OF _ _ refl Some] "8.prems" i j Some inspectsTo_vars [OF ib] by (auto simp: Int_Un_distrib2)
    from inspectsTo_then [OF ib this] show ?thesis using i j Some by (simp add: Let_def Un_commute)
  qed
next
  case (10 ff e i b)
  obtain j c where j: "inspectAst ff e [] b = (j, c)" by fastforce
  then have "inspectsTo b (freeIdents e) (j, c)" using 10 by auto
  then show ?case using inspectsTo_then "10.prems"(3) j by simp
next
  case (11 ff v r c s res path a)
  let ?a = "enterLoop v a"
  have vars: "set (loopVars ?a) = insert v (set (loopVars a))" by (simp add: enterLoop_def)
  have dis: "iterVars r \<inter> set (loopVars ?a) = {}" "optSet (map_option iterVars c) \<inter> set (loopVars ?a) = {}"
      "optSet (map_option iterVars s) \<inter> set (loopVars ?a) = {}" "iterVars res \<inter> set (loopVars ?a) = {}"
    using "11.prems" unfolding vars by auto
  obtain i1 a1 where i1: "inspectAst ff r path ?a = (i1, a1)" by fastforce
  obtain i2 a2 where i2: "inspectOpt ff c (appendInspection noInspection i1) a1 = (i2, a2)" by fastforce
  obtain i3 a3 where i3: "inspectOpt ff s i2 a2 = (i3, a3)" by fastforce
  obtain i4 a4 where i4: "inspectAst ff res [] a3 = (i4, a4)" by fastforce
  have p1: "inspectsTo ?a (freeIdents r) (appendInspection noInspection i1, a1)"
    using "11.IH"(1) "11.prems"(1) dis(1) i1 by simp
  have p2: "inspectsTo ?a (freeIdents r \<union> optSet (map_option freeIdents c)) (i2, a2)"
    using "11.IH"(2) [OF i1 [symmetric] refl, of ?a "freeIdents r"] p1 "11.prems"(1) i2 dis(2) inspectsTo_vars [OF p1] by simp
  have p3: "inspectsTo ?a (freeIdents r \<union> optSet (map_option freeIdents c) \<union> optSet (map_option freeIdents s)) (i3, a3)"
    using "11.IH"(3) [OF i1 [symmetric] refl i2 [symmetric] refl _ _ p2] "11.prems"(1) i3 dis(3) inspectsTo_vars [OF p2] by simp
  have p4: "inspectsTo a3 (freeIdents res) (i4, a4)"
    using "11.IH"(4) [OF i1 [symmetric] refl i2 [symmetric] refl i3 [symmetric] refl] "11.prems"(1) i4 dis(4)
      inspectsTo_vars [OF p3] by simp
  have "v \<notin> set (loopVars a)" "v \<notin> freeIdents r" using "11.prems" by auto
  with inspectsTo_leave [OF inspectsTo_then [OF p3 p4]]
  have "inspectsTo a (freeIdents (ComprehensionExpr v r c s res)) (appendInspection i3 i4, leaveLoop v a4)"
    by (simp add: Un_Diff Un_assoc)
  then show ?case using i1 i2 i3 i4 by (cases s) (simp_all add: Let_def)
qed (auto simp: inspectsTo_def)

section \<open>Properties\<close>

text \<open>
  C25. On an expression whose list and struct literals mention no identifier and whose
  iteration variables do not clash, \<open>Inspect\<close> reports as dependencies exactly the known
  resources among the free identifiers and as unknown exactly the other free identifiers that
  are not internal to CEL; the inspector is ready for the next expression.
\<close>

theorem inspect_reports_free_identifiers:
  assumes "parse expression = Inr e" and "inspectable e" and "loopVars a = []"
  shows "\<exists>i a'. Inspect ff parse expression a = (Inr i, a') \<and>
    depID ` set (ResourceDependencies i) = freeIdents e \<inter> set (insResources a) \<and>
    unknownID ` set (UnknownResources i) =
      {x \<in> freeIdents e. x \<notin> set (insResources a) \<and> \<not> isInternalIdentifier x} \<and>
    loopVars a' = [] \<and> insResources a' = insResources a"
proof -
  obtain i a' where r: "inspectAst ff e [] a = (i, a')" by fastforce
  then have "inspectsTo a (freeIdents e) (i, a')" using inspect_exact(1) [of e a ff "[]"] assms by simp
  then show ?thesis using r assms by (auto simp: inspectsTo_def reports_def sameScope_def Inspect_def)
qed

definition sampleParse :: "string \<Rightarrow> string + expr" where
  "sampleParse s = Inr (CallExpr None ''_+_''
     [SelectExpr (SelectExpr (IdentExpr ''vpc'') ''status'') ''id'',
      ComprehensionExpr ''i'' (SelectExpr (IdentExpr ''nets'') ''items'') (Some (ConstExpr (BoolValue True)))
        (Some (CallExpr None ''f'' [IdentExpr ''i'', IdentExpr ''x''])) (IdentExpr ''__result__'')])"

theorem inspect_reports_free_identifiers_witness:
  "\<exists>i a'. Inspect (\<lambda>w. []) sampleParse ''e'' (NewInspector [''vpc'', ''nets'', ''db''] []) = (Inr i, a') \<and>
     depID ` set (ResourceDependencies i) = {''vpc'', ''nets''} \<and> unknownID ` set (UnknownResources i) = {''x''}"
proof -
  let ?e = "CallExpr None ''_+_''
     [SelectExpr (SelectExpr (IdentExpr ''vpc'') ''status'') ''id'',
      ComprehensionExpr ''i'' (SelectExpr (IdentExpr ''nets'') ''items'') (Some (ConstExpr (BoolValue True)))
        (Some (CallExpr None ''f'' [IdentExpr ''i'', IdentExpr ''x''])) (IdentExpr ''__result__'')]"
  have parse: "sampleParse ''e'' = Inr ?e" by (simp add: sampleParse_def)
  have ok: "inspectable ?e" by simp
  have free: "freeIdents ?e = {''vpc'', ''nets'', ''x'', ''__result__''}" by auto
  have "\<exists>i a'. Inspect (\<lambda>w. []) sampleParse ''e'' (NewInspector [''vpc'', ''nets'', ''db''] []) = (Inr i, a') \<and>
     depID ` set (ResourceDependencies i) = {''vpc'', ''nets'', ''x'', ''__result__''} \<inter> {''vpc'', ''nets'', ''db''} \<and>
     unknownID ` set (UnknownResources i) =
       {x \<in> {''vpc'', ''nets'', ''x'', ''__result__''}. x \<notin> {''vpc'', ''nets'', ''db''} \<and> \<not> isInternalIdentifier x}"
    using inspect_reports_free_identifiers [of sampleParse "''e''" ?e "NewInspector [''vpc'', ''nets'', ''db''] []" "\<lambda>w. []",
        OF parse ok]
    unfolding free by (auto simp: NewInspector_def)
  moreover have "{x \<in> {''vpc'', ''nets'', ''x'', ''__result__''}. x \<notin> {''vpc'', ''nets'', ''db''} \<and> \<not> isInternalIdentifier x} = {''x''}"
    by (auto simp: isInternalIdentifier_def)
  moreover have "{''vpc'', ''nets'', ''x'', ''__result__''} \<inter> {''vpc'', ''nets'', ''db''} = {''vpc'', ''nets''}" by auto
  ultimately show ?thesis by simp
qed

text \<open>
  Where the traversal is not exact. A resource inside a list or map literal is not reported.
\<close>

lemma inspect_misses_list_literal:
  "inspectAst ff (ListExpr [SelectExpr (IdentExpr ''vpc'') ''id'']) [] (NewInspector [''vpc''] []) =
     (noInspection, NewInspector [''vpc''] [])"
  by simp

text \<open>A resource that is iterated over by a variable of the same name is not reported.\<close>

lemma inspect_misses_shadowed_range:
  "ResourceDependencies (fst (inspectAst ff
     (ComprehensionExpr ''nets'' (SelectExpr (IdentExpr ''nets'') ''items'') None (Some (IdentExpr ''nets'')) (IdentExpr ''__result__''))
     [] (NewInspector [''nets''] []))) = []"
  by (simp add: NewInspector_def enterLoop_def inspectIdent_def addCall_def appendInspection_def noInspection_def
      isInternalIdentifier_def List.insert_def)

text \<open>A declared function is reported as a call and also as unknown.\<close>

lemma inspect_declared_function_unknown:
  "UnknownFunctions (fst (inspectAst ff (CallExpr None ''hash'' []) [] (NewInspector [] [''hash'']))) = [''hash'']"
  by (simp add: NewInspector_def addCall_def noInspection_def isInternalFunction_def internalFunctions_def)

text \<open>The index operator does not end in an underscore, so its own format is never used.\<close>

lemma index_operator_not_special: "operatorToString ''_[_]'' args = None"
  by (simp add: operatorToString_def hasSuffix_def)

end
