(* ===== verification/Graph_Builder.thy ===== *)
theory Graph_Builder
  imports Dag Inspector Runtime
begin

text \<open>
  The dependency graph of a resource group, \<open>src/internal/graph/builder.go\<close> from
  \<open>validateCELExpressionContext\<close> on and \<open>buildDependencyGraph\<close>, and \<open>NewGraphRuntime\<close> of
  \<open>graph.go\<close>: the expressions of the resources are inspected, the dependencies found become
  edges, and the expressions are run against emulated objects.

  The builder writes the dependencies into the resources; here it returns the resources it
  leaves behind. \<open>parse\<close> is the parser of cel-go. \<open>BuildPanic\<close> stands for a nil pointer that is
  dereferenced.
\<close>

section \<open>Operations\<close>

datatype builder_error =
    BuildError string
  | BuildDag dag_error
  | BuildWrap string builder_error
  | BuildPanic

type_synonym cel_parser = "cel_env \<Rightarrow> string \<Rightarrow> string + expr"

definition inspectExpression ::
  "(64 word \<Rightarrow> string) \<Rightarrow> cel_parser \<Rightarrow> cel_env \<Rightarrow> string \<Rightarrow> string list \<Rightarrow> string + ExpressionInspection" where
  "inspectExpression ff parse env expression names = fst (Inspect ff (parse env) expression (NewInspector names []))"

definition validateCELExpressionContext ::
  "(64 word \<Rightarrow> string) \<Rightarrow> cel_parser \<Rightarrow> cel_env \<Rightarrow> string \<Rightarrow> string list \<Rightarrow> builder_error option" where
  "validateCELExpressionContext ff parse env expression names =
     (case inspectExpression ff parse env expression names of
        Inl err \<Rightarrow> Some (BuildError (''failed to inspect expression: '' @ err))
      | Inr i \<Rightarrow>
          (case find (\<lambda>d. \<not> List.member names (depID d)) (ResourceDependencies i) of
             None \<Rightarrow> None
           | Some d \<Rightarrow> Some (BuildError (''expression refers to unknown resource: '' @ depID d))))"

definition dependencyStep :: "ResourceDependency \<Rightarrow> string list \<times> bool \<Rightarrow> string list \<times> bool" where
  "dependencyStep d acc =
     (if depID d \<noteq> ''schema'' \<and> \<not> List.member (fst acc) (depID d) then (fst acc @ [depID d], False) else acc)"

definition extractDependencies ::
  "(64 word \<Rightarrow> string) \<Rightarrow> cel_parser \<Rightarrow> cel_env \<Rightarrow> string \<Rightarrow> string list \<Rightarrow> builder_error + string list \<times> bool" where
  "extractDependencies ff parse env expression names =
     (case inspectExpression ff parse env expression names of
        Inl err \<Rightarrow> Inl (BuildError (''failed to inspect expression: '' @ err))
      | Inr i \<Rightarrow>
          (let r = fold dependencyStep (ResourceDependencies i) ([], True) in
           if length (UnknownResources i) > 0 then Inl (BuildError ''found unknown resources in CEL expression'')
           else if length (UnknownFunctions i) > 0 then Inl (BuildError ''found unknown functions in CEL expression'')
           else Inr r))"

definition edgeStep :: "string \<Rightarrow> string \<Rightarrow> DirectedAcyclicGraph \<Rightarrow> builder_error + DirectedAcyclicGraph" where
  "edgeStep name dep d =
     (case AddEdge d name dep of
        None \<Rightarrow> Inl BuildPanic
      | Some (Some err, _) \<Rightarrow> Inl (BuildDag err)
      | Some (None, d') \<Rightarrow> Inr d')"

text \<open>What the loops carry: the variable at hand, its resource and the graph.\<close>

record build_state =
  bsVariable :: ResourceField
  bsResource :: Resource
  bsGraph :: DirectedAcyclicGraph

definition markDynamic :: "bool \<Rightarrow> ResourceField \<Rightarrow> ResourceField" where
  "markDynamic isStatic v =
     (if \<not> isStatic \<and> Kind v = ResourceVariableKindStatic then v\<lparr>Kind := ResourceVariableKindDynamic\<rparr> else v)"

definition expressionStep ::
  "(64 word \<Rightarrow> string) \<Rightarrow> cel_parser \<Rightarrow> cel_env \<Rightarrow> string list \<Rightarrow> string \<Rightarrow> string \<Rightarrow> build_state \<Rightarrow>
   builder_error + build_state" where
  "expressionStep ff parse env names name expression s =
     (case validateCELExpressionContext ff parse env expression names of
        Some err \<Rightarrow> Inl (BuildWrap ''failed to validate expression context'' err)
      | None \<Rightarrow>
          (case extractDependencies ff parse env expression names of
             Inl err \<Rightarrow> Inl (BuildWrap ''failed to extract dependencies'' err)
           | Inr (deps, isStatic) \<Rightarrow>
               (case foldRes (edgeStep name) deps (bsGraph s) of
                  Inl err \<Rightarrow> Inl err
                | Inr d \<Rightarrow>
                    Inr \<lparr>bsVariable = AddDependencies (markDynamic isStatic (bsVariable s)) deps,
                         bsResource = addDependencies deps (bsResource s), bsGraph = d\<rparr>)))"

definition variableStep ::
  "(64 word \<Rightarrow> string) \<Rightarrow> cel_parser \<Rightarrow> cel_env \<Rightarrow> string list \<Rightarrow> string \<Rightarrow> ResourceField \<Rightarrow>
   ResourceField list \<times> Resource \<times> DirectedAcyclicGraph \<Rightarrow>
   builder_error + ResourceField list \<times> Resource \<times> DirectedAcyclicGraph" where
  "variableStep ff parse env names name v acc =
     (case acc of (vs, res, d) \<Rightarrow>
        case foldRes (expressionStep ff parse env names name) (Expressions v)
               \<lparr>bsVariable = v, bsResource = res, bsGraph = d\<rparr> of
          Inl err \<Rightarrow> Inl err
        | Inr s \<Rightarrow> Inr (vs @ [bsVariable s], bsResource s, bsGraph s))"

definition resourceStep ::
  "(64 word \<Rightarrow> string) \<Rightarrow> cel_parser \<Rightarrow> cel_env \<Rightarrow> string list \<Rightarrow> string \<times> Resource \<Rightarrow>
   Resource gomap \<times> DirectedAcyclicGraph \<Rightarrow> builder_error + Resource gomap \<times> DirectedAcyclicGraph" where
  "resourceStep ff parse env names x acc =
     (case foldRes (variableStep ff parse env names (fst x)) (resVariables (snd x)) ([], snd x, snd acc) of
        Inl err \<Rightarrow> Inl err
      | Inr (vs, res, d) \<Rightarrow> Inr (fst acc @ [(fst x, res\<lparr>resVariables := vs\<rparr>)], d))"

definition vertexStep :: "string \<Rightarrow> DirectedAcyclicGraph \<Rightarrow> builder_error + DirectedAcyclicGraph" where
  "vertexStep name d =
     (case AddVertex d name of
        Inl err \<Rightarrow> Inl (BuildWrap ''failed to add vertex to graph'' (BuildDag err))
      | Inr d' \<Rightarrow> Inr d')"

definition buildDependencyGraph ::
  "(64 word \<Rightarrow> string) \<Rightarrow> cel_parser \<Rightarrow> cel \<Rightarrow> Resource gomap \<Rightarrow>
   builder_error + DirectedAcyclicGraph \<times> Resource gomap" where
  "buildDependencyGraph ff parse C resources =
     (let names = map fst resources @ [''schema''] in
      case DefaultEnvironment C [WithResourceIDs names] of
        Inl err \<Rightarrow> Inl (BuildError (''failed to create CEL environment: '' @ err))
      | Inr env \<Rightarrow>
          (case foldRes vertexStep (map fst resources) NewDirectedAcyclicGraph of
             Inl err \<Rightarrow> Inl err
           | Inr d0 \<Rightarrow>
               (case foldRes (resourceStep ff parse env names) resources ([], d0) of
                  Inl err \<Rightarrow> Inl err
                | Inr (resources', d) \<Rightarrow> Inr (d, resources'))))"

subsection \<open>Dry runs\<close>

text \<open>The objects of the context; an object that was not emulated is a nil pointer.\<close>

definition dryRunContext :: "val gomap option gomap \<Rightarrow> val gomap option" where
  "dryRunContext objs =
     (if list_all (\<lambda>x. snd x \<noteq> None) objs then Some (map (\<lambda>x. (fst x, VMap (the (snd x)))) objs) else None)"

definition dryRunExpression :: "cel \<Rightarrow> cel_env \<Rightarrow> string \<Rightarrow> val gomap option gomap \<Rightarrow> builder_error + refval" where
  "dryRunExpression C env expression objs =
     (case celCompile C env expression of
        Some err \<Rightarrow> Inl (BuildError (''failed to compile expression: '' @ err))
      | None \<Rightarrow>
          (case celProgram C env expression of
             Some err \<Rightarrow> Inl (BuildError (''failed to create program: '' @ err))
           | None \<Rightarrow>
               (case dryRunContext objs of
                  None \<Rightarrow> Inl BuildPanic
                | Some ctxt \<Rightarrow>
                    (case celEval C env expression ctxt of
                       Inl err \<Rightarrow> Inl (BuildError (''failed to evaluate expression: '' @ err))
                     | Inr v \<Rightarrow> Inr v))))"

text \<open>
  A check of one expression: its context, a dry run, and for a condition its type. The objects of
  the dry run are absent when collecting them reads a nil pointer.
\<close>

definition checkExpression ::
  "(64 word \<Rightarrow> string) \<Rightarrow> cel_parser \<Rightarrow> cel \<Rightarrow> cel_env \<Rightarrow> string list \<Rightarrow> val gomap option gomap option \<Rightarrow> bool \<Rightarrow>
   string \<Rightarrow> unit \<Rightarrow> builder_error + unit" where
  "checkExpression ff parse C env names objs wantBool expression u =
     (case validateCELExpressionContext ff parse env expression names of
        Some err \<Rightarrow> Inl (BuildWrap ''failed to validate expression context'' err)
      | None \<Rightarrow>
          (case objs of
             None \<Rightarrow> Inl BuildPanic
           | Some os \<Rightarrow>
               (case dryRunExpression C env expression os of
                  Inl err \<Rightarrow> Inl (BuildWrap (''failed to dry-run expression '' @ expression) err)
                | Inr out \<Rightarrow>
                    (if wantBool \<and> \<not> IsBoolType out
                     then Inl (BuildError (''output of expression '' @ expression @ '' can only be of type bool''))
                     else Inr ()))))"

definition withEnvironment ::
  "cel \<Rightarrow> string list \<Rightarrow> (cel_env \<Rightarrow> builder_error + unit) \<Rightarrow> builder_error + unit" where
  "withEnvironment C ids k =
     (case DefaultEnvironment C [WithResourceIDs ids] of
        Inl err \<Rightarrow> Inl (BuildError (''failed to create CEL environment: '' @ err))
      | Inr env \<Rightarrow> k env)"

definition withoutKeys :: "string list \<Rightarrow> val gomap option \<Rightarrow> val gomap option" where
  "withoutKeys ks obj = map_option (\<lambda>m. fold AList.delete ks m) obj"

definition readyWhenStep ::
  "(64 word \<Rightarrow> string) \<Rightarrow> cel_parser \<Rightarrow> cel \<Rightarrow> Resource \<Rightarrow> string \<Rightarrow> unit \<Rightarrow> builder_error + unit" where
  "readyWhenStep ff parse C res e u =
     withEnvironment C [resId res] (\<lambda>env.
       checkExpression ff parse C env [resId res]
         (Some [(resId res, withoutKeys [''apiVersion'', ''kind''] (emulatedObject res))]) True e ())"

definition includeWhenStep ::
  "(64 word \<Rightarrow> string) \<Rightarrow> cel_parser \<Rightarrow> cel \<Rightarrow> string list \<Rightarrow> val gomap option \<Rightarrow> string \<Rightarrow> unit \<Rightarrow> builder_error + unit" where
  "includeWhenStep ff parse C names inst e u =
     withEnvironment C names (\<lambda>env.
       checkExpression ff parse C env [''schema''] (map_option (\<lambda>obj. [(''schema'', Some obj)]) inst) True e ())"

definition contextFor :: "Resource gomap \<Rightarrow> Resource \<Rightarrow> val gomap option \<Rightarrow> val gomap option gomap option" where
  "contextFor resources res inst =
     map_option (\<lambda>obj. AList.update ''schema'' (Some obj)
       (map (\<lambda>x. (fst x, emulatedObject (snd x))) (filter (\<lambda>x. fst x \<noteq> resId res) resources))) inst"

definition validateVariable ::
  "(64 word \<Rightarrow> string) \<Rightarrow> cel_parser \<Rightarrow> cel \<Rightarrow> cel_env \<Rightarrow> string list \<Rightarrow> Resource gomap \<Rightarrow> val gomap option \<Rightarrow>
   Resource \<Rightarrow> ResourceField \<Rightarrow> unit \<Rightarrow> builder_error + unit" where
  "validateVariable ff parse C env names resources inst res v u =
     (case foldRes (checkExpression ff parse C env names (contextFor resources res inst) False) (Expressions v) () of
        Inl err \<Rightarrow> Inl err
      | Inr _ \<Rightarrow>
          (case foldRes (readyWhenStep ff parse C res) (readyWhenExpressions res) () of
             Inl err \<Rightarrow> Inl err
           | Inr _ \<Rightarrow> foldRes (includeWhenStep ff parse C names inst) (includeWhenExpressions res) ()))"

definition validateResourceCELExpressions ::
  "(64 word \<Rightarrow> string) \<Rightarrow> cel_parser \<Rightarrow> cel \<Rightarrow> Resource gomap \<Rightarrow> Resource \<Rightarrow> builder_error + unit" where
  "validateResourceCELExpressions ff parse C resources inst =
     (let names = map fst resources @ [''schema''];
          instObj = withoutKeys [''apiVersion'', ''kind'', ''status''] (emulatedObject inst) in
      withEnvironment C names (\<lambda>env.
        foldRes (\<lambda>x. foldRes (validateVariable ff parse C env names resources instObj (snd x)) (resVariables (snd x)))
          resources ()))"

subsection \<open>The graph\<close>

record Graph =
  graphDAG :: DirectedAcyclicGraph
  graphInstance :: Resource
  graphResources :: "Resource gomap"
  graphOrder :: "string list"

definition NewGraphRuntime :: "(64 word \<Rightarrow> string) \<Rightarrow> cel \<Rightarrow> Graph \<Rightarrow> val gomap \<Rightarrow> runtime_error + rt" where
  "NewGraphRuntime ff C g newInstance =
     NewResourceGroupRuntime ff C ((DeepCopy (graphInstance g))\<lparr>originalObject := newInstance\<rparr>)
       (map (\<lambda>x. (fst x, DeepCopy (snd x))) (graphResources g)) (graphOrder g)"

section \<open>The edges\<close>

text \<open>The dependencies of expressions, as the builder extracts them.\<close>

definition exprDeps :: "(64 word \<Rightarrow> string) \<Rightarrow> cel_parser \<Rightarrow> string list \<Rightarrow> string \<Rightarrow> string set" where
  "exprDeps ff parse names e =
     (case extractDependencies ff parse names e names of Inl _ \<Rightarrow> {} | Inr r \<Rightarrow> set (fst r))"

definition variableDeps :: "(64 word \<Rightarrow> string) \<Rightarrow> cel_parser \<Rightarrow> string list \<Rightarrow> ResourceField \<Rightarrow> string set" where
  "variableDeps ff parse names v = (\<Union>e \<in> set (Expressions v). exprDeps ff parse names e)"

definition resourceDeps :: "(64 word \<Rightarrow> string) \<Rightarrow> cel_parser \<Rightarrow> string list \<Rightarrow> Resource \<Rightarrow> string set" where
  "resourceDeps ff parse names res = (\<Union>v \<in> set (resVariables res). variableDeps ff parse names v)"

lemma dependencySteps:
  "fold dependencyStep ds (xs, b) = (ys, b') \<Longrightarrow>
   set ys = set xs \<union> (depID ` set ds - {''schema''}) \<and> (b' \<longleftrightarrow> b \<and> ys = xs) \<and> (length xs \<le> length ys)"
proof (induction ds arbitrary: xs b)
  case (Cons d ds)
  obtain zs c where z: "dependencyStep d (xs, b) = (zs, c)" by fastforce
  have "set ys = set zs \<union> (depID ` set ds - {''schema''}) \<and> (b' \<longleftrightarrow> c \<and> ys = zs) \<and> length zs \<le> length ys"
    using Cons.IH [of zs c] Cons.prems z by simp
  then show ?case using z by (auto simp: dependencyStep_def split: if_splits)
qed simp

lemma extractDependencies_static:
  assumes "extractDependencies ff parse env e names = Inr (deps, isStatic)"
  shows "isStatic \<longleftrightarrow> deps = []"
  using assms dependencySteps [of _ "[]" True deps isStatic]
  by (auto simp: extractDependencies_def Let_def split: sum.splits if_splits)

lemma extractDependencies_schema:
  assumes "extractDependencies ff parse env e names = Inr (deps, isStatic)"
  shows "''schema'' \<notin> set deps"
  using assms dependencySteps [of _ "[]" True deps isStatic]
  by (auto simp: extractDependencies_def Let_def split: sum.splits if_splits)

lemma exprDeps_schema: "''schema'' \<notin> exprDeps ff parse names e"
  unfolding exprDeps_def by (auto split: sum.splits dest: extractDependencies_schema)

lemma edgeStep_Inr:
  assumes "edgeStep n dep d = Inr d'" and "dag_inv d"
  shows "dag_inv d' \<and> vertexNames d' = vertexNames d \<and> edgeRel d' = insert (n, dep) (edgeRel d)"
  using assms(1) AddEdge_correct [OF assms(2), of n dep]
  by (auto simp: edgeStep_def addEdge_spec_def split: option.splits prod.splits)

lemma edgeSteps_Inr:
  "foldRes (edgeStep n) deps d = Inr d' \<Longrightarrow> dag_inv d \<Longrightarrow>
   dag_inv d' \<and> vertexNames d' = vertexNames d \<and> edgeRel d' = edgeRel d \<union> {n} \<times> set deps"
proof (induction deps arbitrary: d)
  case (Cons dep deps)
  then obtain d1 where d1: "edgeStep n dep d = Inr d1" "foldRes (edgeStep n) deps d1 = Inr d'"
    by (auto split: sum.splits)
  then show ?case using Cons.IH [OF d1(2)] edgeStep_Inr [OF d1(1) Cons.prems(2)] by auto
qed simp

text \<open>How a variable, a resource and a graph change when the dependencies \<open>D\<close> are found.\<close>

definition variableGrown :: "ResourceField \<Rightarrow> string set \<Rightarrow> ResourceField \<Rightarrow> bool" where
  "variableGrown v D v' =
     (FieldDescriptor.truncate v' = FieldDescriptor.truncate v \<and> set (Dependencies v') = set (Dependencies v) \<union> D \<and>
      Kind v' = (if Kind v = ResourceVariableKindStatic \<and> D \<noteq> {} then ResourceVariableKindDynamic else Kind v))"

definition resourceGrown :: "Resource \<Rightarrow> string set \<Rightarrow> Resource \<Rightarrow> bool" where
  "resourceGrown res D res' =
     (res' = res\<lparr>resDependencies := resDependencies res'\<rparr> \<and> set (resDependencies res') = set (resDependencies res) \<union> D)"

definition graphGrown :: "string \<Rightarrow> DirectedAcyclicGraph \<Rightarrow> string set \<Rightarrow> DirectedAcyclicGraph \<Rightarrow> bool" where
  "graphGrown n d D d' =
     (dag_inv d' \<and> vertexNames d' = vertexNames d \<and> edgeRel d' = edgeRel d \<union> {n} \<times> D)"

lemma variableGrown_refl: "variableGrown v {} v"
  by (simp add: variableGrown_def)

lemma variableGrown_trans: "variableGrown v D v' \<Longrightarrow> variableGrown v' E v'' \<Longrightarrow> variableGrown v (D \<union> E) v''"
  by (auto simp: variableGrown_def)

lemma resourceGrown_refl: "resourceGrown res {} res"
  by (simp add: resourceGrown_def)

lemma resourceGrown_trans: "resourceGrown r D r' \<Longrightarrow> resourceGrown r' E r'' \<Longrightarrow> resourceGrown r (D \<union> E) r''"
  by (cases r; cases r'; cases r'') (auto simp: resourceGrown_def)

lemma graphGrown_refl: "dag_inv d \<Longrightarrow> graphGrown n d {} d"
  by (simp add: graphGrown_def)

lemma graphGrown_trans: "graphGrown n d D d' \<Longrightarrow> graphGrown n d' E d'' \<Longrightarrow> graphGrown n d (D \<union> E) d''"
  by (auto simp: graphGrown_def)

lemma addDependencies_grown: "resourceGrown r (set deps) (addDependencies deps r)"
proof -
  have "addDependencies deps r = r\<lparr>resDependencies := resDependencies (addDependencies deps r)\<rparr>"
    unfolding addDependencies_def
  proof (induction deps arbitrary: r)
    case (Cons d deps)
    let ?f = "fold addDependency deps (addDependency d r)"
    have "?f = (addDependency d r)\<lparr>resDependencies := resDependencies ?f\<rparr>" using Cons.IH .
    also have "\<dots> = r\<lparr>resDependencies := resDependencies ?f\<rparr>" by (simp add: addDependency_def)
    finally show ?case by simp
  qed simp
  then show ?thesis by (simp add: resourceGrown_def)
qed

lemma AddDependencies_grown:
  assumes "isStatic \<longleftrightarrow> deps = []"
  shows "variableGrown v (set deps) (AddDependencies (markDynamic isStatic v) deps)"
  using assms by (auto simp: variableGrown_def markDynamic_def AddDependencies_def FieldDescriptor.truncate_def)

lemma expressionStep_Inr:
  assumes "expressionStep ff parse names names n e s = Inr s'" and "dag_inv (bsGraph s)"
  shows "variableGrown (bsVariable s) (exprDeps ff parse names e) (bsVariable s') \<and>
    resourceGrown (bsResource s) (exprDeps ff parse names e) (bsResource s') \<and>
    graphGrown n (bsGraph s) (exprDeps ff parse names e) (bsGraph s')"
proof -
  obtain deps st d where x: "extractDependencies ff parse names e names = Inr (deps, st)"
      "foldRes (edgeStep n) deps (bsGraph s) = Inr d"
      "s' = \<lparr>bsVariable = AddDependencies (markDynamic st (bsVariable s)) deps,
             bsResource = addDependencies deps (bsResource s), bsGraph = d\<rparr>"
    using assms(1) by (auto simp: expressionStep_def split: option.splits sum.splits)
  have "exprDeps ff parse names e = set deps" using x(1) by (simp add: exprDeps_def)
  then show ?thesis
    using x(3) addDependencies_grown AddDependencies_grown [OF extractDependencies_static [OF x(1)]]
      edgeSteps_Inr [OF x(2) assms(2)] by (simp add: graphGrown_def)
qed

lemma expressionSteps_Inr:
  "foldRes (expressionStep ff parse names names n) es s = Inr s' \<Longrightarrow> dag_inv (bsGraph s) \<Longrightarrow>
   variableGrown (bsVariable s) (\<Union>e \<in> set es. exprDeps ff parse names e) (bsVariable s') \<and>
   resourceGrown (bsResource s) (\<Union>e \<in> set es. exprDeps ff parse names e) (bsResource s') \<and>
   graphGrown n (bsGraph s) (\<Union>e \<in> set es. exprDeps ff parse names e) (bsGraph s')"
proof (induction es arbitrary: s)
  case Nil
  then show ?case by (simp add: variableGrown_refl resourceGrown_refl graphGrown_refl)
next
  case (Cons e es)
  then obtain t where t: "expressionStep ff parse names names n e s = Inr t"
      "foldRes (expressionStep ff parse names names n) es t = Inr s'"
    by (auto split: sum.splits)
  note one = expressionStep_Inr [OF t(1) Cons.prems(2)]
  have "dag_inv (bsGraph t)" using one by (simp add: graphGrown_def)
  note two = Cons.IH [OF t(2) this]
  show ?case
    using one two by (simp add: variableGrown_trans [of _ _ "bsVariable t"]
      resourceGrown_trans [of _ _ "bsResource t"] graphGrown_trans [of _ _ _ "bsGraph t"])
qed

lemma variableStep_Inr:
  assumes "variableStep ff parse names names n v (vs, res, d) = Inr (vs', res', d')" and "dag_inv d"
  shows "\<exists>v'. vs' = vs @ [v'] \<and> variableGrown v (variableDeps ff parse names v) v' \<and>
    resourceGrown res (variableDeps ff parse names v) res' \<and> graphGrown n d (variableDeps ff parse names v) d'"
  using assms expressionSteps_Inr [of ff parse names n "Expressions v" "\<lparr>bsVariable = v, bsResource = res, bsGraph = d\<rparr>"]
  by (auto simp: variableStep_def variableDeps_def split: sum.splits)

lemma variableSteps_Inr:
  "foldRes (variableStep ff parse names names n) vars (vs, res, d) = Inr (vs', res', d') \<Longrightarrow> dag_inv d \<Longrightarrow>
   \<exists>ws. vs' = vs @ ws \<and> list_all2 (\<lambda>v. variableGrown v (variableDeps ff parse names v)) vars ws \<and>
     resourceGrown res (\<Union>v \<in> set vars. variableDeps ff parse names v) res' \<and>
     graphGrown n d (\<Union>v \<in> set vars. variableDeps ff parse names v) d'"
proof (induction vars arbitrary: vs res d)
  case Nil
  then show ?case by (simp add: resourceGrown_refl graphGrown_refl)
next
  case (Cons v vars)
  then obtain us r e where t: "variableStep ff parse names names n v (vs, res, d) = Inr (us, r, e)"
      "foldRes (variableStep ff parse names names n) vars (us, r, e) = Inr (vs', res', d')"
    by (auto split: sum.splits)
  obtain v' where v': "us = vs @ [v']" "variableGrown v (variableDeps ff parse names v) v'"
      "resourceGrown res (variableDeps ff parse names v) r" "graphGrown n d (variableDeps ff parse names v) e"
    using variableStep_Inr [OF t(1) Cons.prems(2)] by blast
  then have "dag_inv e" by (simp add: graphGrown_def)
  from Cons.IH [OF t(2) this] obtain ws where ws: "vs' = us @ ws"
      "list_all2 (\<lambda>v. variableGrown v (variableDeps ff parse names v)) vars ws"
      "resourceGrown r (\<Union>v \<in> set vars. variableDeps ff parse names v) res'"
      "graphGrown n e (\<Union>v \<in> set vars. variableDeps ff parse names v) d'" by blast
  then show ?case
    using v' resourceGrown_trans [OF v'(3) ws(3)] graphGrown_trans [OF v'(4) ws(4)]
    by (intro exI [of _ "v' # ws"]) simp
qed

text \<open>What the builder makes of one resource.\<close>

definition resourceBuilt ::
  "(64 word \<Rightarrow> string) \<Rightarrow> cel_parser \<Rightarrow> string list \<Rightarrow> string \<times> Resource \<Rightarrow> string \<times> Resource \<Rightarrow> bool" where
  "resourceBuilt ff parse names x y =
     (fst y = fst x \<and>
      snd y = (snd x)\<lparr>resVariables := resVariables (snd y), resDependencies := resDependencies (snd y)\<rparr> \<and>
      list_all2 (\<lambda>v. variableGrown v (variableDeps ff parse names v)) (resVariables (snd x)) (resVariables (snd y)) \<and>
      set (resDependencies (snd y)) = set (resDependencies (snd x)) \<union> resourceDeps ff parse names (snd x))"

lemma resourceStep_Inr:
  assumes "resourceStep ff parse names names x (rs, d) = Inr (rs', d')" and "dag_inv d"
  shows "\<exists>y. rs' = rs @ [y] \<and> resourceBuilt ff parse names x y \<and>
    graphGrown (fst x) d (resourceDeps ff parse names (snd x)) d'"
proof -
  obtain vs res e where f: "foldRes (variableStep ff parse names names (fst x)) (resVariables (snd x)) ([], snd x, d)
      = Inr (vs, res, e)" "rs' = rs @ [(fst x, res\<lparr>resVariables := vs\<rparr>)]" "d' = e"
    using assms(1) by (auto simp: resourceStep_def split: sum.splits)
  have g: "list_all2 (\<lambda>v. variableGrown v (variableDeps ff parse names v)) (resVariables (snd x)) vs"
      "resourceGrown (snd x) (resourceDeps ff parse names (snd x)) res"
      "graphGrown (fst x) d (resourceDeps ff parse names (snd x)) d'"
    using variableSteps_Inr [OF f(1) assms(2)] f(3) by (auto simp: resourceDeps_def)
  have "resourceBuilt ff parse names x (fst x, res\<lparr>resVariables := vs\<rparr>)"
    using g(1,2) by (cases "snd x"; cases res) (auto simp: resourceBuilt_def resourceGrown_def)
  with f(2) g(3) show ?thesis by blast
qed

lemma resourceSteps_Inr:
  "foldRes (resourceStep ff parse names names) xs (rs, d) = Inr (rs', d') \<Longrightarrow> dag_inv d \<Longrightarrow>
   \<exists>ys. rs' = rs @ ys \<and> list_all2 (resourceBuilt ff parse names) xs ys \<and> dag_inv d' \<and>
     vertexNames d' = vertexNames d \<and>
     edgeRel d' = edgeRel d \<union> (\<Union>x \<in> set xs. {fst x} \<times> resourceDeps ff parse names (snd x))"
proof (induction xs arbitrary: rs d)
  case Nil
  then show ?case by simp
next
  case (Cons x xs)
  then obtain us e where t: "resourceStep ff parse names names x (rs, d) = Inr (us, e)"
      "foldRes (resourceStep ff parse names names) xs (us, e) = Inr (rs', d')"
    by (auto split: sum.splits)
  obtain y where y: "us = rs @ [y]" "resourceBuilt ff parse names x y"
      "graphGrown (fst x) d (resourceDeps ff parse names (snd x)) e"
    using resourceStep_Inr [OF t(1) Cons.prems(2)] by blast
  then have "dag_inv e" by (simp add: graphGrown_def)
  from Cons.IH [OF t(2) this] obtain ys where ys: "rs' = us @ ys" "list_all2 (resourceBuilt ff parse names) xs ys"
      "dag_inv d'" "vertexNames d' = vertexNames e"
      "edgeRel d' = edgeRel e \<union> (\<Union>x \<in> set xs. {fst x} \<times> resourceDeps ff parse names (snd x))" by blast
  then show ?case
    using y by (intro exI [of _ "y # ys"]) (auto simp: graphGrown_def)
qed

lemma vertexStep_Inr:
  assumes "vertexStep n d = Inr d'" and "dag_inv d" and "edgeRel d = {}"
  shows "dag_inv d' \<and> vertexNames d' = insert n (vertexNames d) \<and> edgeRel d' = {}"
proof -
  have a: "AddVertex d n = Inr d'" using assms(1) by (auto simp: vertexStep_def split: sum.splits)
  then have d': "d' = d\<lparr>Vertices := AList.update n \<lparr>vertexID = n, Edges = []\<rparr> (Vertices d)\<rparr>"
    by (auto simp: AddVertex_def split: option.splits)
  then have "edgeRel d' = {}" using assms(3) by (simp add: edgeRel_update)
  with d' AddVertex_inv [OF assms(2) a] show ?thesis by simp
qed

lemma vertexSteps_Inr:
  "foldRes vertexStep ns d = Inr d' \<Longrightarrow> dag_inv d \<Longrightarrow> edgeRel d = {} \<Longrightarrow>
   dag_inv d' \<and> vertexNames d' = vertexNames d \<union> set ns \<and> edgeRel d' = {}"
proof (induction ns arbitrary: d)
  case (Cons n ns)
  then obtain d1 where d1: "vertexStep n d = Inr d1" "foldRes vertexStep ns d1 = Inr d'"
    by (auto split: sum.splits)
  then show ?case using Cons.IH [OF d1(2)] vertexStep_Inr [OF d1(1) Cons.prems(2,3)] by auto
qed simp

lemma buildDependencyGraph_Inr:
  assumes "buildDependencyGraph ff parse C resources = Inr (d, resources')"
  shows "dag_inv d \<and> vertexNames d = fst ` set resources \<and>
    edgeRel d = (\<Union>x \<in> set resources. {fst x} \<times> resourceDeps ff parse (map fst resources @ [''schema'']) (snd x)) \<and>
    list_all2 (resourceBuilt ff parse (map fst resources @ [''schema''])) resources resources'"
proof -
  let ?names = "map fst resources @ [''schema'']"
  obtain d0 where d0: "foldRes vertexStep (map fst resources) NewDirectedAcyclicGraph = Inr d0"
      "foldRes (resourceStep ff parse ?names ?names) resources ([], d0) = Inr (resources', d)"
    using assms unfolding buildDependencyGraph_def Let_def DefaultEnvironment_ids
    by (auto split: option.splits sum.splits)
  have "edgeRel NewDirectedAcyclicGraph = {}" "vertexNames NewDirectedAcyclicGraph = {}"
    by (simp_all add: edgeRel_def vertexNames_def NewDirectedAcyclicGraph_def)
  with vertexSteps_Inr [OF d0(1) dag_inv_new]
  have "dag_inv d0" "vertexNames d0 = fst ` set resources" "edgeRel d0 = {}" by simp_all
  with resourceSteps_Inr [OF d0(2)] show ?thesis by auto
qed

section \<open>The expressions behind the edges\<close>

lemma foldRes_each: "foldRes f xs s = Inr s' \<Longrightarrow> x \<in> set xs \<Longrightarrow> \<exists>t t'. f x t = Inr t'"
  by (induction xs arbitrary: s) (auto split: sum.splits)

lemma extractDependencies_exact:
  assumes "extractDependencies ff parse env ex names = Inr r" and "parse env ex = Inr e" and "inspectable e"
  shows "set (fst r) = freeIdents e \<inter> set names - {''schema''}"
    and "\<forall>x \<in> freeIdents e. x \<in> set names \<or> isInternalIdentifier x"
proof -
  obtain i a' where i: "inspectAst ff e [] (NewInspector names []) = (i, a')" by fastforce
  have "inspectsTo (NewInspector names []) (freeIdents e) (i, a')"
    using inspect_exact(1) [OF assms(3), of "NewInspector names []" ff "[]"] i by (simp add: NewInspector_def)
  then have rep: "depID ` set (ResourceDependencies i) = freeIdents e \<inter> set names"
      "unknownID ` set (UnknownResources i) = {x \<in> freeIdents e - set names. \<not> isInternalIdentifier x}"
    by (simp_all add: inspectsTo_def reports_def NewInspector_def)
  have r: "r = fold dependencyStep (ResourceDependencies i) ([], True)" "UnknownResources i = []"
    using assms(1,2) i
    by (auto simp: extractDependencies_def inspectExpression_def Inspect_def Let_def split: if_splits)
  then have "set (fst r) = depID ` set (ResourceDependencies i) - {''schema''}"
    using dependencySteps [of "ResourceDependencies i" "[]" True "fst r" "snd r"] by simp
  with rep(1) show "set (fst r) = freeIdents e \<inter> set names - {''schema''}" by simp
  show "\<forall>x \<in> freeIdents e. x \<in> set names \<or> isInternalIdentifier x"
    using rep(2) r(2) by auto
qed

lemma build_extracts:
  assumes "buildDependencyGraph ff parse C resources = Inr (d, resources')" and "(n, res) \<in> set resources"
    and "v \<in> set (resVariables res)" and "ex \<in> set (Expressions v)"
  shows "\<exists>r. extractDependencies ff parse (map fst resources @ [''schema'']) ex (map fst resources @ [''schema'']) = Inr r"
proof -
  let ?names = "map fst resources @ [''schema'']"
  obtain d0 where "foldRes (resourceStep ff parse ?names ?names) resources ([], d0) = Inr (resources', d)"
    using assms(1) unfolding buildDependencyGraph_def Let_def DefaultEnvironment_ids
    by (auto split: option.splits sum.splits)
  then obtain t t' where "resourceStep ff parse ?names ?names (n, res) t = Inr t'"
    using foldRes_each assms(2) by fast
  then obtain u u' where "foldRes (variableStep ff parse ?names ?names n) (resVariables res) u = Inr u'"
    by (auto simp: resourceStep_def split: sum.splits)
  then obtain w w' where "variableStep ff parse ?names ?names n v w = Inr w'"
    using foldRes_each assms(3) by fast
  then obtain s s' where "foldRes (expressionStep ff parse ?names ?names n) (Expressions v) s = Inr s'"
    by (auto simp: variableStep_def split: sum.splits prod.splits)
  then obtain z z' where "expressionStep ff parse ?names ?names n ex z = Inr z'"
    using foldRes_each assms(4) by fast
  then show ?thesis by (auto simp: expressionStep_def split: option.splits sum.splits)
qed

lemma build_edge:
  assumes "buildDependencyGraph ff parse C resources = Inr (d, resources')" and "(n, res) \<in> set resources"
    and "v \<in> set (resVariables res)" and "ex \<in> set (Expressions v)"
    and "parse (map fst resources @ [''schema'']) ex = Inr e" and "inspectable e"
  shows "freeIdents e \<subseteq> fst ` set resources \<union> {''schema''} \<union> Collect isInternalIdentifier"
    and "x \<in> freeIdents e \<Longrightarrow> x \<in> fst ` set resources \<Longrightarrow> x \<noteq> ''schema'' \<Longrightarrow> (n, x) \<in> edgeRel d"
proof -
  let ?names = "map fst resources @ [''schema'']"
  obtain r where r: "extractDependencies ff parse ?names ex ?names = Inr r"
    using build_extracts [OF assms(1-4)] by blast
  note exact = extractDependencies_exact [OF r assms(5,6)]
  show "freeIdents e \<subseteq> fst ` set resources \<union> {''schema''} \<union> Collect isInternalIdentifier"
    using exact(2) by auto
  assume "x \<in> freeIdents e" "x \<in> fst ` set resources" "x \<noteq> ''schema''"
  then have "x \<in> exprDeps ff parse ?names ex" using exact(1) r by (auto simp: exprDeps_def)
  then have "x \<in> resourceDeps ff parse ?names res"
    using assms(3,4) by (auto simp: resourceDeps_def variableDeps_def)
  then show "(n, x) \<in> edgeRel d" using buildDependencyGraph_Inr [OF assms(1)] assms(2) by fastforce
qed

section \<open>What a validated expression does\<close>

lemma dryRunExpression_Inr:
  "dryRunExpression C env ex objs = Inr out \<Longrightarrow>
   \<exists>ctxt. dryRunContext objs = Some ctxt \<and> celCompile C env ex = None \<and> celProgram C env ex = None \<and>
     celEval C env ex ctxt = Inr out"
  by (auto simp: dryRunExpression_def split: option.splits sum.splits)

lemma checkExpression_Inr:
  assumes "checkExpression ff parse C env names objs wantBool ex u = Inr w"
  obtains os ctxt out where "objs = Some os" and "dryRunContext os = Some ctxt" and "celCompile C env ex = None"
    and "celProgram C env ex = None" and "celEval C env ex ctxt = Inr out" and "wantBool \<Longrightarrow> IsBoolType out"
  using assms dryRunExpression_Inr [of C env ex]
  by (force simp: checkExpression_def split: option.splits sum.splits if_splits)

lemma validate_variable_Inr:
  assumes "validateResourceCELExpressions ff parse C resources inst = Inr u" and "(n, res) \<in> set resources"
    and "v \<in> set (resVariables res)"
  shows "\<exists>w. validateVariable ff parse C (map fst resources @ [''schema'']) (map fst resources @ [''schema'']) resources
    (withoutKeys [''apiVersion'', ''kind'', ''status''] (emulatedObject inst)) res v () = Inr w"
proof -
  let ?names = "map fst resources @ [''schema'']"
  let ?check = "validateVariable ff parse C ?names ?names resources
    (withoutKeys [''apiVersion'', ''kind'', ''status''] (emulatedObject inst))"
  have "foldRes (\<lambda>x. foldRes (?check (snd x)) (resVariables (snd x))) resources () = Inr u"
    using assms(1) by (auto simp: validateResourceCELExpressions_def withEnvironment_def Let_def DefaultEnvironment_ids
        split: option.splits)
  from foldRes_each [OF this assms(2)] obtain t where "foldRes (?check res) (resVariables res) () = Inr t" by auto
  from foldRes_each [OF this assms(3)] show ?thesis by auto
qed

lemma readyWhenStep_Inr:
  assumes "readyWhenStep ff parse C res ex u = Inr w"
  obtains obj b where "emulatedObject res = Some obj"
    and "celEval C [resId res] ex [(resId res, VMap (fold AList.delete [''apiVersion'', ''kind''] obj))] = Inr (RBool b)"
proof -
  have "checkExpression ff parse C [resId res] [resId res]
      (Some [(resId res, withoutKeys [''apiVersion'', ''kind''] (emulatedObject res))]) True ex () = Inr w"
    using assms by (auto simp: readyWhenStep_def withEnvironment_def DefaultEnvironment_ids split: option.splits)
  then obtain ctxt out where
      "dryRunContext [(resId res, withoutKeys [''apiVersion'', ''kind''] (emulatedObject res))] = Some ctxt"
      "celEval C [resId res] ex ctxt = Inr out" "IsBoolType out"
    by (rule checkExpression_Inr) auto
  then obtain obj b where "emulatedObject res = Some obj" and
      "celEval C [resId res] ex [(resId res, VMap (fold AList.delete [''apiVersion'', ''kind''] obj))] = Inr (RBool b)"
    by (auto simp: dryRunContext_def withoutKeys_def IsBoolType_native split: if_splits)
  then show thesis by (rule that)
qed

lemma includeWhenStep_Inr:
  assumes "includeWhenStep ff parse C names inst ex u = Inr w"
  obtains obj b where "inst = Some obj" and "celEval C names ex [(''schema'', VMap obj)] = Inr (RBool b)"
proof -
  have "checkExpression ff parse C names [''schema''] (map_option (\<lambda>obj. [(''schema'', Some obj)]) inst) True ex () = Inr w"
    using assms by (auto simp: includeWhenStep_def withEnvironment_def DefaultEnvironment_ids split: option.splits)
  then show thesis
    by (rule checkExpression_Inr) (auto simp: dryRunContext_def IsBoolType_native split: if_splits intro: that)
qed

section \<open>Properties\<close>

text \<open>
  C12. A dependency graph that is built without error is well-formed and acyclic, has the resources
  as its vertices, and every resource is returned with the dependencies of its expressions added
  and its variables made dynamic exactly where an expression depends on a resource. Its
  topological sort is a creation order for the expressions that are \<open>inspectable\<close>: such an expression of a
  resource refers only to declared resources, the instance and identifiers internal to CEL, and every
  resource it refers to comes before the resource itself. Not inspectable is an expression with a list
  or struct literal that has an identifier in it, as in \<open>${[vpc.status.id]}\<close>, or with an iteration variable
  that is free in the range of its own loop or iterated over again inside of the loop: the inspector does
  not report such identifiers (\<open>inspect_misses_list_literal\<close> of \<open>Inspector\<close>), and the order may be wrong for them.
\<close>

theorem built_graph_orders_resources:
  assumes "buildDependencyGraph ff parse C resources = Inr (d, resources')"
  shows "dag_inv d \<and> list_all2 (resourceBuilt ff parse (map fst resources @ [''schema''])) resources resources' \<and>
    (\<exists>order. TopologicalSort d = Some (Inr order) \<and> distinct order \<and> set order = fst ` set resources \<and>
      (\<forall>n res v ex e. (n, res) \<in> set resources \<longrightarrow> v \<in> set (resVariables res) \<longrightarrow> ex \<in> set (Expressions v) \<longrightarrow>
         parse (map fst resources @ [''schema'']) ex = Inr e \<longrightarrow> inspectable e \<longrightarrow>
         freeIdents e \<subseteq> fst ` set resources \<union> {''schema''} \<union> Collect isInternalIdentifier \<and>
         (\<forall>x ys zs. x \<in> freeIdents e \<longrightarrow> x \<in> fst ` set resources \<longrightarrow> x \<noteq> ''schema'' \<longrightarrow>
            order = ys @ n # zs \<longrightarrow> x \<in> set ys)))"
proof -
  note built = buildDependencyGraph_Inr [OF assms]
  obtain order where order: "TopologicalSort d = Some (Inr order)" "distinct order" "set order = vertexNames d"
      "topoOrder d = Some order"
    using TopologicalSort_correct [of d] built by (auto simp: topoOrder_def)
  show ?thesis
  proof (intro conjI exI [of _ order] allI impI)
    fix n res v ex e x ys zs
    assume e: "(n, res) \<in> set resources" "v \<in> set (resVariables res)" "ex \<in> set (Expressions v)"
      "parse (map fst resources @ [''schema'']) ex = Inr e" "inspectable e"
    show "freeIdents e \<subseteq> fst ` set resources \<union> {''schema''} \<union> Collect isInternalIdentifier"
      using build_edge(1) [OF assms e] .
    assume "x \<in> freeIdents e" "x \<in> fst ` set resources" "x \<noteq> ''schema''" and split: "order = ys @ n # zs"
    then have "(n, x) \<in> edgeRel d" using build_edge(2) [OF assms e] by blast
    then show "x \<in> set ys" using topo.deps_before [OF _ order(4) split] built by blast
  qed (use built order in simp_all)
qed

definition sampleBuildParse :: cel_parser where
  "sampleBuildParse env s =
     (if s = ''vpc.status.id'' then Inr (SelectExpr (SelectExpr (IdentExpr ''vpc'') ''status'') ''id'')
      else if s = ''schema.spec.name'' then Inr (SelectExpr (SelectExpr (IdentExpr ''schema'') ''spec'') ''name'')
      else Inl ''syntax error'')"

definition sampleUnbuilt :: "Resource gomap" where
  "sampleUnbuilt =
     [(''subnet'', sampleNode ''subnet'' [(''vpcID'', VStr ''${vpc.status.id}'')]
         [sampleVariable ''vpcID'' ''vpc.status.id'' ResourceVariableKindStatic []] []),
      (''vpc'', sampleNode ''vpc'' [(''name'', VStr ''${schema.spec.name}'')]
         [sampleVariable ''name'' ''schema.spec.name'' ResourceVariableKindStatic []] [])]"

definition sampleBuilt :: "Resource gomap" where
  "sampleBuilt =
     [(''subnet'', sampleNode ''subnet'' [(''vpcID'', VStr ''${vpc.status.id}'')]
         [sampleVariable ''vpcID'' ''vpc.status.id'' ResourceVariableKindDynamic [''vpc'']] [''vpc'']),
      (''vpc'', sampleNode ''vpc'' [(''name'', VStr ''${schema.spec.name}'')]
         [sampleVariable ''name'' ''schema.spec.name'' ResourceVariableKindStatic []] [])]"

definition sampleDag :: DirectedAcyclicGraph where
  "sampleDag = \<lparr>Vertices =
     [(''subnet'', \<lparr>vertexID = ''subnet'', Edges = [''vpc'']\<rparr>), (''vpc'', \<lparr>vertexID = ''vpc'', Edges = []\<rparr>)]\<rparr>"

theorem built_graph_orders_resources_witness:
  "\<exists>order. buildDependencyGraph (\<lambda>w. []) sampleBuildParse sampleCel sampleUnbuilt = Inr (sampleDag, sampleBuilt) \<and>
     TopologicalSort sampleDag = Some (Inr order) \<and> order = [''vpc'', ''subnet''] \<and> set order = {''vpc'', ''subnet''} \<and>
     dag_inv sampleDag"
proof -
  have build: "buildDependencyGraph (\<lambda>w. []) sampleBuildParse sampleCel sampleUnbuilt = Inr (sampleDag, sampleBuilt)"
    by code_simp
  have sort: "TopologicalSort sampleDag = Some (Inr [''vpc'', ''subnet''])" by code_simp
  from built_graph_orders_resources [OF build] build sort show ?thesis by (auto simp: sampleUnbuilt_def)
qed

text \<open>
  When the expressions of the resources validate, every expression of a variable has been run
  without error on the emulated objects of the other resources and the instance, and for a
  resource that has a variable every readyWhen expression evaluates to a boolean on its own emulated
  object and every includeWhen expression evaluates to a boolean on the emulated instance.
\<close>

lemma validated_expressions_run:
  assumes "validateResourceCELExpressions ff parse C resources inst = Inr u" and "(n, res) \<in> set resources"
    and "v \<in> set (resVariables res)"
  shows "(\<forall>ex \<in> set (Expressions v). \<exists>os ctxt out.
      contextFor resources res (withoutKeys [''apiVersion'', ''kind'', ''status''] (emulatedObject inst)) = Some os \<and>
      dryRunContext os = Some ctxt \<and> celEval C (map fst resources @ [''schema'']) ex ctxt = Inr out) \<and>
    (\<forall>ex \<in> set (readyWhenExpressions res). \<exists>obj b. emulatedObject res = Some obj \<and>
      celEval C [resId res] ex [(resId res, VMap (fold AList.delete [''apiVersion'', ''kind''] obj))] = Inr (RBool b)) \<and>
    (\<forall>ex \<in> set (includeWhenExpressions res). \<exists>obj b.
      withoutKeys [''apiVersion'', ''kind'', ''status''] (emulatedObject inst) = Some obj \<and>
      celEval C (map fst resources @ [''schema'']) ex [(''schema'', VMap obj)] = Inr (RBool b))"
proof -
  let ?names = "map fst resources @ [''schema'']"
  let ?inst = "withoutKeys [''apiVersion'', ''kind'', ''status''] (emulatedObject inst)"
  obtain w where "validateVariable ff parse C ?names ?names resources ?inst res v () = Inr w"
    using validate_variable_Inr [OF assms] by blast
  then have steps: "foldRes (checkExpression ff parse C ?names ?names (contextFor resources res ?inst) False) (Expressions v) () = Inr ()"
      "foldRes (readyWhenStep ff parse C res) (readyWhenExpressions res) () = Inr ()"
      "foldRes (includeWhenStep ff parse C ?names ?inst) (includeWhenExpressions res) () = Inr ()"
    by (auto simp: validateVariable_def split: sum.splits)
  have "\<forall>ex \<in> set (Expressions v). \<exists>os ctxt out. contextFor resources res ?inst = Some os \<and>
      dryRunContext os = Some ctxt \<and> celEval C ?names ex ctxt = Inr out"
    using foldRes_each [OF steps(1)] by (blast elim: checkExpression_Inr)
  moreover have "\<forall>ex \<in> set (readyWhenExpressions res). \<exists>obj b. emulatedObject res = Some obj \<and>
      celEval C [resId res] ex [(resId res, VMap (fold AList.delete [''apiVersion'', ''kind''] obj))] = Inr (RBool b)"
    using foldRes_each [OF steps(2)] by (blast elim: readyWhenStep_Inr)
  moreover have "\<forall>ex \<in> set (includeWhenExpressions res). \<exists>obj b. ?inst = Some obj \<and>
      celEval C ?names ex [(''schema'', VMap obj)] = Inr (RBool b)"
    using foldRes_each [OF steps(3)] by (blast elim: includeWhenStep_Inr)
  ultimately show ?thesis by blast
qed

definition sampleBoolCel :: cel where
  "sampleBoolCel = sampleCel\<lparr>celEval := (\<lambda>ids e ctxt.
     Inr (if e = ''vpc.status.ready'' then RBool True else if e = ''schema.spec.on'' then RBool False else RString ''x''))\<rparr>"

definition sampleConditionParse :: cel_parser where
  "sampleConditionParse env s =
     Inr (SelectExpr (SelectExpr (IdentExpr (if s = ''vpc.status.ready'' then ''vpc'' else ''schema'')) ''status'') ''ready'')"

definition sampleConditional :: Resource where
  "sampleConditional =
     (sampleNode ''vpc'' [(''name'', VStr ''${schema.spec.name}'')]
        [sampleVariable ''name'' ''schema.spec.name'' ResourceVariableKindStatic []] [])
     \<lparr>emulatedObject := Some [(''kind'', VStr ''VPC''), (''spec'', VMap [])], readyWhenExpressions := [''vpc.status.ready''],
      includeWhenExpressions := [''schema.spec.on'']\<rparr>"

definition sampleEmulatedInstance :: Resource where
  "sampleEmulatedInstance = sampleInstance\<lparr>emulatedObject := Some [(''kind'', VStr ''Net''), (''spec'', VMap [])]\<rparr>"

lemma validated_expressions_run_witness:
  "\<exists>b. validateResourceCELExpressions (\<lambda>w. []) sampleConditionParse sampleBoolCel [(''vpc'', sampleConditional)]
        sampleEmulatedInstance = Inr () \<and>
     celEval sampleBoolCel [''vpc'', ''schema''] ''schema.spec.on'' [(''schema'', VMap [(''spec'', VMap [])])] = Inr (RBool b)"
proof -
  let ?rs = "[(''vpc'', sampleConditional)]"
  have ok: "validateResourceCELExpressions (\<lambda>w. []) sampleConditionParse sampleBoolCel ?rs sampleEmulatedInstance = Inr ()"
    by code_simp
  have v: "sampleVariable ''name'' ''schema.spec.name'' ResourceVariableKindStatic [] \<in> set (resVariables sampleConditional)"
    by (simp add: sampleConditional_def sampleNode_def)
  have "\<forall>ex \<in> set (includeWhenExpressions sampleConditional). \<exists>obj b.
      withoutKeys [''apiVersion'', ''kind'', ''status''] (emulatedObject sampleEmulatedInstance) = Some obj \<and>
      celEval sampleBoolCel (map fst ?rs @ [''schema'']) ex [(''schema'', VMap obj)] = Inr (RBool b)"
    using validated_expressions_run [OF ok _ v] by simp
  moreover have "''schema.spec.on'' \<in> set (includeWhenExpressions sampleConditional)"
    by (simp add: sampleConditional_def)
  moreover have "withoutKeys [''apiVersion'', ''kind'', ''status''] (emulatedObject sampleEmulatedInstance) =
      Some [(''spec'', VMap [])]" by code_simp
  ultimately show ?thesis using ok by auto
qed

section \<open>Checks that decide nothing\<close>

text \<open>The inspector reports only names it was given, so the check for unknown resources never fails.\<close>

lemma context_check_never_fails:
  assumes "parse env ex = Inr e" and "inspectable e"
  shows "validateCELExpressionContext ff parse env ex names = None"
proof -
  obtain i a' where i: "inspectAst ff e [] (NewInspector names []) = (i, a')" by fastforce
  have "depID ` set (ResourceDependencies i) \<subseteq> set names"
    using inspect_exact(1) [OF assms(2), of "NewInspector names []" ff "[]"] i
    by (simp add: NewInspector_def inspectsTo_def reports_def)
  then have "find (\<lambda>d. \<not> List.member names (depID d)) (ResourceDependencies i) = None"
    by (auto simp: find_None_iff)
  then show ?thesis
    using assms(1) i by (simp add: validateCELExpressionContext_def inspectExpression_def Inspect_def)
qed

text \<open>The conditions of a resource without variables are not looked at.\<close>

lemma conditions_without_variables_unchecked:
  "validateResourceCELExpressions ff parse C [(n, res\<lparr>resVariables := [], readyWhenExpressions := es\<rparr>)] inst =
   validateResourceCELExpressions ff parse C [(n, res\<lparr>resVariables := [], readyWhenExpressions := []\<rparr>)] inst"
  by (simp add: validateResourceCELExpressions_def withEnvironment_def Let_def DefaultEnvironment_ids split: option.splits)

text \<open>A resource that was not emulated makes every dry run that has it in its context panic.\<close>

lemma dry_run_without_emulation:
  "celCompile C env ex = None \<Longrightarrow> celProgram C env ex = None \<Longrightarrow> (n, None) \<in> set objs \<Longrightarrow>
   dryRunExpression C env ex objs = Inl BuildPanic"
  by (auto simp: dryRunExpression_def dryRunContext_def list_all_iff)

end
