(* ===== verification/Instance_Controller.thy ===== *)
theory Instance_Controller
  imports Requeue Metadata Graph_Builder
begin

text \<open>
  The controller of instances, \<open>src/internal/controller/instance/\<close>: one call of \<open>Reconcile\<close> brings
  an instance and its resources one step further, in the topological order when it lives and in
  the reverse order when it is deleted.

  The API server is the outside world \<open>'w\<close>: a client is a record of functions that return a result
  and the world after the call. The methods of unstructured objects come from apimachinery and are
  arguments. An operation returns the state it leaves and why it stopped, if it stopped;
  \<open>StopPanic\<close> stands for a panic and for a call into the runtime that does not return, and
  the model ends there.
\<close>

section \<open>The outside\<close>

record 'w dynClient =
  clientGet :: "GroupVersionResource \<Rightarrow> string option \<Rightarrow> string \<Rightarrow> 'w \<Rightarrow> (goerror + val gomap) \<times> 'w"
  clientCreate :: "GroupVersionResource \<Rightarrow> string option \<Rightarrow> val gomap \<Rightarrow> 'w \<Rightarrow> (goerror + val gomap) \<times> 'w"
  clientDelete :: "GroupVersionResource \<Rightarrow> string option \<Rightarrow> string \<Rightarrow> 'w \<Rightarrow> goerror option \<times> 'w"
  clientUpdate :: "GroupVersionResource \<Rightarrow> string option \<Rightarrow> val gomap \<Rightarrow> 'w \<Rightarrow> (goerror + val gomap) \<times> 'w"
  clientUpdateStatus :: "GroupVersionResource \<Rightarrow> string option \<Rightarrow> val gomap \<Rightarrow> 'w \<Rightarrow> (goerror + val gomap) \<times> 'w"

record unstructuredLib =
  uObject :: "val gomap metav1Object"
  uNested :: nested
  uGeneration :: "val gomap \<Rightarrow> 64 word"
  uDeleting :: "val gomap \<Rightarrow> bool"

section \<open>State\<close>

record RState =
  rsState :: string
  rsErr :: "goerror option"

record InstanceState =
  isState :: string
  isResourceStates :: "RState gomap"
  isReconcileErr :: "goerror option"

definition newInstanceState :: InstanceState where
  "newInstanceState = \<lparr>isState = ''IN_PROGRESS'', isResourceStates = [], isReconcileErr = None\<rparr>"

text \<open>What does not change during a reconciliation, and what does.\<close>

record 'w reconciler =
  igFloat :: "64 word \<Rightarrow> string"
  igText :: "runtime_error \<Rightarrow> string"
  igCel :: cel
  igLib :: unstructuredLib
  igNow :: string
  igGvr :: GroupVersionResource
  igClient :: "'w dynClient"
  igInstanceLabeler :: labeler
  igSubResourcesLabeler :: labeler
  igRequeueDuration :: "64 word"

record 'w igr =
  igRuntime :: rt
  igState :: InstanceState
  igWorld :: 'w

datatype stop = StopErr goerror | StopPanic

definition setRState :: "string \<Rightarrow> string \<Rightarrow> goerror option \<Rightarrow> 'w igr \<Rightarrow> 'w igr" where
  "setRState ident st err s =
     s\<lparr>igState := (igState s)\<lparr>isResourceStates :=
        AList.update ident \<lparr>rsState = st, rsErr = err\<rparr> (isResourceStates (igState s))\<rparr>\<rparr>"

definition delayedRequeue :: "'w reconciler \<Rightarrow> goerror \<Rightarrow> goerror" where
  "delayedRequeue G err = NeededAfter (Some err) (igRequeueDuration G)"

section \<open>Managing the instance\<close>

definition managedInstance :: "'w reconciler \<Rightarrow> val gomap \<Rightarrow> bool" where
  "managedInstance G obj =
     (HasInstanceFinalizerUnstructured (uNested (igLib G)) obj (GetUID (uObject (igLib G)) obj) = Inr True)"

definition updateInstance :: "'w reconciler \<Rightarrow> string \<Rightarrow> val gomap \<Rightarrow> val gomap \<Rightarrow> 'w \<Rightarrow> (goerror + val gomap) \<times> 'w" where
  "updateInstance G msg obj copied w =
     (case clientUpdate (igClient G) (igGvr G) (Some (GetNamespace (uObject (igLib G)) obj)) copied w of
        (Inl err, w') \<Rightarrow> (Inl (ErrorfWrap msg err), w')
      | (Inr updated, w') \<Rightarrow> (Inr updated, w'))"

definition setManaged :: "'w reconciler \<Rightarrow> val gomap \<Rightarrow> 'w \<Rightarrow> (goerror + val gomap) \<times> 'w" where
  "setManaged G obj w =
     (if managedInstance G obj then (Inr obj, w)
      else case SetInstanceFinalizerUnstructured (uNested (igLib G)) obj (GetUID (uObject (igLib G)) obj) of
             Inl err \<Rightarrow> (Inl (ErrorfWrap ''failed to set finalizer'' (Errorf err)), w)
           | Inr copied \<Rightarrow>
               updateInstance G ''failed to update managed state'' obj
                 (ApplyLabels (uObject (igLib G)) (igInstanceLabeler G) copied) w)"

definition setUnmanaged :: "'w reconciler \<Rightarrow> val gomap \<Rightarrow> 'w \<Rightarrow> (goerror + val gomap) \<times> 'w" where
  "setUnmanaged G obj w =
     (if \<not> managedInstance G obj then (Inr obj, w)
      else case RemoveInstanceFinalizerUnstructured (uNested (igLib G)) obj (GetUID (uObject (igLib G)) obj) of
             Inl err \<Rightarrow> (Inl (ErrorfWrap ''failed to remove finalizer'' (Errorf err)), w)
           | Inr copied \<Rightarrow> updateInstance G ''failed to update unmanaged state'' obj copied w)"

definition setupInstance :: "'w reconciler \<Rightarrow> 'w igr \<Rightarrow> 'w igr \<times> stop option" where
  "setupInstance G s =
     (case setManaged G (GetInstance (igRuntime s)) (igWorld s) of
        (Inl err, w) \<Rightarrow> (s\<lparr>igWorld := w\<rparr>, Some (StopErr err))
      | (Inr patched, w) \<Rightarrow> (s\<lparr>igWorld := w, igRuntime := SetInstance patched (igRuntime s)\<rparr>, None))"

section \<open>Reconciling a resource\<close>

text \<open>A resource that is not offered is a nil pointer here.\<close>

definition getResourceNamespace :: "'w reconciler \<Rightarrow> rt \<Rightarrow> string \<Rightarrow> string option" where
  "getResourceNamespace G r ident =
     (case GetResource r ident of
        Some (Some res, _) \<Rightarrow>
          (let ns = GetNamespace (uObject (igLib G)) res; ins = GetNamespace (uObject (igLib G)) (GetInstance r) in
           if ns \<noteq> [] then Some ns else if ins \<noteq> [] then Some ins else Some ''default'')
      | _ \<Rightarrow> None)"

definition getResourceClient :: "'w reconciler \<Rightarrow> rt \<Rightarrow> string \<Rightarrow> (GroupVersionResource \<times> string option) option" where
  "getResourceClient G r ident =
     (case map_of (rtResources r) ident of
        None \<Rightarrow> None
      | Some descriptor \<Rightarrow>
          (case getResourceNamespace G r ident of
             None \<Rightarrow> None
           | Some ns \<Rightarrow> Some (resGvr descriptor, if resNamespaced descriptor then Some ns else None)))"

text \<open>Labels are written into the object the runtime holds.\<close>

definition writeResource :: "string \<Rightarrow> val gomap \<Rightarrow> rt \<Rightarrow> rt" where
  "writeResource ident obj r =
     (if map_of (resolvedResources r) ident \<noteq> None then SetResource ident obj r else setObject ident obj r)"

definition handleResourceCreation ::
  "'w reconciler \<Rightarrow> GroupVersionResource \<times> string option \<Rightarrow> val gomap \<Rightarrow> string \<Rightarrow> 'w igr \<Rightarrow> 'w igr \<times> stop option" where
  "handleResourceCreation G rc res ident s =
     (let labelled = ApplyLabels (uObject (igLib G)) (igSubResourcesLabeler G) res;
          s1 = s\<lparr>igRuntime := writeResource ident labelled (igRuntime s)\<rparr> in
      case clientCreate (igClient G) (fst rc) (snd rc) labelled (igWorld s1) of
        (Inl err, w) \<Rightarrow>
          (let e = ErrorfWrap ''failed to create resource'' err in
           (setRState ident ''ERROR'' (Some e) (s1\<lparr>igWorld := w\<rparr>), Some (StopErr e)))
      | (Inr _, w) \<Rightarrow>
          (setRState ident ''CREATED'' None (s1\<lparr>igWorld := w\<rparr>),
           Some (StopErr (delayedRequeue G (Errorf ''awaiting resource creation completion'')))))"

definition updateResource :: "string \<Rightarrow> 'w igr \<Rightarrow> 'w igr \<times> stop option" where
  "updateResource ident s = (setRState ident ''SYNCED'' None s, None)"

definition handleResourceReconciliation :: "'w reconciler \<Rightarrow> string \<Rightarrow> val gomap \<Rightarrow> 'w igr \<Rightarrow> 'w igr \<times> stop option" where
  "handleResourceReconciliation G ident res s =
     (case getResourceClient G (igRuntime s) ident of
        None \<Rightarrow> (s, Some StopPanic)
      | Some rc \<Rightarrow>
          (case clientGet (igClient G) (fst rc) (snd rc) (GetName (uObject (igLib G)) res) (igWorld s) of
             (Inl err, w) \<Rightarrow>
               (if IsNotFound err then handleResourceCreation G rc res ident (s\<lparr>igWorld := w\<rparr>)
                else let e = ErrorfWrap ''failed to get resource'' err in
                     (setRState ident ''ERROR'' (Some e) (s\<lparr>igWorld := w\<rparr>), Some (StopErr e)))
           | (Inr observed, w) \<Rightarrow>
               (let s1 = s\<lparr>igWorld := w, igRuntime := SetResource ident observed (igRuntime s)\<rparr> in
                case IsResourceReady (igCel G) (igRuntime s1) ident of
                  (ready, reason, err) \<Rightarrow>
                    (if err = Some NoReturn then (s1, Some StopPanic)
                     else if err \<noteq> None \<or> \<not> ready then
                       (let e = NotReady reason err in
                        (setRState ident ''WAITING_FOR_READINESS'' (Some e) s1, Some (StopErr (delayedRequeue G e))))
                     else updateResource ident (setRState ident ''SYNCED'' None s1)))))"

definition reconcileResource :: "'w reconciler \<Rightarrow> string \<Rightarrow> 'w igr \<Rightarrow> 'w igr \<times> stop option" where
  "reconcileResource G ident s =
     (let s1 = setRState ident ''IN_PROGRESS'' None s in
      case WantToCreateResource (igCel G) (igRuntime s1) ident of
        (want, err) \<Rightarrow>
          (if err = Some NoReturn then (s1, Some StopPanic)
           else if err \<noteq> None \<or> \<not> want then
             ((setRState ident ''SKIPPED'' None s1)\<lparr>igRuntime := IgnoreResource ident (igRuntime s1)\<rparr>, None)
           else
             (case GetResource (igRuntime s1) ident of
                None \<Rightarrow> (s1, Some StopPanic)
              | Some (res, st) \<Rightarrow>
                  (if st \<noteq> ResourceStateResolved
                   then (s1, Some (StopErr (delayedRequeue G (Errorf (''resource '' @ ident @ '' not resolved'')))))
                   else handleResourceReconciliation G ident (the res) s1))))"

text \<open>An error of the runtime, or a call that did not return.\<close>

fun noReturn :: "runtime_error \<Rightarrow> bool" where
  "noReturn NoReturn = True"
| "noReturn (Wrapped s e) = noReturn e"
| "noReturn _ = False"

definition runtimeStop :: "(goerror \<Rightarrow> goerror) \<Rightarrow> runtime_error option \<Rightarrow> stop option" where
  "runtimeStop f err = map_option (\<lambda>e. if noReturn e then StopPanic else StopErr (f (RuntimeErr e))) err"

definition syncStep :: "'w reconciler \<Rightarrow> (goerror \<Rightarrow> goerror) \<Rightarrow> 'w igr \<Rightarrow> 'w igr \<times> stop option" where
  "syncStep G f s =
     (case Synchronize (igFloat G) (igCel G) (igRuntime s) of
        (r, _, err) \<Rightarrow> (s\<lparr>igRuntime := r\<rparr>, runtimeStop f err))"

definition reconcileStep :: "'w reconciler \<Rightarrow> string \<Rightarrow> 'w igr \<Rightarrow> 'w igr \<times> stop option" where
  "reconcileStep G ident s =
     (case reconcileResource G ident s of
        (s1, Some e) \<Rightarrow> (s1, Some e)
      | (s1, None) \<Rightarrow> syncStep G (ErrorfWrap (''failed to synchronize reconciling resource '' @ ident)) s1)"

definition reconcileInstance :: "'w reconciler \<Rightarrow> 'w igr \<Rightarrow> 'w igr \<times> stop option" where
  "reconcileInstance G s =
     (case setupInstance G s of
        (s1, Some StopPanic) \<Rightarrow> (s1, Some StopPanic)
      | (s1, Some (StopErr err)) \<Rightarrow> (s1, Some (StopErr (ErrorfWrap ''failed to setup instance'' err)))
      | (s1, None) \<Rightarrow>
          (let order = topologicalOrder (igRuntime s1);
               s2 = fold (\<lambda>ident. setRState ident ''PENDING'' None) order s1 in
           loopE (reconcileStep G) order s2))"

section \<open>Deletion\<close>

definition initializeStep :: "'w reconciler \<Rightarrow> string \<Rightarrow> 'w igr \<Rightarrow> 'w igr \<times> stop option" where
  "initializeStep G ident s =
     (case syncStep G (ErrorfWrap ''failed to synchronize during deletion state initialization'') s of
        (s1, Some e) \<Rightarrow> (s1, Some e)
      | (s1, None) \<Rightarrow>
          (case GetResource (igRuntime s1) ident of
             None \<Rightarrow> (s1, Some StopPanic)
           | Some (res, st) \<Rightarrow>
               (if st \<noteq> ResourceStateResolved then (setRState ident ''SKIPPED'' None s1, None)
                else case getResourceClient G (igRuntime s1) ident of
                       None \<Rightarrow> (s1, Some StopPanic)
                     | Some rc \<Rightarrow>
                         (case clientGet (igClient G) (fst rc) (snd rc) (GetName (uObject (igLib G)) (the res)) (igWorld s1) of
                            (Inl err, w) \<Rightarrow>
                              (if IsNotFound err then (setRState ident ''DELETED'' None (s1\<lparr>igWorld := w\<rparr>), None)
                               else (s1\<lparr>igWorld := w\<rparr>,
                                     Some (StopErr (ErrorfWrap (''failed to check resource '' @ ident @ '' existence'') err))))
                          | (Inr observed, w) \<Rightarrow>
                              (setRState ident ''PENDING_DELETION'' None
                                 (s1\<lparr>igWorld := w, igRuntime := SetResource ident observed (igRuntime s1)\<rparr>), None)))))"

definition initializeDeletionState :: "'w reconciler \<Rightarrow> 'w igr \<Rightarrow> 'w igr \<times> stop option" where
  "initializeDeletionState G s = loopE (initializeStep G) (topologicalOrder (igRuntime s)) s"

definition deleteResource :: "'w reconciler \<Rightarrow> string \<Rightarrow> 'w igr \<Rightarrow> 'w igr \<times> stop option" where
  "deleteResource G ident s =
     (case GetResource (igRuntime s) ident of
        Some (Some res, _) \<Rightarrow>
          (case getResourceClient G (igRuntime s) ident of
             None \<Rightarrow> (s, Some StopPanic)
           | Some rc \<Rightarrow>
               (case clientDelete (igClient G) (fst rc) (snd rc) (GetName (uObject (igLib G)) res) (igWorld s) of
                  (Some err, w) \<Rightarrow>
                    (if IsNotFound err then (setRState ident ''DELETED'' None (s\<lparr>igWorld := w\<rparr>), None)
                     else let e = ErrorfWrap ''failed to delete resource'' err in
                          (setRState ident ''ERROR'' (Some e) (s\<lparr>igWorld := w\<rparr>), Some (StopErr e)))
                | (None, w) \<Rightarrow>
                    (setRState ident ''DELETING'' None (s\<lparr>igWorld := w\<rparr>),
                     Some (StopErr (delayedRequeue G (Errorf ''resource deletion in progress''))))))
      | _ \<Rightarrow> (s, Some StopPanic))"

definition deleteStep :: "'w reconciler \<Rightarrow> string \<Rightarrow> 'w igr \<Rightarrow> 'w igr \<times> stop option" where
  "deleteStep G ident s =
     (case map_of (isResourceStates (igState s)) ident of
        None \<Rightarrow> (s, None)
      | Some rs \<Rightarrow> (if rsState rs \<noteq> ''PENDING_DELETION'' then (s, None) else deleteResource G ident s))"

definition deleteResourcesInOrder :: "'w reconciler \<Rightarrow> 'w igr \<Rightarrow> 'w igr \<times> stop option" where
  "deleteResourcesInOrder G s = loopE (deleteStep G) (rev (topologicalOrder (igRuntime s))) s"

definition gone :: "RState \<Rightarrow> bool" where
  "gone rs \<longleftrightarrow> rsState rs = ''DELETED'' \<or> rsState rs = ''SKIPPED''"

definition finalizeDeletion :: "'w reconciler \<Rightarrow> 'w igr \<Rightarrow> 'w igr \<times> stop option" where
  "finalizeDeletion G s =
     (if list_ex (\<lambda>x. \<not> gone (snd x)) (isResourceStates (igState s))
      then (s, Some (StopErr (delayedRequeue G (Errorf ''waiting for resource deletion completion''))))
      else case setUnmanaged G (GetInstance (igRuntime s)) (igWorld s) of
             (Inl err, w) \<Rightarrow> (s\<lparr>igWorld := w\<rparr>, Some (StopErr (ErrorfWrap ''failed to remove instance finalizer'' err)))
           | (Inr patched, w) \<Rightarrow> (s\<lparr>igWorld := w, igRuntime := SetInstance patched (igRuntime s)\<rparr>, None))"

definition handleInstanceDeletion :: "'w reconciler \<Rightarrow> 'w igr \<Rightarrow> 'w igr \<times> stop option" where
  "handleInstanceDeletion G s =
     (case initializeDeletionState G s of
        (s1, Some StopPanic) \<Rightarrow> (s1, Some StopPanic)
      | (s1, Some (StopErr err)) \<Rightarrow> (s1, Some (StopErr (ErrorfWrap ''failed to initialize deletion state'' err)))
      | (s1, None) \<Rightarrow>
          (case deleteResourcesInOrder G s1 of
             (s2, Some e) \<Rightarrow> (s2, Some e)
           | (s2, None) \<Rightarrow> finalizeDeletion G s2))"

section \<open>Status\<close>

definition createCondition :: "string \<Rightarrow> string \<Rightarrow> string \<Rightarrow> string \<Rightarrow> string \<Rightarrow> 64 word \<Rightarrow> val" where
  "createCondition now conditionType status reason message generation =
     VMap [(''type'', VStr conditionType), (''status'', VStr status), (''reason'', VStr reason), (''message'', VStr message),
           (''lastTransitionTime'', VStr now), (''observedGeneration'', VInt generation)]"

definition prepareConditions :: "'w reconciler \<Rightarrow> goerror option \<Rightarrow> 64 word \<Rightarrow> val list" where
  "prepareConditions G err generation =
     (case err of
        Some e \<Rightarrow> [createCondition (igNow G) ''InstanceSynced'' ''False'' ''ReconciliationFailed'' (errorText (igText G) e) generation]
      | None \<Rightarrow> [createCondition (igNow G) ''InstanceSynced'' ''True'' ''ReconciliationSucceeded''
                   ''Instance reconciled successfully'' generation])"

definition getResolvedStatus :: "rt \<Rightarrow> val gomap" where
  "getResolvedStatus r =
     (case map_of (GetInstance r) ''status'' of
        Some (VMap existing) \<Rightarrow>
          fold (\<lambda>(k, v) status. if k \<noteq> ''conditions'' then AList.update k v status else status) existing
            [(''conditions'', VList [])]
      | _ \<Rightarrow> [(''conditions'', VList [])])"

definition prepareStatus :: "'w reconciler \<Rightarrow> 'w igr \<Rightarrow> val gomap" where
  "prepareStatus G s =
     AList.update ''conditions''
       (VList (prepareConditions G (isReconcileErr (igState s)) (uGeneration (igLib G) (GetInstance (igRuntime s)))))
       (AList.update ''state'' (VStr (isState (igState s))) (getResolvedStatus (igRuntime s)))"

definition patchInstanceStatus :: "'w reconciler \<Rightarrow> val gomap \<Rightarrow> 'w igr \<Rightarrow> (goerror + val gomap) \<times> 'w" where
  "patchInstanceStatus G status s =
     (let inst = AList.update ''status'' (VMap status) (GetInstance (igRuntime s)) in
      case clientUpdateStatus (igClient G) (igGvr G) (Some (GetNamespace (uObject (igLib G)) inst)) inst (igWorld s) of
        (Inl err, w) \<Rightarrow> (Inl (ErrorfWrap ''failed to update instance status'' err), w)
      | (Inr x, w) \<Rightarrow> (Inr x, w))"

definition updateInstanceState :: "InstanceState \<Rightarrow> InstanceState" where
  "updateInstanceState st =
     (case isReconcileErr st of
        Some e \<Rightarrow> (if isRequeue e then st else st\<lparr>isState := ''ERROR''\<rparr>)
      | None \<Rightarrow> (if isState st \<noteq> ''DELETING'' then st\<lparr>isState := ''ACTIVE''\<rparr> else st))"

section \<open>The reconciliation\<close>

definition handleReconciliation ::
  "'w reconciler \<Rightarrow> ('w igr \<Rightarrow> 'w igr \<times> stop option) \<Rightarrow> 'w igr \<Rightarrow> 'w igr \<times> stop option" where
  "handleReconciliation G reconcileFunc s =
     (case reconcileFunc s of
        (s1, Some StopPanic) \<Rightarrow> (s1, Some StopPanic)
      | (s1, r) \<Rightarrow>
          (let err = (case r of Some (StopErr e) \<Rightarrow> Some e | _ \<Rightarrow> None);
               s2 = s1\<lparr>igState := updateInstanceState ((igState s1)\<lparr>isReconcileErr := err\<rparr>)\<rparr>;
               (_, w) = patchInstanceStatus G (prepareStatus G s2) s2 in
           (s2\<lparr>igWorld := w\<rparr>, r)))"

definition reconcile :: "'w reconciler \<Rightarrow> 'w igr \<Rightarrow> 'w igr \<times> stop option" where
  "reconcile G s =
     (let s1 = s\<lparr>igState := newInstanceState\<rparr> in
      if uDeleting (igLib G) (GetInstance (igRuntime s1))
      then handleReconciliation G (handleInstanceDeletion G) (s1\<lparr>igState := (igState s1)\<lparr>isState := ''DELETING''\<rparr>\<rparr>)
      else handleReconciliation G (reconcileInstance G) s1)"

section \<open>The controller\<close>

record 'w Controller =
  ctlGvr :: GroupVersionResource
  ctlDynamic :: "'w dynClient"
  ctlImpersonate :: "string \<Rightarrow> string + 'w dynClient"
  ctlGraph :: Graph
  ctlInstanceLabeler :: labeler
  ctlRequeueDuration :: "64 word"
  ctlServiceAccounts :: "string gomap"

definition getNamespaceName :: "string \<Rightarrow> string \<times> string" where
  "getNamespaceName req =
     (let parts = splitOn (CHR ''/'') req; namespace = hd parts in
      (if namespace = [] then ''default'' else namespace, last parts))"

definition getServiceAccountUserName :: "string \<Rightarrow> string \<Rightarrow> string + string" where
  "getServiceAccountUserName namespace serviceAccount =
     (if namespace = [] \<or> serviceAccount = [] then Inl ''namespace and service account must be provided''
      else Inr (''system:serviceaccount:'' @ namespace @ '':'' @ serviceAccount))"

definition impersonated :: "'w Controller \<Rightarrow> string \<Rightarrow> string \<Rightarrow> string \<Rightarrow> string \<Rightarrow> goerror + 'w dynClient" where
  "impersonated c invalid failed namespace sa =
     (case getServiceAccountUserName namespace sa of
        Inl err \<Rightarrow> Inl (ErrorfWrap invalid (Errorf err))
      | Inr userName \<Rightarrow>
          (case ctlImpersonate c userName of
             Inl err \<Rightarrow> Inl (ErrorfWrap failed (Errorf err))
           | Inr pivoted \<Rightarrow> Inr pivoted))"

definition getExecutionClient :: "'w Controller \<Rightarrow> string \<Rightarrow> goerror + 'w dynClient" where
  "getExecutionClient c namespace =
     (if ctlServiceAccounts c = [] then Inr (ctlDynamic c)
      else case map_of (ctlServiceAccounts c) namespace of
             Some sa \<Rightarrow>
               impersonated c ''invalid service account configuration'' ''failed to create impersonated client'' namespace sa
           | None \<Rightarrow>
               (case map_of (ctlServiceAccounts c) ''*'' of
                  Some defaultSA \<Rightarrow>
                    impersonated c ''invalid default service account configuration''
                      ''failed to create impersonated client with default SA'' namespace defaultSA
                | None \<Rightarrow> Inr (ctlDynamic c)))"

definition Reconcile ::
  "(64 word \<Rightarrow> string) \<Rightarrow> (runtime_error \<Rightarrow> string) \<Rightarrow> cel \<Rightarrow> unstructuredLib \<Rightarrow> string \<Rightarrow> 'w Controller \<Rightarrow> string \<Rightarrow> 'w \<Rightarrow>
   'w \<times> stop option" where
  "Reconcile ff tx C L now c req w =
     (case getNamespaceName req of (namespace, name) \<Rightarrow>
        case clientGet (ctlDynamic c) (ctlGvr c) (Some namespace) name w of
          (Inl err, w1) \<Rightarrow> (w1, None)
        | (Inr inst, w1) \<Rightarrow>
            (case NewGraphRuntime ff C (ctlGraph c) inst of
               Inl err \<Rightarrow> (w1, runtimeStop (ErrorfWrap ''failed to create runtime resource group'') (Some err))
             | Inr rgRuntime \<Rightarrow>
                 (case Merge (NewInstanceLabeler (uObject L) inst) (ctlInstanceLabeler c) of
                    Inl err \<Rightarrow> (w1, Some (StopErr (ErrorfWrap ''failed to create instance sub-resources labeler'' (Errorf err))))
                  | Inr subLabeler \<Rightarrow>
                      (case getExecutionClient c namespace of
                         Inl err \<Rightarrow> (w1, Some (StopErr (ErrorfWrap ''failed to create execution client'' err)))
                       | Inr executionClient \<Rightarrow>
                           (let (s, r) = reconcile
                              \<lparr>igFloat = ff, igText = tx, igCel = C, igLib = L, igNow = now, igGvr = ctlGvr c,
                               igClient = executionClient, igInstanceLabeler = ctlInstanceLabeler c,
                               igSubResourcesLabeler = subLabeler, igRequeueDuration = ctlRequeueDuration c\<rparr>
                              \<lparr>igRuntime = rgRuntime, igState = newInstanceState, igWorld = w1\<rparr> in
                            (igWorld s, r))))))"

end
