(* ===== verification/Runtime_Interface.thy ===== *)
theory Runtime_Interface
  imports Runtime
begin

text \<open>
  The interface of the runtime that the instance controller is written against
  (\<open>internal/runtime/interfaces.go\<close>). Its calls change objects, expression states and the set of ignored
  resources; the order, the descriptors and the dependencies of the resources are those of the
  graph throughout. The locale states this contract and what a caller that walks the order may
  conclude from it; it is interpreted on the model of \<open>ResourceGroupRuntime\<close>.
\<close>

section \<open>What every call keeps\<close>

text \<open>The graph is fixed; the objects of the resources change and ignored resources stay ignored.\<close>

definition bareResources :: "rt \<Rightarrow> Resource gomap" where
  "bareResources r = map (\<lambda>x. (fst x, (snd x)\<lparr>originalObject := []\<rparr>)) (rtResources r)"

definition steady :: "rt \<Rightarrow> rt \<Rightarrow> bool" where
  "steady r r' \<longleftrightarrow> topologicalOrder r' = topologicalOrder r \<and> bareResources r' = bareResources r \<and>
     set (ignoredByConditionsResources r) \<subseteq> set (ignoredByConditionsResources r')"

lemma steady_refl [simp]: "steady r r"
  by (simp add: steady_def)

lemma steady_trans: "steady r s \<Longrightarrow> steady s t \<Longrightarrow> steady r t"
  by (auto simp: steady_def)

lemma bareResources_map_of: "map_of (bareResources r) i = map_option (\<lambda>res. res\<lparr>originalObject := []\<rparr>) (map_of (rtResources r) i)"
proof -
  have "map_of (map (\<lambda>x. (fst x, (snd x)\<lparr>originalObject := []\<rparr>)) xs) i =
      map_option (\<lambda>res. res\<lparr>originalObject := []\<rparr>) (map_of xs i)" for xs :: "Resource gomap"
    by (induction xs) auto
  then show ?thesis by (simp add: bareResources_def)
qed

lemma steady_dependencies:
  assumes "steady r r'"
  shows "(\<lambda>i. map_option resDependencies (map_of (rtResources r') i)) = (\<lambda>i. map_option resDependencies (map_of (rtResources r) i))"
proof -
  have deps: "map_option resDependencies (map_of (rtResources s) i) = map_option resDependencies (map_of (bareResources s) i)" for s i
    by (simp add: bareResources_map_of option.map_comp comp_def)
  show ?thesis using assms unfolding deps by (simp add: steady_def)
qed

lemma bare_update:
  "map_of xs i = Some res \<Longrightarrow>
   map (\<lambda>x. (fst x, (snd x)\<lparr>originalObject := []\<rparr>)) (AList.update i (res\<lparr>originalObject := obj\<rparr>) xs) =
   map (\<lambda>x. (fst x, (snd x)\<lparr>originalObject := []\<rparr>)) xs"
  by (induction xs) auto

lemma steady_setObject: "map_of (rtResources r) i = Some res \<Longrightarrow> steady r (setObject i obj r)"
  by (simp add: steady_def setObject_def bareResources_def bare_update)

lemma steady_resolveState [simp]: "steady r (resolveState a v r)"
  by (simp add: steady_def resolveState_def bareResources_def)

lemma steady_sets [simp]:
  "steady r (SetResource i obj r)" "steady r (SetInstance obj r)" "steady r (IgnoreResource i r)"
  by (auto simp: steady_def SetResource_def SetInstance_def IgnoreResource_def bareResources_def)

interpretation steadily: frame steady
  by unfold_locales (auto intro: steady_trans)

lemma steady_dynamic: "evaluateDynamicVariables C r = (r', e) \<Longrightarrow> steady r r'"
  unfolding evaluateDynamicVariables_def
  by (auto split: sum.splits elim!: steadily.loop_kept)
    (auto simp: dynamicStep_def Let_def split: if_splits option.splits sum.splits)

lemma steady_propagate: "propagateResourceVariables ff r = (r', e) \<Longrightarrow> steady r r'"
  unfolding propagateResourceVariables_def
  by (erule steadily.loop_kept)
    (auto simp: propagateStep_def evaluateResourceExpressions_def steady_setObject split: option.splits bool.splits prod.splits if_splits)

lemma steady_instance: "evaluateInstanceStatuses r = (r', e) \<Longrightarrow> steady r r'"
  unfolding evaluateInstanceStatuses_def
  by (erule steadily.loop_kept)
    (auto simp: instanceStep_def steady_def bareResources_def split: list.splits option.splits if_splits prod.splits)

lemma steady_Synchronize:
  assumes "Synchronize ff C r = (r', again, err)"
  shows "steady r r'"
proof -
  obtain r1 e1 where r1: "evaluateDynamicVariables C r = (r1, e1)" by fastforce
  obtain r2 e2 where r2: "propagateResourceVariables ff r1 = (r2, e2)" by fastforce
  obtain r3 e3 where r3: "evaluateInstanceStatuses r2 = (r3, e3)" by fastforce
  have s: "steady r r1" "steady r r2" "steady r r3"
    using steady_dynamic [OF r1] steady_propagate [OF r2] steady_instance [OF r3] steady_trans by blast+
  then show ?thesis
    using assms r1 r2 r3 by (auto simp: Synchronize_def split: if_splits option.splits)
qed

text \<open>The order lists the dependencies of a resource before the resource.\<close>

definition dependenciesFirst :: "rt \<Rightarrow> bool" where
  "dependenciesFirst r \<longleftrightarrow>
     (\<forall>ys i zs res. topologicalOrder r = ys @ i # zs \<longrightarrow> map_of (rtResources r) i = Some res \<longrightarrow>
        set (resDependencies res) \<subseteq> set ys)"

section \<open>The contract\<close>

text \<open>
  The calls of \<open>runtime.Interface\<close> that change the runtime, and what a caller that holds the order, the
  descriptor of a resource or the answer that a resource is ignored may go on to rely on.
\<close>

locale runtime_interface = frame kept for kept :: "'r \<Rightarrow> 'r \<Rightarrow> bool" +
  fixes order :: "'r \<Rightarrow> string list"
    and dependencies :: "'r \<Rightarrow> string \<Rightarrow> string list option"
    and ignored :: "'r \<Rightarrow> string set"
    and setResource :: "string \<Rightarrow> 'o \<Rightarrow> 'r \<Rightarrow> 'r"
    and setInstance :: "'o \<Rightarrow> 'r \<Rightarrow> 'r"
    and ignoreResource :: "string \<Rightarrow> 'r \<Rightarrow> 'r"
    and synchronize :: "'r \<Rightarrow> 'r \<times> 'e"
  assumes order_kept: "kept r r' \<Longrightarrow> order r' = order r"
    and dependencies_kept: "kept r r' \<Longrightarrow> dependencies r' = dependencies r"
    and ignored_kept: "kept r r' \<Longrightarrow> ignored r \<subseteq> ignored r'"
    and ignores: "i \<in> ignored (ignoreResource i r)"
    and setResource_kept: "kept r (setResource i obj r)"
    and setInstance_kept: "kept r (setInstance obj r)"
    and ignoreResource_kept: "kept r (ignoreResource i r)"
    and synchronize_kept: "synchronize r = (r', e) \<Longrightarrow> kept r r'"
begin

lemma stays_ignored: "kept (ignoreResource i r) r' \<Longrightarrow> i \<in> ignored r'"
  using ignores ignored_kept by blast

lemma dependencies_stay_first:
  assumes "\<And>ys i zs ds. order r = ys @ i # zs \<Longrightarrow> dependencies r i = Some ds \<Longrightarrow> set ds \<subseteq> set ys"
    and "kept r r'" and "order r' = ys @ i # zs" and "dependencies r' i = Some ds"
  shows "set ds \<subseteq> set ys"
  using assms order_kept dependencies_kept by metis

end

interpretation api: runtime_interface steady topologicalOrder "\<lambda>r i. map_option resDependencies (map_of (rtResources r) i)"
    "\<lambda>r. set (ignoredByConditionsResources r)" SetResource SetInstance IgnoreResource "Synchronize ff C" for ff C
proof (unfold_locales, goal_cases)
  case 2
  then show ?case by (rule steady_dependencies)
next
  case (8 r r' e)
  then show ?case by (cases e) (auto intro: steady_Synchronize)
qed (simp_all, simp_all add: steady_def IgnoreResource_def)

lemma steady_resource:
  assumes "steady r r'" and "map_of (rtResources r) i = Some res"
  shows "\<exists>res'. map_of (rtResources r') i = Some res' \<and> resDependencies res' = resDependencies res"
  using fun_cong [OF api.dependencies_kept [OF assms(1)], of i] assms(2) by auto

lemma dependenciesFirst_kept:
  assumes "dependenciesFirst r" and "steady r r'"
  shows "dependenciesFirst r'"
  unfolding dependenciesFirst_def
proof (intro allI impI)
  fix ys i zs res
  assume "topologicalOrder r' = ys @ i # zs" and "map_of (rtResources r') i = Some res"
  moreover have "set ds \<subseteq> set ys" if "topologicalOrder r = ys @ i # zs" "map_option resDependencies (map_of (rtResources r) i) = Some ds"
    for ys i zs ds using assms(1) that by (auto simp: dependenciesFirst_def)
  ultimately show "set (resDependencies res) \<subseteq> set ys" using api.dependencies_stay_first [OF _ assms(2)] by simp
qed

end
