(* ===== verification/Runtime_Progress.thy ===== *)
theory Runtime_Progress
  imports Runtime_Interface
begin

text \<open>
  The runtime offers a resource that is wanted when its turn in the topological order comes, provided that
  equal expressions stand for equal dependencies; a runtime that is made from a graph in which they
  do starts in this way.
\<close>

section \<open>A wanted resource is offered\<close>

text \<open>
  The dynamic expressions of a resource refer to what the resource depends on. The builder
  makes the dependencies of a resource from its expressions, but the runtime keeps one state for equal
  expressions, with the dependencies of the field that came first.
\<close>

definition ownDependencies :: "rt \<Rightarrow> bool" where
  "ownDependencies r \<longleftrightarrow> (\<forall>i res. map_of (rtResources r) i = Some res \<longrightarrow>
     (\<forall>a \<in> set (variablesOf r i). IsDynamic (eesKind (rtStore r ! a)) \<longrightarrow>
        set (eesDependencies (rtStore r ! a)) \<subseteq> insert ''schema'' (set (resDependencies res))))"

text \<open>Every dynamic expression whose dependencies are known has its value.\<close>

definition upToDate :: "rt \<Rightarrow> bool" where
  "upToDate r \<longleftrightarrow> (\<forall>a \<in> snd ` set (expressionsCache r).
     IsDynamic (eesKind (rtStore r ! a)) \<longrightarrow> available r a \<longrightarrow> eesResolved (rtStore r ! a))"

definition soundRuntime :: "rt \<Rightarrow> bool" where
  "soundRuntime r \<longleftrightarrow> rt_inv r \<and> coherent r \<and> ownDependencies r \<and> dependenciesFirst r \<and>
     distinct (topologicalOrder r) \<and> set (topologicalOrder r) \<subseteq> dom (map_of (rtResources r))"

definition known :: "rt \<Rightarrow> string set" where
  "known r = fst ` set (resolvedResources r)"

text \<open>The resources that were passed: ignored, or known together with all they depend on.\<close>

definition passed :: "rt \<Rightarrow> string set \<Rightarrow> bool" where
  "passed r I \<longleftrightarrow> (\<forall>j \<in> I. j \<in> set (ignoredByConditionsResources r) \<or>
     j \<in> known r \<and> (\<forall>res. map_of (rtResources r) j = Some res \<longrightarrow> set (resDependencies res) \<subseteq> known r))"

lemma known_iff: "j \<in> known r \<longleftrightarrow> map_of (resolvedResources r) j \<noteq> None"
  by (simp add: known_def map_of_eq_None_iff)

lemma known_available:
  assumes "soundRuntime r" and "map_of (rtResources r) j = Some res" and "set (resDependencies res) \<subseteq> known r"
    and "a \<in> set (variablesOf r j)" and "IsDynamic (eesKind (rtStore r ! a))"
  shows "available r a"
proof -
  have "set (eesDependencies (rtStore r ! a)) \<subseteq> insert ''schema'' (known r)"
    using assms unfolding soundRuntime_def ownDependencies_def by blast
  then show ?thesis by (auto simp: available_def dynamicEnv_def known_def list_all_iff)
qed

lemma known_resolved:
  assumes "soundRuntime r" and "upToDate r" and "map_of (rtResources r) j = Some res" and "set (resDependencies res) \<subseteq> known r"
  shows "resourceVariablesResolved r j"
  using assms known_available [OF assms(1,3,4)] unfolding resourceVariablesResolved_iff upToDate_def soundRuntime_def coherent_def by blast

lemma want_not_ignored:
  assumes "WantToCreateResource C r i = (True, None)" and "map_of (rtResources r) i = Some res" and "d \<in> set (resDependencies res)"
  shows "d \<notin> set (ignoredByConditionsResources r)"
  using assms by (auto simp: WantToCreateResource_def areDependenciesIgnored_def list_ex_iff split: if_splits)

lemma wanted_dependencies:
  assumes "soundRuntime r" and "topologicalOrder r = ys @ i # zs" and "passed r (set ys)"
    and "WantToCreateResource C r i = (True, None)" and "map_of (rtResources r) i = Some res" and "d \<in> set (resDependencies res)"
  shows "d \<in> known r" "\<And>e. map_of (rtResources r) d = Some e \<Longrightarrow> set (resDependencies e) \<subseteq> known r"
proof -
  have "d \<in> set ys" using assms(1,2,5,6) by (auto simp: soundRuntime_def dependenciesFirst_def)
  moreover have "d \<notin> set (ignoredByConditionsResources r)" using want_not_ignored [OF assms(4-6)] .
  ultimately show "d \<in> known r" "\<And>e. map_of (rtResources r) d = Some e \<Longrightarrow> set (resDependencies e) \<subseteq> known r"
    using assms(3) by (auto simp: passed_def)
qed

lemma wanted_in_graph: "WantToCreateResource C r i = (True, None) \<Longrightarrow> \<exists>res. map_of (rtResources r) i = Some res"
  by (auto simp: WantToCreateResource_def split: option.splits)

lemma wanted_offered:
  assumes "soundRuntime r" and "upToDate r" and "topologicalOrder r = ys @ i # zs" and "passed r (set ys)"
    and "WantToCreateResource C r i = (True, None)"
  shows "\<exists>obj. GetResource r i = Some (Some obj, ResourceStateResolved)"
proof -
  obtain res where res: "map_of (rtResources r) i = Some res" using wanted_in_graph [OF assms(5)] by blast
  note deps = wanted_dependencies [OF assms(1,3,4,5) res]
  have "resourceVariablesResolved r d" if "d \<in> set (resDependencies res)" for d
  proof -
    have "d \<in> set ys" using assms(1,3) res that by (auto simp: soundRuntime_def dependenciesFirst_def)
    then obtain e where "map_of (rtResources r) d = Some e" using assms(1,3) by (auto simp: soundRuntime_def)
    then show ?thesis using known_resolved [OF assms(1,2)] deps(2) [OF that] by blast
  qed
  moreover have "resourceVariablesResolved r i" using known_resolved [OF assms(1,2) res] deps(1) by blast
  ultimately have "canProcessResource r i = Some True" using res by (simp add: canProcessResource_def list_all_iff)
  then show ?thesis by (simp add: GetResource_def split: option.splits)
qed

text \<open>What the calls of a reconciliation keep of the runtime: the graph and the expressions; resources become known.\<close>

definition evolves :: "rt \<Rightarrow> rt \<Rightarrow> bool" where
  "evolves r r' \<longleftrightarrow> steady r r' \<and> same_shape r (r'\<lparr>resolvedResources := resolvedResources r\<rparr>) \<and> known r \<subseteq> known r'"

lemma evolves_trans: "evolves r s \<Longrightarrow> evolves s t \<Longrightarrow> evolves r t"
  using steady_trans by (auto simp: evolves_def same_shape_def)

interpretation evolving: frame evolves
proof unfold_locales
  show "evolves r r" for r by (simp add: evolves_def same_shape_def)
qed (rule evolves_trans)

lemma evolves_sets [simp]:
  "evolves r (SetResource i obj r)" "evolves r (SetInstance obj r)" "evolves r (IgnoreResource i r)"
  by (auto simp: evolves_def same_shape_def known_iff)
    (auto simp: SetResource_def SetInstance_def IgnoreResource_def gomap_simps split: if_splits)

lemma evolves_Synchronize:
  assumes "rt_inv r" and "Synchronize ff C r = (r', again, err)"
  shows "evolves r r'"
  using assms(2)
proof (cases rule: Synchronize_cases)
  case 1
  then show ?thesis by (simp add: evolving.kept_refl)
next
  case (2 r1 e)
  have "statesRound C r r'" using statesRound_same [OF evaluateDynamic_round [OF assms(1) 2(1)] 2(2)] .
  then have "same_shape r r'" by (simp add: statesRound_def)
  then show ?thesis using steady_Synchronize [OF assms(2)] by (simp add: evolves_def same_shape_def known_def)
qed

lemma Synchronize_upToDate:
  assumes "rt_inv r" and "Synchronize ff C r = (r', again, None)"
  shows "upToDate r'"
  using assms(2)
proof (cases rule: Synchronize_cases)
  case 1
  then have "allExpressionsAreResolved r" using assms(2) by (auto simp: Synchronize_def split: if_splits prod.splits option.splits)
  then show ?thesis using 1(1) by (simp add: upToDate_def allExpressionsAreResolved_def list_all_iff)
next
  case (2 r1 e)
  have e: "evaluateDynamicVariables C r = (r1, None)" using 2(1,3) by simp
  have shape: "same_shape r r1" using evaluateDynamic_round [OF assms(1) e] by (simp add: dynamicRound_def)
  show ?thesis
    unfolding upToDate_def
  proof (intro ballI impI)
    fix a
    assume a: "a \<in> snd ` set (expressionsCache r')" "IsDynamic (eesKind (rtStore r' ! a))" "available r' a"
    have c: "a \<in> snd ` set (expressionsCache r)" using a(1) shape 2(2) by (simp add: same_shape_def sameStates_def)
    then have "a < length (rtStore r)" using rt_inv_cache [OF assms(1)] by auto
    then have "IsDynamic (eesKind (rtStore r ! a))" "available r a"
      using a(2,3) shape 2(2) by (simp_all add: same_shape_def sameStates_def available_def dynamicEnv_def)
    then show "eesResolved (rtStore r' ! a)" using evaluateDynamic_resolves [OF assms(1) e c] 2(2) by (simp add: sameStates_def)
  qed
qed

lemma steady_resource_back:
  "steady r r' \<Longrightarrow> map_of (rtResources r') i = Some res' \<Longrightarrow>
   \<exists>res. map_of (rtResources r) i = Some res \<and> resDependencies res = resDependencies res'"
  using fun_cong [OF steady_dependencies, of r r' i] by (simp add: map_option_eq_Some [symmetric])

lemma graph_kept: "steady r r' \<Longrightarrow> dom (map_of (rtResources r')) = dom (map_of (rtResources r))"
  using steady_resource steady_resource_back unfolding dom_def by blast

lemma soundRuntime_kept:
  assumes "soundRuntime r" and "evolves r r'"
  shows "soundRuntime r'"
proof -
  have st: "steady r r'" and shape: "same_shape r (r'\<lparr>resolvedResources := resolvedResources r\<rparr>)" using assms(2) by (simp_all add: evolves_def)
  have "rt_inv r'" using same_shape_inv [OF shape] assms(1) by (simp add: soundRuntime_def rt_inv_def)
  moreover have vars: "variablesOf r' = variablesOf r" "expressionsCache r' = expressionsCache r"
    using same_shape_variablesOf [OF shape] shape by (simp_all add: same_shape_def variablesOf_def fun_eq_iff)
  moreover have "ownDependencies r'"
    unfolding ownDependencies_def
  proof (intro allI ballI impI)
    fix i res' a
    assume i: "map_of (rtResources r') i = Some res'" and a: "a \<in> set (variablesOf r' i)" "IsDynamic (eesKind (rtStore r' ! a))"
    obtain res where res: "map_of (rtResources r) i = Some res" "resDependencies res = resDependencies res'"
      using steady_resource_back [OF st i] by blast
    have "a < length (rtStore r)" using rt_inv_variables a(1) assms(1) vars(1) by (simp add: soundRuntime_def)
    then have "eesKind (rtStore r' ! a) = eesKind (rtStore r ! a)"
      "eesDependencies (rtStore r' ! a) = eesDependencies (rtStore r ! a)" using shape by (simp_all add: same_shape_def)
    then show "set (eesDependencies (rtStore r' ! a)) \<subseteq> insert ''schema'' (set (resDependencies res'))"
      using assms(1) a res vars(1) unfolding soundRuntime_def ownDependencies_def by metis
  qed
  ultimately show ?thesis
    using assms(1) dependenciesFirst_kept [OF _ st] graph_kept [OF st] api.order_kept [OF st]
    by (simp add: soundRuntime_def coherent_def)
qed

lemma passed_kept:
  assumes "passed r I" and "evolves r r'"
  shows "passed r' I"
proof -
  have st: "steady r r'" "known r \<subseteq> known r'" using assms(2) by (simp_all add: evolves_def)
  show ?thesis
    using assms(1) st(2) api.ignored_kept [OF st(1)] steady_resource_back [OF st(1)] unfolding passed_def by (metis subset_eq)
qed

section \<open>A new runtime\<close>

text \<open>
  A graph in which equal expressions of fields stand for equal dependencies, and no readiness condition is
  an expression of a field; what the builder makes of the fields of a resource.
\<close>

definition allFields :: "Resource \<Rightarrow> Resource gomap \<Rightarrow> ResourceField set" where
  "allFields inst resources = set (resVariables inst) \<union> (\<Union>x \<in> set resources. set (resVariables (snd x)))"

definition unambiguous :: "Resource \<Rightarrow> Resource gomap \<Rightarrow> bool" where
  "unambiguous inst resources \<longleftrightarrow>
     (\<forall>v \<in> allFields inst resources. \<forall>w \<in> allFields inst resources.
        set (Expressions v) \<inter> set (Expressions w) \<noteq> {} \<longrightarrow> Dependencies v = Dependencies w \<and> Kind v = Kind w) \<and>
     (\<forall>x \<in> set resources. \<forall>v \<in> allFields inst resources. set (readyWhenExpressions (snd x)) \<inter> set (Expressions v) = {})"

text \<open>The states that stand for the field \<open>v\<close>.\<close>

definition stateFor :: "ResourceField \<Rightarrow> expressionEvaluationState \<Rightarrow> bool" where
  "stateFor v ees \<longleftrightarrow> eesExpression ees \<in> set (Expressions v) \<and> eesDependencies ees = Dependencies v \<and> eesKind ees = Kind v"

definition construction :: "ResourceField set \<Rightarrow> string set \<Rightarrow> (string \<Rightarrow> ResourceField set) \<Rightarrow> rt \<Rightarrow> bool" where
  "construction F E fs r \<longleftrightarrow> rt_inv r \<and> coherent r \<and>
     (\<forall>(e, a) \<in> set (expressionsCache r). e \<in> E \<and> eesKind (rtStore r ! a) = ResourceVariableKindReadyWhen \<or>
        (\<exists>v \<in> F. stateFor v (rtStore r ! a))) \<and>
     (\<forall>i. \<forall>a \<in> set (variablesOf r i). \<exists>v \<in> fs i. stateFor v (rtStore r ! a))"

lemma coherentD: "coherent r \<Longrightarrow> a \<in> set (variablesOf r i) \<Longrightarrow> \<exists>e. (e, a) \<in> set (expressionsCache r)"
  unfolding coherent_def by force

lemma construction_mono:
  "construction F E fs r \<Longrightarrow> (\<And>i. fs i \<subseteq> fs2 i) \<Longrightarrow> construction F E fs2 r"
  unfolding construction_def by blast

lemma construction_addVariable:
  assumes "construction F E fs r" and "(e, a) \<in> set (expressionsCache r)" and "v \<in> fs i" and "stateFor v (rtStore r ! a)"
  shows "construction F E fs (addVariable i a r)"
proof -
  have inv: "rt_inv r" "coherent r" using assms(1) by (simp_all add: construction_def)
  have a: "a < length (rtStore r)" using rt_inv_cache [OF inv(1) assms(2)] by simp
  have parts: "expressionsCache (addVariable i a r) = expressionsCache r" "rtStore (addVariable i a r) = rtStore r"
    by (simp_all add: addVariable_def)
  have "rt_inv (addVariable i a r)"
  proof (rule rt_invI)
    fix j as b
    assume "(j, as) \<in> set (runtimeVariables (addVariable i a r))" "b \<in> set as"
    then have "(j, as) \<in> set (runtimeVariables r) \<or> b = a \<or> b \<in> set (variablesOf r i)"
      using in_set_update by (fastforce simp: addVariable_def)
    then show "b < length (rtStore (addVariable i a r))"
      using a inv(1) rt_inv_variables [OF inv(1)] \<open>b \<in> set as\<close> unfolding parts by (auto simp: rt_inv_def)
  qed (use inv(1) rt_inv_cache rt_inv_distinct parts in auto)
  moreover have "coherent (addVariable i a r)" using inv(2) assms(2) by (force simp: coherent_def variablesOf_addVariable parts)
  ultimately show ?thesis using assms by (auto simp: construction_def parts variablesOf_addVariable)
qed

lemma construction_cacheState:
  assumes "construction F E fs r" and "\<And>i a. a \<in> set (variablesOf r i) \<Longrightarrow> eesExpression (rtStore r ! a) \<noteq> eesExpression ees"
    and "eesExpression ees \<in> E \<and> eesKind ees = ResourceVariableKindReadyWhen \<or> (\<exists>v \<in> F. stateFor v ees)"
  shows "construction F E fs (cacheState ees r)"
proof -
  let ?e = "eesExpression ees" and ?n = "length (rtStore r)" and ?r = "cacheState ees r"
  have inv: "rt_inv r" "coherent r" using assms(1) by (simp_all add: construction_def)
  have store: "rtStore ?r ! a = rtStore r ! a" if "a < ?n" for a using that by (simp add: cacheState_def nth_append)
  have new: "rtStore ?r ! ?n = ees" "length (rtStore ?r) = Suc ?n" by (simp_all add: cacheState_def)
  have cache: "(e, a) \<in> set (expressionsCache ?r) \<Longrightarrow> (e, a) \<in> set (expressionsCache r) \<or> (e = ?e \<and> a = ?n)" for e a
    using in_set_update by (fastforce simp: cacheState_def)
  have "rt_inv ?r"
  proof (rule rt_invI)
    show "a < length (rtStore ?r) \<and> eesExpression (rtStore ?r ! a) = e" if "(e, a) \<in> set (expressionsCache ?r)" for e a
      using cache [OF that] rt_inv_cache [OF inv(1)] store new by fastforce
    show "distinct (map fst (expressionsCache ?r))" using rt_inv_distinct [OF inv(1)] by (simp add: cacheState_def distinct_update)
    show "a < length (rtStore ?r)" if "(i, as) \<in> set (runtimeVariables ?r)" "a \<in> set as" for i as a
      using inv(1) that by (fastforce simp: rt_inv_def cacheState_def)
  qed
  moreover have "coherent ?r"
    unfolding coherent_def
  proof (intro allI ballI)
    fix i a
    assume "a \<in> set (variablesOf ?r i)"
    then have a: "a \<in> set (variablesOf r i)" by simp
    then obtain e where e: "(e, a) \<in> set (expressionsCache r)" using coherentD [OF inv(2)] by blast
    then have "e \<noteq> ?e" using assms(2) [OF a] rt_inv_cache [OF inv(1)] by blast
    then have "map_of (expressionsCache ?r) e = Some a"
      using e rt_inv_distinct [OF inv(1)] by (simp add: cacheState_def gomap_simps)
    then show "a \<in> snd ` set (expressionsCache ?r)" by (force dest: map_of_SomeD)
  qed
  moreover have "e \<in> E \<and> eesKind (rtStore ?r ! a) = ResourceVariableKindReadyWhen \<or> (\<exists>v \<in> F. stateFor v (rtStore ?r ! a))"
    if c: "(e, a) \<in> set (expressionsCache ?r)" for e a
  proof (cases "a = ?n")
    case True
    then show ?thesis using cache [OF c] rt_inv_cache [OF inv(1)] assms(3) new(1) by auto
  next
    case False
    then have "(e, a) \<in> set (expressionsCache r)" using cache [OF c] by simp
    then show ?thesis using assms(1) rt_inv_cache [OF inv(1)] store by (fastforce simp: construction_def)
  qed
  moreover have "\<exists>v \<in> fs i. stateFor v (rtStore ?r ! a)" if "a \<in> set (variablesOf ?r i)" for i a
    using assms(1) that store rt_inv_variables [OF inv(1)] by (auto simp: construction_def)
  ultimately show ?thesis unfolding construction_def by blast
qed

lemma construction_addExpression:
  assumes "unambiguous inst resources" and "construction (allFields inst resources) (\<Union>x \<in> set resources. set (readyWhenExpressions (snd x))) fs r"
    and "v \<in> allFields inst resources" and "v \<in> fs i" and "e \<in> set (Expressions v)"
  shows "construction (allFields inst resources) (\<Union>x \<in> set resources. set (readyWhenExpressions (snd x))) fs (addExpression i v e r)"
proof (cases "map_of (expressionsCache r) e")
  case None
  let ?ees = "newState e (Dependencies v) (Kind v)"
  have inv: "rt_inv r" "coherent r" using assms(2) by (simp_all add: construction_def)
  have "eesExpression (rtStore r ! a) \<noteq> eesExpression ?ees" if a: "a \<in> set (variablesOf r j)" for j a
  proof -
    obtain e' where e': "(e', a) \<in> set (expressionsCache r)" using coherentD [OF inv(2) a] by blast
    then have "e' \<noteq> e" using None by (force simp: map_of_eq_None_iff)
    then show ?thesis using rt_inv_cache [OF inv(1) e'] by (simp add: newState_def)
  qed
  then have "construction (allFields inst resources) (\<Union>x \<in> set resources. set (readyWhenExpressions (snd x))) fs (cacheState ?ees r)"
    using assms(2,3,5) by (intro construction_cacheState) (auto simp: stateFor_def newState_def)
  moreover have "map_of (expressionsCache (cacheState ?ees r)) e = Some (length (rtStore r))"
    by (simp add: cacheState_def newState_def gomap_simps)
  ultimately show ?thesis
    unfolding addExpression_new [OF None] using assms(4,5) map_of_SomeD
    by (intro construction_addVariable) (fastforce simp: stateFor_def newState_def cacheState_def)+
next
  case (Some a)
  then have c: "(e, a) \<in> set (expressionsCache r)" by (rule map_of_SomeD)
  have "e \<notin> (\<Union>x \<in> set resources. set (readyWhenExpressions (snd x)))" using assms(1,3,5) unfolding unambiguous_def by blast
  then obtain w where w: "w \<in> allFields inst resources" "stateFor w (rtStore r ! a)"
    using assms(2) c by (auto simp: construction_def)
  have "eesExpression (rtStore r ! a) = e" using assms(2) rt_inv_cache c by (auto simp: construction_def)
  then have "Dependencies v = Dependencies w" "Kind v = Kind w"
    using assms(1,3,5) w by (fastforce simp: unambiguous_def stateFor_def)+
  then have "stateFor v (rtStore r ! a)" using w(2) assms(5) \<open>eesExpression (rtStore r ! a) = e\<close> by (simp add: stateFor_def)
  then show ?thesis using construction_addVariable [OF assms(2) c assms(4)] Some by (simp add: addExpression_def)
qed

text \<open>The construction as a whole.\<close>

definition fieldsOf :: "Resource \<Rightarrow> Resource gomap \<Rightarrow> string \<Rightarrow> ResourceField set" where
  "fieldsOf inst resources i = (if i = ''instance'' then set (resVariables inst) else {}) \<union>
     (\<Union>x \<in> {x \<in> set resources. fst x = i}. set (resVariables (snd x)))"

definition constructed :: "Resource \<Rightarrow> Resource gomap \<Rightarrow> rt \<Rightarrow> bool" where
  "constructed inst resources = construction (allFields inst resources)
     (\<Union>x \<in> set resources. set (readyWhenExpressions (snd x))) (fieldsOf inst resources)"

lemma constructed_variable:
  "constructed inst resources r \<Longrightarrow> a \<in> set (variablesOf r i) \<Longrightarrow> \<exists>v \<in> fieldsOf inst resources i. stateFor v (rtStore r ! a)"
  by (simp add: constructed_def construction_def)

lemma fold_keeps: "P s \<Longrightarrow> (\<And>x s. x \<in> set xs \<Longrightarrow> P s \<Longrightarrow> P (f x s)) \<Longrightarrow> P (fold f xs s)"
  by (induction xs arbitrary: s) auto

lemma constructed_addVariables:
  assumes "unambiguous inst resources" and "constructed inst resources r"
    and "set vs \<subseteq> fieldsOf inst resources i" and "set vs \<subseteq> allFields inst resources"
  shows "constructed inst resources (addVariables i vs r)"
  unfolding addVariables_def
proof (rule fold_keeps [where P = "constructed inst resources", OF assms(2)])
  fix v s
  assume v: "v \<in> set vs" and s: "constructed inst resources s"
  show "constructed inst resources (fold (addExpression i v) (Expressions v) s)"
  proof (rule fold_keeps [where P = "constructed inst resources", OF s])
    show "constructed inst resources (addExpression i v e t)" if "e \<in> set (Expressions v)" "constructed inst resources t" for e t
      using construction_addExpression [OF assms(1) that(2) [unfolded constructed_def]] assms(3,4) v that(1)
      unfolding constructed_def by blast
  qed
qed

lemma constructed_addReadyWhen:
  assumes "unambiguous inst resources" and "constructed inst resources r" and "x \<in> set resources" and "e \<in> set (readyWhenExpressions (snd x))"
  shows "constructed inst resources (addReadyWhen e r)"
  unfolding constructed_def addReadyWhen_def
proof (rule construction_cacheState [OF assms(2) [unfolded constructed_def]])
  fix i a
  assume "a \<in> set (variablesOf r i)"
  then obtain v where v: "v \<in> fieldsOf inst resources i" "stateFor v (rtStore r ! a)"
    using constructed_variable [OF assms(2)] by blast
  have "fieldsOf inst resources i \<subseteq> allFields inst resources" by (auto simp: fieldsOf_def allFields_def)
  then have "e \<notin> set (Expressions v)" using v(1) assms(1,3,4) unfolding unambiguous_def by blast
  then show "eesExpression (rtStore r ! a) \<noteq> eesExpression (newState e [] ResourceVariableKindReadyWhen)"
    using v(2) by (auto simp: stateFor_def newState_def)
qed (use assms(3,4) in \<open>auto simp: newState_def\<close>)

lemma constructed_builtRuntime:
  assumes "unambiguous inst resources"
  shows "constructed inst resources (builtRuntime inst resources order)"
proof -
  have empty: "constructed inst resources (emptyRuntime inst resources order)"
    by (simp add: constructed_def construction_def rt_inv_def coherent_def emptyRuntime_def variablesOf_def)
  have "constructed inst resources (fold addResource resources (emptyRuntime inst resources order))"
  proof (rule fold_keeps [where P = "constructed inst resources", OF empty])
    fix x r
    assume x: "x \<in> set resources" and r: "constructed inst resources r"
    have "constructed inst resources (addVariables (fst x) (resVariables (snd x)) r)"
      using x by (intro constructed_addVariables [OF assms r]) (auto simp: fieldsOf_def allFields_def)
    then show "constructed inst resources (addResource x r)"
      unfolding addResource_def by (rule fold_keeps [where P = "constructed inst resources"]) (rule constructed_addReadyWhen [OF assms _ x])
  qed
  then show ?thesis
    unfolding builtRuntime_def by (rule constructed_addVariables [OF assms]) (auto simp: fieldsOf_def allFields_def)
qed

text \<open>What the builder makes of the fields: a dynamic field has dependencies, which are dependencies of its resource.\<close>

definition fieldDependencies :: "Resource \<Rightarrow> Resource gomap \<Rightarrow> bool" where
  "fieldDependencies inst resources \<longleftrightarrow>
     (\<forall>v \<in> allFields inst resources. Kind v = ResourceVariableKindDynamic \<longrightarrow> (\<exists>d \<in> set (Dependencies v). d \<noteq> ''schema'')) \<and>
     (\<forall>x \<in> set resources. \<forall>v \<in> set (resVariables (snd x)). Kind v = ResourceVariableKindDynamic \<longrightarrow>
        set (Dependencies v) \<subseteq> set (resDependencies (snd x)))"

lemma builtRuntime_resolved: "resolvedResources (builtRuntime inst resources order) = []"
proof -
  have e: "resolvedResources (addExpression i v e s) = resolvedResources s" for i v e s
    by (simp add: addExpression_def addVariable_def cacheState_def split: option.splits)
  have es: "resolvedResources (fold (addExpression i v) es s) = resolvedResources s" for i v es s
    by (induction es arbitrary: s) (simp_all add: e)
  have vs: "resolvedResources (addVariables i vs s) = resolvedResources s" for i vs s
    unfolding addVariables_def by (induction vs arbitrary: s) (simp_all add: es)
  have rs: "resolvedResources (fold addReadyWhen es s) = resolvedResources s" for es s
    by (induction es arbitrary: s) (simp_all add: addReadyWhen_def cacheState_def)
  have "resolvedResources (fold addResource xs s) = resolvedResources s" for xs s
    by (induction xs arbitrary: s) (simp_all add: addResource_def rs vs)
  then show ?thesis by (simp add: builtRuntime_def vs emptyRuntime_def)
qed

lemma new_runtime_sound:
  assumes "NewResourceGroupRuntime ff C inst resources order = Inr r" and "unambiguous inst resources"
    and "fieldDependencies inst resources" and "distinct (map fst resources)" and "''instance'' \<notin> fst ` set resources"
    and "distinct order" and "set order \<subseteq> fst ` set resources"
    and "\<And>ys i zs res. order = ys @ i # zs \<Longrightarrow> (i, res) \<in> set resources \<Longrightarrow> set (resDependencies res) \<subseteq> set ys"
  shows "soundRuntime r" "upToDate r"
proof -
  let ?b = "builtRuntime inst resources order"
  obtain r1 where r1: "evaluateStaticVariables C ?b = (r1, None)" "propagateResourceVariables ff r1 = (r, None)"
    using assms(1) by (auto simp: NewResourceGroupRuntime_def builtRuntime_def Let_def split: prod.splits option.splits)
  have b: "constructed inst resources ?b" using constructed_builtRuntime [OF assms(2)] .
  then have inv: "rt_inv ?b" "coherent ?b" by (simp_all add: constructed_def construction_def)
  have round: "staticRound C ?b r1" using evaluateStatic_round [OF inv(1) r1(1)] by simp
  have states: "sameStates r1 r" using propagate_states [OF r1(2)] by simp
  have shape: "same_shape ?b r" using round states sameStates_shape same_shape_trans by (auto simp: staticRound_def)
  have vars: "variablesOf r = variablesOf ?b" "expressionsCache r = expressionsCache ?b" "resolvedResources r = resolvedResources ?b"
    using same_shape_variablesOf [OF shape] shape by (simp_all add: same_shape_def)
  have st: "steady r1 r" using steady_propagate [OF r1(2)] .
  have res1: "rtResources r1 = resources" "topologicalOrder r1 = order" using round by (simp_all add: staticRound_def builtRuntime_parts)
  have orig: "\<exists>res. (i, res) \<in> set resources \<and> resDependencies res = resDependencies res'" if "map_of (rtResources r) i = Some res'" for i res'
    using steady_resource_back [OF st that] res1(1) by (auto dest: map_of_SomeD)
  have kept: "eesDependencies (rtStore r ! a) = eesDependencies (rtStore ?b ! a)" "eesKind (rtStore r ! a) = eesKind (rtStore ?b ! a)"
    if "a < length (rtStore ?b)" for a using shape that by (simp_all add: same_shape_def)
  have "ownDependencies r"
    unfolding ownDependencies_def
  proof (intro allI ballI impI)
    fix i res' a
    assume i: "map_of (rtResources r) i = Some res'" and a: "a \<in> set (variablesOf r i)" "IsDynamic (eesKind (rtStore r ! a))"
    obtain res where res: "(i, res) \<in> set resources" "resDependencies res = resDependencies res'" using orig [OF i] by blast
    obtain v where v: "v \<in> fieldsOf inst resources i" "stateFor v (rtStore ?b ! a)"
      using constructed_variable [OF b] a(1) vars(1) by auto
    have "i \<noteq> ''instance''" using res(1) assms(5) by force
    then obtain x where x: "x \<in> set resources" "fst x = i" "v \<in> set (resVariables (snd x))" using v(1) by (auto simp: fieldsOf_def)
    have "x = (i, res)" using x(1,2) res(1) assms(4) by (metis eq_key_imp_eq_value prod.collapse)
    moreover have "a < length (rtStore ?b)" using rt_inv_variables [OF inv(1)] a(1) vars(1) by simp
    then have "eesDependencies (rtStore r ! a) = Dependencies v" "Kind v = ResourceVariableKindDynamic"
      using v(2) a(2) kept by (simp_all add: stateFor_def IsDynamic_def)
    ultimately show "set (eesDependencies (rtStore r ! a)) \<subseteq> insert ''schema'' (set (resDependencies res'))"
      using x(1,3) res(2) assms(3) unfolding fieldDependencies_def by fastforce
  qed
  moreover have "coherent r" using inv(2) vars by (simp add: coherent_def)
  moreover have "dependenciesFirst r"
    unfolding dependenciesFirst_def using assms(8) orig api.order_kept [OF st] res1(2) by metis
  ultimately show "soundRuntime r"
    using same_shape_inv [OF shape inv(1)] assms(6,7) graph_kept [OF st] res1 api.order_kept [OF st]
    by (simp add: soundRuntime_def dom_map_of_conv_image_fst)
  show "upToDate r"
    unfolding upToDate_def
  proof (intro ballI impI)
    fix a
    assume a: "a \<in> snd ` set (expressionsCache r)" "IsDynamic (eesKind (rtStore r ! a))" "available r a"
    then obtain e where e: "(e, a) \<in> set (expressionsCache ?b)" using vars(2) by auto
    have len: "a < length (rtStore ?b)" using rt_inv_cache [OF inv(1) e] by simp
    obtain v where v: "v \<in> allFields inst resources" "stateFor v (rtStore ?b ! a)"
      using b e a(2) kept [OF len] by (fastforce simp: constructed_def construction_def IsDynamic_def)
    have none: "resolvedResources r = []" using vars(3) by (simp add: builtRuntime_resolved)
    have "\<exists>d \<in> set (eesDependencies (rtStore r ! a)). d \<noteq> ''schema''"
      using assms(3) v a(2) kept [OF len] by (auto simp: fieldDependencies_def stateFor_def IsDynamic_def)
    then show "eesResolved (rtStore r ! a)" using a(3) none by (auto simp: available_def dynamicEnv_def list_all_iff)
  qed
qed

section \<open>An expression that is shared with a dynamic field\<close>

text \<open>
  Without the condition a group may never come up. The name of the subnet contains the expression
  \<open>schema.spec.name\<close>, which is also the name of the VPC, beside one that refers to the VPC. When Go visits the
  subnet first, the expression is kept with the dependencies of this field, so the VPC waits
  for itself; when it visits the VPC first, the VPC is offered.
\<close>

definition sharedResources :: "Resource gomap" where
  "sharedResources =
     [(''subnet'', sampleNode ''subnet'' [(''name'', VStr ''${schema.spec.name}-${vpc.status.id}'')]
         [(sampleVariable ''name'' [] ResourceVariableKindDynamic [''vpc''])
            \<lparr>Expressions := [''schema.spec.name'', ''vpc.status.id''], StandaloneExpression := False\<rparr>] [''vpc'']),
      (''vpc'', sampleNode ''vpc'' [(''name'', VStr ''${schema.spec.name}'')]
         [sampleVariable ''name'' ''schema.spec.name'' ResourceVariableKindStatic []] [])]"

definition offersVpc :: "Resource gomap \<Rightarrow> bool option" where
  "offersVpc resources =
     (case NewResourceGroupRuntime (\<lambda>w. []) sampleCel sampleInstance resources [''vpc'', ''subnet''] of
        Inl _ \<Rightarrow> None
      | Inr r \<Rightarrow> map_option (\<lambda>x. snd x = ResourceStateResolved) (GetResource (fst (Synchronize (\<lambda>w. []) sampleCel r)) ''vpc''))"

lemma shared_expression_blocks: "offersVpc sharedResources = Some False \<and> offersVpc (rev sharedResources) = Some True"
  by code_simp

end
