(* ===== verification/Instance_Safety.thy ===== *)
theory Instance_Safety
  imports Instance_Controller Runtime_Progress
begin

text \<open>
  What one reconciliation of an instance does to the cluster. The client is wrapped so that it
  keeps a record of the calls and answers (\<open>recording\<close>), and the theorems relate this record to the
  states the reconciler keeps for the resources: objects are created one at a time and after
  what they depend on, deleted one at a time and after what depends on them, and the status is
  written last.
\<close>

section \<open>The calls a reconciliation makes\<close>

text \<open>A client that keeps a record of the calls it passes on and of the answers.\<close>

datatype api_event =
    EvGet GroupVersionResource "string option" string "goerror + val gomap"
  | EvCreate GroupVersionResource "string option" "val gomap" "goerror + val gomap"
  | EvDelete GroupVersionResource "string option" string "goerror option"
  | EvUpdate GroupVersionResource "string option" "val gomap" "goerror + val gomap"
  | EvUpdateStatus GroupVersionResource "string option" "val gomap" "goerror + val gomap"

definition noted :: "('r \<Rightarrow> api_event) \<Rightarrow> ('w \<Rightarrow> 'r \<times> 'w) \<Rightarrow> 'w \<times> api_event list \<Rightarrow> 'r \<times> 'w \<times> api_event list" where
  "noted ev f w = (let (r, w1) = f (fst w) in (r, w1, snd w @ [ev r]))"

definition recording :: "'w dynClient \<Rightarrow> ('w \<times> api_event list) dynClient" where
  "recording c =
     \<lparr>clientGet = (\<lambda>g n x. noted (EvGet g n x) (clientGet c g n x)),
      clientCreate = (\<lambda>g n x. noted (EvCreate g n x) (clientCreate c g n x)),
      clientDelete = (\<lambda>g n x. noted (EvDelete g n x) (clientDelete c g n x)),
      clientUpdate = (\<lambda>g n x. noted (EvUpdate g n x) (clientUpdate c g n x)),
      clientUpdateStatus = (\<lambda>g n x. noted (EvUpdateStatus g n x) (clientUpdateStatus c g n x))\<rparr>"

lemma noted_events: "noted ev f w = (r, w') \<Longrightarrow> snd w' = snd w @ [ev r]"
  by (auto simp: noted_def split: prod.splits)

lemma recording_events:
  "clientGet (recording c) g n x w = (r, w') \<Longrightarrow> snd w' = snd w @ [EvGet g n x r]"
  "clientCreate (recording c) g n obj w = (r, w') \<Longrightarrow> snd w' = snd w @ [EvCreate g n obj r]"
  "clientDelete (recording c) g n x w = (e, w') \<Longrightarrow> snd w' = snd w @ [EvDelete g n x e]"
  "clientUpdate (recording c) g n obj w = (r, w') \<Longrightarrow> snd w' = snd w @ [EvUpdate g n obj r]"
  "clientUpdateStatus (recording c) g n obj w = (r, w') \<Longrightarrow> snd w' = snd w @ [EvUpdateStatus g n obj r]"
  by (auto simp: recording_def dest: noted_events)

fun isCreate :: "api_event \<Rightarrow> bool" where
  "isCreate (EvCreate _ _ _ _) = True"
| "isCreate _ = False"

fun isUpdate :: "api_event \<Rightarrow> bool" where
  "isUpdate (EvUpdate _ _ _ _) = True"
| "isUpdate _ = False"

fun isDelete :: "api_event \<Rightarrow> bool" where
  "isDelete (EvDelete _ _ _ _) = True"
| "isDelete _ = False"

text \<open>\<open>s'\<close> was reached from \<open>s\<close> by the calls \<open>evs\<close>.\<close>

definition reached :: "('w \<times> api_event list) igr \<Rightarrow> api_event list \<Rightarrow> ('w \<times> api_event list) igr \<Rightarrow> bool" where
  "reached s evs s' \<longleftrightarrow> snd (igWorld s') = snd (igWorld s) @ evs \<and> steady (igRuntime s) (igRuntime s')"

lemma reached_refl: "reached s [] s"
  by (simp add: reached_def)

lemma reached_trans: "reached s es t \<Longrightarrow> reached t fs u \<Longrightarrow> reached s (es @ fs) u"
  using steady_trans by (auto simp: reached_def)

text \<open>The state kept for a resource.\<close>

definition stateOf :: "'w igr \<Rightarrow> string \<Rightarrow> string option" where
  "stateOf s i = map_option rsState (map_of (isResourceStates (igState s)) i)"

lemma stateOf_set [simp]: "stateOf (setRState i st e s) = (stateOf s)(i \<mapsto> st)"
  by (rule ext) (simp add: stateOf_def setRState_def gomap_simps)

lemma setRState_rest [simp]: "igRuntime (setRState i st e s) = igRuntime s" "igWorld (setRState i st e s) = igWorld s"
  by (simp_all add: setRState_def)

lemma stateOf_rest [simp]: "stateOf (s\<lparr>igWorld := w\<rparr>) = stateOf s" "stateOf (s\<lparr>igRuntime := r\<rparr>) = stateOf s"
  by (simp_all add: stateOf_def fun_eq_iff)

subsection \<open>One resource\<close>

text \<open>
  What a step for the resource \<open>i\<close> may do: it changes the state of \<open>i\<close> only, deletes nothing,
  creates at most one object and then stops; if it goes on, the resource is synced, or skipped and
  ignored from then on.
\<close>

definition stepOutcome ::
  "string \<Rightarrow> ('w \<times> api_event list) igr \<Rightarrow> api_event list \<Rightarrow> string \<Rightarrow> ('w \<times> api_event list) igr \<Rightarrow> stop option \<Rightarrow> bool" where
  "stepOutcome i s evs st s' stp \<longleftrightarrow>
     reached s evs s' \<and> stateOf s' = (stateOf s)(i \<mapsto> st) \<and> filter isDelete evs = [] \<and> length (filter isCreate evs) \<le> 1 \<and>
     (filter isCreate evs \<noteq> [] \<longrightarrow> stp \<noteq> None \<and> (st = ''CREATED'' \<or> st = ''ERROR'')) \<and>
     (stp = None \<longrightarrow> st = ''SYNCED'' \<or> st = ''SKIPPED'' \<and> i \<in> set (ignoredByConditionsResources (igRuntime s')))"

lemma steady_writeResource: "map_of (rtResources r) i = Some res \<Longrightarrow> steady r (writeResource i obj r)"
  by (simp add: writeResource_def steady_setObject)

lemma creation_outcome:
  assumes "igClient G = recording c" and "handleResourceCreation G rc res i s = (s', stp)"
    and "map_of (rtResources (igRuntime s)) i = Some d"
  shows "\<exists>evs st. stepOutcome i s evs st s' stp"
proof -
  let ?obj = "ApplyLabels (uObject (igLib G)) (igSubResourcesLabeler G) res"
  let ?r = "writeResource i ?obj (igRuntime s)"
  obtain x w where x: "clientCreate (igClient G) (fst rc) (snd rc) ?obj (igWorld s) = (x, w)" by (rule prod.exhaust)
  then have "snd w = snd (igWorld s) @ [EvCreate (fst rc) (snd rc) ?obj x]"
    using recording_events(2) assms(1) by simp
  then have "stepOutcome i s [EvCreate (fst rc) (snd rc) ?obj x] (if isl x then ''ERROR'' else ''CREATED'') s' stp"
    using assms(2) x steady_writeResource [OF assms(3)]
    by (auto simp: handleResourceCreation_def Let_def stepOutcome_def reached_def split: sum.splits)
  then show ?thesis by blast
qed

lemma stepOutcome_after:
  assumes "stepOutcome i t evs st s' stp" and "snd (igWorld t) = snd (igWorld s) @ es" and "steady (igRuntime s) (igRuntime t)"
    and "stateOf t = (stateOf s)(i := x)" and "filter isDelete es = []" and "filter isCreate es = []"
  shows "stepOutcome i s (es @ evs) st s' stp"
  using assms steady_trans [OF assms(3)] by (auto simp: stepOutcome_def reached_def)

lemma handle_outcome:
  assumes "igClient G = recording c" and "handleResourceReconciliation G i res s = (s', stp)"
    and "stateOf s i = Some ''IN_PROGRESS''"
  shows "\<exists>evs st. stepOutcome i s evs st s' stp"
proof (cases "getResourceClient G (igRuntime s) i")
  case None
  then have "stepOutcome i s [] ''IN_PROGRESS'' s' stp"
    using assms(2,3) by (auto simp: handleResourceReconciliation_def stepOutcome_def reached_def fun_upd_idem)
  then show ?thesis by blast
next
  case (Some rc)
  then obtain d where d: "map_of (rtResources (igRuntime s)) i = Some d"
    by (auto simp: getResourceClient_def split: option.splits)
  let ?n = "GetName (uObject (igLib G)) res"
  obtain x w where x: "clientGet (igClient G) (fst rc) (snd rc) ?n (igWorld s) = (x, w)" by (rule prod.exhaust)
  then have w: "snd w = snd (igWorld s) @ [EvGet (fst rc) (snd rc) ?n x]"
    using recording_events(1) assms(1) by simp
  show ?thesis
  proof (cases x)
    case (Inl err)
    show ?thesis
    proof (cases "IsNotFound err")
      case True
      then have "handleResourceCreation G rc res i (s\<lparr>igWorld := w\<rparr>) = (s', stp)"
        using assms(2) Some x Inl by (simp add: handleResourceReconciliation_def)
      from creation_outcome [OF assms(1) this] d
      obtain evs st where "stepOutcome i (s\<lparr>igWorld := w\<rparr>) evs st s' stp" by auto
      from stepOutcome_after [OF this, of s "[EvGet (fst rc) (snd rc) ?n x]" "stateOf s i"] w show ?thesis by auto
    next
      case False
      then have "stepOutcome i s [EvGet (fst rc) (snd rc) ?n x] ''ERROR'' s' stp"
        using assms(2) Some x Inl w
        by (auto simp: handleResourceReconciliation_def Let_def stepOutcome_def reached_def)
      then show ?thesis by blast
    qed
  next
    case (Inr obs)
    obtain ready reason err where rdy: "IsResourceReady (igCel G) (SetResource i obs (igRuntime s)) i = (ready, reason, err)"
      using prod_cases3 by blast
    have "stepOutcome i s [EvGet (fst rc) (snd rc) ?n x]
        (if err = Some NoReturn then ''IN_PROGRESS'' else if err \<noteq> None \<or> \<not> ready then ''WAITING_FOR_READINESS'' else ''SYNCED'') s' stp"
      using assms(2,3) Some x Inr w rdy
      by (auto simp: handleResourceReconciliation_def updateResource_def Let_def stepOutcome_def reached_def fun_upd_idem split: if_splits)
    then show ?thesis by blast
  qed
qed

lemma resource_outcome:
  assumes "igClient G = recording c" and "reconcileResource G i s = (s', stp)"
  shows "\<exists>evs st. stepOutcome i s evs st s' stp \<and>
    (filter isCreate evs \<noteq> [] \<longrightarrow> WantToCreateResource (igCel G) (igRuntime s) i = (True, None))"
proof -
  let ?s = "setRState i ''IN_PROGRESS'' None s"
  have s1: "stateOf ?s i = Some ''IN_PROGRESS''" by simp
  obtain want err where want: "WantToCreateResource (igCel G) (igRuntime s) i = (want, err)" by fastforce
  consider (skip) "err \<noteq> Some NoReturn" "err \<noteq> None \<or> \<not> want"
    | (stay) "stp \<noteq> None" "s' = ?s"
    | (handle) res where "err = None" "want" "handleResourceReconciliation G i res ?s = (s', stp)"
    using assms(2) want by (auto simp: reconcileResource_def Let_def split: if_splits option.splits prod.splits)
  then show ?thesis
  proof cases
    case skip
    then have "stepOutcome i s [] ''SKIPPED'' s' stp"
      using assms(2) want by (auto simp: reconcileResource_def Let_def stepOutcome_def reached_def IgnoreResource_def steady_def bareResources_def)
    then show ?thesis by (metis filter.simps(1))
  next
    case stay
    then have "stepOutcome i s [] ''IN_PROGRESS'' s' stp" by (simp add: stepOutcome_def reached_def)
    then show ?thesis by (metis filter.simps(1))
  next
    case handle
    obtain evs st where o1: "stepOutcome i ?s evs st s' stp"
      using handle_outcome [OF assms(1) handle(3) s1] by blast
    have "stepOutcome i s evs st s' stp"
      using stepOutcome_after [OF o1, of s "[]" "Some ''IN_PROGRESS''"] by simp
    then show ?thesis using want handle(1,2) by auto
  qed
qed

lemma syncStep_keeps:
  assumes "syncStep G f s = (s', stp)"
  shows "steady (igRuntime s) (igRuntime s') \<and> igWorld s' = igWorld s \<and> igState s' = igState s"
  using assms steady_Synchronize by (fastforce simp: syncStep_def split: prod.splits)

lemma step_outcome:
  assumes "igClient G = recording c" and "reconcileStep G i s = (s', stp)"
  shows "\<exists>evs st. stepOutcome i s evs st s' stp \<and>
    (filter isCreate evs \<noteq> [] \<longrightarrow> WantToCreateResource (igCel G) (igRuntime s) i = (True, None))"
proof -
  obtain t e where t: "reconcileResource G i s = (t, e)" by fastforce
  obtain evs st where o1: "stepOutcome i s evs st t e"
      "filter isCreate evs \<noteq> [] \<longrightarrow> WantToCreateResource (igCel G) (igRuntime s) i = (True, None)"
    using resource_outcome [OF assms(1) t] by blast
  have "stepOutcome i s evs st s' stp"
  proof (cases e)
    case None
    then have "syncStep G (ErrorfWrap (''failed to synchronize reconciling resource '' @ i)) t = (s', stp)"
      using assms(2) t by (simp add: reconcileStep_def)
    from syncStep_keeps [OF this] show ?thesis
      using o1(1) None steady_trans [of "igRuntime s"]
      by (auto simp: stepOutcome_def reached_def stateOf_def steady_def fun_eq_iff)
  next
    case (Some x)
    then show ?thesis using assms(2) t o1(1) by (simp add: reconcileStep_def)
  qed
  with o1(2) show ?thesis by blast
qed

subsection \<open>All resources\<close>

definition settled :: "'w igr \<Rightarrow> string set \<Rightarrow> bool" where
  "settled s I \<longleftrightarrow> (\<forall>i \<in> I. stateOf s i = Some ''SYNCED'' \<or>
     stateOf s i = Some ''SKIPPED'' \<and> i \<in> set (ignoredByConditionsResources (igRuntime s)))"

text \<open>
  An object was created for \<open>i\<close>: the resources before it are settled, those after it were not
  looked at, and the ones it depends on are synced.
\<close>

definition createdAt :: "('w \<times> api_event list) igr \<Rightarrow> string list \<Rightarrow> string \<Rightarrow> string list \<Rightarrow> string list \<Rightarrow> bool" where
  "createdAt s' ys i zs deps \<longleftrightarrow>
     (stateOf s' i = Some ''CREATED'' \<or> stateOf s' i = Some ''ERROR'') \<and> settled s' (set ys) \<and>
     (\<forall>j \<in> set zs. stateOf s' j = Some ''PENDING'') \<and>
     (\<forall>d \<in> set deps. d \<in> set ys \<longrightarrow> stateOf s' d = Some ''SYNCED'')"

lemma settled_step:
  assumes "stepOutcome i s evs st s' stp" and "settled s I" and "i \<notin> I"
  shows "settled s' I"
  using assms api.ignored_kept by (fastforce simp: settled_def stepOutcome_def reached_def)

text \<open>The step that creates an object finds its dependencies synced; a creation in the rest of the loop is one of the whole loop.\<close>

lemma created_now:
  assumes "stepOutcome i s evs st t e" and "filter isCreate evs \<noteq> []" and "WantToCreateResource C (igRuntime s) i = (True, None)"
    and "settled s (set pre)" and "settled t (set pre)" and "\<forall>j \<in> set xs. stateOf t j = Some ''PENDING''" and "i \<notin> set pre"
    and "map_of (rtResources (igRuntime s)) i = Some res"
  shows "createdAt t pre i xs (resDependencies res)"
proof -
  have "d \<notin> set (ignoredByConditionsResources (igRuntime s))" if "d \<in> set (resDependencies res)" for d
    using want_not_ignored [OF assms(3,8) that] .
  then have "stateOf s d = Some ''SYNCED''" if "d \<in> set (resDependencies res)" "d \<in> set pre" for d
    using assms(4) that by (auto simp: settled_def)
  then have "\<forall>d \<in> set (resDependencies res). d \<in> set pre \<longrightarrow> stateOf t d = Some ''SYNCED''"
    using assms(1,7) by (auto simp: stepOutcome_def)
  moreover have "stateOf t i = Some ''CREATED'' \<or> stateOf t i = Some ''ERROR''"
    using assms(1,2) by (auto simp: stepOutcome_def)
  ultimately show ?thesis using assms(5,6) by (simp add: createdAt_def)
qed

definition createdIn :: "rt \<Rightarrow> ('w \<times> api_event list) igr \<Rightarrow> string list \<Rightarrow> string list \<Rightarrow> bool" where
  "createdIn r s' pre xs \<longleftrightarrow> (\<exists>ys i zs. xs = ys @ i # zs \<and>
     (\<forall>res. map_of (rtResources r) i = Some res \<longrightarrow> createdAt s' (pre @ ys) i zs (resDependencies res)))"

lemma created_later:
  assumes "steady r r'" and "createdIn r' s' (pre @ [i]) xs"
  shows "createdIn r s' pre (i # xs)"
proof -
  obtain ys j zs where j: "xs = ys @ j # zs"
      "\<forall>res. map_of (rtResources r') j = Some res \<longrightarrow> createdAt s' ((pre @ [i]) @ ys) j zs (resDependencies res)"
    using assms(2) unfolding createdIn_def by blast
  have "createdAt s' (pre @ i # ys) j zs (resDependencies res)" if res: "map_of (rtResources r) j = Some res" for res
    using steady_resource [OF assms(1) res] j(2) by fastforce
  with j(1) show ?thesis unfolding createdIn_def by (intro exI [of _ "i # ys"]) auto
qed

lemma loop_outcome:
  assumes "igClient G = recording c" and "loopE (reconcileStep G) xs s = (s', stp)"
    and "settled s (set pre)" and "\<forall>j \<in> set xs. stateOf s j = Some ''PENDING''" and "distinct (pre @ xs)"
  shows "\<exists>evs. reached s evs s' \<and> filter isDelete evs = [] \<and> length (filter isCreate evs) \<le> 1 \<and>
    (stp = None \<longrightarrow> settled s' (set (pre @ xs))) \<and> (filter isCreate evs \<noteq> [] \<longrightarrow> stp \<noteq> None \<and> createdIn (igRuntime s) s' pre xs)"
  using assms(2-5)
proof (induction xs arbitrary: s pre)
  case Nil
  then show ?case by (intro exI [of _ "[]"]) (simp add: reached_refl)
next
  case (Cons i xs)
  obtain t e where t: "reconcileStep G i s = (t, e)" by fastforce
  obtain evs st where o1: "stepOutcome i s evs st t e"
      and want: "filter isCreate evs \<noteq> [] \<longrightarrow> WantToCreateResource (igCel G) (igRuntime s) i = (True, None)"
    using step_outcome [OF assms(1) t] by blast
  have pre: "settled t (set pre)" using settled_step [OF o1 Cons.prems(2)] Cons.prems(4) by simp
  have pending: "\<forall>j \<in> set xs. stateOf t j = Some ''PENDING''"
    using o1 Cons.prems(3,4) by (auto simp: stepOutcome_def)
  show ?case
  proof (cases e)
    case (Some x)
    then have s': "s' = t" "stp = Some x" using Cons.prems(1) t by simp_all
    have "createdIn (igRuntime s) s' pre (i # xs)" if "filter isCreate evs \<noteq> []"
      using created_now [OF o1 that _ Cons.prems(2) pre pending] want that Cons.prems(4) s'(1)
      unfolding createdIn_def by (intro exI [of _ "[]"] exI [of _ i] exI [of _ xs]) simp
    then show ?thesis using o1 s' by (intro exI [of _ evs]) (auto simp: stepOutcome_def)
  next
    case None
    have settled: "settled t (set (pre @ [i]))" using o1 None pre by (auto simp: stepOutcome_def settled_def)
    have loop: "loopE (reconcileStep G) xs t = (s', stp)" using Cons.prems(1) t None by simp
    have st: "reached s evs t" "filter isDelete evs = []" "filter isCreate evs = []"
      using o1 None by (auto simp: stepOutcome_def)
    obtain fs where fs: "reached t fs s'" "filter isDelete fs = []" "length (filter isCreate fs) \<le> 1"
        "stp = None \<longrightarrow> settled s' (set ((pre @ [i]) @ xs))"
        "filter isCreate fs \<noteq> [] \<longrightarrow> stp \<noteq> None \<and> createdIn (igRuntime t) s' (pre @ [i]) xs"
      using Cons.IH [OF loop settled pending] Cons.prems(4) by auto
    have "createdIn (igRuntime s) s' pre (i # xs)" if "filter isCreate fs \<noteq> []"
      using created_later fs(5) that st(1) unfolding reached_def by blast
    then show ?thesis
      using fs st reached_trans [OF st(1) fs(1)] by (intro exI [of _ "evs @ fs"]) auto
  qed
qed

subsection \<open>The whole reconciliation\<close>

lemma setup_outcome:
  assumes "igClient G = recording c" and "setupInstance G s = (s', stp)"
  shows "\<exists>evs. reached s evs s' \<and> igState s' = igState s \<and> filter isCreate evs = [] \<and> filter isDelete evs = []"
proof (cases "managedInstance G (GetInstance (igRuntime s))")
  case True
  then show ?thesis
    using assms(2) by (intro exI [of _ "[]"]) (auto simp: setupInstance_def setManaged_def reached_def)
next
  case False
  show ?thesis
  proof (cases "SetInstanceFinalizerUnstructured (uNested (igLib G)) (GetInstance (igRuntime s))
      (GetUID (uObject (igLib G)) (GetInstance (igRuntime s)))")
    case (Inl err)
    then show ?thesis
      using False assms(2) by (intro exI [of _ "[]"]) (auto simp: setupInstance_def setManaged_def reached_def)
  next
    case (Inr copied)
    let ?obj = "ApplyLabels (uObject (igLib G)) (igInstanceLabeler G) copied"
    let ?n = "Some (GetNamespace (uObject (igLib G)) (GetInstance (igRuntime s)))"
    obtain x w where x: "clientUpdate (igClient G) (igGvr G) ?n ?obj (igWorld s) = (x, w)" by (rule prod.exhaust)
    then have "snd w = snd (igWorld s) @ [EvUpdate (igGvr G) ?n ?obj x]" using recording_events(4) assms(1) by simp
    then show ?thesis
      using False Inr assms(2) x by (intro exI [of _ "[EvUpdate (igGvr G) ?n ?obj x]"])
        (auto simp: setupInstance_def setManaged_def updateInstance_def reached_def split: sum.splits)
  qed
qed

lemma fold_pending:
  "stateOf (fold (\<lambda>i. setRState i ''PENDING'' None) xs s) = (\<lambda>j. if j \<in> set xs then Some ''PENDING'' else stateOf s j)"
  "igRuntime (fold (\<lambda>i. setRState i ''PENDING'' None) xs s) = igRuntime s"
  "igWorld (fold (\<lambda>i. setRState i ''PENDING'' None) xs s) = igWorld s"
  by (induction xs arbitrary: s) (auto simp: fun_eq_iff)

text \<open>The state of the instance itself is changed only at the end.\<close>

interpretation isState: frame "\<lambda>s s'. isState (igState s') = isState (igState s)"
  by unfold_locales simp_all

lemma isState_set [simp]: "isState (igState (setRState i st e s)) = isState (igState s)"
  by (simp add: setRState_def)

lemma reconcileStep_isState:
  assumes "reconcileStep G i s = (s', e)"
  shows "isState (igState s') = isState (igState s)"
proof -
  have "isState (igState t) = isState (igState s)" if "reconcileResource G i s = (t, d)" for t d
    using that by (auto simp: reconcileResource_def handleResourceReconciliation_def handleResourceCreation_def
        updateResource_def Let_def split: prod.splits if_splits option.splits sum.splits)
  then show ?thesis
    using assms by (auto simp: reconcileStep_def syncStep_def split: prod.splits option.splits)
qed

lemma reconcileInstance_isState:
  assumes "reconcileInstance G s = (s', stp)"
  shows "isState (igState s') = isState (igState s)"
proof -
  obtain t e where t: "setupInstance G s = (t, e)" by fastforce
  have ist: "isState (igState t) = isState (igState s)"
    using t by (auto simp: setupInstance_def split: prod.splits sum.splits)
  have pend: "isState (igState (fold (\<lambda>i. setRState i ''PENDING'' None) xs u)) = isState (igState u)" for xs u
    by (rule isState.fold_kept) simp
  show ?thesis
  proof (cases e)
    case None
    then have "loopE (reconcileStep G) (topologicalOrder (igRuntime t))
        (fold (\<lambda>i. setRState i ''PENDING'' None) (topologicalOrder (igRuntime t)) t) = (s', stp)"
      using assms t by (simp add: reconcileInstance_def Let_def)
    then show ?thesis
      using isState.loop_kept [of "reconcileStep G"] reconcileStep_isState pend ist by metis
  qed (use assms t ist in \<open>auto simp: reconcileInstance_def split: stop.splits\<close>)
qed

lemma reconcileInstance_outcome:
  assumes "igClient G = recording c" and "reconcileInstance G s = (s', stp)" and "distinct (topologicalOrder (igRuntime s))"
    and "dependenciesFirst (igRuntime s)"
  shows "\<exists>evs. reached s evs s' \<and> filter isDelete evs = [] \<and> length (filter isCreate evs) \<le> 1 \<and>
    (stp = None \<longrightarrow> settled s' (set (topologicalOrder (igRuntime s)))) \<and>
    (filter isCreate evs \<noteq> [] \<longrightarrow> stp \<noteq> None \<and> (\<exists>ys i zs. topologicalOrder (igRuntime s) = ys @ i # zs \<and>
       (\<forall>res. map_of (rtResources (igRuntime s)) i = Some res \<longrightarrow>
          createdAt s' ys i zs (resDependencies res) \<and> set (resDependencies res) \<subseteq> set ys)))"
proof -
  obtain t e where t: "setupInstance G s = (t, e)" by fastforce
  obtain es where es: "reached s es t" "igState t = igState s" "filter isCreate es = []" "filter isDelete es = []"
    using setup_outcome [OF assms(1) t] by blast
  have order: "topologicalOrder (igRuntime t) = topologicalOrder (igRuntime s)" using es(1) by (simp add: reached_def api.order_kept)
  show ?thesis
  proof (cases e)
    case (Some x)
    then have "s' = t" "stp \<noteq> None" using assms(2) t by (auto simp: reconcileInstance_def split: stop.splits)
    then show ?thesis using es by (intro exI [of _ es]) auto
  next
    case None
    let ?u = "fold (\<lambda>i. setRState i ''PENDING'' None) (topologicalOrder (igRuntime s)) t"
    have loop: "loopE (reconcileStep G) (topologicalOrder (igRuntime s)) ?u = (s', stp)"
      using assms(2) t None order by (simp add: reconcileInstance_def Let_def)
    have "reached t [] ?u" by (simp add: reached_def fold_pending)
    with es(1) have u: "reached s es ?u" using reached_trans by fastforce
    obtain fs where fs: "reached ?u fs s'" "filter isDelete fs = []" "length (filter isCreate fs) \<le> 1"
        "stp = None \<longrightarrow> settled s' (set (topologicalOrder (igRuntime s)))"
        "filter isCreate fs \<noteq> [] \<longrightarrow> stp \<noteq> None \<and> (\<exists>ys i zs. topologicalOrder (igRuntime s) = ys @ i # zs \<and>
          (\<forall>res. map_of (rtResources (igRuntime ?u)) i = Some res \<longrightarrow> createdAt s' ys i zs (resDependencies res)))"
      using loop_outcome [OF assms(1) loop, of "[]", unfolded createdIn_def] assms(3) by (auto simp: fold_pending settled_def)
    have "\<exists>ys i zs. topologicalOrder (igRuntime s) = ys @ i # zs \<and> (\<forall>res. map_of (rtResources (igRuntime s)) i = Some res \<longrightarrow>
          createdAt s' ys i zs (resDependencies res) \<and> set (resDependencies res) \<subseteq> set ys)"
      if cr: "filter isCreate fs \<noteq> []"
    proof -
      obtain ys i zs where i: "topologicalOrder (igRuntime s) = ys @ i # zs"
          "\<forall>res. map_of (rtResources (igRuntime ?u)) i = Some res \<longrightarrow> createdAt s' ys i zs (resDependencies res)"
        using fs(5) cr by blast
      have "createdAt s' ys i zs (resDependencies res) \<and> set (resDependencies res) \<subseteq> set ys"
        if res: "map_of (rtResources (igRuntime s)) i = Some res" for res
      proof -
        have st: "steady (igRuntime s) (igRuntime ?u)" using u by (simp add: reached_def)
        then obtain res' where "map_of (rtResources (igRuntime ?u)) i = Some res'" "resDependencies res' = resDependencies res"
          using steady_resource [OF st res] by blast
        with i dependenciesFirst_kept [OF assms(4) st] api.order_kept [OF st] show ?thesis
          unfolding dependenciesFirst_def by metis
      qed
      with i(1) show ?thesis by blast
    qed
    then show ?thesis
      using fs(1-4) es reached_trans [OF u fs(1)] fs(5) by (intro exI [of _ "es @ fs"]) auto
  qed
qed

lemma handleReconciliation_outcome:
  assumes "igClient G = recording c" and "handleReconciliation G f s = (s', stp)"
  obtains s1 es where "f s = (s1, stp)" "reached s1 es s'" "stateOf s' = stateOf s1" "igRuntime s' = igRuntime s1"
    "filter isCreate es = []" "filter isDelete es = []" "filter isUpdate es = []"
    "stp = None \<Longrightarrow> isState (igState s') = (if isState (igState s1) = ''DELETING'' then ''DELETING'' else ''ACTIVE'')"
proof -
  obtain s1 r where s1: "f s = (s1, r)" by fastforce
  show thesis
  proof (cases "r = Some StopPanic")
    case True
    then have "s' = s1" "stp = r" using assms(2) s1 by (simp_all add: handleReconciliation_def)
    then show thesis using that [of s1 "[]"] s1 True by (simp add: reached_refl)
  next
    case False
    let ?err = "case r of Some (StopErr e) \<Rightarrow> Some e | _ \<Rightarrow> None"
    let ?s2 = "s1\<lparr>igState := updateInstanceState ((igState s1)\<lparr>isReconcileErr := ?err\<rparr>)\<rparr>"
    let ?inst = "AList.update ''status'' (VMap (prepareStatus G ?s2)) (GetInstance (igRuntime s1))"
    let ?n = "Some (GetNamespace (uObject (igLib G)) ?inst)"
    obtain x w where x: "clientUpdateStatus (igClient G) (igGvr G) ?n ?inst (igWorld s1) = (x, w)" by (rule prod.exhaust)
    then have w: "snd w = snd (igWorld s1) @ [EvUpdateStatus (igGvr G) ?n ?inst x]" using recording_events(5) assms(1) by simp
    have s': "s' = ?s2\<lparr>igWorld := w\<rparr>" "stp = r"
      using assms(2) s1 False x
      by (auto simp: handleReconciliation_def patchInstanceStatus_def Let_def split: option.splits stop.splits sum.splits prod.splits)
    have "stateOf s' = stateOf s1"
      using s'(1) by (auto simp: stateOf_def fun_eq_iff updateInstanceState_def split: option.splits)
    moreover have "stp = None \<Longrightarrow> isState (igState s') = (if isState (igState s1) = ''DELETING'' then ''DELETING'' else ''ACTIVE'')"
      using s' by (simp add: updateInstanceState_def)
    ultimately show thesis
      using that [of s1 "[EvUpdateStatus (igGvr G) ?n ?inst x]"] s1 s' w by (simp add: reached_def)
  qed
qed

subsection \<open>Deletion\<close>

text \<open>The API server said that the object of the resource \<open>i\<close> does not exist.\<close>

definition absent :: "api_event list \<Rightarrow> rt \<Rightarrow> string \<Rightarrow> bool" where
  "absent evs r i \<longleftrightarrow> (\<exists>res n x e. map_of (bareResources r) i = Some res \<and> IsNotFound e \<and>
     (EvGet (resGvr res) n x (Inl e) \<in> set evs \<or> EvDelete (resGvr res) n x (Some e) \<in> set evs))"

fun deletes :: "api_event \<Rightarrow> bool" where
  "deletes (EvDelete _ _ _ None) = True"
| "deletes _ = False"

definition goneIn :: "'w igr \<Rightarrow> string \<Rightarrow> bool" where
  "goneIn s i \<longleftrightarrow> stateOf s i = Some ''DELETED'' \<or> stateOf s i = Some ''SKIPPED''"

definition plain :: "api_event list \<Rightarrow> bool" where
  "plain evs \<longleftrightarrow> filter isCreate evs = [] \<and> filter isUpdate evs = []"

lemma plain_simps [simp]:
  "plain []" "plain (es @ fs) \<longleftrightarrow> plain es \<and> plain fs" "plain [EvGet g n x r]" "plain [EvDelete g n x e]"
  by (auto simp: plain_def)

lemma absent_mono: "absent es r i \<Longrightarrow> set es \<subseteq> set fs \<Longrightarrow> absent fs r i"
  unfolding absent_def by blast

lemma steady_bare: "steady r r' \<Longrightarrow> bareResources r' = bareResources r"
  by (simp add: steady_def)

lemma steady_absent: "steady r r' \<Longrightarrow> absent es r' i = absent es r i"
  by (simp add: steady_bare absent_def)

lemma getResourceClient_gvr:
  assumes "getResourceClient G r i = Some rc"
  shows "\<exists>res. map_of (bareResources r) i = Some res \<and> fst rc = resGvr res"
  using assms by (auto simp: getResourceClient_def bareResources_map_of split: option.splits)

text \<open>A step of the deletion for \<open>i\<close>, with the state it leaves and the calls it makes.\<close>

definition deletionOutcome ::
  "string \<Rightarrow> ('w \<times> api_event list) igr \<Rightarrow> api_event list \<Rightarrow> string option \<Rightarrow> ('w \<times> api_event list) igr \<Rightarrow> bool" where
  "deletionOutcome i s evs st s' \<longleftrightarrow>
     reached s evs s' \<and> stateOf s' = (stateOf s)(i := st) \<and> plain evs \<and>
     (st = Some ''DELETED'' \<longrightarrow> stateOf s i = st \<or> absent evs (igRuntime s) i)"

lemma initialize_outcome:
  assumes "igClient G = recording c" and "initializeStep G i s = (s', stp)"
  shows "\<exists>evs st. deletionOutcome i s evs st s' \<and> filter deletes evs = [] \<and>
    (stp = None \<longrightarrow> st = Some ''DELETED'' \<or> st = Some ''SKIPPED'' \<or> st = Some ''PENDING_DELETION'')"
proof -
  obtain t e where t: "syncStep G (ErrorfWrap ''failed to synchronize during deletion state initialization'') s = (t, e)" by fastforce
  have keep: "steady (igRuntime s) (igRuntime t)" "igWorld t = igWorld s" "stateOf t = stateOf s"
    using syncStep_keeps [OF t] by (simp_all add: stateOf_def fun_eq_iff)
  show ?thesis
  proof (cases "\<exists>res rc. e = None \<and> GetResource (igRuntime t) i = Some (res, ResourceStateResolved) \<and>
      getResourceClient G (igRuntime t) i = Some rc")
    case False
    then have "(s' = t \<and> stp \<noteq> None) \<or> (s' = setRState i ''SKIPPED'' None t \<and> stp = None)"
      using assms(2) t by (auto simp: initializeStep_def split: option.splits prod.splits if_splits)
    then have "deletionOutcome i s [] (stateOf s' i) s' \<and> (stp = None \<longrightarrow> stateOf s' i = Some ''SKIPPED'')"
      using keep by (auto simp: deletionOutcome_def reached_def)
    then show ?thesis by (metis filter.simps(1))
  next
    case True
    then obtain res rc where rc: "e = None" "GetResource (igRuntime t) i = Some (res, ResourceStateResolved)"
        "getResourceClient G (igRuntime t) i = Some rc" by blast
    let ?n = "GetName (uObject (igLib G)) (the res)"
    obtain x w where x: "clientGet (igClient G) (fst rc) (snd rc) ?n (igWorld t) = (x, w)" by (rule prod.exhaust)
    then have w: "snd w = snd (igWorld s) @ [EvGet (fst rc) (snd rc) ?n x]" using recording_events(1) assms(1) keep by simp
    obtain d where d: "map_of (bareResources (igRuntime s)) i = Some d" "fst rc = resGvr d"
      using getResourceClient_gvr [OF rc(3)] steady_bare [OF keep(1)] by auto
    have "absent [EvGet (fst rc) (snd rc) ?n x] (igRuntime s) i" if "x = Inl err" "IsNotFound err" for err
      using d that by (auto simp: absent_def)
    moreover have "s' = (case x of Inl err \<Rightarrow> if IsNotFound err then setRState i ''DELETED'' None (t\<lparr>igWorld := w\<rparr>) else t\<lparr>igWorld := w\<rparr>
        | Inr obs \<Rightarrow> setRState i ''PENDING_DELETION'' None (t\<lparr>igWorld := w, igRuntime := SetResource i obs (igRuntime t)\<rparr>))"
      "stp = None \<longleftrightarrow> (\<forall>err. x = Inl err \<longrightarrow> IsNotFound err)"
      using assms(2) t rc x by (auto simp: initializeStep_def split: sum.splits if_splits)
    ultimately have "deletionOutcome i s [EvGet (fst rc) (snd rc) ?n x] (stateOf s' i) s' \<and>
        (stp = None \<longrightarrow> stateOf s' i = Some ''DELETED'' \<or> stateOf s' i = Some ''PENDING_DELETION'')"
      using w keep steady_trans [OF keep(1)] by (auto simp: deletionOutcome_def reached_def split: sum.splits)
    then show ?thesis by (intro exI [of _ "[EvGet (fst rc) (snd rc) ?n x]"]) auto
  qed
qed

lemma delete_outcome:
  assumes "igClient G = recording c" and "deleteStep G i s = (s', stp)"
    and "stateOf s i = Some ''PENDING_DELETION'' \<or> goneIn s i"
  shows "\<exists>evs st. deletionOutcome i s evs st s' \<and> length (filter deletes evs) \<le> 1 \<and>
    (filter deletes evs \<noteq> [] \<longrightarrow> stp \<noteq> None \<and> st = Some ''DELETING'') \<and> (stp = None \<longrightarrow> goneIn s' i)"
proof (cases "stateOf s i = Some ''PENDING_DELETION''")
  case False
  then have "s' = s" "stp = None" "goneIn s i"
    using assms(2,3) by (auto simp: deleteStep_def stateOf_def goneIn_def split: option.splits if_splits)
  then have "deletionOutcome i s [] (stateOf s i) s'" "goneIn s' i" by (auto simp: deletionOutcome_def reached_def)
  then show ?thesis by (metis filter.simps(1) list.size(3) zero_le)
next
  case pending: True
  then have step: "deleteResource G i s = (s', stp)" using assms(2) by (auto simp: deleteStep_def stateOf_def split: option.splits if_splits)
  show ?thesis
  proof (cases "\<exists>res st rc. GetResource (igRuntime s) i = Some (Some res, st) \<and> getResourceClient G (igRuntime s) i = Some rc")
    case False
    then have "s' = s" "stp \<noteq> None" using step by (auto simp: deleteResource_def split: option.splits prod.splits)
    then have "deletionOutcome i s [] (stateOf s i) s'" by (auto simp: deletionOutcome_def reached_def)
    with \<open>stp \<noteq> None\<close> show ?thesis by (metis filter.simps(1) list.size(3) zero_le)
  next
    case True
    then obtain res st rc where rc: "GetResource (igRuntime s) i = Some (Some res, st)" "getResourceClient G (igRuntime s) i = Some rc"
      by blast
    let ?n = "GetName (uObject (igLib G)) res"
    obtain x w where x: "clientDelete (igClient G) (fst rc) (snd rc) ?n (igWorld s) = (x, w)" by (rule prod.exhaust)
    then have w: "snd w = snd (igWorld s) @ [EvDelete (fst rc) (snd rc) ?n x]" using recording_events(3) assms(1) by simp
    obtain d where d: "map_of (bareResources (igRuntime s)) i = Some d" "fst rc = resGvr d"
      using getResourceClient_gvr [OF rc(2)] by auto
    have "absent [EvDelete (fst rc) (snd rc) ?n x] (igRuntime s) i" if "x = Some err" "IsNotFound err" for err
      using d that by (auto simp: absent_def)
    moreover have "\<exists>er. s' = setRState i
          (case x of None \<Rightarrow> ''DELETING'' | Some err \<Rightarrow> if IsNotFound err then ''DELETED'' else ''ERROR'') er (s\<lparr>igWorld := w\<rparr>)"
      "stp = None \<longleftrightarrow> (\<exists>err. x = Some err \<and> IsNotFound err)"
      using step rc x by (auto simp: deleteResource_def Let_def split: option.splits if_splits)
    ultimately have "deletionOutcome i s [EvDelete (fst rc) (snd rc) ?n x] (stateOf s' i) s' \<and>
        length (filter deletes [EvDelete (fst rc) (snd rc) ?n x]) \<le> 1 \<and>
        (filter deletes [EvDelete (fst rc) (snd rc) ?n x] \<noteq> [] \<longrightarrow> stp \<noteq> None \<and> stateOf s' i = Some ''DELETING'') \<and>
        (stp = None \<longrightarrow> goneIn s' i)"
      using w by (auto simp: deletionOutcome_def reached_def goneIn_def split: option.splits if_splits)
    then show ?thesis by blast
  qed
qed

text \<open>A sequence of such steps.\<close>

definition deletionRun ::
  "string set \<Rightarrow> ('w \<times> api_event list) igr \<Rightarrow> api_event list \<Rightarrow> ('w \<times> api_event list) igr \<Rightarrow> bool" where
  "deletionRun I s evs s' \<longleftrightarrow>
     reached s evs s' \<and> plain evs \<and> (\<forall>j. j \<notin> I \<longrightarrow> stateOf s' j = stateOf s j) \<and>
     (\<forall>j. stateOf s' j = Some ''DELETED'' \<longrightarrow> stateOf s j = Some ''DELETED'' \<or> absent evs (igRuntime s) j)"

lemma deletionRun_refl: "deletionRun I s [] s"
  by (simp add: deletionRun_def reached_refl)

lemma deletionRun_step: "deletionOutcome i s evs st s' \<Longrightarrow> deletionRun {i} s evs s'"
  by (auto simp: deletionRun_def deletionOutcome_def split: if_splits)

lemma deletionRun_trans:
  assumes "deletionRun I s es t" and "deletionRun J t fs u"
  shows "deletionRun (I \<union> J) s (es @ fs) u"
proof -
  have st: "steady (igRuntime s) (igRuntime t)" using assms(1) by (simp add: deletionRun_def reached_def)
  have "absent (es @ fs) (igRuntime s) j" if "absent es (igRuntime s) j \<or> absent fs (igRuntime t) j" for j
    using that absent_mono [of es _ j "es @ fs"] absent_mono [of fs _ j "es @ fs"] steady_absent [OF st] by auto
  then show ?thesis
    using assms reached_trans [of s es t fs u] unfolding deletionRun_def plain_simps by (metis UnCI)
qed

lemma deletionRun_mono: "deletionRun I s es t \<Longrightarrow> I \<subseteq> J \<Longrightarrow> deletionRun J s es t"
  unfolding deletionRun_def by blast

lemma initialize_loop:
  assumes "igClient G = recording c"
  shows "loopE (initializeStep G) xs s = (s', stp) \<Longrightarrow> distinct xs \<Longrightarrow>
    \<exists>evs. deletionRun (set xs) s evs s' \<and> filter deletes evs = [] \<and>
      (stp = None \<longrightarrow> (\<forall>j \<in> set xs. stateOf s' j = Some ''PENDING_DELETION'' \<or> goneIn s' j))"
proof (induction xs arbitrary: s)
  case Nil
  then show ?case by (intro exI [of _ "[]"]) (simp add: deletionRun_refl)
next
  case (Cons i xs)
  obtain t e where t: "initializeStep G i s = (t, e)" by fastforce
  obtain es st where es: "deletionOutcome i s es st t" "filter deletes es = []"
      "e = None \<longrightarrow> st = Some ''DELETED'' \<or> st = Some ''SKIPPED'' \<or> st = Some ''PENDING_DELETION''"
    using initialize_outcome [OF assms t] by blast
  note run = deletionRun_step [OF es(1)]
  show ?case
  proof (cases e)
    case (Some x)
    then have "s' = t" "stp = Some x" using Cons.prems(1) t by simp_all
    then show ?thesis using run es(2) deletionRun_mono [OF run, of "set (i # xs)"] by (intro exI [of _ es]) auto
  next
    case None
    then have loop: "loopE (initializeStep G) xs t = (s', stp)" using Cons.prems(1) t by simp
    obtain fs where fs: "deletionRun (set xs) t fs s'" "filter deletes fs = []"
        "stp = None \<longrightarrow> (\<forall>j \<in> set xs. stateOf s' j = Some ''PENDING_DELETION'' \<or> goneIn s' j)"
      using Cons.IH [OF loop] Cons.prems(2) by auto
    have "stateOf s' i = stateOf t i" using fs(1) Cons.prems(2) by (simp add: deletionRun_def)
    then have "stateOf s' i = Some ''PENDING_DELETION'' \<or> goneIn s' i"
      using es(1,3) None by (auto simp: deletionOutcome_def goneIn_def)
    then show ?thesis
      using deletionRun_trans [OF run fs(1)] es(2) fs(2,3) by (intro exI [of _ "es @ fs"]) auto
  qed
qed

lemma delete_loop:
  assumes "igClient G = recording c"
  shows "loopE (deleteStep G) xs s = (s', stp) \<Longrightarrow> distinct xs \<Longrightarrow>
    \<forall>j \<in> set xs. stateOf s j = Some ''PENDING_DELETION'' \<or> goneIn s j \<Longrightarrow>
    \<exists>evs. deletionRun (set xs) s evs s' \<and> length (filter deletes evs) \<le> 1 \<and>
      (stp = None \<longrightarrow> filter deletes evs = [] \<and> (\<forall>j \<in> set xs. goneIn s' j)) \<and>
      (filter deletes evs \<noteq> [] \<longrightarrow> (\<exists>as i bs. xs = as @ i # bs \<and> stateOf s' i = Some ''DELETING'' \<and> (\<forall>j \<in> set as. goneIn s' j)))"
proof (induction xs arbitrary: s)
  case Nil
  then show ?case by (intro exI [of _ "[]"]) (simp add: deletionRun_refl)
next
  case (Cons i xs)
  obtain t e where t: "deleteStep G i s = (t, e)" by fastforce
  obtain es st where es: "deletionOutcome i s es st t" "length (filter deletes es) \<le> 1"
      "filter deletes es \<noteq> [] \<longrightarrow> e \<noteq> None \<and> st = Some ''DELETING''" "e = None \<longrightarrow> goneIn t i"
    using delete_outcome [OF assms t] Cons.prems(3) by auto
  note run = deletionRun_step [OF es(1)]
  have ti: "stateOf t i = st" using es(1) by (simp add: deletionOutcome_def)
  show ?case
  proof (cases e)
    case (Some x)
    then have "s' = t" "stp = Some x" using Cons.prems(1) t by simp_all
    moreover have "\<exists>as j bs. i # xs = as @ j # bs \<and> stateOf t j = Some ''DELETING'' \<and> (\<forall>k \<in> set as. goneIn t k)"
      if "filter deletes es \<noteq> []"
      using es(3) that ti by (intro exI [of _ "[]"] exI [of _ i] exI [of _ xs]) simp
    ultimately show ?thesis
      using run es(2) deletionRun_mono [OF run, of "set (i # xs)"] by (intro exI [of _ es]) auto
  next
    case None
    then have loop: "loopE (deleteStep G) xs t = (s', stp)" using Cons.prems(1) t by simp
    have "\<forall>j \<in> set xs. stateOf t j = Some ''PENDING_DELETION'' \<or> goneIn t j"
      using Cons.prems(2,3) es(1) by (auto simp: deletionOutcome_def goneIn_def)
    then obtain fs where fs: "deletionRun (set xs) t fs s'" "length (filter deletes fs) \<le> 1"
        "stp = None \<longrightarrow> filter deletes fs = [] \<and> (\<forall>j \<in> set xs. goneIn s' j)"
        "filter deletes fs \<noteq> [] \<longrightarrow> (\<exists>as j bs. xs = as @ j # bs \<and> stateOf s' j = Some ''DELETING'' \<and> (\<forall>k \<in> set as. goneIn s' k))"
      using Cons.IH [OF loop] Cons.prems(2) by auto
    have "stateOf s' i = stateOf t i" using fs(1) Cons.prems(2) by (simp add: deletionRun_def)
    then have i: "goneIn s' i" using es(4) None by (simp add: goneIn_def)
    then have "\<exists>as j bs. i # xs = as @ j # bs \<and> stateOf s' j = Some ''DELETING'' \<and> (\<forall>k \<in> set as. goneIn s' k)"
      if "filter deletes fs \<noteq> []"
      using fs(4) that by (metis Cons_eq_appendI set_ConsD)
    moreover have "filter deletes es = []" using es(3) None by blast
    ultimately show ?thesis
      using deletionRun_trans [OF run fs(1)] i fs(2,3) by (intro exI [of _ "es @ fs"]) auto
  qed
qed

lemma finalize_outcome:
  assumes "igClient G = recording c" and "finalizeDeletion G s = (s', stp)"
  shows "\<exists>evs. reached s evs s' \<and> stateOf s' = stateOf s \<and> filter isCreate evs = [] \<and> filter deletes evs = [] \<and>
    (stp = None \<or> filter isUpdate evs \<noteq> [] \<longrightarrow> (\<forall>i. stateOf s i \<noteq> None \<longrightarrow> goneIn s i))"
proof (cases "list_ex (\<lambda>x. \<not> gone (snd x)) (isResourceStates (igState s))")
  case True
  then show ?thesis using assms(2) by (intro exI [of _ "[]"]) (auto simp: finalizeDeletion_def reached_def)
next
  case False
  have all: "\<forall>i. stateOf s i \<noteq> None \<longrightarrow> goneIn s i"
  proof (intro allI impI)
    fix i assume "stateOf s i \<noteq> None"
    then obtain rs where rs: "map_of (isResourceStates (igState s)) i = Some rs" by (auto simp: stateOf_def)
    then have "gone rs" using False map_of_SomeD [OF rs] by (auto simp: list_ex_iff)
    then show "goneIn s i" using rs by (auto simp: goneIn_def gone_def stateOf_def)
  qed
  let ?inst = "GetInstance (igRuntime s)"
  let ?n = "Some (GetNamespace (uObject (igLib G)) ?inst)"
  show ?thesis
  proof (cases "\<exists>copied. managedInstance G ?inst \<and>
      RemoveInstanceFinalizerUnstructured (uNested (igLib G)) ?inst (GetUID (uObject (igLib G)) ?inst) = Inr copied")
    case True
    then obtain copied where cp: "managedInstance G ?inst"
        "RemoveInstanceFinalizerUnstructured (uNested (igLib G)) ?inst (GetUID (uObject (igLib G)) ?inst) = Inr copied" by blast
    obtain x w where x: "clientUpdate (igClient G) (igGvr G) ?n copied (igWorld s) = (x, w)" by (rule prod.exhaust)
    then have "snd w = snd (igWorld s) @ [EvUpdate (igGvr G) ?n copied x]" using recording_events(4) assms(1) by simp
    then show ?thesis
      using assms(2) False cp x all by (intro exI [of _ "[EvUpdate (igGvr G) ?n copied x]"])
        (auto simp: finalizeDeletion_def setUnmanaged_def updateInstance_def reached_def split: sum.splits)
  next
    case other: False
    then have "reached s [] s' \<and> stateOf s' = stateOf s"
      using assms(2) False by (auto simp: finalizeDeletion_def setUnmanaged_def reached_def split: sum.splits if_splits)
    then show ?thesis using all by (metis filter.simps(1))
  qed
qed

text \<open>The two passes of a deletion: all resources are looked up, then deleted from the end of the order.\<close>

lemma deletion_passes:
  assumes "igClient G = recording c" and "loopE (initializeStep G) order s = (t, None)"
    and "loopE (deleteStep G) (rev order) t = (u, d)" and "distinct order"
  shows "\<exists>evs. deletionRun (set order) s evs u \<and> length (filter deletes evs) \<le> 1 \<and>
    (d = None \<longrightarrow> filter deletes evs = [] \<and> (\<forall>j \<in> set order. goneIn u j)) \<and>
    (filter deletes evs \<noteq> [] \<longrightarrow> (\<exists>ys i zs. order = ys @ i # zs \<and> stateOf u i = Some ''DELETING'' \<and> (\<forall>j \<in> set zs. goneIn u j)))"
proof -
  obtain es where es: "deletionRun (set order) s es t" "filter deletes es = []"
      "\<forall>j \<in> set order. stateOf t j = Some ''PENDING_DELETION'' \<or> goneIn t j"
    using initialize_loop [OF assms(1,2,4)] by blast
  obtain fs where fs: "deletionRun (set order) t fs u" "length (filter deletes fs) \<le> 1"
      "d = None \<longrightarrow> filter deletes fs = [] \<and> (\<forall>j \<in> set order. goneIn u j)"
      "filter deletes fs \<noteq> [] \<longrightarrow> (\<exists>as i bs. rev order = as @ i # bs \<and> stateOf u i = Some ''DELETING'' \<and> (\<forall>j \<in> set as. goneIn u j))"
    using delete_loop [OF assms(1,3)] assms(4) es(3) by auto
  have "\<exists>ys i zs. order = ys @ i # zs \<and> stateOf u i = Some ''DELETING'' \<and> (\<forall>j \<in> set zs. goneIn u j)"
    if fd: "filter deletes fs \<noteq> []"
  proof -
    obtain as i bs where "rev order = as @ i # bs" "stateOf u i = Some ''DELETING''" "\<forall>j \<in> set as. goneIn u j"
      using fs(4) fd by blast
    moreover from this(1) have "order = rev bs @ i # rev as" by (simp add: rev_swap)
    ultimately show ?thesis by (metis set_rev)
  qed
  moreover have "deletionRun (set order) s (es @ fs) u" using deletionRun_trans [OF es(1) fs(1)] by simp
  ultimately show ?thesis using es(2) fs(2,3) by (intro exI [of _ "es @ fs"]) auto
qed

lemma deletion_outcome:
  assumes "igClient G = recording c" and "handleInstanceDeletion G s = (s', stp)" and "distinct (topologicalOrder (igRuntime s))"
    and "\<forall>j. stateOf s j = None"
  shows "\<exists>evs. reached s evs s' \<and> filter isCreate evs = [] \<and> length (filter deletes evs) \<le> 1 \<and>
    (filter deletes evs \<noteq> [] \<longrightarrow> (\<exists>ys i zs. topologicalOrder (igRuntime s) = ys @ i # zs \<and>
       stateOf s' i = Some ''DELETING'' \<and> (\<forall>j \<in> set zs. goneIn s' j))) \<and>
    (stp = None \<or> filter isUpdate evs \<noteq> [] \<longrightarrow> (\<forall>i \<in> set (topologicalOrder (igRuntime s)). goneIn s' i)) \<and>
    (\<forall>j. stateOf s' j = Some ''DELETED'' \<longrightarrow> absent evs (igRuntime s) j)"
proof -
  let ?order = "topologicalOrder (igRuntime s)"
  obtain t e where t: "loopE (initializeStep G) ?order s = (t, e)" by fastforce
  obtain es where es: "deletionRun (set ?order) s es t" "filter deletes es = []"
    using initialize_loop [OF assms(1) t assms(3)] by blast
  have order: "topologicalOrder (igRuntime t) = ?order" using es(1) by (simp add: deletionRun_def reached_def api.order_kept)
  obtain u d where u: "loopE (deleteStep G) (rev ?order) t = (u, d)" by fastforce
  note code = handleInstanceDeletion_def initializeDeletionState_def deleteResourcesInOrder_def
  consider (lookup) x where "e = Some x" | (deleting) x where "e = None" "d = Some x" | (passed) "e = None" "d = None" by blast
  then show ?thesis
  proof cases
    case lookup
    then have "s' = t" "stp \<noteq> None" using assms(2) t by (auto simp: code split: stop.splits)
    then show ?thesis using es assms(4) by (intro exI [of _ es]) (auto simp: deletionRun_def plain_def)
  next
    case deleting
    then have "s' = u" "stp = Some x" using assms(2) t u order by (simp_all add: code)
    moreover obtain fs where fs: "deletionRun (set ?order) s fs u" "length (filter deletes fs) \<le> 1"
        "filter deletes fs \<noteq> [] \<longrightarrow> (\<exists>ys i zs. ?order = ys @ i # zs \<and> stateOf u i = Some ''DELETING'' \<and> (\<forall>j \<in> set zs. goneIn u j))"
      using deletion_passes [OF assms(1) t [unfolded deleting(1)] u assms(3)] by blast
    ultimately show ?thesis using assms(4) by (intro exI [of _ fs]) (auto simp: deletionRun_def plain_def)
  next
    case passed
    then have fin: "finalizeDeletion G u = (s', stp)" using assms(2) t u order by (simp add: code)
    obtain gs where gs: "reached u gs s'" "stateOf s' = stateOf u" "filter isCreate gs = []" "filter deletes gs = []"
      using finalize_outcome [OF assms(1) fin] by blast
    obtain fs where fs: "deletionRun (set ?order) s fs u" "filter deletes fs = []" "\<forall>j \<in> set ?order. goneIn u j"
      using deletion_passes [OF assms(1) t [unfolded passed(1)] u assms(3)] passed(2) by blast
    have "\<forall>j. stateOf s' j = Some ''DELETED'' \<longrightarrow> absent (fs @ gs) (igRuntime s) j"
      using fs(1) assms(4) gs(2) absent_mono [of fs _ _ "fs @ gs"] by (auto simp: deletionRun_def)
    moreover have "reached s (fs @ gs) s'" using fs(1) reached_trans [OF _ gs(1), of s fs] by (simp add: deletionRun_def)
    ultimately show ?thesis
      using fs gs(2-4) by (intro exI [of _ "fs @ gs"]) (auto simp: deletionRun_def plain_def goneIn_def)
  qed
qed

section \<open>The status that is written\<close>

lemma initializeStep_isState:
  assumes "initializeStep G i s = (s', e)"
  shows "isState (igState s') = isState (igState s)"
proof -
  obtain t d where t: "syncStep G (ErrorfWrap ''failed to synchronize during deletion state initialization'') s = (t, d)" by fastforce
  have "igState t = igState s" using syncStep_keeps [OF t] by simp
  then show ?thesis
    using assms t by (auto simp: initializeStep_def split: option.splits prod.splits if_splits sum.splits)
qed

lemma deleteStep_isState: "deleteStep G i s = (s', e) \<Longrightarrow> isState (igState s') = isState (igState s)"
  by (auto simp: deleteStep_def deleteResource_def Let_def split: option.splits prod.splits if_splits)

lemma handleInstanceDeletion_isState:
  assumes "handleInstanceDeletion G s = (s', stp)"
  shows "isState (igState s') = isState (igState s)"
proof -
  obtain t e where t: "initializeDeletionState G s = (t, e)" by fastforce
  obtain u d where u: "deleteResourcesInOrder G t = (u, d)" by fastforce
  have "isState (igState t) = isState (igState s)"
    using isState.loop_kept [OF t [unfolded initializeDeletionState_def]] initializeStep_isState by blast
  moreover have "isState (igState u) = isState (igState t)"
    using isState.loop_kept [OF u [unfolded deleteResourcesInOrder_def]] deleteStep_isState by blast
  ultimately show ?thesis
    using assms t u by (auto simp: handleInstanceDeletion_def finalizeDeletion_def split: option.splits stop.splits if_splits prod.splits sum.splits)
qed

lemma resolvedStatus_keeps:
  assumes "map_of (GetInstance r) ''status'' = Some (VMap m)" and "distinct (map fst m)" and "k \<noteq> ''conditions''"
  shows "map_of (getResolvedStatus r) k = map_of m k"
proof -
  let ?f = "\<lambda>(k :: string, v :: val) status. if k \<noteq> ''conditions'' then AList.update k v status else status"
  have "map_of (fold ?f xs acc) k = (case map_of (rev xs) k of None \<Rightarrow> map_of acc k | Some v \<Rightarrow> Some v)" for xs acc
    using assms(3) by (induction xs arbitrary: acc) (auto simp: gomap_simps map_add_def split: option.splits)
  moreover have "map_of (rev m) = map_of m" using map_of_inject_set [of "rev m" m] assms(2) by (simp add: rev_map [symmetric])
  ultimately show ?thesis using assms(1,3) by (simp add: getResolvedStatus_def split: option.splits)
qed

text \<open>The state an instance is left in.\<close>

definition finalState :: "bool \<Rightarrow> stop option \<Rightarrow> string" where
  "finalState deleting stp =
     (case stp of
        Some (StopErr e) \<Rightarrow> (if isRequeue e then if deleting then ''DELETING'' else ''IN_PROGRESS'' else ''ERROR'')
      | _ \<Rightarrow> if deleting then ''DELETING'' else ''ACTIVE'')"

lemma handleReconciliation_status:
  assumes "igClient G = recording c" and "handleReconciliation G f s = (s', stp)" and "stp \<noteq> Some StopPanic" and "f s = (s1, r)"
    and "isState (igState s1) = (if deleting then ''DELETING'' else ''IN_PROGRESS'')"
  shows "isState (igState s') = finalState deleting stp \<and>
    isReconcileErr (igState s') = (case stp of Some (StopErr e) \<Rightarrow> Some e | _ \<Rightarrow> None) \<and>
    (\<exists>pre n x. snd (igWorld s') = pre @ [EvUpdateStatus (igGvr G) n
       (AList.update ''status'' (VMap (prepareStatus G s')) (GetInstance (igRuntime s'))) x])"
proof -
  let ?err = "case r of Some (StopErr e) \<Rightarrow> Some e | _ \<Rightarrow> None"
  let ?s2 = "s1\<lparr>igState := updateInstanceState ((igState s1)\<lparr>isReconcileErr := ?err\<rparr>)\<rparr>"
  let ?inst = "AList.update ''status'' (VMap (prepareStatus G ?s2)) (GetInstance (igRuntime s1))"
  let ?n = "Some (GetNamespace (uObject (igLib G)) ?inst)"
  obtain x w where x: "clientUpdateStatus (igClient G) (igGvr G) ?n ?inst (igWorld s1) = (x, w)" by (rule prod.exhaust)
  then have w: "snd w = snd (igWorld s1) @ [EvUpdateStatus (igGvr G) ?n ?inst x]" using recording_events(5) assms(1) by simp
  have s': "s' = ?s2\<lparr>igWorld := w\<rparr>" "stp = r"
    using assms(2-4) x
    by (auto simp: handleReconciliation_def patchInstanceStatus_def Let_def split: option.splits stop.splits sum.splits prod.splits)
  have "prepareStatus G s' = prepareStatus G ?s2" using s'(1) by (simp add: prepareStatus_def)
  then have "\<exists>pre n x. snd (igWorld s') = pre @ [EvUpdateStatus (igGvr G) n
       (AList.update ''status'' (VMap (prepareStatus G s')) (GetInstance (igRuntime s'))) x]"
    using w s'(1) by auto
  moreover have "isState (igState s') = finalState deleting stp"
    "isReconcileErr (igState s') = (case stp of Some (StopErr e) \<Rightarrow> Some e | _ \<Rightarrow> None)"
    using s' assms(3,5) by (auto simp: updateInstanceState_def finalState_def split: option.splits stop.splits)
  ultimately show ?thesis by blast
qed

text \<open>The runtime of a graph has the order and the dependencies of the graph.\<close>

lemma new_runtime_steady:
  assumes "NewResourceGroupRuntime ff C inst resources order = Inr r"
  shows "topologicalOrder r = order \<and>
    map_option resDependencies (map_of (rtResources r) i) = map_option resDependencies (map_of resources i)"
proof -
  let ?b = "builtRuntime inst resources order"
  obtain r1 where r1: "evaluateStaticVariables C ?b = (r1, None)" "propagateResourceVariables ff r1 = (r, None)"
    using assms by (auto simp: NewResourceGroupRuntime_def Let_def builtRuntime_def split: prod.splits option.splits)
  have "rt_inv ?b" using builtRuntime_fresh [of inst resources order] by (auto simp: fresh_inv_def)
  then have st: "staticRound C ?b r1" using evaluateStatic_round [OF _ r1(1)] by blast
  have steady: "steady r1 r" by (rule steady_propagate [OF r1(2)])
  have "map_of (rtResources r1) i = map_of resources i" "topologicalOrder r1 = order"
    using st by (simp_all add: staticRound_def builtRuntime_parts)
  moreover have "map_option resDependencies (map_of (rtResources r) i) = map_option resDependencies (map_of (rtResources r1) i)"
    using arg_cong [OF steady_bare [OF steady], of "\<lambda>rs. map_option resDependencies (map_of rs i)"]
    by (simp add: bareResources_map_of option.map_comp comp_def)
  ultimately show ?thesis using steady by (simp add: steady_def)
qed

lemma reconcile_outcome:
  assumes "igClient G = recording c" and "\<not> uDeleting (igLib G) (GetInstance (igRuntime s))" and "reconcile G s = (s', stp)"
    and "distinct (topologicalOrder (igRuntime s))" and "dependenciesFirst (igRuntime s)"
  shows "\<exists>evs. snd (igWorld s') = snd (igWorld s) @ evs \<and> filter isDelete evs = [] \<and> length (filter isCreate evs) \<le> 1 \<and>
    (stp = None \<longrightarrow> filter isCreate evs = [] \<and> settled s' (set (topologicalOrder (igRuntime s))) \<and>
       isState (igState s') = ''ACTIVE'') \<and>
    (filter isCreate evs \<noteq> [] \<longrightarrow> (\<exists>ys i zs. topologicalOrder (igRuntime s) = ys @ i # zs \<and>
       (\<forall>res. map_of (rtResources (igRuntime s)) i = Some res \<longrightarrow>
          createdAt s' ys i zs (resDependencies res) \<and> set (resDependencies res) \<subseteq> set ys)))"
proof -
  let ?s = "s\<lparr>igState := newInstanceState\<rparr>"
  have "handleReconciliation G (reconcileInstance G) ?s = (s', stp)"
    using assms(2,3) by (simp add: reconcile_def Let_def)
  then obtain s1 es where s1: "reconcileInstance G ?s = (s1, stp)" "reached s1 es s'" "stateOf s' = stateOf s1"
      "igRuntime s' = igRuntime s1" "filter isCreate es = []" "filter isDelete es = []"
      "stp = None \<Longrightarrow> isState (igState s') = (if isState (igState s1) = ''DELETING'' then ''DELETING'' else ''ACTIVE'')"
    by (rule handleReconciliation_outcome [OF assms(1)]) blast
  have st: "isState (igState s1) = ''IN_PROGRESS''"
    using reconcileInstance_isState [OF s1(1)] by (simp add: newInstanceState_def)
  obtain evs where evs: "reached ?s evs s1" "filter isDelete evs = []" "length (filter isCreate evs) \<le> 1"
      "stp = None \<longrightarrow> settled s1 (set (topologicalOrder (igRuntime s)))"
      "filter isCreate evs \<noteq> [] \<longrightarrow> stp \<noteq> None \<and> (\<exists>ys i zs. topologicalOrder (igRuntime s) = ys @ i # zs \<and>
         (\<forall>res. map_of (rtResources (igRuntime s)) i = Some res \<longrightarrow>
            createdAt s1 ys i zs (resDependencies res) \<and> set (resDependencies res) \<subseteq> set ys))"
    using reconcileInstance_outcome [OF assms(1) s1(1)] assms(4,5) by auto
  have same: "settled s' I = settled s1 I" "createdAt s' ys i zs deps = createdAt s1 ys i zs deps" for I ys i zs deps
    using s1(3,4) by (simp_all add: settled_def createdAt_def)
  show ?thesis
    unfolding same
    using evs s1(2,5,6,7) st reached_trans [OF evs(1) s1(2)] by (intro exI [of _ "evs @ es"]) (auto simp: reached_def)
qed

lemma deletion_reconcile:
  assumes "igClient G = recording c" and "uDeleting (igLib G) (GetInstance (igRuntime s))" and "reconcile G s = (s', stp)"
    and "distinct (topologicalOrder (igRuntime s))"
  shows "\<exists>evs. snd (igWorld s') = snd (igWorld s) @ evs \<and> filter isCreate evs = [] \<and> length (filter deletes evs) \<le> 1 \<and>
    (filter deletes evs \<noteq> [] \<longrightarrow> (\<exists>ys i zs. topologicalOrder (igRuntime s) = ys @ i # zs \<and>
       stateOf s' i = Some ''DELETING'' \<and> (\<forall>j \<in> set zs. goneIn s' j))) \<and>
    (stp = None \<or> filter isUpdate evs \<noteq> [] \<longrightarrow> (\<forall>i \<in> set (topologicalOrder (igRuntime s)). goneIn s' i)) \<and>
    (\<forall>j. stateOf s' j = Some ''DELETED'' \<longrightarrow> absent evs (igRuntime s) j)"
proof -
  let ?s = "s\<lparr>igState := newInstanceState\<lparr>isState := ''DELETING''\<rparr>\<rparr>"
  have "handleReconciliation G (handleInstanceDeletion G) ?s = (s', stp)"
    using assms(2,3) by (simp add: reconcile_def Let_def)
  then obtain s1 es where s1: "handleInstanceDeletion G ?s = (s1, stp)" "reached s1 es s'" "stateOf s' = stateOf s1"
      "filter isCreate es = []" "filter isDelete es = []" "filter isUpdate es = []"
    by (rule handleReconciliation_outcome [OF assms(1)]) blast
  have "\<forall>j. stateOf ?s j = None" by (simp add: stateOf_def newInstanceState_def)
  then obtain evs where evs: "reached ?s evs s1" "filter isCreate evs = []" "length (filter deletes evs) \<le> 1"
      "filter deletes evs \<noteq> [] \<longrightarrow> (\<exists>ys i zs. topologicalOrder (igRuntime s) = ys @ i # zs \<and>
         stateOf s1 i = Some ''DELETING'' \<and> (\<forall>j \<in> set zs. goneIn s1 j))"
      "stp = None \<or> filter isUpdate evs \<noteq> [] \<longrightarrow> (\<forall>i \<in> set (topologicalOrder (igRuntime s)). goneIn s1 i)"
      "\<forall>j. stateOf s1 j = Some ''DELETED'' \<longrightarrow> absent evs (igRuntime s) j"
    using deletion_outcome [OF assms(1) s1(1)] assms(4) by auto
  have "deletes ev \<Longrightarrow> isDelete ev" for ev by (cases ev rule: deletes.cases) simp_all
  then have none: "filter deletes es = []" using s1(5) by (auto simp: filter_empty_conv)
  have same: "goneIn s' = goneIn s1" using s1(3) by (simp add: goneIn_def fun_eq_iff)
  have "\<forall>j. stateOf s1 j = Some ''DELETED'' \<longrightarrow> absent (evs @ es) (igRuntime s) j"
    using evs(6) absent_mono [of evs "igRuntime s" _ "evs @ es"] by auto
  then show ?thesis
    unfolding same s1(3)
    using evs(2-5) s1(4,6) none reached_trans [OF evs(1) s1(2)] by (intro exI [of _ "evs @ es"]) (auto simp: reached_def)
qed

section \<open>Properties\<close>

text \<open>
  One reconciliation of a live instance deletes nothing and creates at most one object. If it
  creates one, the resources before it in the topological order are synced or skipped, those
  after it were not looked at, and every resource it depends on is synced, that is, observed
  and ready. If it returns no error, nothing was created, every resource is synced or skipped, and
  the instance is active.
\<close>

lemma reconcile_creates_in_order:
  assumes "igClient G = recording c" and "\<not> uDeleting (igLib G) (GetInstance (igRuntime s))" and "reconcile G s = (s', stp)"
    and "distinct (topologicalOrder (igRuntime s))" and "dependenciesFirst (igRuntime s)"
  shows "\<exists>evs. snd (igWorld s') = snd (igWorld s) @ evs \<and> filter isDelete evs = [] \<and> length (filter isCreate evs) \<le> 1 \<and>
    (stp = None \<longrightarrow> filter isCreate evs = [] \<and> settled s' (set (topologicalOrder (igRuntime s))) \<and>
       isState (igState s') = ''ACTIVE'') \<and>
    (filter isCreate evs \<noteq> [] \<longrightarrow> (\<exists>ys i zs. topologicalOrder (igRuntime s) = ys @ i # zs \<and>
       (\<forall>res. map_of (rtResources (igRuntime s)) i = Some res \<longrightarrow>
          createdAt s' ys i zs (resDependencies res) \<and> set (resDependencies res) \<subseteq> set ys)))"
  using reconcile_outcome [OF assms] .

definition fieldString :: "string \<Rightarrow> val gomap \<Rightarrow> string" where
  "fieldString k obj = (case map_of obj k of Some (VStr s) \<Rightarrow> s | _ \<Rightarrow> [])"

definition sampleLib :: unstructuredLib where
  "sampleLib =
     \<lparr>uObject = \<lparr>GetName = fieldString ''name'', GetNamespace = fieldString ''namespace'', GetUID = fieldString ''uid'',
        GetLabels = (\<lambda>obj. None), SetLabels = (\<lambda>obj ls. obj), GetFinalizers = (\<lambda>obj. []), SetFinalizers = (\<lambda>obj fs. obj)\<rparr>,
      uNested = sampleNested, uGeneration = (\<lambda>obj. 1), uDeleting = (\<lambda>obj. map_of obj ''deletionTimestamp'' \<noteq> None)\<rparr>"

text \<open>An API server without objects, and one that has every object.\<close>

definition emptyServer :: "unit dynClient" where
  "emptyServer =
     \<lparr>clientGet = (\<lambda>g n x w. (Inl (NotFound x), w)), clientCreate = (\<lambda>g n x w. (Inr x, w)),
      clientDelete = (\<lambda>g n x w. (Some (NotFound x), w)), clientUpdate = (\<lambda>g n x w. (Inr x, w)),
      clientUpdateStatus = (\<lambda>g n x w. (Inr x, w))\<rparr>"

definition fullServer :: "unit dynClient" where
  "fullServer = emptyServer\<lparr>clientGet := (\<lambda>g n x w. (Inr [(''name'', VStr x)], w)), clientDelete := (\<lambda>g n x w. (None, w))\<rparr>"

definition sampleReconciler :: "'w dynClient \<Rightarrow> ('w \<times> api_event list) reconciler" where
  "sampleReconciler c =
     \<lparr>igFloat = (\<lambda>w. []), igText = (\<lambda>e. []), igCel = sampleCel, igLib = sampleLib, igNow = ''now'', igGvr = sampleGvr,
      igClient = recording c, igInstanceLabeler = [], igSubResourcesLabeler = [], igRequeueDuration = 3000000000\<rparr>"

definition sampleStart :: "rt \<Rightarrow> (unit \<times> api_event list) igr" where
  "sampleStart r = \<lparr>igRuntime = r, igState = newInstanceState, igWorld = ((), [])\<rparr>"

lemma sampleRuntime_order: "dependenciesFirst sampleRuntime"
proof -
  have "set (resDependencies res) \<subseteq> set ys"
    if "[''vpc'', ''subnet''] = ys @ i # zs" "map_of (rtResources sampleRuntime) i = Some res" for ys i zs res
    using that by (auto simp: sampleRuntime_def sampleNode_def Cons_eq_append_conv split: if_splits)
  then show ?thesis by (auto simp: dependenciesFirst_def sampleRuntime_def)
qed

lemma reconcile_creates_in_order_witness:
  "\<exists>s' stp evs. reconcile (sampleReconciler emptyServer) (sampleStart sampleRuntime) = (s', stp) \<and>
     snd (igWorld s') = evs \<and> length (filter isCreate evs) = 1 \<and> stateOf s' ''vpc'' = Some ''CREATED'' \<and>
     stateOf s' ''subnet'' = Some ''PENDING'' \<and> filter isDelete evs = []"
proof -
  let ?G = "sampleReconciler emptyServer" and ?s = "sampleStart sampleRuntime"
  obtain s' stp where r: "reconcile ?G ?s = (s', stp)" by fastforce
  have "igClient ?G = recording emptyServer" by (simp add: sampleReconciler_def)
  moreover have "\<not> uDeleting (igLib ?G) (GetInstance (igRuntime ?s))" "distinct (topologicalOrder (igRuntime ?s))" by code_simp+
  moreover have "dependenciesFirst (igRuntime ?s)" using sampleRuntime_order by (simp add: sampleStart_def)
  ultimately have "filter isDelete (snd (igWorld s')) = []"
    using reconcile_creates_in_order [OF _ _ r] by (fastforce simp: sampleStart_def)
  moreover have "length (filter isCreate (snd (igWorld (fst (reconcile ?G ?s))))) = 1"
      "stateOf (fst (reconcile ?G ?s)) ''vpc'' = Some ''CREATED''" "stateOf (fst (reconcile ?G ?s)) ''subnet'' = Some ''PENDING''"
    by code_simp+
  ultimately show ?thesis using r by auto
qed

text \<open>
  C3. One reconciliation of an instance that is being deleted creates nothing and deletes at most
  one object. If it deletes one, the resources after it in the topological order, in
  particular those that depend on it, are gone or were skipped. The finalizer of the instance is
  removed, and success reported, only when every resource is gone or was skipped; a resource counts
  as gone only when the API server answered that its object does not exist.
\<close>

theorem deletion_in_reverse_order:
  assumes "igClient G = recording c" and "uDeleting (igLib G) (GetInstance (igRuntime s))" and "reconcile G s = (s', stp)"
    and "distinct (topologicalOrder (igRuntime s))"
  shows "\<exists>evs. snd (igWorld s') = snd (igWorld s) @ evs \<and> filter isCreate evs = [] \<and> length (filter deletes evs) \<le> 1 \<and>
    (filter deletes evs \<noteq> [] \<longrightarrow> (\<exists>ys i zs. topologicalOrder (igRuntime s) = ys @ i # zs \<and>
       stateOf s' i = Some ''DELETING'' \<and> (\<forall>j \<in> set zs. goneIn s' j))) \<and>
    (stp = None \<or> filter isUpdate evs \<noteq> [] \<longrightarrow> (\<forall>i \<in> set (topologicalOrder (igRuntime s)). goneIn s' i)) \<and>
    (\<forall>j. stateOf s' j = Some ''DELETED'' \<longrightarrow> absent evs (igRuntime s) j)"
  using deletion_reconcile [OF assms] .

definition sampleDeleting :: rt where
  "sampleDeleting = sampleRuntime\<lparr>rtInstance := sampleInstance\<lparr>originalObject := [(''deletionTimestamp'', VStr ''t'')]\<rparr>\<rparr>"

theorem deletion_in_reverse_order_witness:
  "\<exists>s' stp evs. reconcile (sampleReconciler fullServer) (sampleStart sampleDeleting) = (s', stp) \<and>
     snd (igWorld s') = evs \<and> length (filter deletes evs) = 1 \<and> stateOf s' ''subnet'' = Some ''DELETING'' \<and>
     stateOf s' ''vpc'' = Some ''PENDING_DELETION'' \<and> filter isCreate evs = []"
proof -
  let ?G = "sampleReconciler fullServer" and ?s = "sampleStart sampleDeleting"
  obtain s' stp where r: "reconcile ?G ?s = (s', stp)" by fastforce
  have "igClient ?G = recording fullServer" by (simp add: sampleReconciler_def)
  moreover have "uDeleting (igLib ?G) (GetInstance (igRuntime ?s))" "distinct (topologicalOrder (igRuntime ?s))" by code_simp+
  ultimately have "filter isCreate (snd (igWorld s')) = []"
    using deletion_in_reverse_order [OF _ _ r] by (fastforce simp: sampleStart_def)
  moreover have "length (filter deletes (snd (igWorld (fst (reconcile ?G ?s))))) = 1"
      "stateOf (fst (reconcile ?G ?s)) ''subnet'' = Some ''DELETING''" "stateOf (fst (reconcile ?G ?s)) ''vpc'' = Some ''PENDING_DELETION''"
    by code_simp+
  ultimately show ?thesis using r by auto
qed



end
