(* ===== verification/Instance_Progress.thy ===== *)
theory Instance_Progress
  imports Instance_Safety
begin

text \<open>
  Repeated reconciliation reaches its goal. A reconciliation of a live instance that meets no obstacle
  either finishes or creates an object that did not exist; a deletion either finishes, or has an object
  marked for deletion that was not, or waits for one that was marked before and has finalizers left.
  With finitely many objects, finitely many reconciliations other than those that wait are enough.
\<close>

section \<open>An API server\<close>

text \<open>
  A server that is reached and grants the calls of a live instance, as a set of objects: \<open>Get\<close> finds exactly
  the objects that exist, \<open>Create\<close> makes one that does not exist, and updates keep the set.
\<close>

type_synonym object_key = "GroupVersionResource \<times> string option \<times> string"

definition api_server :: "val gomap metav1Object \<Rightarrow> 'w dynClient \<Rightarrow> ('w \<Rightarrow> object_key set) \<Rightarrow> bool" where
  "api_server U c objects \<longleftrightarrow>
     (\<forall>g n x w r w'. clientGet c g n x w = (r, w') \<longrightarrow> objects w' = objects w \<and>
        (case r of Inl e \<Rightarrow> IsNotFound e \<and> (g, n, x) \<notin> objects w | Inr _ \<Rightarrow> (g, n, x) \<in> objects w)) \<and>
     (\<forall>g n obj w r w'. clientCreate c g n obj w = (r, w') \<longrightarrow> (g, n, GetName U obj) \<notin> objects w \<longrightarrow>
        \<not> isl r \<and> objects w' = insert (g, n, GetName U obj) (objects w)) \<and>
     (\<forall>g n obj w r w'. clientUpdate c g n obj w = (r, w') \<longrightarrow> \<not> isl r \<and> objects w' = objects w) \<and>
     (\<forall>g n obj w r w'. clientUpdateStatus c g n obj w = (r, w') \<longrightarrow> objects w' = objects w)"

text \<open>
  A server that grants the calls of a deletion. \<open>objects\<close> are the objects that exist, \<open>live\<close> those of them that are
  not marked for deletion. \<open>Delete\<close> of an object that exists is accepted; afterwards the object is gone or,
  when it has finalizers, marked. \<open>Get\<close> finds an object as long as it exists. An update may take
  away the last finalizer of a marked object, and with it the object; it makes none.
\<close>

definition deletion_server :: "'w dynClient \<Rightarrow> ('w \<Rightarrow> object_key set) \<Rightarrow> ('w \<Rightarrow> object_key set) \<Rightarrow> bool" where
  "deletion_server c objects live \<longleftrightarrow>
     (\<forall>g n x w r w'. clientGet c g n x w = (r, w') \<longrightarrow> objects w' = objects w \<and> live w' = live w \<and>
        (case r of Inl e \<Rightarrow> IsNotFound e \<and> (g, n, x) \<notin> objects w | Inr _ \<Rightarrow> (g, n, x) \<in> objects w)) \<and>
     (\<forall>g n x w r w'. clientDelete c g n x w = (r, w') \<longrightarrow> objects w - {(g, n, x)} \<subseteq> objects w' \<and> objects w' \<subseteq> objects w \<and>
        live w' = live w - {(g, n, x)} \<and>
        (case r of Some e \<Rightarrow> IsNotFound e \<and> (g, n, x) \<notin> objects w | None \<Rightarrow> (g, n, x) \<in> objects w)) \<and>
     (\<forall>g n obj w r w'. clientUpdate c g n obj w = (r, w') \<longrightarrow> \<not> isl r \<and> live w' \<subseteq> live w) \<and>
     (\<forall>g n obj w r w'. clientUpdateStatus c g n obj w = (r, w') \<longrightarrow> live w' \<subseteq> live w) \<and>
     (\<forall>w. live w \<subseteq> objects w)"

text \<open>Labels are no part of the name.\<close>

definition names_kept :: "val gomap metav1Object \<Rightarrow> bool" where
  "names_kept U \<longleftrightarrow> (\<forall>obj ls. GetName U (SetLabels U obj ls) = GetName U obj)"

lemma GetName_ApplyLabels: "names_kept U \<Longrightarrow> GetName U (ApplyLabels U gl obj) = GetName U obj"
  unfolding ApplyLabels_def by (induction gl arbitrary: obj) (auto simp: setLabel_def names_kept_def)

lemma recorded:
  "clientGet (recording c) g n x w = (r, w') \<Longrightarrow> clientGet c g n x (fst w) = (r, fst w')"
  "clientCreate (recording c) g n obj w = (r, w') \<Longrightarrow> clientCreate c g n obj (fst w) = (r, fst w')"
  "clientDelete (recording c) g n x w = (e, w') \<Longrightarrow> clientDelete c g n x (fst w) = (e, fst w')"
  "clientUpdate (recording c) g n obj w = (r, w') \<Longrightarrow> clientUpdate c g n obj (fst w) = (r, fst w')"
  "clientUpdateStatus (recording c) g n obj w = (r, w') \<Longrightarrow> clientUpdateStatus c g n obj (fst w) = (r, fst w')"
  by (auto simp: recording_def noted_def split: prod.splits)

lemma server_calls:
  assumes "api_server U c objects"
  shows "clientGet (recording c) g n x w = (r, w') \<Longrightarrow> objects (fst w') = objects (fst w) \<and>
      (case r of Inl e \<Rightarrow> IsNotFound e \<and> (g, n, x) \<notin> objects (fst w) | Inr _ \<Rightarrow> (g, n, x) \<in> objects (fst w))"
    "clientCreate (recording c) g n obj w = (r, w') \<Longrightarrow> (g, n, GetName U obj) \<notin> objects (fst w) \<Longrightarrow>
      \<not> isl r \<and> objects (fst w') = insert (g, n, GetName U obj) (objects (fst w))"
    "clientUpdate (recording c) g n obj w = (r, w') \<Longrightarrow> \<not> isl r \<and> objects (fst w') = objects (fst w)"
    "clientUpdateStatus (recording c) g n obj w = (r, w') \<Longrightarrow> objects (fst w') = objects (fst w)"
proof (goal_cases)
  case 1
  then show ?case using assms recorded(1) unfolding api_server_def by metis
next
  case 2
  then show ?case using assms recorded(2) unfolding api_server_def by metis
next
  case 3
  then show ?case using assms recorded(4) unfolding api_server_def by metis
next
  case 4
  then show ?case using assms recorded(5) unfolding api_server_def by metis
qed

section \<open>One resource\<close>

text \<open>The ways in which the reconciliation of a resource ends on such a server.\<close>

lemma handle_cases:
  assumes "igClient G = recording c" and "api_server (uObject (igLib G)) c objects" and "names_kept (uObject (igLib G))"
    and "handleResourceReconciliation G i res s = (s', stp)"
  obtains (panic) "stp = Some StopPanic" "objects (fst (igWorld s')) = objects (fst (igWorld s))"
    | (created) "stateOf s' = (stateOf s)(i \<mapsto> ''CREATED'')" "objects (fst (igWorld s)) \<subset> objects (fst (igWorld s'))"
        "stp = Some (StopErr (delayedRequeue G (Errorf ''awaiting resource creation completion'')))"
    | (waiting) "stateOf s' = (stateOf s)(i \<mapsto> ''WAITING_FOR_READINESS'')" "objects (fst (igWorld s')) = objects (fst (igWorld s))"
        "stp \<noteq> None"
    | (synced) obs where "stp = None" "igRuntime s' = SetResource i obs (igRuntime s)"
        "objects (fst (igWorld s')) = objects (fst (igWorld s))" "stateOf s' = (stateOf s)(i \<mapsto> ''SYNCED'')"
proof (cases "getResourceClient G (igRuntime s) i")
  case None
  then show thesis using assms(4) by (intro panic) (auto simp: handleResourceReconciliation_def)
next
  case rc: (Some rc)
  let ?U = "uObject (igLib G)"
  obtain x w where x: "clientGet (recording c) (fst rc) (snd rc) (GetName ?U res) (igWorld s) = (x, w)" by (rule prod.exhaust)
  note get = server_calls(1) [OF assms(2) x]
  show thesis
  proof (cases x)
    case (Inl e)
    let ?obj = "ApplyLabels ?U (igSubResourcesLabeler G) res"
    obtain y v where y: "clientCreate (recording c) (fst rc) (snd rc) ?obj w = (y, v)" by (rule prod.exhaust)
    have new: "(fst rc, snd rc, GetName ?U ?obj) \<notin> objects (fst w)" using get Inl GetName_ApplyLabels [OF assms(3)] by simp
    note cr = server_calls(2) [OF assms(2) y new]
    from cr obtain z where z: "y = Inr z" by (cases y) auto
    have nf: "IsNotFound e" using get Inl by simp
    have "s' = setRState i ''CREATED'' None (s\<lparr>igWorld := w, igRuntime := writeResource i ?obj (igRuntime s), igWorld := v\<rparr>)"
      "stp = Some (StopErr (delayedRequeue G (Errorf ''awaiting resource creation completion'')))"
      using assms(4) rc x y z Inl nf assms(1) by (simp_all add: handleResourceReconciliation_def handleResourceCreation_def)
    moreover have "objects (fst (igWorld s)) \<subset> objects (fst v)" using get new cr by auto
    ultimately show thesis by (intro created) simp_all
  next
    case (Inr obs)
    let ?t = "s\<lparr>igWorld := w, igRuntime := SetResource i obs (igRuntime s)\<rparr>"
    obtain ready reason err where rdy: "IsResourceReady (igCel G) (SetResource i obs (igRuntime s)) i = (ready, reason, err)"
      using prod_cases3 by blast
    have same: "objects (fst w) = objects (fst (igWorld s))" using get by simp
    have "handleResourceReconciliation G i res s = (if err = Some NoReturn then (?t, Some StopPanic) else if err \<noteq> None \<or> \<not> ready
        then (setRState i ''WAITING_FOR_READINESS'' (Some (NotReady reason err)) ?t, Some (StopErr (delayedRequeue G (NotReady reason err))))
        else updateResource i (setRState i ''SYNCED'' None ?t))"
      using rc x Inr rdy assms(1) by (simp add: handleResourceReconciliation_def Let_def)
    note res = assms(4) [unfolded this]
    consider "err = Some NoReturn" | "err \<noteq> Some NoReturn" "err \<noteq> None \<or> \<not> ready" | "err = None" "ready" by blast
    then show thesis
    proof cases
      case 1
      then have "s' = ?t" "stp = Some StopPanic" using res by simp_all
      then show thesis using same by (intro panic) simp_all
    next
      case 2
      then have "s' = setRState i ''WAITING_FOR_READINESS'' (Some (NotReady reason err)) ?t" "stp \<noteq> None" using res by auto
      then show thesis using same by (intro waiting) simp_all
    next
      case 3
      then have "s' = setRState i ''SYNCED'' None (setRState i ''SYNCED'' None ?t)" "stp = None" using res by (auto simp: updateResource_def)
      then show thesis using same by (intro synced [of obs]) simp_all
    qed
  qed
qed

text \<open>An error that kro itself finds: an expression that fails, or an object with malformed metadata.\<close>

fun localError :: "goerror \<Rightarrow> bool" where
  "localError (ErrorfWrap m e) = localError e"
| "localError (RuntimeErr e) = True"
| "localError (Errorf m) = True"
| "localError e = False"

fun faulty :: "stop option \<Rightarrow> bool" where
  "faulty None = False"
| "faulty (Some StopPanic) = True"
| "faulty (Some (StopErr e)) = localError e"

lemma faulty_iff: "faulty stp \<longleftrightarrow> stp = Some StopPanic \<or> (\<exists>e. stp = Some (StopErr e) \<and> localError e)"
  by (cases stp rule: faulty.cases) simp_all

lemma sync_progress:
  assumes "soundRuntime (igRuntime s)" and "\<And>e. localError e \<Longrightarrow> localError (f e)" and "syncStep G f s = (s', stp)"
  shows "igWorld s' = igWorld s" "igState s' = igState s" "evolves (igRuntime s) (igRuntime s')"
    "stp = None \<Longrightarrow> upToDate (igRuntime s')" "stp \<noteq> None \<Longrightarrow> faulty stp"
proof -
  obtain r again err where r: "Synchronize (igFloat G) (igCel G) (igRuntime s) = (r, again, err)" using prod_cases3 by blast
  have inv: "rt_inv (igRuntime s)" using assms(1) by (simp add: soundRuntime_def)
  have s': "s' = s\<lparr>igRuntime := r\<rparr>" "stp = runtimeStop f err" using assms(3) r by (simp_all add: syncStep_def)
  show "igWorld s' = igWorld s" "igState s' = igState s" "evolves (igRuntime s) (igRuntime s')"
    using s'(1) evolves_Synchronize [OF inv r] by simp_all
  show "stp = None \<Longrightarrow> upToDate (igRuntime s')" using s' Synchronize_upToDate [OF inv] r by (simp add: runtimeStop_def)
  show "stp \<noteq> None \<Longrightarrow> faulty stp" using s'(2) assms(2) [of "RuntimeErr (the err)"] by (cases err) (simp_all add: runtimeStop_def faulty_iff)
qed

lemma resource_cases:
  assumes "igClient G = recording c" and "api_server (uObject (igLib G)) c objects" and "names_kept (uObject (igLib G))"
    and "reconcileResource G i s = (s', stp)"
    and "WantToCreateResource (igCel G) (igRuntime s) i = (True, None) \<longrightarrow> (\<exists>obj. GetResource (igRuntime s) i = Some (Some obj, ResourceStateResolved))"
  obtains (panic) "stp = Some StopPanic" "objects (fst (igWorld s')) = objects (fst (igWorld s))"
    | (skipped) "stp = None" "igRuntime s' = IgnoreResource i (igRuntime s)" "igWorld s' = igWorld s"
    | (created) "stp \<noteq> None" "objects (fst (igWorld s)) \<subset> objects (fst (igWorld s'))"
    | (waiting) "stp \<noteq> None" "stateOf s' i = Some ''WAITING_FOR_READINESS''" "objects (fst (igWorld s')) = objects (fst (igWorld s))"
    | (synced) obs where "stp = None" "WantToCreateResource (igCel G) (igRuntime s) i = (True, None)"
        "igRuntime s' = SetResource i obs (igRuntime s)" "objects (fst (igWorld s')) = objects (fst (igWorld s))"
proof -
  let ?s = "setRState i ''IN_PROGRESS'' None s"
  obtain want err where want: "WantToCreateResource (igCel G) (igRuntime s) i = (want, err)" by fastforce
  consider "err = Some NoReturn" | "err \<noteq> Some NoReturn" "err \<noteq> None \<or> \<not> want" | "err = None" "want" by blast
  then show thesis
  proof cases
    case 1
    then show thesis using assms(4) want by (intro panic) (auto simp: reconcileResource_def)
  next
    case 2
    then show thesis using assms(4) want by (intro skipped) (auto simp: reconcileResource_def Let_def)
  next
    case 3
    then obtain obj where "GetResource (igRuntime s) i = Some (Some obj, ResourceStateResolved)" using assms(5) want by auto
    then have "handleResourceReconciliation G i obj ?s = (s', stp)" using assms(4) want 3 by (simp add: reconcileResource_def)
    then show thesis
    proof (cases rule: handle_cases [OF assms(1-3), consumes 1, case_names panic created waiting synced])
      case (synced obs)
      then show ?thesis using want 3 that(5) by simp
    qed (use that(1,3,4) in simp_all)
  qed
qed

lemma step_progress:
  assumes "igClient G = recording c" and "api_server (uObject (igLib G)) c objects" and "names_kept (uObject (igLib G))"
    and "soundRuntime (igRuntime s)" and "upToDate (igRuntime s)" and "topologicalOrder (igRuntime s) = pre @ i # xs"
    and "passed (igRuntime s) (set pre)" and "reconcileStep G i s = (s', stp)"
  shows "objects (fst (igWorld s)) \<subseteq> objects (fst (igWorld s')) \<and>
    (stp = None \<longrightarrow> evolves (igRuntime s) (igRuntime s') \<and> upToDate (igRuntime s') \<and> passed (igRuntime s') (set (pre @ [i]))) \<and>
    (stp \<noteq> None \<longrightarrow> objects (fst (igWorld s)) \<subset> objects (fst (igWorld s')) \<or> stateOf s' i = Some ''WAITING_FOR_READINESS'' \<or> faulty stp)"
    (is ?P)
proof -
  let ?r = "igRuntime s"
  obtain t e where t: "reconcileResource G i s = (t, e)" by fastforce
  have on: ?P if e: "e = None" and ev: "evolves ?r (igRuntime t)" and pas: "passed (igRuntime t) (set (pre @ [i]))"
    and obj: "objects (fst (igWorld t)) = objects (fst (igWorld s))"
  proof -
    let ?f = "ErrorfWrap (''failed to synchronize reconciling resource '' @ i)"
    have sync: "syncStep G ?f t = (s', stp)" using assms(8) t e by (simp add: reconcileStep_def)
    have "localError d \<Longrightarrow> localError (?f d)" for d by simp
    note p = sync_progress [OF soundRuntime_kept [OF assms(4) ev] this sync]
    then show ?P using obj evolves_trans [OF ev] passed_kept [OF pas] by auto
  qed
  have off: "s' = t \<and> stp = e" if "e \<noteq> None" using assms(8) t that by (auto simp: reconcileStep_def)
  have offered: "WantToCreateResource (igCel G) ?r i = (True, None) \<longrightarrow> (\<exists>obj. GetResource ?r i = Some (Some obj, ResourceStateResolved))"
    using wanted_offered [OF assms(4-7)] by blast
  show ?P
  proof (cases rule: resource_cases [OF assms(1-3) t offered, case_names panic skipped created waiting synced])
    case panic
    then show ?thesis using off by (auto simp: faulty_iff)
  next
    case skipped
    have "passed (IgnoreResource i ?r) (set (pre @ [i]))"
      using passed_kept [OF assms(7) evolves_sets(3)] by (auto simp: passed_def IgnoreResource_def)
    then show ?thesis using skipped by (intro on) simp_all
  next
    case (synced obs)
    have k: "known (SetResource i obs ?r) = insert i (known ?r)" by (auto simp: known_iff SetResource_def gomap_simps split: if_splits)
    have "rtResources (SetResource i obs ?r) = rtResources ?r" by (simp add: SetResource_def)
    then have "passed (SetResource i obs ?r) {i}"
      using wanted_dependencies(1) [OF assms(4,6,7) synced(2)] by (auto simp: passed_def k)
    then have "passed (SetResource i obs ?r) (set (pre @ [i]))" using passed_kept [OF assms(7) evolves_sets(1)] by (auto simp: passed_def)
    then show ?thesis using synced by (intro on) simp_all
  qed (use off in auto)
qed

lemma loop_progress:
  assumes "igClient G = recording c" and "api_server (uObject (igLib G)) c objects" and "names_kept (uObject (igLib G))"
  shows "soundRuntime (igRuntime s) \<Longrightarrow> upToDate (igRuntime s) \<Longrightarrow> topologicalOrder (igRuntime s) = pre @ xs \<Longrightarrow>
    passed (igRuntime s) (set pre) \<Longrightarrow> loopE (reconcileStep G) xs s = (s', stp) \<Longrightarrow>
    objects (fst (igWorld s)) \<subseteq> objects (fst (igWorld s')) \<and>
    (stp \<noteq> None \<longrightarrow> objects (fst (igWorld s)) \<subset> objects (fst (igWorld s')) \<or>
       (\<exists>i \<in> set xs. stateOf s' i = Some ''WAITING_FOR_READINESS'') \<or> faulty stp)"
proof (induction xs arbitrary: s pre)
  case (Cons i xs)
  obtain t e where t: "reconcileStep G i s = (t, e)" by fastforce
  note st = step_progress [OF assms Cons.prems(1-4) t]
  show ?case
  proof (cases e)
    case None
    then have "evolves (igRuntime s) (igRuntime t)" "upToDate (igRuntime t)" "passed (igRuntime t) (set (pre @ [i]))" using st by simp_all
    moreover from this(1) have "soundRuntime (igRuntime t)" "topologicalOrder (igRuntime t) = (pre @ [i]) @ xs"
      using soundRuntime_kept Cons.prems(1,3) api.order_kept by (auto simp: evolves_def)
    moreover have "loopE (reconcileStep G) xs t = (s', stp)" using Cons.prems(5) t None by simp
    ultimately show ?thesis using Cons.IH [of t "pre @ [i]"] st by auto
  next
    case (Some x)
    then show ?thesis using Cons.prems(5) t st by auto
  qed
qed simp

section \<open>One reconciliation\<close>

lemma setup_progress:
  assumes "igClient G = recording c" and "api_server (uObject (igLib G)) c objects" and "setupInstance G s = (s', stp)"
  shows "objects (fst (igWorld s')) = objects (fst (igWorld s))" "stp \<noteq> None \<Longrightarrow> faulty stp"
    "stp = None \<Longrightarrow> \<exists>obj. igRuntime s' = SetInstance obj (igRuntime s)"
proof -
  let ?inst = "GetInstance (igRuntime s)"
  obtain x w where x: "setManaged G ?inst (igWorld s) = (x, w)" by (rule prod.exhaust)
  have "objects (fst w) = objects (fst (igWorld s)) \<and> (\<forall>e. x = Inl e \<longrightarrow> localError e)"
  proof (cases "\<exists>copied. \<not> managedInstance G ?inst \<and>
      SetInstanceFinalizerUnstructured (uNested (igLib G)) ?inst (GetUID (uObject (igLib G)) ?inst) = Inr copied")
    case True
    then obtain copied where cp: "\<not> managedInstance G ?inst"
        "SetInstanceFinalizerUnstructured (uNested (igLib G)) ?inst (GetUID (uObject (igLib G)) ?inst) = Inr copied" by blast
    let ?obj = "ApplyLabels (uObject (igLib G)) (igInstanceLabeler G) copied"
    let ?n = "Some (GetNamespace (uObject (igLib G)) ?inst)"
    obtain y v where y: "clientUpdate (recording c) (igGvr G) ?n ?obj (igWorld s) = (y, v)" by (rule prod.exhaust)
    note up = server_calls(3) [OF assms(2) y]
    then obtain z where "y = Inr z" by (cases y) auto
    then show ?thesis using x cp y up assms(1) by (auto simp: setManaged_def updateInstance_def)
  next
    case False
    then show ?thesis using x by (auto simp: setManaged_def split: if_splits sum.splits)
  qed
  moreover have "(s', stp) = (case x of Inl err \<Rightarrow> (s\<lparr>igWorld := w\<rparr>, Some (StopErr err))
      | Inr patched \<Rightarrow> (s\<lparr>igWorld := w, igRuntime := SetInstance patched (igRuntime s)\<rparr>, None))"
    using assms(3) x by (simp add: setupInstance_def split: sum.splits)
  ultimately show "objects (fst (igWorld s')) = objects (fst (igWorld s))" "stp \<noteq> None \<Longrightarrow> faulty stp"
    "stp = None \<Longrightarrow> \<exists>obj. igRuntime s' = SetInstance obj (igRuntime s)"
    by (cases x; auto simp: faulty_iff)+
qed

lemma SetInstance_upToDate: "upToDate (SetInstance obj r) = upToDate r"
  by (simp add: upToDate_def available_def dynamicEnv_def SetInstance_def)

text \<open>The status is the last that is written; it is no object of the resources.\<close>

lemma handle_ends:
  assumes "igClient G = recording c" and "handleReconciliation G f s = (s', stp)"
  obtains s1 where "f s = (s1, stp)" "stateOf s' = stateOf s1"
    "igWorld s' = igWorld s1 \<or> (\<exists>g n obj x. clientUpdateStatus (recording c) g n obj (igWorld s1) = (x, igWorld s'))"
proof -
  obtain s1 r where s1: "f s = (s1, r)" by fastforce
  show thesis
  proof (cases "r = Some StopPanic")
    case True
    then show thesis using that [of s1] assms(2) s1 by (simp add: handleReconciliation_def)
  next
    case False
    let ?err = "case r of Some (StopErr e) \<Rightarrow> Some e | _ \<Rightarrow> None"
    let ?s2 = "s1\<lparr>igState := updateInstanceState ((igState s1)\<lparr>isReconcileErr := ?err\<rparr>)\<rparr>"
    let ?inst = "AList.update ''status'' (VMap (prepareStatus G ?s2)) (GetInstance (igRuntime s1))"
    obtain x w where x: "clientUpdateStatus (recording c) (igGvr G) (Some (GetNamespace (uObject (igLib G)) ?inst)) ?inst (igWorld s1) = (x, w)"
      by (rule prod.exhaust)
    have s': "s' = ?s2\<lparr>igWorld := w\<rparr>" "stp = r"
      using assms s1 False x
      by (auto simp: handleReconciliation_def patchInstanceStatus_def Let_def split: option.splits stop.splits sum.splits prod.splits)
    have "stateOf s' = stateOf s1"
      using s'(1) by (auto simp: stateOf_def fun_eq_iff updateInstanceState_def split: option.splits)
    moreover have "clientUpdateStatus (recording c) (igGvr G) (Some (GetNamespace (uObject (igLib G)) ?inst)) ?inst (igWorld s1) = (x, igWorld s')"
      using x s'(1) by simp
    ultimately show thesis using that [of s1] s1 s'(2) by blast
  qed
qed

lemma handle_progress:
  assumes "igClient G = recording c" and "api_server (uObject (igLib G)) c objects" and "handleReconciliation G f s = (s', stp)"
  obtains s1 where "f s = (s1, stp)" "stateOf s' = stateOf s1" "objects (fst (igWorld s')) = objects (fst (igWorld s1))"
proof (rule handle_ends [OF assms(1,3)])
  fix s1
  assume s1: "f s = (s1, stp)" "stateOf s' = stateOf s1"
    "igWorld s' = igWorld s1 \<or> (\<exists>g n obj x. clientUpdateStatus (recording c) g n obj (igWorld s1) = (x, igWorld s'))"
  then have "objects (fst (igWorld s')) = objects (fst (igWorld s1))" using server_calls(4) [OF assms(2)] by metis
  then show thesis using that [of s1] s1(1,2) by blast
qed

lemma reconcile_progress:
  assumes "igClient G = recording c" and "api_server (uObject (igLib G)) c objects" and "names_kept (uObject (igLib G))"
    and "\<not> uDeleting (igLib G) (GetInstance (igRuntime s))" and "reconcile G s = (s', stp)"
    and "soundRuntime (igRuntime s)" and "upToDate (igRuntime s)"
  shows "objects (fst (igWorld s)) \<subseteq> objects (fst (igWorld s'))"
    "stp \<noteq> None \<Longrightarrow> objects (fst (igWorld s)) \<subset> objects (fst (igWorld s')) \<or>
       (\<exists>i. stateOf s' i = Some ''WAITING_FOR_READINESS'') \<or> faulty stp"
proof -
  let ?s = "s\<lparr>igState := newInstanceState\<rparr>"
  have "handleReconciliation G (reconcileInstance G) ?s = (s', stp)" using assms(4,5) by (simp add: reconcile_def Let_def)
  then obtain s1 where s1: "reconcileInstance G ?s = (s1, stp)" "stateOf s' = stateOf s1"
      "objects (fst (igWorld s')) = objects (fst (igWorld s1))" by (rule handle_progress [OF assms(1,2)])
  obtain t e where t: "setupInstance G ?s = (t, e)" by fastforce
  note su = setup_progress [OF assms(1,2) t]
  have "objects (fst (igWorld s)) \<subseteq> objects (fst (igWorld s1)) \<and> (stp \<noteq> None \<longrightarrow>
    objects (fst (igWorld s)) \<subset> objects (fst (igWorld s1)) \<or> (\<exists>i. stateOf s1 i = Some ''WAITING_FOR_READINESS'') \<or> faulty stp)"
  proof (cases e)
    case (Some x)
    then have "s1 = t \<and> faulty stp"
      using s1(1) t su(2) by (auto simp: reconcileInstance_def faulty_iff split: stop.splits)
    then show ?thesis using su(1) by simp
  next
    case None
    let ?order = "topologicalOrder (igRuntime t)"
    let ?u = "fold (\<lambda>i. setRState i ''PENDING'' None) ?order t"
    obtain obj where obj: "igRuntime t = SetInstance obj (igRuntime s)" using su(3) None by auto
    have "evolves (igRuntime s) (igRuntime t)" using obj by simp
    then have "soundRuntime (igRuntime ?u)" "upToDate (igRuntime ?u)"
      using soundRuntime_kept [OF assms(6)] assms(7) obj by (simp_all add: fold_pending SetInstance_upToDate)
    moreover have "loopE (reconcileStep G) ?order ?u = (s1, stp)" using s1(1) t None by (simp add: reconcileInstance_def Let_def)
    ultimately have "objects (fst (igWorld ?u)) \<subseteq> objects (fst (igWorld s1)) \<and> (stp \<noteq> None \<longrightarrow>
        objects (fst (igWorld ?u)) \<subset> objects (fst (igWorld s1)) \<or> (\<exists>i \<in> set ?order. stateOf s1 i = Some ''WAITING_FOR_READINESS'') \<or> faulty stp)"
      by (intro loop_progress [OF assms(1-3), where pre = "[]"]) (simp_all add: fold_pending passed_def)
    then show ?thesis using su(1) by (auto simp: fold_pending)
  qed
  then show "objects (fst (igWorld s)) \<subseteq> objects (fst (igWorld s'))"
    "stp \<noteq> None \<Longrightarrow> objects (fst (igWorld s)) \<subset> objects (fst (igWorld s')) \<or>
       (\<exists>i. stateOf s' i = Some ''WAITING_FOR_READINESS'') \<or> faulty stp"
    using s1(2,3) by simp_all
qed

section \<open>One deletion\<close>

lemma sync_stop:
  assumes "\<And>e. localError e \<Longrightarrow> localError (f e)" and "syncStep G f s = (s', stp)"
  shows "igWorld s' = igWorld s" "igState s' = igState s" "stp \<noteq> None \<Longrightarrow> faulty stp"
proof -
  obtain r again err where r: "Synchronize (igFloat G) (igCel G) (igRuntime s) = (r, again, err)" using prod_cases3 by blast
  have s': "s' = s\<lparr>igRuntime := r\<rparr>" "stp = runtimeStop f err" using assms(2) r by (simp_all add: syncStep_def)
  then show "igWorld s' = igWorld s" "igState s' = igState s" by simp_all
  show "stp \<noteq> None \<Longrightarrow> faulty stp" using s'(2) assms(1) [of "RuntimeErr (the err)"] by (cases err) (simp_all add: runtimeStop_def faulty_iff)
qed

text \<open>Looking up the resources changes no object; the keys of the states stay distinct.\<close>

definition distinctStates :: "'w igr \<Rightarrow> bool" where
  "distinctStates s \<longleftrightarrow> distinct (map fst (isResourceStates (igState s)))"

lemma distinctStates_rest [simp]: "distinctStates (s\<lparr>igWorld := w\<rparr>) = distinctStates s" "distinctStates (s\<lparr>igRuntime := r\<rparr>) = distinctStates s"
  by (simp_all add: distinctStates_def)

lemma distinctStates_set [simp]: "distinctStates s \<Longrightarrow> distinctStates (setRState i st e s)"
  by (simp add: distinctStates_def setRState_def distinct_update)

text \<open>
  The effects of the calls on a server that deletes: none on the objects, an object that exists is marked
  or gone by an accepted call, or at most that fewer objects are live. The calls made are recorded.
\<close>

fun deletedKey :: "api_event \<Rightarrow> object_key set" where
  "deletedKey (EvDelete g n x None) = {(g, n, x)}"
| "deletedKey _ = {}"

definition deletedKeys :: "api_event list \<Rightarrow> object_key set" where
  "deletedKeys es = \<Union> (deletedKey ` set es)"

lemma deletedKeys_append [simp]: "deletedKeys (es @ fs) = deletedKeys es \<union> deletedKeys fs"
  by (simp add: deletedKeys_def)

definition calm :: "('w \<Rightarrow> object_key set) \<Rightarrow> ('w \<Rightarrow> object_key set) \<Rightarrow> 'w \<times> api_event list \<Rightarrow> 'w \<times> api_event list \<Rightarrow> bool" where
  "calm objects live w w' \<longleftrightarrow> objects (fst w') = objects (fst w) \<and> live (fst w') = live (fst w) \<and> (\<exists>es. snd w' = snd w @ es)"

definition marks :: "('w \<Rightarrow> object_key set) \<Rightarrow> ('w \<Rightarrow> object_key set) \<Rightarrow> 'w \<times> api_event list \<Rightarrow> 'w \<times> api_event list \<Rightarrow> bool" where
  "marks objects live w w' \<longleftrightarrow>
     (\<exists>k es. snd w' = snd w @ es \<and> k \<in> deletedKeys es \<and> k \<in> objects (fst w) \<and> live (fst w') \<subseteq> live (fst w) - {k})"

definition fewer :: "('w \<Rightarrow> object_key set) \<Rightarrow> 'w \<times> api_event list \<Rightarrow> 'w \<times> api_event list \<Rightarrow> bool" where
  "fewer live w w' \<longleftrightarrow> live (fst w') \<subseteq> live (fst w) \<and> (\<exists>es. snd w' = snd w @ es)"

lemma effects_refl [simp]: "calm objects live w w" "fewer live w w"
  by (simp_all add: calm_def fewer_def)

lemma effects_trans:
  "calm objects live u v \<Longrightarrow> calm objects live v w \<Longrightarrow> calm objects live u w"
  "fewer live u v \<Longrightarrow> fewer live v w \<Longrightarrow> fewer live u w"
  "calm objects live u v \<Longrightarrow> marks objects live v w \<Longrightarrow> marks objects live u w"
  "marks objects live u v \<Longrightarrow> fewer live v w \<Longrightarrow> marks objects live u w"
proof -
  show "calm objects live u v \<Longrightarrow> calm objects live v w \<Longrightarrow> calm objects live u w" by (auto simp: calm_def)
  show "fewer live u v \<Longrightarrow> fewer live v w \<Longrightarrow> fewer live u w" by (auto simp: fewer_def)
  assume uv: "calm objects live u v" and vw: "marks objects live v w"
  obtain k es where k: "snd w = snd v @ es" "k \<in> deletedKeys es" "k \<in> objects (fst v)" "live (fst w) \<subseteq> live (fst v) - {k}"
    using vw unfolding marks_def by blast
  obtain ds where ds: "objects (fst v) = objects (fst u)" "live (fst v) = live (fst u)" "snd v = snd u @ ds"
    using uv unfolding calm_def by blast
  show "marks objects live u w" unfolding marks_def by (rule exI [of _ k], rule exI [of _ "ds @ es"]) (use k ds in simp)
next
  assume uv: "marks objects live u v" and vw: "fewer live v w"
  obtain k es where k: "snd v = snd u @ es" "k \<in> deletedKeys es" "k \<in> objects (fst u)" "live (fst v) \<subseteq> live (fst u) - {k}"
    using uv unfolding marks_def by blast
  obtain ds where ds: "live (fst w) \<subseteq> live (fst v)" "snd w = snd v @ ds"
    using vw unfolding fewer_def by blast
  show "marks objects live u w" unfolding marks_def by (rule exI [of _ k], rule exI [of _ "es @ ds"]) (use k ds in auto)
qed

lemma effects_fewer: "calm objects live w w' \<Longrightarrow> fewer live w w'" "marks objects live w w' \<Longrightarrow> fewer live w w'"
  by (auto simp: calm_def marks_def fewer_def)

interpretation calm: frame "\<lambda>s s'. calm objects live (igWorld s) (igWorld s')" for objects live :: "'w \<Rightarrow> object_key set"
  by unfold_locales (auto intro: effects_trans)

interpretation fewer: frame "\<lambda>s s'. fewer live (igWorld s) (igWorld s')" for live :: "'w \<Rightarrow> object_key set"
  by unfold_locales (auto intro: effects_trans)

interpretation states: frame "\<lambda>s s'. distinctStates s \<longrightarrow> distinctStates s'"
  by unfold_locales auto

lemma deletion_calls:
  assumes "deletion_server c objects live"
  shows "clientGet (recording c) g n x w = (r, w') \<Longrightarrow> calm objects live w w' \<and> (case r of Inl e \<Rightarrow> IsNotFound e | Inr _ \<Rightarrow> True)"
    "clientDelete (recording c) g n x w = (e, w') \<Longrightarrow>
      (case e of Some e \<Rightarrow> IsNotFound e \<and> calm objects live w w' | None \<Rightarrow> marks objects live w w')"
    "clientUpdate (recording c) g n obj w = (r, w') \<Longrightarrow> \<not> isl r \<and> fewer live w w'"
    "clientUpdateStatus (recording c) g n obj w = (r, w') \<Longrightarrow> fewer live w w'"
proof (goal_cases)
  case 1
  then have "objects (fst w') = objects (fst w) \<and> live (fst w') = live (fst w) \<and>
      (case r of Inl e \<Rightarrow> IsNotFound e \<and> (g, n, x) \<notin> objects (fst w) | Inr _ \<Rightarrow> (g, n, x) \<in> objects (fst w))"
    using assms recorded(1) unfolding deletion_server_def by metis
  then show ?case using recording_events(1) [OF 1] by (auto simp: calm_def split: sum.splits)
next
  case 2
  have d: "objects (fst w) - {(g, n, x)} \<subseteq> objects (fst w') \<and> objects (fst w') \<subseteq> objects (fst w) \<and>
      live (fst w') = live (fst w) - {(g, n, x)} \<and> live (fst w) \<subseteq> objects (fst w) \<and>
      (case e of Some e \<Rightarrow> IsNotFound e \<and> (g, n, x) \<notin> objects (fst w) | None \<Rightarrow> (g, n, x) \<in> objects (fst w))"
    using assms [unfolded deletion_server_def, THEN conjunct2, THEN conjunct1, rule_format, OF recorded(3) [OF 2]]
      assms [unfolded deletion_server_def, THEN conjunct2, THEN conjunct2, THEN conjunct2, THEN conjunct2, rule_format, of "fst w"]
    by simp
  show ?case
  proof (cases e)
    case None
    then show ?thesis using d recording_events(3) [OF 2] by (auto simp: marks_def deletedKeys_def)
  next
    case (Some err)
    then show ?thesis using d recording_events(3) [OF 2] by (auto simp: calm_def)
  qed
next
  case 3
  then show ?case using assms recorded(4) recording_events(4) [OF 3] unfolding deletion_server_def fewer_def by metis
next
  case 4
  then show ?case using assms recorded(5) recording_events(5) [OF 4] unfolding deletion_server_def fewer_def by metis
qed

lemma initialize_progress:
  assumes "igClient G = recording c" and "deletion_server c objects live" and "initializeStep G i s = (s', stp)"
  shows "calm objects live (igWorld s) (igWorld s') \<and> (distinctStates s \<longrightarrow> distinctStates s') \<and> (stp \<noteq> None \<longrightarrow> faulty stp)"
proof -
  let ?f = "ErrorfWrap ''failed to synchronize during deletion state initialization''"
  obtain t e where t: "syncStep G ?f s = (t, e)" by fastforce
  have "localError d \<Longrightarrow> localError (?f d)" for d by simp
  note sync = sync_stop [OF this t]
  have ds: "distinctStates t = distinctStates s" using sync(2) by (simp add: distinctStates_def)
  show ?thesis
  proof (cases "\<exists>res rc. e = None \<and> GetResource (igRuntime t) i = Some (res, ResourceStateResolved) \<and>
      getResourceClient G (igRuntime t) i = Some rc")
    case False
    then have "(s' = t \<and> (stp = e \<and> e \<noteq> None \<or> stp = Some StopPanic)) \<or> (s' = setRState i ''SKIPPED'' None t \<and> stp = None)"
      using assms(3) t by (auto simp: initializeStep_def split: option.splits prod.splits if_splits)
    then show ?thesis using sync ds by (auto simp: faulty_iff)
  next
    case True
    then obtain res rc where rc: "e = None" "GetResource (igRuntime t) i = Some (res, ResourceStateResolved)"
        "getResourceClient G (igRuntime t) i = Some rc" by blast
    obtain x w where x: "clientGet (recording c) (fst rc) (snd rc) (GetName (uObject (igLib G)) (the res)) (igWorld t) = (x, w)"
      by (rule prod.exhaust)
    note get = deletion_calls(1) [OF assms(2) x]
    have "initializeStep G i s = (case x of Inl err \<Rightarrow> (setRState i ''DELETED'' None (t\<lparr>igWorld := w\<rparr>), None)
        | Inr obs \<Rightarrow> (setRState i ''PENDING_DELETION'' None (t\<lparr>igWorld := w, igRuntime := SetResource i obs (igRuntime t)\<rparr>), None))"
      using assms(1) t rc x get by (cases x) (simp_all add: initializeStep_def)
    then have "stp = None \<and> igWorld s' = w \<and> (distinctStates t \<longrightarrow> distinctStates s')"
      using assms(3) by (cases x) auto
    then show ?thesis using get sync(1) ds by simp
  qed
qed

text \<open>A step of the deletion that goes on has changed no object; one that stops waits for a deletion, or is faulty.\<close>

lemma delete_progress:
  assumes "igClient G = recording c" and "deletion_server c objects live" and "deleteStep G i s = (s', stp)"
  shows "fewer live (igWorld s) (igWorld s') \<and> (distinctStates s \<longrightarrow> distinctStates s') \<and>
    (if stp = None then calm objects live (igWorld s) (igWorld s') else marks objects live (igWorld s) (igWorld s') \<or> faulty stp)"
proof (cases "\<exists>res st rc. deleteStep G i s = deleteResource G i s \<and> GetResource (igRuntime s) i = Some (Some res, st) \<and>
    getResourceClient G (igRuntime s) i = Some rc")
  case False
  then have "s' = s" "stp = None \<or> stp = Some StopPanic"
    using assms(3) by (auto simp: deleteStep_def deleteResource_def split: option.splits prod.splits if_splits)
  then show ?thesis by (auto simp: faulty_iff)
next
  case True
  then obtain res st rc where rc: "deleteResource G i s = (s', stp)" "GetResource (igRuntime s) i = Some (Some res, st)"
      "getResourceClient G (igRuntime s) i = Some rc" using assms(3) by auto
  obtain x w where x: "clientDelete (recording c) (fst rc) (snd rc) (GetName (uObject (igLib G)) res) (igWorld s) = (x, w)"
    by (rule prod.exhaust)
  note del = deletion_calls(2) [OF assms(2) x]
  have "deleteResource G i s = (case x of
      Some err \<Rightarrow> (setRState i ''DELETED'' None (s\<lparr>igWorld := w\<rparr>), None)
    | None \<Rightarrow> (setRState i ''DELETING'' None (s\<lparr>igWorld := w\<rparr>),
        Some (StopErr (delayedRequeue G (Errorf ''resource deletion in progress'')))))"
    using assms(1) rc(2,3) x del by (cases x) (simp_all add: deleteResource_def)
  then have "igWorld s' = w \<and> (distinctStates s \<longrightarrow> distinctStates s') \<and> (stp = None \<longleftrightarrow> x \<noteq> None)"
    using rc(1) by (cases x) auto
  then show ?thesis using del by (cases x) (auto intro: effects_fewer)
qed

text \<open>The two passes and the last step of a deletion.\<close>

lemma loop_stop:
  assumes "loopE f xs s = (s', Some e)" and "\<And>x t t'. f x t = (t', None) \<Longrightarrow> R t t'" and "\<And>t u v. R t u \<Longrightarrow> Q u v \<Longrightarrow> Q t v"
    and "\<And>x t t'. f x t = (t', Some e) \<Longrightarrow> Q t t'"
  shows "Q s s'"
  using assms(1)
proof (induction xs arbitrary: s)
  case (Cons x xs)
  obtain t d where t: "f x s = (t, d)" by fastforce
  show ?case
  proof (cases d)
    case None
    then have "Q t s'" using Cons.IH Cons.prems t by simp
    then show ?thesis using assms(2) t None assms(3) by blast
  next
    case (Some y)
    then show ?thesis using Cons.prems t assms(4) by simp
  qed
qed simp

lemma initialize_loop_progress:
  assumes "igClient G = recording c" and "deletion_server c objects live" and "loopE (initializeStep G) xs s = (s', stp)"
  shows "calm objects live (igWorld s) (igWorld s')" "distinctStates s \<Longrightarrow> distinctStates s'" "stp \<noteq> None \<Longrightarrow> faulty stp"
proof -
  note step = initialize_progress [OF assms(1,2)]
  show "calm objects live (igWorld s) (igWorld s')" using calm.loop_kept [OF assms(3), of objects live] step by blast
  show "distinctStates s \<Longrightarrow> distinctStates s'" using states.loop_kept [OF assms(3)] step by blast
  show "faulty stp" if stp: "stp \<noteq> None"
  proof -
    obtain e where "stp = Some e" using stp by blast
    then show ?thesis using loop_stop [of "initializeStep G" xs s s' e "\<lambda>_ _. True" "\<lambda>_ _. faulty (Some e)"] assms(3) step by blast
  qed
qed

lemma delete_loop_progress:
  assumes "igClient G = recording c" and "deletion_server c objects live" and "loopE (deleteStep G) xs s = (s', stp)"
  shows "fewer live (igWorld s) (igWorld s')" "distinctStates s \<Longrightarrow> distinctStates s'"
    "stp \<noteq> None \<Longrightarrow> marks objects live (igWorld s) (igWorld s') \<or> faulty stp"
proof -
  note step = delete_progress [OF assms(1,2)]
  show "fewer live (igWorld s) (igWorld s')" using fewer.loop_kept [OF assms(3), of live] step by blast
  show "distinctStates s \<Longrightarrow> distinctStates s'" using states.loop_kept [OF assms(3)] step by blast
  show "marks objects live (igWorld s) (igWorld s') \<or> faulty stp" if stp: "stp \<noteq> None"
  proof -
    obtain e where e: "stp = Some e" using stp by blast
    have "calm objects live (igWorld t) (igWorld u)" if "deleteStep G x t = (u, None)" for x t u
      using step [OF that] by simp
    moreover have "marks objects live (igWorld t) (igWorld u) \<or> faulty (Some e)" if "deleteStep G x t = (u, Some e)" for x t u
      using step [OF that] by simp
    ultimately show ?thesis
      using loop_stop [of "deleteStep G" xs s s' e "\<lambda>t u. calm objects live (igWorld t) (igWorld u)"
          "\<lambda>t u. marks objects live (igWorld t) (igWorld u) \<or> faulty (Some e)"] assms(3) e effects_trans(3) by blast
  qed
qed

lemma finalize_progress:
  assumes "igClient G = recording c" and "deletion_server c objects live" and "finalizeDeletion G s = (s', stp)"
    and "distinctStates s" and "\<forall>i. stateOf s i \<noteq> None \<longrightarrow> goneIn s i"
  shows "fewer live (igWorld s) (igWorld s') \<and> (stp \<noteq> None \<longrightarrow> faulty stp)"
proof -
  let ?inst = "GetInstance (igRuntime s)"
  have "gone (snd x)" if "x \<in> set (isResourceStates (igState s))" for x
  proof -
    have "map_of (isResourceStates (igState s)) (fst x) = Some (snd x)" using that assms(4) by (simp add: distinctStates_def)
    then have "stateOf s (fst x) = Some (rsState (snd x))" by (simp add: stateOf_def)
    then show ?thesis using assms(5) by (fastforce simp: goneIn_def gone_def)
  qed
  then have all: "\<not> list_ex (\<lambda>x. \<not> gone (snd x)) (isResourceStates (igState s))" by (auto simp: list_ex_iff)
  obtain x w where x: "setUnmanaged G ?inst (igWorld s) = (x, w)" by (rule prod.exhaust)
  have "fewer live (igWorld s) w \<and> (\<forall>e. x = Inl e \<longrightarrow> localError e)"
  proof (cases "\<exists>copied. managedInstance G ?inst \<and>
      RemoveInstanceFinalizerUnstructured (uNested (igLib G)) ?inst (GetUID (uObject (igLib G)) ?inst) = Inr copied")
    case True
    then obtain copied where cp: "managedInstance G ?inst"
        "RemoveInstanceFinalizerUnstructured (uNested (igLib G)) ?inst (GetUID (uObject (igLib G)) ?inst) = Inr copied" by blast
    let ?n = "Some (GetNamespace (uObject (igLib G)) ?inst)"
    obtain y v where y: "clientUpdate (recording c) (igGvr G) ?n copied (igWorld s) = (y, v)" by (rule prod.exhaust)
    note up = deletion_calls(3) [OF assms(2) y]
    then obtain z where "y = Inr z" by (cases y) auto
    then show ?thesis using x cp y up assms(1) by (auto simp: setUnmanaged_def updateInstance_def)
  next
    case False
    then show ?thesis using x by (auto simp: setUnmanaged_def split: if_splits sum.splits)
  qed
  moreover have "(s', stp) = (case x of
      Inl err \<Rightarrow> (s\<lparr>igWorld := w\<rparr>, Some (StopErr (ErrorfWrap ''failed to remove instance finalizer'' err)))
    | Inr patched \<Rightarrow> (s\<lparr>igWorld := w, igRuntime := SetInstance patched (igRuntime s)\<rparr>, None))"
    using assms(3) x all by (simp add: finalizeDeletion_def split: sum.splits)
  ultimately show ?thesis by (cases x) (auto simp: faulty_iff)
qed

lemma deletion_progress:
  assumes "igClient G = recording c" and "deletion_server c objects live"
    and "uDeleting (igLib G) (GetInstance (igRuntime s))" and "reconcile G s = (s', stp)" and "distinct (topologicalOrder (igRuntime s))"
  shows "fewer live (igWorld s) (igWorld s')"
    "stp \<noteq> None \<Longrightarrow> marks objects live (igWorld s) (igWorld s') \<or> faulty stp"
proof -
  let ?s = "s\<lparr>igState := newInstanceState\<lparr>isState := ''DELETING''\<rparr>\<rparr>"
  have "handleReconciliation G (handleInstanceDeletion G) ?s = (s', stp)" using assms(3,4) by (simp add: reconcile_def Let_def)
  then obtain s1 where s1: "handleInstanceDeletion G ?s = (s1, stp)"
      "igWorld s' = igWorld s1 \<or> (\<exists>g n obj x. clientUpdateStatus (recording c) g n obj (igWorld s1) = (x, igWorld s'))"
    by (rule handle_ends [OF assms(1)])
  then have last: "fewer live (igWorld s1) (igWorld s')" using deletion_calls(4) [OF assms(2)] effects_refl(2) by metis
  have start: "distinctStates ?s" "\<forall>j. stateOf ?s j = None" by (simp_all add: distinctStates_def stateOf_def newInstanceState_def)
  let ?order = "topologicalOrder (igRuntime s)"
  obtain t e where t: "loopE (initializeStep G) ?order ?s = (t, e)" by fastforce
  obtain u d where u: "loopE (deleteStep G) (rev ?order) t = (u, d)" by fastforce
  obtain es where "deletionRun (set ?order) ?s es t" using initialize_loop [OF assms(1) t assms(5)] by blast
  then have order: "topologicalOrder (igRuntime t) = ?order" by (simp add: deletionRun_def reached_def api.order_kept)
  note init = initialize_loop_progress [OF assms(1,2) t] and del = delete_loop_progress [OF assms(1,2) u]
  have calm: "calm objects live (igWorld s) (igWorld t)" using init(1) by simp
  note code = handleInstanceDeletion_def initializeDeletionState_def deleteResourcesInOrder_def
  consider (lookup) x where "e = Some x" | (deleting) x where "e = None" "d = Some x" | (finalizing) "e = None" "d = None" by blast
  then have "fewer live (igWorld s) (igWorld s1) \<and> (stp \<noteq> None \<longrightarrow> marks objects live (igWorld s) (igWorld s1) \<or> faulty stp)"
  proof cases
    case lookup
    then have "s1 = t \<and> faulty stp" using s1(1) t init(3) by (auto simp: code faulty_iff split: stop.splits)
    then show ?thesis using effects_fewer(1) [OF calm] by simp
  next
    case deleting
    then have "s1 = u \<and> stp = d" using s1(1) t u order by (simp add: code)
    then show ?thesis using effects_trans(2) [OF effects_fewer(1) [OF calm] del(1)] effects_trans(3) [OF calm] del(3) by blast
  next
    case finalizing
    then have fin: "finalizeDeletion G u = (s1, stp)" using s1(1) t u order by (simp add: code)
    obtain fs where fs: "deletionRun (set ?order) ?s fs u" "\<forall>j \<in> set ?order. goneIn u j"
      using deletion_passes [OF assms(1) t [unfolded finalizing(1)] u assms(5)] finalizing(2) by blast
    have "stateOf u i = None" if "i \<notin> set ?order" for i using fs(1) start(2) that by (simp add: deletionRun_def)
    then have "\<forall>i. stateOf u i \<noteq> None \<longrightarrow> goneIn u i" using fs(2) by metis
    from finalize_progress [OF assms(1,2) fin _ this] have "fewer live (igWorld u) (igWorld s1)" "stp \<noteq> None \<longrightarrow> faulty stp"
      using init(2) del(2) start(1) by simp_all
    then show ?thesis using effects_trans(2) [OF effects_fewer(1) [OF calm] del(1)] effects_trans(2) by blast
  qed
  then show "fewer live (igWorld s) (igWorld s')"
    "stp \<noteq> None \<Longrightarrow> marks objects live (igWorld s) (igWorld s') \<or> faulty stp"
    using last effects_trans(2,4) by blast+
qed

section \<open>Repeated reconciliation\<close>

text \<open>A chain of sets in which a step only adds elements of a finite set: few steps add anything.\<close>

lemma growing_chain:
  assumes "finite K" and "successively (\<lambda>x y. B x \<subseteq> A y) xs"
    and "\<forall>x \<in> set xs. A x \<subseteq> B x \<and> B x \<subseteq> A x \<union> K \<and> (P x \<longrightarrow> A x \<noteq> B x)"
  shows "length (filter P xs) \<le> card K"
proof -
  have le: "length (filter P (x # xs)) \<le> card (K - A x)"
    if "successively (\<lambda>x y. B x \<subseteq> A y) (x # xs)"
      "\<forall>y \<in> set (x # xs). A y \<subseteq> B y \<and> B y \<subseteq> A y \<union> K \<and> (P y \<longrightarrow> A y \<noteq> B y)" for x xs
    using that
  proof (induction xs arbitrary: x)
    case Nil
    have "K - A x \<noteq> {}" if "P x" using Nil.prems(2) that by auto
    then show ?case using assms(1) by (auto simp: Suc_le_eq card_gt_0_iff)
  next
    case (Cons y xs)
    have IH: "length (filter P (y # xs)) \<le> card (K - A y)" using Cons by simp
    have sub: "A x \<subseteq> B x" "B x \<subseteq> A x \<union> K" "B x \<subseteq> A y" "P x \<Longrightarrow> A x \<noteq> B x" using Cons.prems by simp_all
    have "card (K - A y) < card (K - A x)" if "P x"
      using sub that assms(1) by (intro psubset_card_mono) auto
    moreover have "card (K - A y) \<le> card (K - A x)" using sub assms(1) by (intro card_mono) auto
    ultimately show ?case using IH by auto
  qed
  show ?thesis
  proof (cases xs)
    case (Cons x ys)
    have "length (filter P xs) \<le> card (K - A x)" unfolding Cons using assms(2,3) by (intro le) (simp_all add: Cons)
    then show ?thesis using card_mono [OF assms(1), of "K - A x"] by simp
  qed simp
qed

record 'w run =
  runConfig :: "('w \<times> api_event list) reconciler"
  runStart :: "('w \<times> api_event list) igr"
  runEnd :: "('w \<times> api_event list) igr"
  runStop :: "stop option"

text \<open>A run is a reconciliation of the instance; it starts with a runtime made for it.\<close>

definition isRun :: "'w dynClient \<Rightarrow> val gomap metav1Object \<Rightarrow> bool \<Rightarrow> 'w run \<Rightarrow> bool" where
  "isRun c U deleting p \<longleftrightarrow> igClient (runConfig p) = recording c \<and> uObject (igLib (runConfig p)) = U \<and>
     uDeleting (igLib (runConfig p)) (GetInstance (igRuntime (runStart p))) = deleting \<and>
     reconcile (runConfig p) (runStart p) = (runEnd p, runStop p)"

definition objectsBefore :: "('w \<Rightarrow> object_key set) \<Rightarrow> 'w run \<Rightarrow> object_key set" where
  "objectsBefore objects p = objects (fst (igWorld (runStart p)))"

definition objectsAfter :: "('w \<Rightarrow> object_key set) \<Rightarrow> 'w run \<Rightarrow> object_key set" where
  "objectsAfter objects p = objects (fst (igWorld (runEnd p)))"

text \<open>
  A live instance. When nobody removes the objects between two reconciliations, at most as many
  reconciliations fail to finish as there are objects to be created.
\<close>

lemma runs_converge:
  assumes "api_server U c objects" and "names_kept U" and "finite K"
    and "\<forall>p \<in> set runs. isRun c U False p \<and> soundRuntime (igRuntime (runStart p)) \<and> upToDate (igRuntime (runStart p)) \<and>
      \<not> faulty (runStop p) \<and> (\<forall>i. stateOf (runEnd p) i \<noteq> Some ''WAITING_FOR_READINESS'') \<and>
      objectsAfter objects p \<subseteq> objectsBefore objects p \<union> K"
    and "successively (\<lambda>p q. objectsAfter objects p \<subseteq> objectsBefore objects q) runs"
  shows "length (filter (\<lambda>p. runStop p \<noteq> None) runs) \<le> card K \<and>
    (\<forall>p \<in> set runs. runStop p = None \<longrightarrow> isState (igState (runEnd p)) = ''ACTIVE'' \<and>
       settled (runEnd p) (set (topologicalOrder (igRuntime (runStart p)))))"
proof
  have step: "objectsBefore objects p \<subseteq> objectsAfter objects p \<and> (runStop p \<noteq> None \<longrightarrow> objectsBefore objects p \<noteq> objectsAfter objects p)"
    if "p \<in> set runs" for p
    using reconcile_progress [of "runConfig p" c objects "runStart p" "runEnd p" "runStop p"] that assms(1,2,4)
    by (auto simp: isRun_def objectsBefore_def objectsAfter_def)
  then show "length (filter (\<lambda>p. runStop p \<noteq> None) runs) \<le> card K" using assms(4) by (intro growing_chain [OF assms(3,5)]) blast
  show "\<forall>p \<in> set runs. runStop p = None \<longrightarrow> isState (igState (runEnd p)) = ''ACTIVE'' \<and>
      settled (runEnd p) (set (topologicalOrder (igRuntime (runStart p))))"
    using reconcile_outcome assms(4) unfolding isRun_def soundRuntime_def by metis
qed

text \<open>
  A server that keeps its objects in a list. An object that is deleted is removed, or marked when it has
  a field \<open>finalizers\<close>.
\<close>

definition marked :: "val gomap \<Rightarrow> bool" where
  "marked obj = (map_of obj ''deletionTimestamp'' \<noteq> None)"

definition storeServer :: "(object_key \<times> val gomap) list dynClient" where
  "storeServer =
     \<lparr>clientGet = (\<lambda>g n x w. (case map_of w (g, n, x) of None \<Rightarrow> Inl (NotFound x) | Some obj \<Rightarrow> Inr obj, w)),
      clientCreate = (\<lambda>g n obj w. let k = (g, n, fieldString ''name'' obj) in
        if map_of w k = None then (Inr obj, (k, obj) # w) else (Inl (APIError ''already exists''), w)),
      clientDelete = (\<lambda>g n x w. let k = (g, n, x) in
        case map_of w k of
          None \<Rightarrow> (Some (NotFound x), w)
        | Some obj \<Rightarrow>
            (None, if map_of obj ''finalizers'' = None then AList.delete k w
                   else AList.update k (AList.update ''deletionTimestamp'' (VStr ''now'') obj) w)),
      clientUpdate = (\<lambda>g n obj w. (Inr obj, w)), clientUpdateStatus = (\<lambda>g n obj w. (Inr obj, w))\<rparr>"

definition storedObjects :: "(object_key \<times> val gomap) list \<Rightarrow> object_key set" where
  "storedObjects w = fst ` set w"

definition liveObjects :: "(object_key \<times> val gomap) list \<Rightarrow> object_key set" where
  "liveObjects w = {k \<in> storedObjects w. \<not> marked (the (map_of w k))}"

lemma stored_iff: "k \<in> storedObjects w \<longleftrightarrow> map_of w k \<noteq> None"
  by (simp add: storedObjects_def map_of_eq_None_iff)

lemma store_get:
  assumes "clientGet storeServer g n x w = (r, w')"
  shows "w' = w \<and> (case r of Inl e \<Rightarrow> IsNotFound e \<and> (g, n, x) \<notin> storedObjects w | Inr _ \<Rightarrow> (g, n, x) \<in> storedObjects w)"
  using assms by (cases "map_of w (g, n, x)") (auto simp: storeServer_def stored_iff IsNotFound_def)

lemma storeServer_api: "api_server (uObject sampleLib) storeServer storedObjects"
proof -
  have create: "\<not> isl r \<and> storedObjects w' = insert (g, n, GetName (uObject sampleLib) obj) (storedObjects w)"
    if "clientCreate storeServer g n obj w = (r, w')" "(g, n, GetName (uObject sampleLib) obj) \<notin> storedObjects w" for g n obj w r w'
    using that by (auto simp: storeServer_def sampleLib_def stored_iff Let_def split: if_splits)
  show ?thesis
    unfolding api_server_def using store_get create
    by (intro conjI allI impI) (auto simp: storeServer_def)
qed

lemma store_delete:
  assumes "clientDelete storeServer g n x w = (r, w')"
  shows "storedObjects w - {(g, n, x)} \<subseteq> storedObjects w' \<and> storedObjects w' \<subseteq> storedObjects w \<and>
    liveObjects w' = liveObjects w - {(g, n, x)} \<and>
    (case r of Some e \<Rightarrow> IsNotFound e \<and> (g, n, x) \<notin> storedObjects w | None \<Rightarrow> (g, n, x) \<in> storedObjects w)"
proof (cases "map_of w (g, n, x)")
  case None
  then show ?thesis using assms by (auto simp: storeServer_def stored_iff liveObjects_def IsNotFound_def)
next
  case (Some obj)
  then consider "r = None" "w' = AList.delete (g, n, x) w"
    | "r = None" "w' = AList.update (g, n, x) (AList.update ''deletionTimestamp'' (VStr ''now'') obj) w"
    using assms Some by (auto simp: storeServer_def Let_def split: if_splits)
  then show ?thesis
  proof cases
    case 1
    then show ?thesis using Some by (auto simp: stored_iff liveObjects_def delete_conv' split: if_splits)
  next
    case 2
    then show ?thesis using Some by (auto simp: stored_iff liveObjects_def marked_def update_conv' split: if_splits)
  qed
qed

lemma storeServer_deletes: "deletion_server storeServer storedObjects liveObjects"
proof -
  have "liveObjects w \<subseteq> storedObjects w" for w by (auto simp: liveObjects_def)
  then show ?thesis
    unfolding deletion_server_def using store_get store_delete
    by (intro conjI allI impI) (blast | fastforce simp: storeServer_def)+
qed

definition sampleRun :: "rt \<Rightarrow> (object_key \<times> val gomap) list \<Rightarrow> (object_key \<times> val gomap) list run" where
  "sampleRun r w =
     (let s = \<lparr>igRuntime = r, igState = newInstanceState, igWorld = (w, [])\<rparr>;
          (s', stp) = reconcile (sampleReconciler storeServer) s in
      \<lparr>runConfig = sampleReconciler storeServer, runStart = s, runEnd = s', runStop = stp\<rparr>)"

fun sampleRuns :: "nat \<Rightarrow> rt \<Rightarrow> (object_key \<times> val gomap) list \<Rightarrow> (object_key \<times> val gomap) list run list" where
  "sampleRuns 0 r w = []"
| "sampleRuns (Suc n) r w = (let p = sampleRun r w in p # sampleRuns n r (fst (igWorld (runEnd p))))"

lemma sampleRun_start [simp]: "igRuntime (runStart (sampleRun r w)) = r" "fst (igWorld (runStart (sampleRun r w))) = w"
  by (simp_all add: sampleRun_def Let_def split: prod.splits)

lemma sampleRun_isRun: "isRun storeServer (uObject sampleLib) (uDeleting sampleLib (GetInstance r)) (sampleRun r w)"
  by (simp add: isRun_def sampleRun_def sampleReconciler_def Let_def split: prod.splits)

lemma sampleRuns_isRun:
  "p \<in> set (sampleRuns n r w) \<Longrightarrow> isRun storeServer (uObject sampleLib) (uDeleting sampleLib (GetInstance r)) p \<and> igRuntime (runStart p) = r"
  using sampleRun_isRun by (induction n r w rule: sampleRuns.induct) (auto simp: Let_def)

lemma sampleRuns_chain: "successively (\<lambda>p q. objectsBefore storedObjects q = objectsAfter storedObjects p) (sampleRuns n r w)"
proof (induction n r w rule: sampleRuns.induct)
  case (2 n r w)
  then show ?case by (cases n) (auto simp: Let_def objectsBefore_def objectsAfter_def)
qed simp

definition sampleKeys :: "object_key list" where
  "sampleKeys = [(sampleGvr, Some ''default'', ''web''), (sampleGvr, Some ''default'', [])]"

text \<open>What the samples show of a run, as a computation.\<close>

definition smooth :: "object_key list \<Rightarrow> (object_key \<times> val gomap) list run \<Rightarrow> bool" where
  "smooth ks p \<longleftrightarrow> \<not> faulty (runStop p) \<and>
     list_all (\<lambda>x. rsState (snd x) \<noteq> ''WAITING_FOR_READINESS'') (isResourceStates (igState (runEnd p))) \<and>
     list_all (\<lambda>x. fst x \<in> set ks) (fst (igWorld (runStart p)) @ fst (igWorld (runEnd p)))"

lemma smooth_run:
  assumes "smooth ks p"
  shows "\<not> faulty (runStop p)" "stateOf (runEnd p) i \<noteq> Some ''WAITING_FOR_READINESS''"
    "objectsBefore storedObjects p \<subseteq> set ks" "objectsAfter storedObjects p \<subseteq> set ks"
proof -
  show "\<not> faulty (runStop p)" using assms by (simp add: smooth_def)
  show "stateOf (runEnd p) i \<noteq> Some ''WAITING_FOR_READINESS''"
    using assms by (fastforce simp: smooth_def stateOf_def list_all_iff dest: map_of_SomeD)
  show "objectsBefore storedObjects p \<subseteq> set ks" "objectsAfter storedObjects p \<subseteq> set ks"
    using assms unfolding smooth_def list_all_iff objectsBefore_def objectsAfter_def storedObjects_def set_append by blast+
qed

text \<open>
  A run waits when it had a deletion accepted for an object that was already marked when the run
  began: its finalizers, which belong to others, are not yet taken away.
\<close>

definition waits :: "('w \<Rightarrow> object_key set) \<Rightarrow> ('w \<Rightarrow> object_key set) \<Rightarrow> 'w run \<Rightarrow> bool" where
  "waits objects live p \<longleftrightarrow>
     (\<exists>k \<in> deletedKeys (drop (length (snd (igWorld (runStart p)))) (snd (igWorld (runEnd p)))).
        k \<in> objectsBefore objects p \<and> k \<notin> objectsBefore live p)"

lemma run_marks:
  assumes "marks objects live (igWorld (runStart p)) (igWorld (runEnd p))" and "\<not> waits objects live p"
  shows "objectsBefore live p \<noteq> objectsAfter live p"
  using assms unfolding marks_def waits_def objectsBefore_def objectsAfter_def by fastforce

text \<open>
  C4. Repeated reconciliation of an instance that is being deleted converges, on a server that grants the
  calls and on which a deleted object is gone or, as long as others keep finalizers on it, marked. When nobody
  makes the objects again or takes a mark away, and no expression fails, at most as many
  reconciliations fail to finish as there are objects to be deleted, not counting those that wait: a
  reconciliation waits when the one object it deletes was already marked when it began. No more than this can be
  said, since how long such an object stays is not up to kro; if marked objects are gone by the next
  reconciliation, none waits. A reconciliation that finishes has found every resource gone or skipped.
\<close>

theorem deletion_converges:
  assumes "deletion_server c objects live" and "finite K"
    and "\<forall>p \<in> set runs. isRun c U True p \<and> distinct (topologicalOrder (igRuntime (runStart p))) \<and> \<not> faulty (runStop p) \<and>
      objectsBefore live p \<subseteq> objectsAfter live p \<union> K"
    and "successively (\<lambda>p q. objectsBefore live q \<subseteq> objectsAfter live p) runs"
  shows "length (filter (\<lambda>p. runStop p \<noteq> None \<and> \<not> waits objects live p) runs) \<le> card K \<and>
    (\<forall>p \<in> set runs. runStop p = None \<longrightarrow> (\<forall>i \<in> set (topologicalOrder (igRuntime (runStart p))). goneIn (runEnd p) i))"
proof
  have step: "objectsAfter live p \<subseteq> objectsBefore live p \<and>
      (runStop p \<noteq> None \<and> \<not> waits objects live p \<longrightarrow> objectsBefore live p \<noteq> objectsAfter live p)"
    if "p \<in> set runs" for p
  proof -
    have p: "igClient (runConfig p) = recording c" "uDeleting (igLib (runConfig p)) (GetInstance (igRuntime (runStart p)))"
      "reconcile (runConfig p) (runStart p) = (runEnd p, runStop p)" "distinct (topologicalOrder (igRuntime (runStart p)))"
      "\<not> faulty (runStop p)"
      using that assms(3) by (auto simp: isRun_def)
    have "fewer live (igWorld (runStart p)) (igWorld (runEnd p))"
      using deletion_progress(1) [OF p(1) assms(1) p(2,3,4)] .
    then show ?thesis
      using deletion_progress(2) [OF p(1) assms(1) p(2,3,4)] p(5) run_marks [of objects live p]
      by (auto simp: fewer_def objectsBefore_def objectsAfter_def)
  qed
  let ?A = "\<lambda>p. - objectsBefore live p" and ?B = "\<lambda>p. - objectsAfter live p"
  let ?P = "\<lambda>p. runStop p \<noteq> None \<and> \<not> waits objects live p"
  show "length (filter ?P runs) \<le> card K"
  proof (rule growing_chain [OF assms(2)])
    show "successively (\<lambda>p q. ?B p \<subseteq> ?A q) runs" using assms(4) by simp
    show "\<forall>p \<in> set runs. ?A p \<subseteq> ?B p \<and> ?B p \<subseteq> ?A p \<union> K \<and> (?P p \<longrightarrow> ?A p \<noteq> ?B p)"
      using step assms(3) by blast
  qed
  show "\<forall>p \<in> set runs. runStop p = None \<longrightarrow> (\<forall>i \<in> set (topologicalOrder (igRuntime (runStart p))). goneIn (runEnd p) i)"
    using deletion_reconcile assms(3) unfolding isRun_def by metis
qed

text \<open>
  The object of \<open>subnet\<close> has a finalizer: the first run has it marked, the second waits for it. Then it is taken away, and
  the next two runs delete the object of \<open>vpc\<close> and finish.
\<close>

definition deletionRuns :: "(object_key \<times> val gomap) list run list" where
  "deletionRuns =
     sampleRuns 2 sampleDeleting [((sampleGvr, Some ''default'', []), [(''finalizers'', VList [])]),
         ((sampleGvr, Some ''default'', ''web''), [(''name'', VStr ''web'')])] @
     sampleRuns 2 sampleDeleting [((sampleGvr, Some ''default'', ''web''), [(''name'', VStr ''web'')])]"

definition liveKeys :: "(object_key \<times> val gomap) list \<Rightarrow> object_key list" where
  "liveKeys w = map fst (filter (\<lambda>x. \<not> marked (the (map_of w (fst x)))) w)"

lemma liveKeys: "liveObjects w = set (liveKeys w)"
  by (auto simp: liveObjects_def liveKeys_def storedObjects_def)

lemma deletionRuns_chain:
  "successively (\<lambda>p q. objectsBefore liveObjects q \<subseteq> objectsAfter liveObjects p) deletionRuns"
proof -
  have "case deletionRuns of [a, b, c, d] \<Rightarrow>
      list_all (\<lambda>(p, q). list_all (List.member (liveKeys (fst (igWorld (runEnd p))))) (liveKeys (fst (igWorld (runStart q)))))
        [(a, b), (b, c), (c, d)] | _ \<Rightarrow> False" by code_simp
  then obtain a b c d where runs: "deletionRuns = [a, b, c, d]"
    and sub: "list_all (\<lambda>(p, q). list_all (List.member (liveKeys (fst (igWorld (runEnd p))))) (liveKeys (fst (igWorld (runStart q)))))
        [(a, b), (b, c), (c, d)]"
    by (simp split: list.splits)
  have "set (liveKeys (fst (igWorld (runStart q)))) \<subseteq> set (liveKeys (fst (igWorld (runEnd p))))"
    if "(p, q) \<in> {(a, b), (b, c), (c, d)}" for p q
    using sub that by (auto simp: list_all_iff)
  then show ?thesis unfolding runs objectsBefore_def objectsAfter_def liveKeys by simp
qed

theorem deletion_converges_witness:
  "map (\<lambda>p. runStop p = None) deletionRuns = [False, False, False, True] \<and>
   map (waits storedObjects liveObjects) deletionRuns = [False, True, False, False] \<and>
   length (filter (\<lambda>p. runStop p \<noteq> None \<and> \<not> waits storedObjects liveObjects p) deletionRuns) \<le> 2 \<and>
   goneIn (runEnd (last deletionRuns)) ''vpc'' \<and> objectsAfter storedObjects (last deletionRuns) = {}"
proof -
  have run: "isRun storeServer (uObject sampleLib) True p" "igRuntime (runStart p) = sampleDeleting" if "p \<in> set deletionRuns" for p
  proof -
    have "uDeleting sampleLib (GetInstance sampleDeleting)" by code_simp
    then show "isRun storeServer (uObject sampleLib) True p" "igRuntime (runStart p) = sampleDeleting"
      using sampleRuns_isRun that unfolding deletionRuns_def set_append by (metis UnE)+
  qed
  have "list_all (smooth sampleKeys) deletionRuns" by code_simp
  then have smooth: "smooth sampleKeys p" if "p \<in> set deletionRuns" for p using that by (simp add: list_all_iff)
  have order: "topologicalOrder sampleDeleting = [''vpc'', ''subnet'']" by (simp add: sampleDeleting_def sampleRuntime_def)
  have "objectsBefore liveObjects p \<subseteq> objectsBefore storedObjects p" for p :: "(object_key \<times> val gomap) list run"
    by (auto simp: objectsBefore_def liveObjects_def)
  then have "\<forall>p \<in> set deletionRuns. isRun storeServer (uObject sampleLib) True p \<and> distinct (topologicalOrder (igRuntime (runStart p))) \<and>
      \<not> faulty (runStop p) \<and> objectsBefore liveObjects p \<subseteq> objectsAfter liveObjects p \<union> set sampleKeys"
    using run smooth_run(1,3) [OF smooth] order by (fastforce intro: le_supI2 order_trans)
  from deletion_converges [OF storeServer_deletes finite_set [of sampleKeys] this deletionRuns_chain]
  have c: "length (filter (\<lambda>p. runStop p \<noteq> None \<and> \<not> waits storedObjects liveObjects p) deletionRuns) \<le> card (set sampleKeys)"
    "\<forall>p \<in> set deletionRuns. runStop p = None \<longrightarrow> goneIn (runEnd p) ''vpc''"
    using run(2) order by simp_all
  have stops: "map (\<lambda>p. runStop p = None) deletionRuns = [False, False, False, True]" by code_simp
  then have "deletionRuns \<noteq> []" by auto
  moreover have "runStop (last deletionRuns) = None" by code_simp
  moreover have "card (set sampleKeys) \<le> 2" using card_length [of sampleKeys] by (simp add: sampleKeys_def)
  moreover have "fst (igWorld (runEnd (last deletionRuns))) = []" by code_simp
  moreover have "map (waits storedObjects liveObjects) deletionRuns = [False, True, False, False]"
    unfolding waits_def objectsBefore_def liveKeys storedObjects_def deletedKeys_def by code_simp
  ultimately show ?thesis using c stops last_in_set [of deletionRuns] by (simp add: objectsAfter_def storedObjects_def)
qed

end
