(* ===== verification/Json_Schema.thy ===== *)
theory Json_Schema
  imports Fieldpath Cel_Env Metadata "HOL-Library.Sublist"
begin

text \<open>
  The JSON schemas of a custom resource definition (\<open>extv1.JSONSchemaProps\<close>) as kro builds them:
  conversion to an OpenAPI schema (\<open>src/internal/graph/schema/conversion_schema.go\<close>), inference from the
  values of dry runs (\<open>conversion_cel.go\<close>, \<open>field_descriptor.go\<close>) and synthesis of the definition
  (\<open>src/internal/graph/crd/\<close>).

  \<open>props\<close> has the fields that kro sets. A schema is a struct: a pointer to one is an option, a map of
  schemas holds copies, and a nil map cannot be assigned to. \<open>Items\<close> is set only with \<open>Items.Schema\<close>.
\<close>

section \<open>Schemas\<close>

datatype props = Props
  (pType: string)
  (pProperties: "(string \<times> props) list option")
  (pRequired: "string list")
  (pItems: "props option")
  (pAdditional: "(props option \<times> bool) option")
  (pDefault: "string option")
  (pDescription: string)

definition typed :: "string \<Rightarrow> props" where
  "typed t = Props t None [] None None None []"

definition objectOf :: "(string \<times> props) list \<Rightarrow> props" where
  "objectOf ps = Props ''object'' (Some ps) [] None None None []"

primrec setType :: "string \<Rightarrow> props \<Rightarrow> props" where
  "setType t' (Props t ps rq it ad df ds) = Props t' ps rq it ad df ds"

primrec setProperties :: "(string \<times> props) list option \<Rightarrow> props \<Rightarrow> props" where
  "setProperties ps' (Props t ps rq it ad df ds) = Props t ps' rq it ad df ds"

primrec setItems :: "props option \<Rightarrow> props \<Rightarrow> props" where
  "setItems it' (Props t ps rq it ad df ds) = Props t ps rq it' ad df ds"

primrec setRequired :: "string list \<Rightarrow> props \<Rightarrow> props" where
  "setRequired rq' (Props t ps rq it ad df ds) = Props t ps rq' it ad df ds"

primrec setAdditional :: "(props option \<times> bool) option \<Rightarrow> props \<Rightarrow> props" where
  "setAdditional ad' (Props t ps rq it ad df ds) = Props t ps rq it ad' df ds"

primrec setDefault :: "string option \<Rightarrow> props \<Rightarrow> props" where
  "setDefault df' (Props t ps rq it ad df ds) = Props t ps rq it ad df' ds"

primrec setDescription :: "string \<Rightarrow> props \<Rightarrow> props" where
  "setDescription ds' (Props t ps rq it ad df ds) = Props t ps rq it ad df ds'"

lemma props_set_simps [simp]:
  "pType (setProperties x p) = pType p" "pType (setItems y p) = pType p" "pType (setType t p) = t"
  "pProperties (setProperties x p) = x" "pProperties (setItems y p) = pProperties p" "pProperties (setType t p) = pProperties p"
  "pItems (setProperties x p) = pItems p" "pItems (setItems y p) = y" "pItems (setType t p) = pItems p"
  "pRequired (setProperties x p) = pRequired p" "pRequired (setRequired rq p) = rq" "pProperties (setRequired rq p) = pProperties p"
  "pType (setRequired rq p) = pType p" "pItems (setRequired rq p) = pItems p" "pAdditional (setRequired rq p) = pAdditional p"
  "pType (setDefault d p) = pType p" "pType (setDescription e p) = pType p"
  "pProperties (setDefault d p) = pProperties p" "pProperties (setDescription e p) = pProperties p"
  "pItems (setDefault d p) = pItems p" "pItems (setDescription e p) = pItems p"
  "pAdditional (setDefault d p) = pAdditional p" "pAdditional (setDescription e p) = pAdditional p"
  "pRequired (setDefault d p) = pRequired p" "pRequired (setDescription e p) = pRequired p"
  "pDefault (setDefault d p) = d" "pDescription (setDescription e p) = e"
  "pDefault (setDescription e p) = pDefault p" "pDescription (setDefault d p) = pDescription p"
  "pType (setAdditional a p) = pType p" "pRequired (setAdditional a p) = pRequired p" "pAdditional (setAdditional a p) = a"
  by (cases p; simp)+

section \<open>Conversion\<close>

definition convertAdditional :: "(schema option \<times> bool) option \<Rightarrow> (schema option \<times> bool) option" where
  "convertAdditional a = map_option (\<lambda>x. if fst x \<noteq> None then (fst x, False) else (None, snd x)) a"

primrec ConvertJSONSchemaPropsToSpecSchema :: "props \<Rightarrow> schema" where
  "ConvertJSONSchemaPropsToSpecSchema (Props t ps rq it ad df ds) =
     Schema [t] (map_option (map (map_prod id ConvertJSONSchemaPropsToSpecSchema)) ps)
       (convertAdditional (map_option (map_prod (map_option ConvertJSONSchemaPropsToSpecSchema) id) ad))
       (map_option ConvertJSONSchemaPropsToSpecSchema it) [] [] [] None None None None"

section \<open>Inference\<close>

fun inferSchemaTypeFromGoValue :: "val \<Rightarrow> string + props" where
  "inferSchemaTypeFromGoValue (VBool _) = Inr (typed ''boolean'')"
| "inferSchemaTypeFromGoValue (VInt _) = Inr (typed ''integer'')"
| "inferSchemaTypeFromGoValue (VUint _) = Inr (typed ''integer'')"
| "inferSchemaTypeFromGoValue (VFloat _) = Inr (typed ''number'')"
| "inferSchemaTypeFromGoValue (VStr _) = Inr (typed ''string'')"
| "inferSchemaTypeFromGoValue (VList []) = Inr (typed ''array'')"
| "inferSchemaTypeFromGoValue (VList (x # xs)) =
     (case inferSchemaTypeFromGoValue x of
        Inl err \<Rightarrow> Inl (''failed to infer schema for array item: '' @ err)
      | Inr p \<Rightarrow> Inr (setItems (Some p) (typed ''array'')))"
| "inferSchemaTypeFromGoValue (VMap m) =
     (case concatMapRes (\<lambda>x. case inferSchemaTypeFromGoValue (snd x) of
             Inl err \<Rightarrow> Inl (''failed to infer schema for property '' @ fst x @ '': '' @ err)
           | Inr p \<Rightarrow> Inr [(fst x, p)]) m of
        Inl err \<Rightarrow> Inl err
      | Inr ps \<Rightarrow> Inr (objectOf ps))"
| "inferSchemaTypeFromGoValue VNil = Inl ''unsupported type: <nil>''"

definition inferSchemaFromCELValue :: "refval \<Rightarrow> string + props" where
  "inferSchemaFromCELValue v =
     (case GoNativeType v of
        (x, Some err) \<Rightarrow> Inl (''failed to convert CEL value to Go: '' @ err)
      | (x, None) \<Rightarrow> inferSchemaTypeFromGoValue x)"

section \<open>Field descriptors\<close>

definition isStringVal :: "refval \<Rightarrow> bool" where
  "isStringVal v = (case v of RString _ \<Rightarrow> True | _ \<Rightarrow> False)"

definition areValidExpressionEvals :: "refval list \<Rightarrow> bool" where
  "areValidExpressionEvals vs =
     (if length vs = 0 then False
      else if length vs = 1 then True
      else if \<not> isStringVal (hd vs) then False
      else list_all isStringVal (tl vs))"

definition ensureArray :: "props \<Rightarrow> props" where
  "ensureArray cur = (if pType cur \<noteq> ''array'' then setItems (Some (objectOf [])) (setType ''array'' cur) else cur)"

definition assignProperty :: "string \<Rightarrow> props \<Rightarrow> props \<Rightarrow> props option" where
  "assignProperty name p cur = map_option (\<lambda>ps. setProperties (Some (AList.update name p ps)) cur) (pProperties cur)"

text \<open>
  An intermediate field is worked on as a copy of the struct in the map: what is left of the work is
  what the copy shares with it, the map of properties and an items schema that was already there.
\<close>

definition keepShared :: "props \<Rightarrow> props \<Rightarrow> props" where
  "keepShared entry copied =
     setProperties (pProperties copied) (if pType entry = ''array'' then setItems (pItems copied) entry else entry)"

text \<open>The schema after the loop; \<open>None\<close> for an assignment to a nil map or a nil items schema.\<close>

fun addSegments :: "Segment list \<Rightarrow> props option \<Rightarrow> props \<Rightarrow> props option" where
  "addSegments [] sch cur = Some cur"
| "addSegments (seg # segs) sch cur =
     (if segIndex seg \<ge> 0 then
        (let cur1 = ensureArray cur in
         case pItems cur1 of
           None \<Rightarrow> None
         | Some item \<Rightarrow>
             (if segs = [] then Some (setItems (Some (case sch of Some p \<Rightarrow> p | None \<Rightarrow> typed ''string'')) cur1)
              else map_option (\<lambda>item'. setItems (Some item') cur1) (addSegments segs sch item)))
      else if segs = [] then assignProperty (segName seg) (case sch of Some p \<Rightarrow> p | None \<Rightarrow> typed ''string'') cur
      else
        (case (case pProperties cur of None \<Rightarrow> None | Some ps \<Rightarrow> map_of ps (segName seg)) of
           Some entry \<Rightarrow>
             (case addSegments segs sch entry of
                None \<Rightarrow> None
              | Some s \<Rightarrow> assignProperty (segName seg) (keepShared entry s) cur)
         | None \<Rightarrow>
             (if pProperties cur = None then None
              else case addSegments segs sch (objectOf []) of
                     None \<Rightarrow> None
                   | Some s \<Rightarrow> assignProperty (segName seg) (keepShared (objectOf []) s) cur)))"

datatype schema_error = SchemaError string | SchemaPanic | SchemaNoReturn

record fieldDescriptor =
  fdPath :: string
  fdSchema :: "props option"

text \<open>\<open>SchemaNoReturn\<close>: the loop of \<open>Parse\<close> does not end.\<close>

definition addFieldToSchema :: "fieldDescriptor \<Rightarrow> props \<Rightarrow> schema_error + props" where
  "addFieldToSchema fd root =
     (case Parse (fdPath fd) of
        None \<Rightarrow> Inl SchemaNoReturn
      | Some (Inl err) \<Rightarrow> Inl (SchemaError (''failed to parse path '' @ fdPath fd))
      | Some (Inr segs) \<Rightarrow>
          (case addSegments segs (fdSchema fd) root of None \<Rightarrow> Inl SchemaPanic | Some root' \<Rightarrow> Inr root'))"

definition generateJSONSchemaFromFieldDescriptors :: "fieldDescriptor list \<Rightarrow> schema_error + props" where
  "generateJSONSchemaFromFieldDescriptors fds = foldRes addFieldToSchema fds (objectOf [])"

definition evalStep :: "string \<times> refval list \<Rightarrow> schema_error + fieldDescriptor list" where
  "evalStep x =
     (if \<not> areValidExpressionEvals (snd x) then Inl (SchemaError (''invalid evaluation types at '' @ fst x))
      else case inferSchemaFromCELValue (hd (snd x)) of
             Inl err \<Rightarrow> Inl (SchemaError (''failed to infer schema type: '' @ err))
           | Inr p \<Rightarrow> Inr [\<lparr>fdPath = fst x, fdSchema = Some p\<rparr>])"

definition GenerateSchemaFromEvals :: "refval list gomap \<Rightarrow> schema_error + props" where
  "GenerateSchemaFromEvals evals =
     (case concatMapRes evalStep evals of
        Inl err \<Rightarrow> Inl err
      | Inr fds \<Rightarrow> generateJSONSchemaFromFieldDescriptors fds)"

section \<open>Custom resource definitions\<close>

definition defaultStateType :: props where
  "defaultStateType = typed ''string''"

definition defaultConditionsType :: props where
  "defaultConditionsType =
     setItems (Some (objectOf [(''type'', typed ''string''), (''status'', typed ''string''), (''reason'', typed ''string''),
       (''message'', typed ''string''), (''lastTransitionTime'', typed ''string''), (''observedGeneration'', typed ''integer'')]))
       (typed ''array'')"

definition addMissing :: "string \<Rightarrow> props \<Rightarrow> (string \<times> props) list \<Rightarrow> (string \<times> props) list" where
  "addMissing k p ps = (if map_of ps k = None then AList.update k p ps else ps)"

definition newCRDSchema :: "props \<Rightarrow> props \<Rightarrow> bool \<Rightarrow> props" where
  "newCRDSchema spec status statusFieldsOverride =
     (let ps = (case pProperties status of None \<Rightarrow> [] | Some ps \<Rightarrow> ps);
          ps1 = (if statusFieldsOverride
                 then addMissing ''conditions'' defaultConditionsType (addMissing ''state'' defaultStateType ps) else ps) in
      objectOf [(''apiVersion'', typed ''string''), (''kind'', typed ''string''), (''metadata'', typed ''object''),
        (''spec'', spec), (''status'', setProperties (Some ps1) status)])"

record CustomResourceDefinition =
  crdName :: string
  crdGroup :: string
  crdKind :: string
  crdListKind :: string
  crdPlural :: string
  crdSingular :: string
  crdVersion :: string
  crdSchema :: props

definition newCRD :: "(string \<Rightarrow> string) \<Rightarrow> string \<Rightarrow> string \<Rightarrow> props \<Rightarrow> CustomResourceDefinition" where
  "newCRD pluralize apiVersion kind sch =
     (let pluralKind = pluralize (toLower kind) in
      \<lparr>crdName = pluralKind @ ''.'' @ KroDomainName, crdGroup = KroDomainName, crdKind = kind, crdListKind = kind @ ''List'',
       crdPlural = pluralKind, crdSingular = toLower kind, crdVersion = apiVersion, crdSchema = sch\<rparr>)"

definition SynthesizeCRD :: "(string \<Rightarrow> string) \<Rightarrow> string \<Rightarrow> string \<Rightarrow> props \<Rightarrow> props \<Rightarrow> bool \<Rightarrow> CustomResourceDefinition" where
  "SynthesizeCRD pluralize apiVersion kind spec status override =
     newCRD pluralize apiVersion kind (newCRDSchema spec status override)"

section \<open>Fields of a generated schema\<close>

fun lookupField :: "props \<Rightarrow> string list \<Rightarrow> props option" where
  "lookupField p [] = Some p"
| "lookupField p (n # ns) =
     (case pProperties p of None \<Rightarrow> None
      | Some ps \<Rightarrow> (case map_of ps n of None \<Rightarrow> None | Some q \<Rightarrow> lookupField q ns))"

text \<open>Every field on the way to \<open>ns\<close> that exists is an object.\<close>

definition openTo :: "props \<Rightarrow> string list \<Rightarrow> bool" where
  "openTo cur ns \<longleftrightarrow> (\<forall>q r. strict_prefix q ns \<longrightarrow> lookupField cur q = Some r \<longrightarrow> pProperties r \<noteq> None)"

lemma openTo_here: "openTo cur (n # ns) \<Longrightarrow> \<exists>ps. pProperties cur = Some ps"
  unfolding openTo_def by (metis lookupField.simps(1) not_None_eq strict_prefix_simps(2))

lemma openTo_next:
  assumes "openTo cur (n # ns)" and "pProperties cur = Some ps" and "map_of ps n = Some q"
  shows "openTo q ns"
  unfolding openTo_def
proof (intro allI impI)
  fix m r
  assume "strict_prefix m ns" and "lookupField q m = Some r"
  then have "strict_prefix (n # m) (n # ns)" "lookupField cur (n # m) = Some r" using assms(2,3) by simp_all
  then show "pProperties r \<noteq> None" using assms(1) unfolding openTo_def by blast
qed

lemma openTo_object: "openTo (objectOf []) ns"
  unfolding openTo_def
proof (intro allI impI)
  fix q r
  assume "lookupField (objectOf []) q = Some r"
  then show "pProperties r \<noteq> None" by (cases q) (auto simp: objectOf_def)
qed

text \<open>What adding the field \<open>ns\<close> does to a schema.\<close>

definition fieldAdded :: "props \<Rightarrow> string list \<Rightarrow> props \<Rightarrow> props \<Rightarrow> bool" where
  "fieldAdded cur ns p cur' \<longleftrightarrow>
     lookupField cur' ns = Some p \<and>
     (\<forall>q. strict_prefix q ns \<longrightarrow> (\<exists>r. lookupField cur' q = Some r \<and> pProperties r \<noteq> None)) \<and>
     (\<forall>m. \<not> prefix ns m \<longrightarrow> \<not> prefix m ns \<longrightarrow> lookupField cur' m = lookupField cur m)"

lemma lookup_keepShared: "ns \<noteq> [] \<Longrightarrow> lookupField (keepShared e s) ns = lookupField s ns"
  by (cases ns) (simp_all add: keepShared_def)

lemma fieldAdded_below:
  assumes "ns \<noteq> []" and "fieldAdded q ns p s" and "pProperties cur = Some ps"
    and "map_of ps n = Some q \<or> map_of ps n = None \<and> q = objectOf []"
    and "cur' = setProperties (Some (AList.update n (keepShared e s) ps)) cur"
  shows "fieldAdded cur (n # ns) p cur'"
proof -
  have here: "lookupField cur' (k # ks) = (if k = n then if ks = [] then Some (keepShared e s) else lookupField s ks
      else lookupField cur (k # ks))" for k ks
    using assms(3,5) lookup_keepShared by (simp add: gomap_simps)
  have "strict_prefix [] ns" using assms(1) by (cases ns) simp_all
  then have "pProperties s \<noteq> None" using assms(2) unfolding fieldAdded_def by force
  then have shared: "pProperties (keepShared e s) \<noteq> None" by (simp add: keepShared_def)
  have "\<exists>r. lookupField cur' m = Some r \<and> pProperties r \<noteq> None" if m: "strict_prefix m (n # ns)" for m
  proof (cases m)
    case Nil
    then show ?thesis using assms(5) by simp
  next
    case (Cons k ks)
    then have "k = n" and ks: "strict_prefix ks ns" using m by simp_all
    then show ?thesis
      using here [of n ks] shared assms(2) Cons by (cases "ks = []") (auto simp: fieldAdded_def)
  qed
  then have "\<forall>m. strict_prefix m (n # ns) \<longrightarrow> (\<exists>r. lookupField cur' m = Some r \<and> pProperties r \<noteq> None)"
    by blast
  moreover have "lookupField cur' m = lookupField cur m" if m: "\<not> prefix (n # ns) m" "\<not> prefix m (n # ns)" for m
  proof (cases m)
    case (Cons k ks)
    show ?thesis
    proof (cases "k = n")
      case True
      then have ks: "\<not> prefix ns ks" "\<not> prefix ks ns" using m Cons by simp_all
      then have "lookupField s ks = lookupField q ks" "ks \<noteq> []" using assms(2) unfolding fieldAdded_def by auto
      moreover have "lookupField (objectOf []) ks = None" using \<open>ks \<noteq> []\<close> by (cases ks) (simp_all add: objectOf_def)
      ultimately show ?thesis using here [of k ks] True Cons assms(3,4) by auto
    qed (use here Cons in simp)
  qed (use m in simp)
  moreover have "lookupField cur' (n # ns) = Some p" using here [of n ns] assms(1,2) by (simp add: fieldAdded_def)
  ultimately show ?thesis unfolding fieldAdded_def by blast
qed

lemma fieldAdded_here:
  assumes "pProperties cur = Some ps"
  shows "fieldAdded cur [n] p (setProperties (Some (AList.update n p ps)) cur)"
proof -
  let ?c = "setProperties (Some (AList.update n p ps)) cur"
  have "lookupField ?c m = lookupField cur m" if "\<not> prefix [n] m" "\<not> prefix m [n]" for m
    using that assms by (cases m) (auto simp: gomap_simps)
  moreover have "\<exists>r. lookupField ?c q = Some r \<and> pProperties r \<noteq> None" if "strict_prefix q [n]" for q
    using that by (cases q) auto
  ultimately show ?thesis by (simp add: fieldAdded_def gomap_simps)
qed

lemma addSegments_named:
  "ns \<noteq> [] \<Longrightarrow> openTo cur ns \<Longrightarrow>
   \<exists>cur'. addSegments (map NewNamedSegment ns) (Some p) cur = Some cur' \<and> fieldAdded cur ns p cur'"
proof (induction ns arbitrary: cur)
  case (Cons n ns)
  obtain ps where ps: "pProperties cur = Some ps" using openTo_here [OF Cons.prems(2)] by blast
  show ?case
  proof (cases "ns = []")
    case True
    then show ?thesis using ps fieldAdded_here [OF ps, of n p] by (simp add: NewNamedSegment_def assignProperty_def)
  next
    case False
    let ?q = "case map_of ps n of Some q \<Rightarrow> q | None \<Rightarrow> objectOf []"
    have "openTo ?q ns"
      using openTo_next [OF Cons.prems(2) ps] openTo_object by (auto split: option.splits)
    from Cons.IH [OF False this] obtain s where s: "addSegments (map NewNamedSegment ns) (Some p) ?q = Some s" "fieldAdded ?q ns p s"
      by blast
    let ?c = "setProperties (Some (AList.update n (keepShared ?q s) ps)) cur"
    have "addSegments (map NewNamedSegment (n # ns)) (Some p) cur = Some ?c"
      using ps s(1) False by (auto simp: NewNamedSegment_def assignProperty_def split: option.splits)
    moreover have "fieldAdded cur (n # ns) p ?c"
      using fieldAdded_below [OF False s(2) ps] by (auto split: option.splits)
    ultimately show ?thesis by blast
  qed
qed simp

section \<open>The schema of a set of fields\<close>

text \<open>The names of a path that has no array index.\<close>

definition fieldNames :: "string \<Rightarrow> string list option" where
  "fieldNames path =
     (case Parse path of
        Some (Inr segs) \<Rightarrow>
          (if segs \<noteq> [] \<and> segs = map (\<lambda>s. NewNamedSegment (segName s)) segs then Some (map segName segs) else None)
      | _ \<Rightarrow> None)"

lemma fieldNames_Some:
  assumes "fieldNames path = Some ns"
  shows "Parse path = Some (Inr (map NewNamedSegment ns)) \<and> ns \<noteq> []"
  using assms by (auto simp: fieldNames_def comp_def split: option.splits sum.splits if_splits)

definition apart :: "string list \<Rightarrow> string list \<Rightarrow> bool" where
  "apart ns ms \<longleftrightarrow> \<not> prefix ns ms \<and> \<not> prefix ms ns"

lemma openTo_added:
  assumes "fieldAdded cur ns p cur'" and "openTo cur ms" and "apart ns ms"
  shows "openTo cur' ms"
  unfolding openTo_def
proof (intro allI impI)
  fix q r
  assume q: "strict_prefix q ms" "lookupField cur' q = Some r"
  then have "\<not> prefix ns q" using assms(3) unfolding apart_def by (meson prefix_order.trans strict_prefix_def)
  show "pProperties r \<noteq> None"
  proof (cases "prefix q ns")
    case True
    then have "strict_prefix q ns" using \<open>\<not> prefix ns q\<close> by (auto simp: strict_prefix_def)
    then show ?thesis using assms(1) q(2) unfolding fieldAdded_def by fastforce
  next
    case False
    then show ?thesis using assms(1,2) q \<open>\<not> prefix ns q\<close> unfolding fieldAdded_def openTo_def by metis
  qed
qed

lemma addField_named:
  assumes "fieldNames (fdPath fd) = Some ns" and "fdSchema fd = Some p" and "openTo cur ns"
  shows "\<exists>cur'. addFieldToSchema fd cur = Inr cur' \<and> fieldAdded cur ns p cur'"
  using addSegments_named [of ns cur p] fieldNames_Some [OF assms(1)] assms
  by (auto simp: addFieldToSchema_def)

text \<open>The fields of \<open>fds\<close>, each with its names and its schema.\<close>

definition describes :: "fieldDescriptor \<Rightarrow> string list \<times> props \<Rightarrow> bool" where
  "describes fd x \<longleftrightarrow> fieldNames (fdPath fd) = Some (fst x) \<and> fdSchema fd = Some (snd x)"

lemma addFields_named:
  assumes "list_all2 describes fds xs" and "sorted_wrt (\<lambda>x y. apart (fst x) (fst y)) xs"
    and "\<forall>x \<in> set xs. openTo cur (fst x)"
  shows "\<exists>root. foldRes addFieldToSchema fds cur = Inr root \<and>
    (\<forall>x \<in> set xs. lookupField root (fst x) = Some (snd x)) \<and>
    (\<forall>m. (\<forall>x \<in> set xs. apart (fst x) m) \<longrightarrow> lookupField root m = lookupField cur m)"
  using assms
proof (induction arbitrary: cur rule: list_all2_induct)
  case (Cons fd fds x xs)
  obtain cur' where cur': "addFieldToSchema fd cur = Inr cur'" "fieldAdded cur (fst x) (snd x) cur'"
    using addField_named [of fd "fst x" "snd x" cur] Cons by (auto simp: describes_def)
  have "\<forall>y \<in> set xs. openTo cur' (fst y)"
    using openTo_added [OF cur'(2)] Cons.prems by simp
  then obtain root where root: "foldRes addFieldToSchema fds cur' = Inr root"
    "\<forall>y \<in> set xs. lookupField root (fst y) = Some (snd y)"
    "\<forall>m. (\<forall>y \<in> set xs. apart (fst y) m) \<longrightarrow> lookupField root m = lookupField cur' m"
    using Cons.IH [of cur'] Cons.prems(1) by auto
  have "\<forall>y \<in> set xs. apart (fst y) (fst x)" using Cons.prems(1) by (auto simp: apart_def)
  then have "lookupField root (fst x) = Some (snd x)" using root(3) cur'(2) by (auto simp: fieldAdded_def)
  moreover have "lookupField root m = lookupField cur m" if m: "\<forall>y \<in> set (x # xs). apart (fst y) m" for m
    using root(3) m cur'(2) by (simp add: fieldAdded_def apart_def)
  ultimately show ?case using root(1,2) cur'(1) by auto
qed simp

lemma evalSteps_describe:
  assumes "\<forall>x \<in> set evals. fieldNames (fst x) = Some (names (fst x)) \<and> areValidExpressionEvals (snd x)
    \<and> inferSchemaFromCELValue (hd (snd x)) = Inr (sch (fst x))"
  shows "\<exists>fds. concatMapRes evalStep evals = Inr fds \<and>
    list_all2 describes fds (map (\<lambda>x. (names (fst x), sch (fst x))) evals)"
  using assms
proof (induction evals)
  case (Cons x evals)
  then obtain fds where "concatMapRes evalStep evals = Inr fds"
    "list_all2 describes fds (map (\<lambda>x. (names (fst x), sch (fst x))) evals)"
    by auto
  moreover have "evalStep x = Inr [\<lparr>fdPath = fst x, fdSchema = Some (sch (fst x))\<rparr>]"
    "describes \<lparr>fdPath = fst x, fdSchema = Some (sch (fst x))\<rparr> (names (fst x), sch (fst x))"
    using Cons.prems by (simp_all add: evalStep_def describes_def)
  ultimately show ?case by simp
qed simp

lemma lookup_empty_object: "m \<noteq> [] \<Longrightarrow> lookupField (objectOf []) m = None"
  by (cases m) (simp_all add: objectOf_def)

text \<open>
  C30. The status schema of an instance is put together from dry runs. For expressions at fields that are
  addressed by names alone and do not overlap, whatever the order the map is iterated in, the schema has
  at every field the schema inferred from its value and no field outside of their paths.
\<close>

theorem schema_from_evals:
  assumes "\<forall>x \<in> set evals. fieldNames (fst x) = Some (names (fst x)) \<and> areValidExpressionEvals (snd x)
    \<and> inferSchemaFromCELValue (hd (snd x)) = Inr (sch (fst x))"
    and "sorted_wrt (\<lambda>p q. apart (names p) (names q)) (map fst evals)"
  shows "\<exists>root. GenerateSchemaFromEvals evals = Inr root \<and>
    (\<forall>path \<in> fst ` set evals. lookupField root (names path) = Some (sch path)) \<and>
    (\<forall>m. m \<noteq> [] \<longrightarrow> (\<forall>path \<in> fst ` set evals. apart (names path) m) \<longrightarrow> lookupField root m = None)"
proof -
  let ?xs = "map (\<lambda>x. (names (fst x), sch (fst x))) evals"
  obtain fds where fds: "concatMapRes evalStep evals = Inr fds" "list_all2 describes fds ?xs"
    using evalSteps_describe [OF assms(1)] by blast
  have "sorted_wrt (\<lambda>x y. apart (fst x) (fst y)) ?xs" using assms(2) by (simp add: sorted_wrt_map)
  from addFields_named [OF fds(2) this, of "objectOf []"] obtain root where
    "foldRes addFieldToSchema fds (objectOf []) = Inr root"
    "\<forall>x \<in> set ?xs. lookupField root (fst x) = Some (snd x)"
    "\<forall>m. (\<forall>x \<in> set ?xs. apart (fst x) m) \<longrightarrow> lookupField root m = lookupField (objectOf []) m"
    using openTo_object by blast
  then show ?thesis
    using fds(1) lookup_empty_object
    by (auto simp: GenerateSchemaFromEvals_def generateJSONSchemaFromFieldDescriptors_def)
qed

theorem schema_from_evals_witness:
  "\<exists>root. GenerateSchemaFromEvals [(''url.arn'', [RString ''x'']), (''url.id'', [RInt 3])] = Inr root \<and>
     lookupField root [''url'', ''arn''] = Some (typed ''string'') \<and> lookupField root [''url'', ''id''] = Some (typed ''integer'')"
proof -
  let ?evals = "[(''url.arn'', [RString ''x'']), (''url.id'', [RInt 3])]"
  let ?names = "\<lambda>p. if p = ''url.arn'' then [''url'', ''arn''] else [''url'', ''id'']"
  let ?sch = "\<lambda>p. if p = ''url.arn'' then typed ''string'' else typed ''integer''"
  have "fieldNames ''url.arn'' = Some [''url'', ''arn'']" "fieldNames ''url.id'' = Some [''url'', ''id'']" by code_simp+
  moreover have "inferSchemaFromCELValue (RString ''x'') = Inr (typed ''string'')"
    "inferSchemaFromCELValue (RInt 3) = Inr (typed ''integer'')" by code_simp+
  ultimately have "\<forall>x \<in> set ?evals. fieldNames (fst x) = Some (?names (fst x)) \<and> areValidExpressionEvals (snd x)
    \<and> inferSchemaFromCELValue (hd (snd x)) = Inr (?sch (fst x))" by (simp add: areValidExpressionEvals_def)
  from schema_from_evals [OF this] show ?thesis by (auto simp: apart_def)
qed

text \<open>
  The schema of a field whose path ends in an index under a name is lost: the array is made on a copy of
  the struct that the map holds, so the field stays an object without properties.
\<close>

lemma array_field_lost:
  "GenerateSchemaFromEvals [(''ids[0]'', [RString ''x''])] = Inr (objectOf [(''ids'', objectOf [])])"
  by code_simp

end
