(* ===== verification/Schema_Conversion.thy ===== *)
theory Schema_Conversion
  imports Json_Schema
begin

text \<open>
  The conversion of a schema of a custom resource definition to an OpenAPI schema,
  \<open>src/internal/graph/schema/conversion_schema.go\<close>, for every schema: \<open>Json_Schema\<close> has the part of it that
  meets the schemas kro itself makes, and the last section shows that it is the same conversion there.

  The fields that are copied form the records \<open>schemaScalars\<close> and \<open>specScalars\<close>, one for each kind of schema, and
  \<open>convertScalars\<close> copies them one by one.
  A slice or map that may be nil is an option. Of the fields the conversion does not read,
  \<open>Ref\<close>, \<open>Enum\<close> and \<open>XPreserveUnknownFields\<close> are kept, to say what is lost. No call of the
  conversion creates an error; it panics when it writes through the nil pointer \<open>externalDocs\<close>, and
  that is the result \<open>None\<close>.
\<close>

section \<open>Schemas\<close>

record schemaScalars =
  scID :: string
  scSchema :: string
  scTitle :: string
  scDescription :: string
  scDefault :: "string option"
  scFormat :: string
  scMaximum :: "64 word option"
  scExclusiveMaximum :: bool
  scMinimum :: "64 word option"
  scExclusiveMinimum :: bool
  scMaxLength :: "64 word option"
  scMinLength :: "64 word option"
  scPattern :: string
  scMaxItems :: "64 word option"
  scMinItems :: "64 word option"
  scUniqueItems :: bool
  scMultipleOf :: "64 word option"
  scMaxProperties :: "64 word option"
  scMinProperties :: "64 word option"
  scRequired :: "string list"
  scNullable :: bool

text \<open>The fields of the same names and kinds of an OpenAPI schema.\<close>

record specScalars =
  spID :: string
  spSchema :: string
  spTitle :: string
  spDescription :: string
  spDefault :: "string option"
  spFormat :: string
  spMaximum :: "64 word option"
  spExclusiveMaximum :: bool
  spMinimum :: "64 word option"
  spExclusiveMinimum :: bool
  spMaxLength :: "64 word option"
  spMinLength :: "64 word option"
  spPattern :: string
  spMaxItems :: "64 word option"
  spMinItems :: "64 word option"
  spUniqueItems :: bool
  spMultipleOf :: "64 word option"
  spMaxProperties :: "64 word option"
  spMinProperties :: "64 word option"
  spRequired :: "string list"
  spNullable :: bool

record ExternalDocumentation =
  docDescription :: string
  docURL :: string

record unreadFields =
  unRef :: "string option"
  unEnum :: "string list"
  unPreserveUnknownFields :: "bool option"

datatype JSONSchemaProps = JSONSchemaProps
  (jsScalars: schemaScalars)
  (jsType: string)
  (jsExternalDocs: "ExternalDocumentation option")
  (jsUnread: unreadFields)
  (jsItems: "(JSONSchemaProps option \<times> JSONSchemaProps list) option")
  (jsAllOf: "JSONSchemaProps list option")
  (jsOneOf: "JSONSchemaProps list option")
  (jsAnyOf: "JSONSchemaProps list option")
  (jsNot: "JSONSchemaProps option")
  (jsProperties: "(string \<times> JSONSchemaProps) list option")
  (jsAdditionalProperties: "(JSONSchemaProps option \<times> bool) option")

datatype specSchema = SpecSchema
  (spScalars: specScalars)
  (spType: "string list")
  (spItems: "(specSchema option \<times> specSchema list) option")
  (spAllOf: "specSchema list option")
  (spOneOf: "specSchema list option")
  (spAnyOf: "specSchema list option")
  (spNot: "specSchema option")
  (spProperties: "(string \<times> specSchema) list option")
  (spAdditionalProperties: "(specSchema option \<times> bool) option")

section \<open>Conversion\<close>

text \<open>The assignments to \<open>externalDocs\<close>, which is nil.\<close>

definition writesDocs :: "ExternalDocumentation option \<Rightarrow> bool" where
  "writesDocs docs = (case docs of None \<Rightarrow> False | Some d \<Rightarrow> docURL d \<noteq> [] \<or> docDescription d \<noteq> [])"

definition convertScalars :: "schemaScalars \<Rightarrow> specScalars" where
  "convertScalars props =
     \<lparr>spID = scID props,
      spSchema = scSchema props,
      spTitle = scTitle props,
      spDescription = scDescription props,
      spDefault = scDefault props,
      spFormat = scFormat props,
      spMaximum = scMaximum props,
      spExclusiveMaximum = scExclusiveMaximum props,
      spMinimum = scMinimum props,
      spExclusiveMinimum = scExclusiveMinimum props,
      spMaxLength = scMaxLength props,
      spMinLength = scMinLength props,
      spPattern = scPattern props,
      spMaxItems = scMaxItems props,
      spMinItems = scMinItems props,
      spUniqueItems = scUniqueItems props,
      spMultipleOf = scMultipleOf props,
      spMaxProperties = scMaxProperties props,
      spMinProperties = scMinProperties props,
      spRequired = scRequired props,
      spNullable = scNullable props\<rparr>"

text \<open>The parts of a schema, with their schemas already converted.\<close>

definition convertItems :: "('s option option \<times> 's option list) option \<Rightarrow> ('s option \<times> 's list) option option" where
  "convertItems items =
     (case items of
        None \<Rightarrow> Some None
      | Some (Some schema, _) \<Rightarrow> map_option (\<lambda>s. Some (Some s, [])) schema
      | Some (None, schemas) \<Rightarrow>
          (if schemas \<noteq> [] then map_option (\<lambda>ss. Some (None, ss)) (those schemas) else Some None))"

definition convertSchemas :: "'s option list option \<Rightarrow> 's list option option" where
  "convertSchemas schemas = (case schemas of None \<Rightarrow> Some None | Some ss \<Rightarrow> map_option Some (those ss))"

definition convertNot :: "'s option option \<Rightarrow> 's option option" where
  "convertNot n = (case n of None \<Rightarrow> Some None | Some s \<Rightarrow> map_option Some s)"

definition convertProperties :: "(string \<times> 's option) list option \<Rightarrow> (string \<times> 's) list option option" where
  "convertProperties ps =
     (case ps of
        None \<Rightarrow> Some None
      | Some kvs \<Rightarrow> map_option Some (those (map (\<lambda>(k, v). map_option (Pair k) v) kvs)))"

definition convertAdditionalProperties :: "('s option option \<times> bool) option \<Rightarrow> ('s option \<times> bool) option option" where
  "convertAdditionalProperties a =
     (case a of
        None \<Rightarrow> Some None
      | Some (Some schema, _) \<Rightarrow> map_option (\<lambda>s. Some (Some s, False)) schema
      | Some (None, allows) \<Rightarrow> Some (Some (None, allows)))"

primrec ConvertSchema :: "JSONSchemaProps \<Rightarrow> specSchema option" where
  "ConvertSchema (JSONSchemaProps sc t docs un items allOf oneOf anyOf n ps ad) =
     (if writesDocs docs then None
      else case (convertItems (map_option (map_prod (map_option ConvertSchema) (map ConvertSchema)) items),
                 convertSchemas (map_option (map ConvertSchema) allOf), convertSchemas (map_option (map ConvertSchema) oneOf),
                 convertSchemas (map_option (map ConvertSchema) anyOf), convertNot (map_option ConvertSchema n),
                 convertProperties (map_option (map (map_prod id ConvertSchema)) ps),
                 convertAdditionalProperties (map_option (map_prod (map_option ConvertSchema) id) ad)) of
             (Some items', Some allOf', Some oneOf', Some anyOf', Some n', Some ps', Some ad') \<Rightarrow>
               Some (SpecSchema (convertScalars sc) [t] items' allOf' oneOf' anyOf' n' ps' ad')
           | _ \<Rightarrow> None)"

section \<open>What is kept\<close>

text \<open>The schemas below a schema that the conversion visits: all but a list of item schemas beside a single one.\<close>

definition visitedItems :: "('s option \<times> 's list) option \<Rightarrow> 's list" where
  "visitedItems items = (case items of None \<Rightarrow> [] | Some (Some s, _) \<Rightarrow> [s] | Some (None, ss) \<Rightarrow> ss)"

definition optList :: "'a option \<Rightarrow> 'a list" where
  "optList x = (case x of None \<Rightarrow> [] | Some y \<Rightarrow> [y])"

definition visited :: "JSONSchemaProps \<Rightarrow> JSONSchemaProps list" where
  "visited p = visitedItems (jsItems p) @ concat (optList (jsAllOf p)) @ concat (optList (jsOneOf p)) @
     concat (optList (jsAnyOf p)) @ optList (jsNot p) @ map snd (concat (optList (jsProperties p))) @
     concat (map (optList \<circ> fst) (optList (jsAdditionalProperties p)))"

lemma visited_induct [case_names visit]:
  assumes "\<And>p. (\<And>q. q \<in> set (visited p) \<Longrightarrow> P q) \<Longrightarrow> P p"
  shows "P p"
proof (induction p)
  case (JSONSchemaProps sc t docs un items allOf oneOf anyOf n ps ad)
  show ?case
  proof (rule assms)
    fix q
    assume "q \<in> set (visited (JSONSchemaProps sc t docs un items allOf oneOf anyOf n ps ad))"
    then consider "q \<in> set (visitedItems items)" | "q \<in> set (concat (optList allOf))" | "q \<in> set (concat (optList oneOf))"
      | "q \<in> set (concat (optList anyOf))" | "q \<in> set (optList n)" | "q \<in> snd ` set (concat (optList ps))"
      | "q \<in> set (concat (map (optList \<circ> fst) (optList ad)))"
      unfolding visited_def set_append Un_iff set_map JSONSchemaProps.sel by blast
    then show "P q"
      by cases (use JSONSchemaProps in \<open>auto simp: visitedItems_def optList_def split: option.splits prod.splits; fastforce\<close>)+
  qed
qed

text \<open>A schema with external documentation anywhere in it.\<close>

inductive documented :: "JSONSchemaProps \<Rightarrow> bool" where
  here: "writesDocs (jsExternalDocs p) \<Longrightarrow> documented p"
| below: "q \<in> set (visited p) \<Longrightarrow> documented q \<Longrightarrow> documented p"

inductive_simps documented_iff: "documented p"

lemma those_None: "those xs = None \<longleftrightarrow> None \<in> set xs"
  by (induction xs) (auto split: option.splits)

lemma those_map_Some: "those (map f xs) = Some ys \<longleftrightarrow> list_all2 (\<lambda>x y. f x = Some y) xs ys"
  by (induction xs arbitrary: ys) (auto simp: list_all2_Cons1 split: option.splits)

lemma convert_None:
  "convertItems (map_option (map_prod (map_option C) (map C)) items) = None \<longleftrightarrow> (\<exists>q\<in>set (visitedItems items). C q = None)"
  "convertSchemas (map_option (map C) ss) = None \<longleftrightarrow> (\<exists>q\<in>set (concat (optList ss)). C q = None)"
  "convertNot (map_option C n) = None \<longleftrightarrow> (\<exists>q\<in>set (optList n). C q = None)"
  "convertProperties (map_option (map (map_prod id C)) ps) = None \<longleftrightarrow> (\<exists>q\<in>snd ` set (concat (optList ps)). C q = None)"
  "convertAdditionalProperties (map_option (map_prod (map_option C) id) ad) = None \<longleftrightarrow>
     (\<exists>q\<in>set (concat (map (optList \<circ> fst) (optList ad))). C q = None)"
proof -
  show "convertItems (map_option (map_prod (map_option C) (map C)) items) = None \<longleftrightarrow> (\<exists>q\<in>set (visitedItems items). C q = None)"
    by (auto simp: convertItems_def visitedItems_def those_None image_iff split: option.splits prod.splits; metis)
qed (force simp: convertSchemas_def convertNot_def convertProperties_def convertAdditionalProperties_def optList_def those_None
      image_iff split: option.splits prod.splits)+

lemma ConvertSchema_None_iff:
  "ConvertSchema p = None \<longleftrightarrow> writesDocs (jsExternalDocs p) \<or> (\<exists>q\<in>set (visited p). ConvertSchema q = None)"
proof (cases p)
  case (JSONSchemaProps sc t docs un items allOf oneOf anyOf n ps ad)
  show ?thesis
    unfolding JSONSchemaProps visited_def JSONSchemaProps.sel set_append bex_Un set_map [of snd] convert_None [symmetric]
    by (auto split: option.splits)
qed

lemma ConvertSchema_None_documented: "ConvertSchema p = None \<longleftrightarrow> documented p"
proof (induction p rule: visited_induct)
  case (visit p)
  then show ?case by (subst ConvertSchema_None_iff, subst documented_iff) auto
qed

text \<open>The schema that a converted schema stands for.\<close>

definition scalarsOf :: "specScalars \<Rightarrow> schemaScalars" where
  "scalarsOf s =
     \<lparr>scID = spID s,
      scSchema = spSchema s,
      scTitle = spTitle s,
      scDescription = spDescription s,
      scDefault = spDefault s,
      scFormat = spFormat s,
      scMaximum = spMaximum s,
      scExclusiveMaximum = spExclusiveMaximum s,
      scMinimum = spMinimum s,
      scExclusiveMinimum = spExclusiveMinimum s,
      scMaxLength = spMaxLength s,
      scMinLength = spMinLength s,
      scPattern = spPattern s,
      scMaxItems = spMaxItems s,
      scMinItems = spMinItems s,
      scUniqueItems = spUniqueItems s,
      scMultipleOf = spMultipleOf s,
      scMaxProperties = spMaxProperties s,
      scMinProperties = spMinProperties s,
      scRequired = spRequired s,
      scNullable = spNullable s\<rparr>"

lemma scalarsOf_convert [simp]: "scalarsOf (convertScalars sc) = sc"
  by (cases sc) (simp add: scalarsOf_def convertScalars_def)

definition nothingUnread :: unreadFields where
  "nothingUnread = \<lparr>unRef = None, unEnum = [], unPreserveUnknownFields = None\<rparr>"

primrec schemaOf :: "specSchema \<Rightarrow> JSONSchemaProps" where
  "schemaOf (SpecSchema sc ts items allOf oneOf anyOf n ps ad) =
     JSONSchemaProps (scalarsOf sc) (hd ts) None nothingUnread (map_option (map_prod (map_option schemaOf) (map schemaOf)) items)
       (map_option (map schemaOf) allOf) (map_option (map schemaOf) oneOf) (map_option (map schemaOf) anyOf)
       (map_option schemaOf n) (map_option (map (map_prod id schemaOf)) ps) (map_option (map_prod (map_option schemaOf) id) ad)"

text \<open>
  A schema without what the conversion does not keep: fields it does not read, a list of item schemas
  that is empty or beside a single one, and the flag beside a schema of additional properties.
\<close>

definition keptItems :: "('s option \<times> 's list) option \<Rightarrow> ('s option \<times> 's list) option" where
  "keptItems items =
     (case items of Some (Some s, _) \<Rightarrow> Some (Some s, []) | Some (None, []) \<Rightarrow> None | _ \<Rightarrow> items)"

definition keptAdditional :: "('s option \<times> bool) option \<Rightarrow> ('s option \<times> bool) option" where
  "keptAdditional a = (case a of Some (Some s, _) \<Rightarrow> Some (Some s, False) | _ \<Rightarrow> a)"

primrec kept :: "JSONSchemaProps \<Rightarrow> JSONSchemaProps" where
  "kept (JSONSchemaProps sc t docs un items allOf oneOf anyOf n ps ad) =
     JSONSchemaProps sc t None nothingUnread (keptItems (map_option (map_prod (map_option kept) (map kept)) items))
       (map_option (map kept) allOf) (map_option (map kept) oneOf) (map_option (map kept) anyOf)
       (map_option kept n) (map_option (map (map_prod id kept)) ps) (keptAdditional (map_option (map_prod (map_option kept) id) ad))"

text \<open>The parts, when the conversion of every schema in them keeps what it should.\<close>

lemma kept_those:
  assumes "those (map C xs) = Some ys" and "\<And>q s. q \<in> set xs \<Longrightarrow> C q = Some s \<Longrightarrow> f s = g q"
  shows "map f ys = map g xs"
  using assms unfolding those_map_Some by (induction xs ys rule: list_all2_induct) auto

lemma kept_items:
  assumes "convertItems (map_option (map_prod (map_option C) (map C)) items) = Some r"
    and "\<And>q s. q \<in> set (visitedItems items) \<Longrightarrow> C q = Some s \<Longrightarrow> f s = g q"
  shows "map_option (map_prod (map_option f) (map f)) r = keptItems (map_option (map_prod (map_option g) (map g)) items)"
proof (cases items)
  case (Some it)
  obtain single several where it: "it = (single, several)" by (rule prod.exhaust)
  show ?thesis
  proof (cases single)
    case None
    then show ?thesis
      using assms Some it kept_those [of C several _ f g]
      by (cases several) (auto simp: convertItems_def visitedItems_def keptItems_def split: option.splits)
  next
    case (Some q)
    then show ?thesis using assms \<open>items = Some it\<close> it by (auto simp: convertItems_def visitedItems_def keptItems_def)
  qed
qed (use assms in \<open>simp add: convertItems_def keptItems_def\<close>)

lemma kept_schemas:
  assumes "convertSchemas (map_option (map C) ss) = Some r" and "\<And>q s. q \<in> set (concat (optList ss)) \<Longrightarrow> C q = Some s \<Longrightarrow> f s = g q"
  shows "map_option (map f) r = map_option (map g) ss"
  using assms kept_those [of C _ _ f g] by (cases ss) (auto simp: convertSchemas_def optList_def)

lemma kept_not:
  assumes "convertNot (map_option C n) = Some r" and "\<And>q s. q \<in> set (optList n) \<Longrightarrow> C q = Some s \<Longrightarrow> f s = g q"
  shows "map_option f r = map_option g n"
  using assms by (cases n) (auto simp: convertNot_def optList_def)

lemma kept_properties:
  assumes "convertProperties (map_option (map (map_prod id C)) ps) = Some r"
    and "\<And>q s. q \<in> snd ` set (concat (optList ps)) \<Longrightarrow> C q = Some s \<Longrightarrow> f s = g q"
  shows "map_option (map (map_prod id f)) r = map_option (map (map_prod id g)) ps"
proof (cases ps)
  case (Some kvs)
  then obtain ys where ys: "those (map (\<lambda>kv. map_option (Pair (fst kv)) (C (snd kv))) kvs) = Some ys" "r = Some ys"
    using assms(1) by (auto simp: convertProperties_def comp_def case_prod_beta)
  have "map (map_prod id f) ys = map (map_prod id g) kvs"
    by (rule kept_those [OF ys(1)]) (use assms(2) Some in \<open>auto simp: optList_def image_iff prod_eq_iff\<close>)
  then show ?thesis using Some ys(2) by simp
qed (use assms(1) in \<open>simp add: convertProperties_def\<close>)

lemma kept_additional:
  assumes "convertAdditionalProperties (map_option (map_prod (map_option C) id) ad) = Some r"
    and "\<And>q s. q \<in> set (concat (map (optList \<circ> fst) (optList ad))) \<Longrightarrow> C q = Some s \<Longrightarrow> f s = g q"
  shows "map_option (map_prod (map_option f) id) r = keptAdditional (map_option (map_prod (map_option g) id) ad)"
proof (cases ad)
  case (Some a)
  then show ?thesis
    using assms by (cases a; cases "fst a") (auto simp: convertAdditionalProperties_def optList_def keptAdditional_def)
qed (use assms(1) in \<open>simp add: convertAdditionalProperties_def keptAdditional_def\<close>)

lemma schemaOf_ConvertSchema: "ConvertSchema p = Some s \<Longrightarrow> schemaOf s = kept p"
proof (induction p arbitrary: s rule: visited_induct)
  case (visit p)
  obtain sc t docs un items allOf oneOf anyOf n ps ad where
    p: "p = JSONSchemaProps sc t docs un items allOf oneOf anyOf n ps ad" by (rule JSONSchemaProps.exhaust)
  have below: "q \<in> set (visitedItems items) \<union> set (concat (optList allOf)) \<union> set (concat (optList oneOf)) \<union>
      set (concat (optList anyOf)) \<union> set (optList n) \<union> snd ` set (concat (optList ps)) \<union>
      set (concat (map (optList \<circ> fst) (optList ad))) \<Longrightarrow> ConvertSchema q = Some s \<Longrightarrow> schemaOf s = kept q" for q s
    using visit.IH unfolding p visited_def set_append set_map JSONSchemaProps.sel by blast
  from visit.prems show ?case
    unfolding p
    by (auto simp: nothingUnread_def split: option.splits if_splits
        intro!: kept_items [of ConvertSchema] kept_schemas [of ConvertSchema] kept_not [of ConvertSchema]
          kept_properties [of ConvertSchema] kept_additional [of ConvertSchema] below)
qed

section \<open>The schemas kro makes\<close>

definition noScalars :: schemaScalars where
  "noScalars = \<lparr>scID = [], scSchema = [], scTitle = [], scDescription = [], scDefault = None, scFormat = [], scMaximum = None,
     scExclusiveMaximum = False, scMinimum = None, scExclusiveMinimum = False, scMaxLength = None, scMinLength = None, scPattern = [],
     scMaxItems = None, scMinItems = None, scUniqueItems = False, scMultipleOf = None, scMaxProperties = None, scMinProperties = None,
     scRequired = [], scNullable = False\<rparr>"

primrec fullSchema :: "props \<Rightarrow> JSONSchemaProps" where
  "fullSchema (Props t ps rq it ad df ds) =
     JSONSchemaProps (noScalars\<lparr>scRequired := rq, scDefault := df, scDescription := ds\<rparr>) t None nothingUnread
       (map_option (\<lambda>i. (Some i, [])) (map_option fullSchema it)) None None None None
       (map_option (map (map_prod id fullSchema)) ps) (map_option (map_prod (map_option fullSchema) id) ad)"

text \<open>The part of a converted schema that the parser and the emulator look at.\<close>

primrec readSchema :: "specSchema \<Rightarrow> schema" where
  "readSchema (SpecSchema sc ts items allOf oneOf anyOf n ps ad) =
     Schema ts (map_option (map (map_prod id readSchema)) ps) (map_option (map_prod (map_option readSchema) id) ad)
       (Option.bind (map_option (map_prod (map_option readSchema) (map readSchema)) items) fst)
       (concat (optList (map_option (map readSchema) oneOf))) [] [] (spMinimum sc) (spMaximum sc) (spMinItems sc) (spMaxItems sc)"

lemma those_map_some: "(\<And>x. x \<in> set xs \<Longrightarrow> f x = Some (g x)) \<Longrightarrow> those (map f xs) = Some (map g xs)"
  by (induction xs) auto

definition converted :: "props \<Rightarrow> specSchema" where
  "converted p = the (ConvertSchema (fullSchema p))"

definition convertsTo :: "props \<Rightarrow> bool" where
  "convertsTo p \<longleftrightarrow> ConvertSchema (fullSchema p) = Some (converted p) \<and> readSchema (converted p) = ConvertJSONSchemaPropsToSpecSchema p"

lemma converts_properties:
  assumes "\<And>q. q \<in> snd ` set (concat (optList ps)) \<Longrightarrow> convertsTo q"
  shows "convertProperties (map_option (map (map_prod id ConvertSchema)) (map_option (map (map_prod id fullSchema)) ps)) =
      Some (map_option (map (map_prod id converted)) ps)"
    "map_option (map (map_prod id readSchema)) (map_option (map (map_prod id converted)) ps) =
      map_option (map (map_prod id ConvertJSONSchemaPropsToSpecSchema)) ps"
proof -
  have kvs: "convertsTo (snd kv)" if "ps = Some kvs" "kv \<in> set kvs" for kvs kv using assms that by (auto simp: optList_def)
  show "convertProperties (map_option (map (map_prod id ConvertSchema)) (map_option (map (map_prod id fullSchema)) ps)) =
      Some (map_option (map (map_prod id converted)) ps)"
  proof (cases ps)
    case (Some xs)
    have "those (map (\<lambda>kv. map_option (Pair (fst kv)) (ConvertSchema (fullSchema (snd kv)))) xs) = Some (map (map_prod id converted) xs)"
      by (rule those_map_some) (use kvs [OF Some] in \<open>auto simp: convertsTo_def prod_eq_iff\<close>)
    then show ?thesis using Some by (simp add: convertProperties_def comp_def case_prod_beta)
  qed (simp add: convertProperties_def)
  show "map_option (map (map_prod id readSchema)) (map_option (map (map_prod id converted)) ps) =
      map_option (map (map_prod id ConvertJSONSchemaPropsToSpecSchema)) ps"
    using kvs by (cases ps) (auto simp: convertsTo_def prod_eq_iff)
qed

lemma converts_all: "convertsTo p"
proof (induction p)
  case (Props t ps rq it ad df ds)
  have ps: "convertsTo q" if "q \<in> snd ` set (concat (optList ps))" for q
    using that Props.IH(1) by (fastforce simp: optList_def split: option.splits)
  have it: "convertsTo q" if "it = Some q" for q using that Props.IH(2) by simp
  have ad: "convertsTo q" if "ad = Some (Some q, b)" for q b using that Props.IH(3) by fastforce
  have items: "convertItems (map_option (map_prod (map_option ConvertSchema) (map ConvertSchema))
      (map_option (\<lambda>i. (Some i, [])) (map_option fullSchema it))) = Some (map_option (\<lambda>i. (Some (converted i), [])) it)"
    using it by (cases it) (auto simp: convertItems_def convertsTo_def)
  have additional: "convertAdditionalProperties (map_option (map_prod (map_option ConvertSchema) id) (map_option (map_prod (map_option fullSchema) id) ad))
      = Some (map_option (\<lambda>a. case fst a of Some i \<Rightarrow> (Some (converted i), False) | None \<Rightarrow> (None, snd a)) ad)"
    using ad by (cases ad) (auto simp: convertAdditionalProperties_def convertsTo_def split: option.splits)
  let ?s = "SpecSchema (convertScalars (noScalars\<lparr>scRequired := rq, scDefault := df, scDescription := ds\<rparr>)) [t]
      (map_option (\<lambda>i. (Some (converted i), [])) it) None None None None (map_option (map (map_prod id converted)) ps)
      (map_option (\<lambda>a. case fst a of Some i \<Rightarrow> (Some (converted i), False) | None \<Rightarrow> (None, snd a)) ad)"
  have conv: "ConvertSchema (fullSchema (Props t ps rq it ad df ds)) = Some ?s"
    using items additional converts_properties(1) [OF ps]
    by (simp add: writesDocs_def convertSchemas_def convertNot_def)
  moreover have "readSchema ?s = ConvertJSONSchemaPropsToSpecSchema (Props t ps rq it ad df ds)"
    using converts_properties(2) [OF ps] it ad
    by (cases it; cases ad)
      (auto simp: convertScalars_def noScalars_def optList_def convertAdditional_def convertsTo_def split: option.splits)
  ultimately show ?case by (simp add: convertsTo_def converted_def)
qed

text \<open>The conversion in \<open>Json_Schema\<close> is the whole conversion on the schemas kro makes.\<close>

lemma conversion_of_kro_schemas: "map_option readSchema (ConvertSchema (fullSchema p)) = Some (ConvertJSONSchemaPropsToSpecSchema p)"
  using converts_all [of p] by (simp add: convertsTo_def)

section \<open>Properties\<close>

text \<open>
  C31. The conversion of a schema keeps everything it reads: for every schema without external
  documentation it returns a schema from which the original can be read back, with all limits,
  items, alternatives, properties and additional properties to any depth, and without only the fields
  that are not read; with external documentation anywhere in the schema it panics.
\<close>

theorem schema_conversion_roundtrip:
  "map_option schemaOf (ConvertSchema p) = (if documented p then None else Some (kept p))"
proof (cases "ConvertSchema p")
  case None
  then show ?thesis using ConvertSchema_None_documented by simp
next
  case (Some s)
  then have "\<not> documented p" using ConvertSchema_None_documented by (metis option.distinct(1))
  then show ?thesis using Some schemaOf_ConvertSchema by simp
qed

section \<open>Where the code departs from its intention\<close>

text \<open>An enumeration, a reference or the extension for unknown fields leaves no trace in the result.\<close>

lemma unread_fields_lost:
  "ConvertSchema (JSONSchemaProps sc t docs un items allOf oneOf anyOf n ps ad) =
   ConvertSchema (JSONSchemaProps sc t docs un' items allOf oneOf anyOf n ps ad)"
  by simp

end
