(* ===== verification/Dynamic_Controller.thy ===== *)
theory Dynamic_Controller
  imports Requeue Metadata
begin

text \<open>
  The dynamic controller, \<open>src/pkg/dynamiccontroller/dynamic_controller.go\<close>: one controller that watches
  any number of resource types, each with a handler that can be registered and removed at run time.

  The maps of informers and handlers are association lists, \<open>dcRunning\<close> are the types whose informer
  goroutine runs. The work queue, the informers and the handlers are arguments: \<open>workqueue\<close> and \<open>informerLib\<close>
  are client-go's, a handler acts on the world \<open>'w\<close>. \<open>Get\<close> returns an item, or \<open>None\<close> when the queue
  shuts down; all items are \<open>ObjectIdentifiers\<close>, since only \<open>enqueueObject\<close> adds to the queue. A handler
  returns \<open>None\<close> when it panics, which ends the process. Logging is left out; the metrics are in \<open>Metrics\<close>,
  \<open>Run\<close>, its worker goroutines and the shutdown in \<open>Controller_Run\<close>.
\<close>

section \<open>The outside\<close>

record ObjectIdentifiers =
  NamespacedKey :: string
  oiGVR :: GroupVersionResource

record 'q workqueue =
  qGet :: "'q \<Rightarrow> ObjectIdentifiers option \<times> 'q"
  qDone :: "ObjectIdentifiers \<Rightarrow> 'q \<Rightarrow> 'q"
  qForget :: "ObjectIdentifiers \<Rightarrow> 'q \<Rightarrow> 'q"
  qAdd :: "ObjectIdentifiers \<Rightarrow> 'q \<Rightarrow> 'q"
  qAddAfter :: "ObjectIdentifiers \<Rightarrow> 64 word \<Rightarrow> 'q \<Rightarrow> 'q"
  qAddRateLimited :: "ObjectIdentifiers \<Rightarrow> 'q \<Rightarrow> 'q"
  qNumRequeues :: "ObjectIdentifiers \<Rightarrow> 'q \<Rightarrow> int"

record 'w informerLib =
  addEventHandler :: "GroupVersionResource \<Rightarrow> 'w \<Rightarrow> goerror option \<times> 'w"
  waitForCacheSync :: "GroupVersionResource \<Rightarrow> 'w \<Rightarrow> bool \<times> 'w"

type_synonym 'w handler = "string \<Rightarrow> 'w \<Rightarrow> (goerror option \<times> 'w) option"

text \<open>What an informer delivers: an object, or the key of one whose deletion was missed.\<close>

datatype informer_object = Unstructured "val gomap" | DeletedFinalStateUnknown string

record object_lib =
  objKey :: "val gomap \<Rightarrow> string + string"
  objGVK :: "val gomap \<Rightarrow> GroupVersionKind"
  objGeneration :: "val gomap \<Rightarrow> 64 word"
  objPluralize :: "string \<Rightarrow> string"

section \<open>State\<close>

record ('w, 'q) DynamicController =
  dcQueueMaxRetries :: int
  dcInformers :: "(GroupVersionResource \<times> unit) list"
  dcHandlers :: "(GroupVersionResource \<times> 'w handler) list"
  dcRunning :: "GroupVersionResource list"
  dcQueue :: 'q
  dcWorld :: 'w

definition NewDynamicController :: "int \<Rightarrow> 'q \<Rightarrow> 'w \<Rightarrow> ('w, 'q) DynamicController" where
  "NewDynamicController maxRetries q w =
     \<lparr>dcQueueMaxRetries = maxRetries, dcInformers = [], dcHandlers = [], dcRunning = [], dcQueue = q, dcWorld = w\<rparr>"

text \<open>
  The values of the map are informer wrappers, which are no \<open>SharedIndexInformer\<close>: the first one that
  the iteration visits ends it, and nothing ever sets \<open>allSynced\<close>.
\<close>

definition castInformer :: "unit \<Rightarrow> bool option" where
  "castInformer wrapper = None"

fun syncedRange :: "(GroupVersionResource \<times> unit) list \<Rightarrow> bool \<times> nat \<Rightarrow> bool \<times> nat" where
  "syncedRange [] st = st"
| "syncedRange (x # xs) (allSynced, informerCount) =
     (case castInformer (snd x) of
        None \<Rightarrow> (False, informerCount + 1)
      | Some hasSynced \<Rightarrow> (if \<not> hasSynced then (False, informerCount + 1) else syncedRange xs (allSynced, informerCount + 1)))"

definition AllInformerHaveSynced :: "('w, 'q) DynamicController \<Rightarrow> bool" where
  "AllInformerHaveSynced dc =
     (case syncedRange (dcInformers dc) (False, 0) of (allSynced, informerCount) \<Rightarrow> if informerCount = 0 then True else allSynced)"

section \<open>Workers\<close>

definition gvrKey :: "GroupVersionResource \<Rightarrow> string" where
  "gvrKey gvr = gvrGroup gvr @ ''/'' @ gvrVersion gvr @ ''/'' @ gvrResource gvr"

definition syncFunc :: "ObjectIdentifiers \<Rightarrow> ('w, 'q) DynamicController \<Rightarrow> (goerror option \<times> 'w) option" where
  "syncFunc oi dc =
     (case map_of (dcHandlers dc) (oiGVR oi) of
        None \<Rightarrow> Some (Some (Errorf (''no handler found for GVR: '' @ gvrKey (oiGVR oi))), dcWorld dc)
      | Some handlerFunc \<Rightarrow> handlerFunc (NamespacedKey oi) (dcWorld dc))"

text \<open>What happens to an item after its handler: the requeue errors are matched by their type, unwrapped ones only.\<close>

definition requeueItem :: "'q workqueue \<Rightarrow> int \<Rightarrow> ObjectIdentifiers \<Rightarrow> goerror option \<Rightarrow> 'q \<Rightarrow> 'q" where
  "requeueItem Q maxRetries item err q =
     (case err of
        None \<Rightarrow> qForget Q item q
      | Some e \<Rightarrow>
          (if IsNotFound e then qForget Q item q
           else case e of
                  NoRequeue _ \<Rightarrow> qForget Q item q
                | RequeueNeeded _ \<Rightarrow> qAdd Q item q
                | RequeueNeededAfter _ d \<Rightarrow> qAddAfter Q item d q
                | _ \<Rightarrow> (if qNumRequeues Q item q < maxRetries then qAddRateLimited Q item q else qForget Q item q)))"

datatype worker_result = NextItem | QueueShutDown | WorkerPanic

definition processNextWorkItem ::
  "'q workqueue \<Rightarrow> ('w, 'q) DynamicController \<Rightarrow> ('w, 'q) DynamicController \<times> worker_result" where
  "processNextWorkItem Q dc =
     (case qGet Q (dcQueue dc) of
        (None, q1) \<Rightarrow> (dc\<lparr>dcQueue := q1\<rparr>, QueueShutDown)
      | (Some item, q1) \<Rightarrow>
          (case syncFunc item (dc\<lparr>dcQueue := q1\<rparr>) of
             None \<Rightarrow> (dc\<lparr>dcQueue := q1\<rparr>, WorkerPanic)
           | Some (err, w) \<Rightarrow>
               (dc\<lparr>dcQueue := qDone Q item (requeueItem Q (dcQueueMaxRetries dc) item err q1), dcWorld := w\<rparr>, NextItem)))"

section \<open>Events\<close>

definition enqueueObject ::
  "object_lib \<Rightarrow> 'q workqueue \<Rightarrow> informer_object \<Rightarrow> ('w, 'q) DynamicController \<Rightarrow> ('w, 'q) DynamicController" where
  "enqueueObject L Q obj dc =
     (case (case obj of Unstructured u \<Rightarrow> objKey L u | DeletedFinalStateUnknown key \<Rightarrow> Inr key) of
        Inl err \<Rightarrow> dc
      | Inr namespacedKey \<Rightarrow>
          (case obj of
             DeletedFinalStateUnknown _ \<Rightarrow> dc
           | Unstructured u \<Rightarrow>
               dc\<lparr>dcQueue := qAdd Q \<lparr>NamespacedKey = namespacedKey, oiGVR = GVKtoGVR (objPluralize L) (objGVK L u)\<rparr> (dcQueue dc)\<rparr>))"

definition updateFunc ::
  "object_lib \<Rightarrow> 'q workqueue \<Rightarrow> informer_object \<Rightarrow> informer_object \<Rightarrow> ('w, 'q) DynamicController \<Rightarrow> ('w, 'q) DynamicController" where
  "updateFunc L Q old new dc =
     (case (new, old) of
        (Unstructured newObj, Unstructured oldObj) \<Rightarrow>
          (if objGeneration L newObj = objGeneration L oldObj then dc else enqueueObject L Q new dc)
      | _ \<Rightarrow> dc)"

section \<open>Registration\<close>

definition StartServingGVK ::
  "'w informerLib \<Rightarrow> GroupVersionResource \<Rightarrow> 'w handler \<Rightarrow> ('w, 'q) DynamicController \<Rightarrow>
   goerror option \<times> ('w, 'q) DynamicController" where
  "StartServingGVK I gvr handler dc =
     (if map_of (dcInformers dc) gvr \<noteq> None then (None, dc\<lparr>dcHandlers := AList.update gvr handler (dcHandlers dc)\<rparr>)
      else case addEventHandler I gvr (dcWorld dc) of
             (Some err, w) \<Rightarrow>
               (Some (ErrorfWrap (''failed to add event handler for GVR '' @ gvrKey gvr) err), dc\<lparr>dcWorld := w\<rparr>)
           | (None, w) \<Rightarrow>
               (let dc1 = dc\<lparr>dcHandlers := AList.update gvr handler (dcHandlers dc), dcRunning := gvr # dcRunning dc\<rparr> in
                case waitForCacheSync I gvr w of
                  (False, w1) \<Rightarrow>
                    (Some (Errorf (''failed to sync informer cache for GVR '' @ gvrKey gvr)),
                     dc1\<lparr>dcWorld := w1, dcRunning := remove1 gvr (dcRunning dc1)\<rparr>)
                | (True, w1) \<Rightarrow> (None, dc1\<lparr>dcWorld := w1, dcInformers := AList.update gvr () (dcInformers dc1)\<rparr>)))"

definition StopServiceGVK ::
  "GroupVersionResource \<Rightarrow> ('w, 'q) DynamicController \<Rightarrow> ('w, 'q) DynamicController" where
  "StopServiceGVK gvr dc =
     (case map_of (dcInformers dc) gvr of
        None \<Rightarrow> dc
      | Some wrapper \<Rightarrow>
          dc\<lparr>dcRunning := remove1 gvr (dcRunning dc), dcInformers := AList.delete gvr (dcInformers dc),
             dcHandlers := AList.delete gvr (dcHandlers dc)\<rparr>)"

section \<open>The controller as a state machine\<close>

text \<open>
  The calls that change the controller, in any order: registration and removal of a type and events of
  the informers; and workers that process an item.
\<close>

inductive dc_call ::
  "'w informerLib \<Rightarrow> object_lib \<Rightarrow> 'q workqueue \<Rightarrow> ('w, 'q) DynamicController \<Rightarrow> ('w, 'q) DynamicController \<Rightarrow> bool"
  for I L Q where
  serve: "StartServingGVK I gvr h dc = (r, dc') \<Longrightarrow> dc_call I L Q dc dc'"
| stop: "dc_call I L Q dc (StopServiceGVK gvr dc)"
| add: "dc_call I L Q dc (enqueueObject L Q obj dc)"
| update: "dc_call I L Q dc (updateFunc L Q old new dc)"

inductive dc_step ::
  "'w informerLib \<Rightarrow> object_lib \<Rightarrow> 'q workqueue \<Rightarrow> ('w, 'q) DynamicController \<Rightarrow> ('w, 'q) DynamicController \<Rightarrow> bool"
  for I L Q where
  call: "dc_call I L Q dc dc' \<Longrightarrow> dc_step I L Q dc dc'"
| work: "processNextWorkItem Q dc = (dc', r) \<Longrightarrow> dc_step I L Q dc dc'"

inductive dc_reachable ::
  "'w informerLib \<Rightarrow> object_lib \<Rightarrow> 'q workqueue \<Rightarrow> ('w, 'q) DynamicController \<Rightarrow> ('w, 'q) DynamicController \<Rightarrow> bool"
  for I L Q dc0 where
  start: "dc_reachable I L Q dc0 dc0"
| step: "dc_reachable I L Q dc0 dc \<Longrightarrow> dc_step I L Q dc dc' \<Longrightarrow> dc_reachable I L Q dc0 dc'"

inductive_simps dc_step_iff: "dc_step I L Q dc dc'"

text \<open>The informers that run are the registered ones, and each type that is watched has a handler.\<close>

definition registered :: "('w, 'q) DynamicController \<Rightarrow> bool" where
  "registered dc \<longleftrightarrow> distinct (dcRunning dc) \<and> (\<forall>g. g \<in> set (dcRunning dc) \<longleftrightarrow> map_of (dcInformers dc) g \<noteq> None) \<and>
     (\<forall>g. map_of (dcInformers dc) g \<noteq> None \<longrightarrow> map_of (dcHandlers dc) g \<noteq> None)"

text \<open>The ways in which \<open>StartServingGVK\<close> ends.\<close>

lemma startServing_cases:
  assumes "StartServingGVK I gvr h dc = (r, dc')"
  obtains "map_of (dcInformers dc) gvr \<noteq> None" "r = None" "dc' = dc\<lparr>dcHandlers := AList.update gvr h (dcHandlers dc)\<rparr>"
    | e w where "map_of (dcInformers dc) gvr = None" "r = Some e" "dc' = dc\<lparr>dcWorld := w\<rparr>"
    | e w where "map_of (dcInformers dc) gvr = None" "r = Some e"
        "dc' = dc\<lparr>dcHandlers := AList.update gvr h (dcHandlers dc), dcWorld := w\<rparr>"
    | w where "map_of (dcInformers dc) gvr = None" "r = None"
        "dc' = dc\<lparr>dcHandlers := AList.update gvr h (dcHandlers dc), dcRunning := gvr # dcRunning dc, dcWorld := w,
          dcInformers := AList.update gvr () (dcInformers dc)\<rparr>"
proof (cases "map_of (dcInformers dc) gvr")
  case None
  obtain e w where ew: "addEventHandler I gvr (dcWorld dc) = (e, w)" by (rule prod.exhaust)
  obtain b w1 where bw: "waitForCacheSync I gvr w = (b, w1)" by (rule prod.exhaust)
  show thesis using assms None ew bw that(2-4) by (cases e; cases b) (auto simp: StartServingGVK_def)
next
  case (Some x)
  then show thesis using assms that(1) by (simp add: StartServingGVK_def)
qed

lemma registered_start:
  assumes "registered dc" and "StartServingGVK I gvr h dc = (r, dc')"
  shows "registered dc'"
  by (cases rule: startServing_cases [OF assms(2)]) (use assms(1) in \<open>simp_all add: registered_def update_conv'\<close>)

lemma registered_stop:
  assumes "registered dc"
  shows "registered (StopServiceGVK gvr dc)"
  using assms by (auto simp: StopServiceGVK_def registered_def delete_conv' split: option.splits)

text \<open>The other calls leave the registrations alone.\<close>

definition sameRegistrations :: "('w, 'q) DynamicController \<Rightarrow> ('w, 'q) DynamicController \<Rightarrow> bool" where
  "sameRegistrations dc dc' \<longleftrightarrow> dcRunning dc' = dcRunning dc \<and> dcInformers dc' = dcInformers dc \<and>
     dcHandlers dc' = dcHandlers dc \<and> dcQueueMaxRetries dc' = dcQueueMaxRetries dc"

lemma registrations_kept:
  "sameRegistrations dc (enqueueObject L Q obj dc)" "sameRegistrations dc (updateFunc L Q old new dc)"
  "processNextWorkItem Q dc = (dc', r) \<Longrightarrow> sameRegistrations dc dc'"
  by (auto simp: sameRegistrations_def updateFunc_def enqueueObject_def processNextWorkItem_def
      split: informer_object.splits sum.splits prod.splits option.splits)

lemma registered_same: "sameRegistrations dc dc' \<Longrightarrow> registered dc \<Longrightarrow> registered dc'"
  by (simp add: sameRegistrations_def registered_def)

lemma registered_call: "dc_call I L Q dc dc' \<Longrightarrow> registered dc \<Longrightarrow> registered dc'"
proof (induction rule: dc_call.induct)
  case (serve gvr h dc r dc')
  then show ?case using registered_start by blast
qed (auto intro: registered_stop registered_same registrations_kept)

lemma registered_step: "dc_step I L Q dc dc' \<Longrightarrow> registered dc \<Longrightarrow> registered dc'"
  by (auto simp: dc_step_iff intro: registered_call registered_same registrations_kept)

lemma registered_reachable: "dc_reachable I L Q dc0 dc \<Longrightarrow> registered dc0 \<Longrightarrow> registered dc"
  by (induction rule: dc_reachable.induct) (auto intro: registered_step)

lemma registered_new: "registered (NewDynamicController maxRetries q w)"
  by (simp add: registered_def NewDynamicController_def)

section \<open>Retries\<close>

text \<open>What the documentation of the rate limiting queue says of its counters.\<close>

definition counts_requeues :: "'q workqueue \<Rightarrow> bool" where
  "counts_requeues Q \<longleftrightarrow>
     (\<forall>i q. qNumRequeues Q i (snd (qGet Q q)) = qNumRequeues Q i q) \<and>
     (\<forall>i j q. qNumRequeues Q i (qDone Q j q) = qNumRequeues Q i q) \<and>
     (\<forall>i j q. qNumRequeues Q i (qAdd Q j q) = qNumRequeues Q i q) \<and>
     (\<forall>i j d q. qNumRequeues Q i (qAddAfter Q j d q) = qNumRequeues Q i q) \<and>
     (\<forall>i j q. qNumRequeues Q i (qForget Q j q) = (if i = j then 0 else qNumRequeues Q i q)) \<and>
     (\<forall>i j q. qNumRequeues Q i (qAddRateLimited Q j q) = (if i = j then qNumRequeues Q i q + 1 else qNumRequeues Q i q))"

definition withinRetries :: "'q workqueue \<Rightarrow> int \<Rightarrow> 'q \<Rightarrow> bool" where
  "withinRetries Q n q \<longleftrightarrow> (\<forall>i. 0 \<le> qNumRequeues Q i q \<and> qNumRequeues Q i q \<le> n)"

lemma requeueItem_cases:
  obtains "requeueItem Q n item err q = qForget Q item q" | "requeueItem Q n item err q = qAdd Q item q"
    | d where "requeueItem Q n item err q = qAddAfter Q item d q"
    | "requeueItem Q n item err q = qAddRateLimited Q item q" "qNumRequeues Q item q < n"
proof (cases err)
  case (Some e)
  then show thesis
    using that by (cases "qNumRequeues Q item q < n"; cases e) (simp_all add: requeueItem_def IsNotFound_def)
qed (use that in \<open>simp add: requeueItem_def\<close>)

lemma withinRetries_requeue:
  assumes "counts_requeues Q" and "0 \<le> n" and "withinRetries Q n q"
  shows "withinRetries Q n (requeueItem Q n item err q)"
  by (rule requeueItem_cases [of Q n item err q]) (use assms in \<open>simp_all add: counts_requeues_def withinRetries_def\<close>)

lemma withinRetries_get:
  assumes "counts_requeues Q" and "withinRetries Q n q" and "qGet Q q = (x, q')"
  shows "withinRetries Q n q'"
proof -
  have "\<forall>i. qNumRequeues Q i q' = qNumRequeues Q i q"
    using assms(1,3) unfolding counts_requeues_def by (metis snd_conv)
  then show ?thesis using assms(2) by (simp add: withinRetries_def)
qed

lemma withinRetries_keep:
  assumes "counts_requeues Q" and "withinRetries Q n q"
  shows "withinRetries Q n (qDone Q i q)" "withinRetries Q n (qAdd Q i q)"
  using assms by (simp_all add: counts_requeues_def withinRetries_def)

lemma withinRetries_work:
  assumes "counts_requeues Q" and "0 \<le> dcQueueMaxRetries dc" and "withinRetries Q (dcQueueMaxRetries dc) (dcQueue dc)"
    and "processNextWorkItem Q dc = (dc', r)"
  shows "withinRetries Q (dcQueueMaxRetries dc) (dcQueue dc')"
proof -
  obtain x q1 where q1: "qGet Q (dcQueue dc) = (x, q1)" by (rule prod.exhaust)
  then have within: "withinRetries Q (dcQueueMaxRetries dc) q1" by (rule withinRetries_get [OF assms(1,3)])
  have "dcQueue dc' = q1 \<or> (\<exists>item err. dcQueue dc' = qDone Q item (requeueItem Q (dcQueueMaxRetries dc) item err q1))"
    using assms(4) q1 by (fastforce simp: processNextWorkItem_def split: option.splits)
  then show ?thesis
    using within withinRetries_requeue [OF assms(1,2) within] withinRetries_keep(1) [OF assms(1)] by auto
qed

lemma registration_keeps_queue:
  "StartServingGVK I gvr h dc = (r, dc') \<Longrightarrow> dcQueue dc' = dcQueue dc \<and> dcQueueMaxRetries dc' = dcQueueMaxRetries dc"
  "dcQueue (StopServiceGVK gvr dc) = dcQueue dc \<and> dcQueueMaxRetries (StopServiceGVK gvr dc) = dcQueueMaxRetries dc"
  by (auto elim!: startServing_cases simp: StopServiceGVK_def split: option.split)

lemma events_enqueue:
  "dcQueue (enqueueObject L Q obj dc) = dcQueue dc \<or> (\<exists>i. dcQueue (enqueueObject L Q obj dc) = qAdd Q i (dcQueue dc))"
  "dcQueue (updateFunc L Q old new dc) = dcQueue dc \<or> (\<exists>i. dcQueue (updateFunc L Q old new dc) = qAdd Q i (dcQueue dc))"
  by (auto simp: updateFunc_def enqueueObject_def split: informer_object.split sum.split)

text \<open>A call leaves the queue alone or adds one item.\<close>

lemma call_queue:
  assumes "dc_call I L Q dc dc'"
  obtains "dcQueue dc' = dcQueue dc" "dcQueueMaxRetries dc' = dcQueueMaxRetries dc"
    | i where "dcQueue dc' = qAdd Q i (dcQueue dc)" "dcQueueMaxRetries dc' = dcQueueMaxRetries dc"
  using assms
proof cases
  case (serve gvr h r)
  then show thesis using registration_keeps_queue(1) that(1) by metis
next
  case (stop gvr)
  then show thesis using registration_keeps_queue(2) that(1) by metis
next
  case (add obj)
  then show thesis
    using events_enqueue(1) [of L Q obj dc] registrations_kept(1) [of dc L Q obj] that by (auto simp: sameRegistrations_def)
next
  case (update old new)
  then show thesis
    using events_enqueue(2) [of L Q old new dc] registrations_kept(2) [of dc L Q old new] that
    by (auto simp: sameRegistrations_def)
qed

lemma withinRetries_call:
  assumes "counts_requeues Q" and "dc_call I L Q dc dc'" and "withinRetries Q n (dcQueue dc)"
  shows "withinRetries Q n (dcQueue dc')"
  by (rule call_queue [OF assms(2)]) (simp_all add: assms(3) withinRetries_keep(2) [OF assms(1)])

lemma withinRetries_step:
  assumes "counts_requeues Q" and "0 \<le> n" and "dc_step I L Q dc dc'"
    and "dcQueueMaxRetries dc = n \<and> withinRetries Q n (dcQueue dc)"
  shows "dcQueueMaxRetries dc' = n \<and> withinRetries Q n (dcQueue dc')"
  using assms(3)
proof cases
  case call
  have "dcQueueMaxRetries dc' = dcQueueMaxRetries dc" by (rule call_queue [OF call]) simp_all
  then show ?thesis using withinRetries_call [OF assms(1) call] assms(4) by simp
next
  case (work r)
  then show ?thesis
    using withinRetries_work [OF assms(1), of dc dc' r] registrations_kept(3) [OF work] assms(2,4)
    by (auto simp: sameRegistrations_def)
qed

section \<open>Properties\<close>

text \<open>
  C36. Whatever sequence of registrations, removals, events and work items the controller goes
  through, the informers that run are exactly the registered ones, none runs twice, and an item of a
  type that is watched is always passed to a handler.
\<close>

theorem watched_types_are_handled:
  assumes "dc_reachable I L Q (NewDynamicController maxRetries q w) dc"
  shows "distinct (dcRunning dc) \<and> (\<forall>g. g \<in> set (dcRunning dc) \<longleftrightarrow> map_of (dcInformers dc) g \<noteq> None) \<and>
    (\<forall>item. oiGVR item \<in> set (dcRunning dc) \<longrightarrow>
      (\<exists>h. map_of (dcHandlers dc) (oiGVR item) = Some h \<and> syncFunc item dc = h (NamespacedKey item) (dcWorld dc)))"
proof -
  have "registered dc" using registered_reachable [OF assms registered_new] .
  then show ?thesis by (fastforce simp: registered_def syncFunc_def)
qed

text \<open>
  No item is retried without end: with the counters of a rate limiting queue, in every state the
  controller can reach, every item has at most \<open>QueueMaxRetries\<close> rate-limited retries on its count.
\<close>

lemma retries_bounded:
  assumes "counts_requeues Q" and "0 \<le> maxRetries" and "\<forall>i. qNumRequeues Q i q = 0"
    and "dc_reachable I L Q (NewDynamicController maxRetries q w) dc"
  shows "\<forall>item. 0 \<le> qNumRequeues Q item (dcQueue dc) \<and> qNumRequeues Q item (dcQueue dc) \<le> maxRetries"
proof -
  have "dcQueueMaxRetries dc = maxRetries \<and> withinRetries Q maxRetries (dcQueue dc)"
    using assms(4)
  proof (induction rule: dc_reachable.induct)
    case start
    then show ?case using assms(2,3) by (simp add: NewDynamicController_def withinRetries_def)
  next
    case (step dc dc')
    then show ?case using withinRetries_step [OF assms(1,2)] by metis
  qed
  then show ?thesis by (simp add: withinRetries_def)
qed

section \<open>Witnesses\<close>

type_synonym example_queue = "ObjectIdentifiers list \<times> (ObjectIdentifiers \<Rightarrow> int)"

definition exampleQueue :: "example_queue workqueue" where
  "exampleQueue =
     \<lparr>qGet = (\<lambda>(xs, f). case xs of [] \<Rightarrow> (None, (xs, f)) | x # ys \<Rightarrow> (Some x, (ys, f))),
      qDone = (\<lambda>i q. q),
      qForget = (\<lambda>i (xs, f). (xs, f(i := 0))),
      qAdd = (\<lambda>i (xs, f). (xs @ [i], f)),
      qAddAfter = (\<lambda>i d (xs, f). (xs @ [i], f)),
      qAddRateLimited = (\<lambda>i (xs, f). (xs @ [i], f(i := f i + 1))),
      qNumRequeues = (\<lambda>i (xs, f). f i)\<rparr>"

lemma exampleQueue_counts: "counts_requeues exampleQueue"
  by (auto simp: counts_requeues_def exampleQueue_def split: list.splits)

definition exampleInformers :: "unit informerLib" where
  "exampleInformers = \<lparr>addEventHandler = (\<lambda>g w. (None, w)), waitForCacheSync = (\<lambda>g w. (True, w))\<rparr>"

definition exampleObjects :: object_lib where
  "exampleObjects =
     \<lparr>objKey = (\<lambda>u. Inr ''default/a''), objGVK = (\<lambda>u. \<lparr>gvkGroup = ''kro.run'', gvkVersion = ''v1'', gvkKind = ''app''\<rparr>),
      objGeneration = (\<lambda>u. 1), objPluralize = (\<lambda>s. s @ ''s'')\<rparr>"

definition exampleGvr :: GroupVersionResource where
  "exampleGvr = \<lparr>gvrGroup = ''kro.run'', gvrVersion = ''v1'', gvrResource = ''apps''\<rparr>"

definition failingHandler :: "unit handler" where
  "failingHandler name w = Some (Some (Errorf name), w)"

definition exampleStart :: "(unit, example_queue) DynamicController" where
  "exampleStart = NewDynamicController 2 ([], \<lambda>i. 0) ()"

text \<open>A type is served, an object of it arrives, and its handler fails.\<close>

definition exampleServed :: "(unit, example_queue) DynamicController" where
  "exampleServed = snd (StartServingGVK exampleInformers exampleGvr failingHandler exampleStart)"

definition exampleWorked :: "(unit, example_queue) DynamicController" where
  "exampleWorked = fst (processNextWorkItem exampleQueue (enqueueObject exampleObjects exampleQueue (Unstructured []) exampleServed))"

lemma exampleWorked_reachable:
  "dc_reachable exampleInformers exampleObjects exampleQueue (NewDynamicController 2 ([], \<lambda>i. 0) ()) exampleWorked"
proof -
  let ?dc = "enqueueObject exampleObjects exampleQueue (Unstructured []) exampleServed"
  have "dc_step exampleInformers exampleObjects exampleQueue exampleStart exampleServed"
    unfolding exampleServed_def by (rule dc_step.call, rule dc_call.serve) (rule prod.collapse [symmetric])
  moreover have "dc_step exampleInformers exampleObjects exampleQueue exampleServed ?dc" by (rule dc_step.call, rule dc_call.add)
  moreover have "dc_step exampleInformers exampleObjects exampleQueue ?dc exampleWorked"
    unfolding exampleWorked_def by (rule dc_step.work) (rule prod.collapse [symmetric])
  ultimately show ?thesis using dc_reachable.intros unfolding exampleStart_def by metis
qed

lemmas example_defs = exampleWorked_def exampleServed_def exampleStart_def NewDynamicController_def StartServingGVK_def
  exampleInformers_def exampleObjects_def exampleQueue_def enqueueObject_def processNextWorkItem_def syncFunc_def
  requeueItem_def GVKtoGVR_def toLower_def toLowerChar_def exampleGvr_def failingHandler_def IsNotFound_def

theorem watched_types_are_handled_witness:
  "exampleGvr \<in> set (dcRunning exampleWorked) \<and>
   (\<exists>h. map_of (dcHandlers exampleWorked) exampleGvr = Some h \<and>
     syncFunc \<lparr>NamespacedKey = ''default/a'', oiGVR = exampleGvr\<rparr> exampleWorked = h ''default/a'' (dcWorld exampleWorked))"
proof -
  have "exampleGvr \<in> set (dcRunning exampleWorked)" by (simp add: example_defs)
  then show ?thesis
    using watched_types_are_handled [OF exampleWorked_reachable] by (metis ObjectIdentifiers.select_convs)
qed

lemma retries_bounded_witness:
  "qNumRequeues exampleQueue \<lparr>NamespacedKey = ''default/a'', oiGVR = exampleGvr\<rparr> (dcQueue exampleWorked) \<le> 2 \<and>
   qNumRequeues exampleQueue \<lparr>NamespacedKey = ''default/a'', oiGVR = exampleGvr\<rparr> (dcQueue exampleWorked) = 1"
proof -
  have "\<forall>i. qNumRequeues exampleQueue i ([], \<lambda>i. 0) = 0" by (simp add: exampleQueue_def)
  from retries_bounded [OF exampleQueue_counts _ this exampleWorked_reachable] show ?thesis
    by (simp add: example_defs)
qed

section \<open>Where the code departs from its intention\<close>

lemma informers_never_synced: "AllInformerHaveSynced dc \<longleftrightarrow> dcInformers dc = []"
  by (cases "dcInformers dc") (simp_all add: AllInformerHaveSynced_def castInformer_def)

lemma missed_deletion_dropped: "enqueueObject L Q (DeletedFinalStateUnknown key) dc = dc"
  by (simp add: enqueueObject_def)

text \<open>A requeue error inside of another error is not recognized.\<close>

lemma wrapped_requeue_rate_limited:
  "qNumRequeues Q item q < n \<Longrightarrow>
   requeueItem Q n item (Some (ErrorfWrap s (RequeueNeededAfter e d))) q = qAddRateLimited Q item q"
  by (simp add: requeueItem_def IsNotFound_def)

end
