(* ===== verification/Metrics.thy ===== *)
theory Metrics
  imports Dynamic_Controller Instance_Controller
begin

text \<open>
  What kro tells Prometheus: \<open>src/pkg/dynamiccontroller/metrics.go\<close>, \<open>src/internal/controller/instance/metrics.go\<close>
  and the places of the dynamic controller and of \<open>getExecutionClient\<close> that record them.

  The operations of the dynamic controller are here once more, with the list of the calls on
  metrics they make. The value of a counter is the number of its increments, the value of a gauge what
  its calls leave behind. The clock is left out: an observation of a duration keeps the labels only.
  \<open>gvr.String()\<close> is the argument \<open>gvrText\<close>, the length of the queue the argument \<open>qLen\<close>.
\<close>

section \<open>The metrics\<close>

datatype metric_call =
    CounterInc string "string list"
  | GaugeInc string
  | GaugeDec string
  | GaugeSet string nat
  | Observe string "string list"

text \<open>The metrics that the two \<open>init\<close> functions register, with their labels.\<close>

definition dynamicControllerMetrics :: "(string \<times> string list) list" where
  "dynamicControllerMetrics =
     [(''dynamic_controller_reconcile_total'', [''gvr'']),
      (''dynamic_controller_requeue_total'', [''gvr'', ''type'']),
      (''dynamic_controller_reconcile_duration_seconds'', [''gvr'']),
      (''dynamic_controller_gvr_count'', []),
      (''dynamic_controller_queue_length'', []),
      (''dynamic_controller_handler_errors_total'', [''gvr'']),
      (''dynamic_controller_informer_sync_duration_seconds'', [''gvr'']),
      (''dynamic_controller_informer_events_total'', [''gvr'', ''event_type''])]"

definition instanceMetrics :: "(string \<times> string list) list" where
  "instanceMetrics =
     [(''controller_impersonation_total'', [''namespace'', ''service_account'', ''result'']),
      (''controller_impersonation_errors_total'', [''namespace'', ''service_account'', ''error_type'']),
      (''controller_impersonation_duration_seconds'', [''namespace'', ''service_account''])]"

text \<open>\<open>WithLabelValues\<close> panics unless it is given one value for each label.\<close>

primrec labelled :: "metric_call \<Rightarrow> bool" where
  "labelled (CounterInc n ls) = (map_option length (map_of (dynamicControllerMetrics @ instanceMetrics) n) = Some (length ls))"
| "labelled (Observe n ls) = (map_option length (map_of (dynamicControllerMetrics @ instanceMetrics) n) = Some (length ls))"
| "labelled (GaugeInc n) = (map_of (dynamicControllerMetrics @ instanceMetrics) n = Some [])"
| "labelled (GaugeDec n) = (map_of (dynamicControllerMetrics @ instanceMetrics) n = Some [])"
| "labelled (GaugeSet n k) = (map_of (dynamicControllerMetrics @ instanceMetrics) n = Some [])"

definition counterValue :: "string \<Rightarrow> string list \<Rightarrow> metric_call list \<Rightarrow> nat" where
  "counterValue n ls cs = length (filter (\<lambda>c. c = CounterInc n ls) cs)"

primrec gaugeAfter :: "string \<Rightarrow> metric_call \<Rightarrow> int \<Rightarrow> int" where
  "gaugeAfter n (CounterInc m ls) v = v"
| "gaugeAfter n (Observe m ls) v = v"
| "gaugeAfter n (GaugeInc m) v = (if m = n then v + 1 else v)"
| "gaugeAfter n (GaugeDec m) v = (if m = n then v - 1 else v)"
| "gaugeAfter n (GaugeSet m k) v = (if m = n then int k else v)"

definition gaugeValue :: "string \<Rightarrow> metric_call list \<Rightarrow> int" where
  "gaugeValue n cs = fold (gaugeAfter n) cs 0"

section \<open>The dynamic controller with its metrics\<close>

record ('w, 'q) metered =
  mtController :: "('w, 'q) DynamicController"
  mtCalls :: "metric_call list"

text \<open>The deferred function records the reconciliation, also when the handler panics.\<close>

definition syncFuncMetered ::
  "ObjectIdentifiers \<Rightarrow> ('w, 'q) DynamicController \<Rightarrow> (goerror option \<times> 'w) option \<times> metric_call list" where
  "syncFuncMetered oi dc =
     (let key = gvrKey (oiGVR oi);
          deferred = [Observe ''dynamic_controller_reconcile_duration_seconds'' [key], CounterInc ''dynamic_controller_reconcile_total'' [key]] in
      case map_of (dcHandlers dc) (oiGVR oi) of
        None \<Rightarrow> (Some (Some (Errorf (''no handler found for GVR: '' @ key)), dcWorld dc), deferred)
      | Some handlerFunc \<Rightarrow>
          (case handlerFunc (NamespacedKey oi) (dcWorld dc) of
             None \<Rightarrow> (None, deferred)
           | Some (None, w) \<Rightarrow> (Some (None, w), deferred)
           | Some (Some err, w) \<Rightarrow> (Some (Some err, w), CounterInc ''dynamic_controller_handler_errors_total'' [key] # deferred)))"

definition requeueMetered ::
  "'q workqueue \<Rightarrow> int \<Rightarrow> ObjectIdentifiers \<Rightarrow> goerror option \<Rightarrow> 'q \<Rightarrow> 'q \<times> metric_call list" where
  "requeueMetered Q maxRetries item err q =
     (let requeued = (\<lambda>t. [CounterInc ''dynamic_controller_requeue_total'' [gvrKey (oiGVR item), t]]) in
      case err of
        None \<Rightarrow> (qForget Q item q, [])
      | Some e \<Rightarrow>
          (if IsNotFound e then (qForget Q item q, [])
           else case e of
                  NoRequeue _ \<Rightarrow> (qForget Q item q, requeued ''no_requeue'')
                | RequeueNeeded _ \<Rightarrow> (qAdd Q item q, requeued ''requeue'')
                | RequeueNeededAfter _ d \<Rightarrow> (qAddAfter Q item d q, requeued ''requeue_after'')
                | _ \<Rightarrow> (if qNumRequeues Q item q < maxRetries then qAddRateLimited Q item q else qForget Q item q,
                        requeued ''rate_limited'')))"

definition processNextWorkItemMetered ::
  "('q \<Rightarrow> nat) \<Rightarrow> 'q workqueue \<Rightarrow> ('w, 'q) metered \<Rightarrow> ('w, 'q) metered \<times> worker_result" where
  "processNextWorkItemMetered qLen Q m =
     (let dc = mtController m in
      case qGet Q (dcQueue dc) of
        (None, q1) \<Rightarrow> (m\<lparr>mtController := dc\<lparr>dcQueue := q1\<rparr>\<rparr>, QueueShutDown)
      | (Some item, q1) \<Rightarrow>
          (let calls = mtCalls m @ [GaugeSet ''dynamic_controller_queue_length'' (qLen q1)] in
           case syncFuncMetered item (dc\<lparr>dcQueue := q1\<rparr>) of
             (None, cs) \<Rightarrow> (\<lparr>mtController = dc\<lparr>dcQueue := q1\<rparr>, mtCalls = calls @ cs\<rparr>, WorkerPanic)
           | (Some (err, w), cs) \<Rightarrow>
               (case requeueMetered Q (dcQueueMaxRetries dc) item err q1 of
                  (q2, rs) \<Rightarrow>
                    (\<lparr>mtController = dc\<lparr>dcQueue := qDone Q item q2, dcWorld := w\<rparr>, mtCalls = calls @ cs @ rs\<rparr>, NextItem))))"

definition enqueueObjectMetered ::
  "(GroupVersionResource \<Rightarrow> string) \<Rightarrow> object_lib \<Rightarrow> 'q workqueue \<Rightarrow> informer_object \<Rightarrow> string \<Rightarrow> ('w, 'q) metered \<Rightarrow> ('w, 'q) metered" where
  "enqueueObjectMetered gvrText L Q obj eventType m =
     (case (case obj of Unstructured u \<Rightarrow> objKey L u | DeletedFinalStateUnknown key \<Rightarrow> Inr key) of
        Inl err \<Rightarrow> m
      | Inr namespacedKey \<Rightarrow>
          (case obj of
             DeletedFinalStateUnknown _ \<Rightarrow> m
           | Unstructured u \<Rightarrow>
               (let dc = mtController m; gvr = GVKtoGVR (objPluralize L) (objGVK L u) in
                \<lparr>mtController = dc\<lparr>dcQueue := qAdd Q \<lparr>NamespacedKey = namespacedKey, oiGVR = gvr\<rparr> (dcQueue dc)\<rparr>,
                 mtCalls = mtCalls m @ [CounterInc ''dynamic_controller_informer_events_total'' [gvrText gvr, eventType]]\<rparr>)))"

definition updateFuncMetered ::
  "(GroupVersionResource \<Rightarrow> string) \<Rightarrow> object_lib \<Rightarrow> 'q workqueue \<Rightarrow> informer_object \<Rightarrow> informer_object \<Rightarrow>
   ('w, 'q) metered \<Rightarrow> ('w, 'q) metered" where
  "updateFuncMetered gvrText L Q old new m =
     (case (new, old) of
        (Unstructured newObj, Unstructured oldObj) \<Rightarrow>
          (if objGeneration L newObj = objGeneration L oldObj then m else enqueueObjectMetered gvrText L Q new ''update'' m)
      | _ \<Rightarrow> m)"

definition StartServingGVKMetered ::
  "(GroupVersionResource \<Rightarrow> string) \<Rightarrow> 'w informerLib \<Rightarrow> GroupVersionResource \<Rightarrow> 'w handler \<Rightarrow> ('w, 'q) metered \<Rightarrow>
   goerror option \<times> ('w, 'q) metered" where
  "StartServingGVKMetered gvrText I gvr handler m =
     (let dc = mtController m in
      if map_of (dcInformers dc) gvr \<noteq> None
      then (None, m\<lparr>mtController := dc\<lparr>dcHandlers := AList.update gvr handler (dcHandlers dc)\<rparr>\<rparr>)
      else case addEventHandler I gvr (dcWorld dc) of
             (Some err, w) \<Rightarrow>
               (Some (ErrorfWrap (''failed to add event handler for GVR '' @ gvrKey gvr) err), m\<lparr>mtController := dc\<lparr>dcWorld := w\<rparr>\<rparr>)
           | (None, w) \<Rightarrow>
               (let dc1 = dc\<lparr>dcHandlers := AList.update gvr handler (dcHandlers dc), dcRunning := gvr # dcRunning dc\<rparr>;
                    calls = mtCalls m @ [Observe ''dynamic_controller_informer_sync_duration_seconds'' [gvrText gvr]] in
                case waitForCacheSync I gvr w of
                  (False, w1) \<Rightarrow>
                    (Some (Errorf (''failed to sync informer cache for GVR '' @ gvrKey gvr)),
                     \<lparr>mtController = dc1\<lparr>dcWorld := w1, dcRunning := remove1 gvr (dcRunning dc1)\<rparr>, mtCalls = calls\<rparr>)
                | (True, w1) \<Rightarrow>
                    (None, \<lparr>mtController = dc1\<lparr>dcWorld := w1, dcInformers := AList.update gvr () (dcInformers dc1)\<rparr>,
                            mtCalls = calls @ [GaugeInc ''dynamic_controller_gvr_count'']\<rparr>)))"

definition StopServiceGVKMetered :: "GroupVersionResource \<Rightarrow> ('w, 'q) metered \<Rightarrow> ('w, 'q) metered" where
  "StopServiceGVKMetered gvr m =
     (let dc = mtController m in
      case map_of (dcInformers dc) gvr of
        None \<Rightarrow> m
      | Some wrapper \<Rightarrow>
          \<lparr>mtController = dc\<lparr>dcRunning := remove1 gvr (dcRunning dc), dcInformers := AList.delete gvr (dcInformers dc),
             dcHandlers := AList.delete gvr (dcHandlers dc)\<rparr>,
           mtCalls = mtCalls m @ [GaugeDec ''dynamic_controller_gvr_count'']\<rparr>)"

section \<open>Impersonation\<close>

datatype errorCategory = errorConfigCreate | errorInvalidSA | errorClientCreate | errorPermissions

primrec categoryText :: "errorCategory \<Rightarrow> string" where
  "categoryText errorConfigCreate = ''config_create''"
| "categoryText errorInvalidSA = ''invalid_sa''"
| "categoryText errorClientCreate = ''client_create''"
| "categoryText errorPermissions = ''permissions''"

definition recordImpersonateError :: "string \<Rightarrow> string \<Rightarrow> errorCategory \<Rightarrow> metric_call" where
  "recordImpersonateError namespace sa category =
     CounterInc ''controller_impersonation_errors_total'' [namespace, sa, categoryText category]"

definition handleImpersonateError :: "string \<Rightarrow> string \<Rightarrow> string \<Rightarrow> metric_call" where
  "handleImpersonateError namespace sa err =
     recordImpersonateError namespace sa
       (if strContains err ''forbidden'' then errorPermissions
        else if strContains err ''cannot get token'' then errorConfigCreate
        else errorClientCreate)"

definition impersonatedMetered ::
  "'w Controller \<Rightarrow> string \<Rightarrow> string \<Rightarrow> string \<Rightarrow> string \<Rightarrow> (goerror + 'w dynClient) \<times> metric_call list" where
  "impersonatedMetered c invalid failed namespace sa =
     (case getServiceAccountUserName namespace sa of
        Inl err \<Rightarrow> (Inl (ErrorfWrap invalid (Errorf err)), [handleImpersonateError namespace sa err])
      | Inr userName \<Rightarrow>
          (case ctlImpersonate c userName of
             Inl err \<Rightarrow> (Inl (ErrorfWrap failed (Errorf err)), [handleImpersonateError namespace sa err])
           | Inr pivoted \<Rightarrow> (Inr pivoted, [CounterInc ''controller_impersonation_total'' [namespace, sa, ''success'']])))"

text \<open>The timer is observed at the end, with an empty service account.\<close>

definition getExecutionClientMetered :: "'w Controller \<Rightarrow> string \<Rightarrow> (goerror + 'w dynClient) \<times> metric_call list" where
  "getExecutionClientMetered c namespace =
     (if ctlServiceAccounts c = [] then (Inr (ctlDynamic c), [])
      else let (r, cs) =
             (case map_of (ctlServiceAccounts c) namespace of
                Some sa \<Rightarrow>
                  impersonatedMetered c ''invalid service account configuration'' ''failed to create impersonated client'' namespace sa
              | None \<Rightarrow>
                  (case map_of (ctlServiceAccounts c) ''*'' of
                     Some defaultSA \<Rightarrow>
                       impersonatedMetered c ''invalid default service account configuration''
                         ''failed to create impersonated client with default SA'' namespace defaultSA
                   | None \<Rightarrow> (Inr (ctlDynamic c), [CounterInc ''controller_impersonation_total'' [namespace, [], ''default'']])))
           in (r, cs @ [Observe ''controller_impersonation_duration_seconds'' [namespace, []]]))"

section \<open>The metrics change nothing else\<close>

lemma syncFuncMetered_fst: "fst (syncFuncMetered oi dc) = syncFunc oi dc"
  by (simp add: syncFuncMetered_def syncFunc_def Let_def split: option.split)

lemma requeueMetered_fst: "fst (requeueMetered Q n item err q) = requeueItem Q n item err q"
  by (simp add: requeueMetered_def requeueItem_def Let_def split: option.split goerror.split)

lemma erase_work:
  assumes "processNextWorkItemMetered qLen Q m = (m', r)"
  shows "processNextWorkItem Q (mtController m) = (mtController m', r)"
proof -
  obtain x q1 where q1: "qGet Q (dcQueue (mtController m)) = (x, q1)" by (rule prod.exhaust)
  show ?thesis
  proof (cases x)
    case (Some item)
    obtain s cs where s: "syncFuncMetered item ((mtController m)\<lparr>dcQueue := q1\<rparr>) = (s, cs)" by (rule prod.exhaust)
    then have "syncFunc item ((mtController m)\<lparr>dcQueue := q1\<rparr>) = s" using syncFuncMetered_fst by (metis fst_conv)
    then show ?thesis
      using assms q1 Some s requeueMetered_fst [of Q "dcQueueMaxRetries (mtController m)" item _ q1]
      by (auto simp: processNextWorkItemMetered_def processNextWorkItem_def Let_def split: option.splits prod.splits) (metis fst_conv)
  qed (use assms q1 in \<open>auto simp: processNextWorkItemMetered_def processNextWorkItem_def Let_def\<close>)
qed

lemma erase_event:
  "mtController (enqueueObjectMetered gvrText L Q obj t m) = enqueueObject L Q obj (mtController m)"
  "mtController (updateFuncMetered gvrText L Q old new m) = updateFunc L Q old new (mtController m)"
proof -
  show enq: "mtController (enqueueObjectMetered gvrText L Q obj t m) = enqueueObject L Q obj (mtController m)" for obj t
    by (simp add: enqueueObjectMetered_def enqueueObject_def Let_def split: informer_object.split sum.split)
  show "mtController (updateFuncMetered gvrText L Q old new m) = updateFunc L Q old new (mtController m)"
    by (simp add: updateFuncMetered_def updateFunc_def enq split: informer_object.split)
qed

lemma erase_start:
  "StartServingGVKMetered gvrText I gvr h m = (r, m') \<Longrightarrow> StartServingGVK I gvr h (mtController m) = (r, mtController m')"
  by (auto simp: StartServingGVKMetered_def StartServingGVK_def Let_def split: if_splits prod.splits option.splits bool.splits)

lemma erase_stop: "mtController (StopServiceGVKMetered gvr m) = StopServiceGVK gvr (mtController m)"
  by (simp add: StopServiceGVKMetered_def StopServiceGVK_def Let_def split: option.split)

lemmas erase = erase_work erase_event erase_start erase_stop

section \<open>What the operations record\<close>

lemma counterValue_append [simp]: "counterValue n ls (cs @ ds) = counterValue n ls cs + counterValue n ls ds"
  by (simp add: counterValue_def)

lemma gaugeValue_append: "gaugeValue n (cs @ ds) = fold (gaugeAfter n) ds (gaugeValue n cs)"
  by (simp add: gaugeValue_def)

text \<open>Every error of a handler and every decision on a failed item belongs to a reconciliation of the same type.\<close>

definition requeues :: "string \<Rightarrow> metric_call list \<Rightarrow> nat" where
  "requeues key cs = (\<Sum>t \<leftarrow> [''no_requeue'', ''requeue'', ''requeue_after'', ''rate_limited'']. counterValue ''dynamic_controller_requeue_total'' [key, t] cs)"

definition balanced :: "metric_call list \<Rightarrow> bool" where
  "balanced cs \<longleftrightarrow> (\<forall>key. counterValue ''dynamic_controller_handler_errors_total'' [key] cs \<le> counterValue ''dynamic_controller_reconcile_total'' [key] cs \<and>
     requeues key cs \<le> counterValue ''dynamic_controller_reconcile_total'' [key] cs)"

lemma requeues_append [simp]: "requeues key (cs @ ds) = requeues key cs + requeues key ds"
  by (simp add: requeues_def)

lemma balanced_append: "balanced cs \<Longrightarrow> balanced ds \<Longrightarrow> balanced (cs @ ds)"
  by (simp add: balanced_def add_mono)

text \<open>What one operation adds to the calls: the gauge follows the number of informers.\<close>

definition metersBy :: "('w, 'q) metered \<Rightarrow> metric_call list \<Rightarrow> ('w, 'q) metered \<Rightarrow> bool" where
  "metersBy m cs m' \<longleftrightarrow> mtCalls m' = mtCalls m @ cs \<and> list_all labelled cs \<and> balanced cs \<and>
     (\<forall>v. fold (gaugeAfter ''dynamic_controller_gvr_count'') cs v =
        v + int (length (dcInformers (mtController m'))) - int (length (dcInformers (mtController m))))"

lemma metersBy_nothing: "mtCalls m' = mtCalls m \<Longrightarrow> dcInformers (mtController m') = dcInformers (mtController m) \<Longrightarrow> metersBy m [] m'"
  by (simp add: metersBy_def balanced_def counterValue_def requeues_def)

lemmas call_defs = counterValue_def requeues_def balanced_def metersBy_def dynamicControllerMetrics_def instanceMetrics_def

lemma meters_event: "\<exists>cs. metersBy m cs (enqueueObjectMetered gvrText L Q obj t m)"
proof -
  have "metersBy m [CounterInc ''dynamic_controller_informer_events_total'' [g, t]]
      \<lparr>mtController = (mtController m)\<lparr>dcQueue := q\<rparr>, mtCalls = mtCalls m @ [CounterInc ''dynamic_controller_informer_events_total'' [g, t]]\<rparr>" for g q
    by (simp add: call_defs)
  then show ?thesis
    using metersBy_nothing [of m m] by (auto simp: enqueueObjectMetered_def Let_def split: informer_object.split sum.split)
qed

lemma meters_update: "\<exists>cs. metersBy m cs (updateFuncMetered gvrText L Q old new m)"
  using metersBy_nothing [of m m] meters_event by (auto simp: updateFuncMetered_def split: informer_object.split)

lemma length_delete: "distinct (map fst xs) \<Longrightarrow> map_of xs k = Some v \<Longrightarrow> Suc (length (AList.delete k xs)) = length xs"
proof (induction xs)
  case (Cons x xs)
  obtain k' v' where x: "x = (k', v')" by (rule prod.exhaust)
  then show ?case using Cons by (cases "k' = k") (auto simp: delete_idem)
qed simp

lemma length_update_new: "map_of xs k = None \<Longrightarrow> length (AList.update k v xs) = Suc (length xs)"
  by (induction xs) (auto split: if_splits)

lemma meters_stop:
  assumes "distinct (map fst (dcInformers (mtController m)))"
  shows "\<exists>cs. metersBy m cs (StopServiceGVKMetered gvr m)"
proof (cases "map_of (dcInformers (mtController m)) gvr")
  case None
  then show ?thesis using metersBy_nothing [of m m] by (auto simp: StopServiceGVKMetered_def Let_def)
next
  case (Some u)
  let ?is = "dcInformers (mtController m)"
  have "Suc (length (AList.delete gvr ?is)) = length ?is" using length_delete [OF assms Some] .
  then have "metersBy m [GaugeDec ''dynamic_controller_gvr_count''] (StopServiceGVKMetered gvr m)"
    using Some by (simp add: StopServiceGVKMetered_def Let_def call_defs)
  then show ?thesis by blast
qed

lemma meters_start:
  assumes "StartServingGVKMetered gvrText I gvr h m = (r, m')"
  shows "\<exists>cs. metersBy m cs m'"
proof (cases "map_of (dcInformers (mtController m)) gvr")
  case None
  let ?is = "dcInformers (mtController m)" and ?o = "Observe ''dynamic_controller_informer_sync_duration_seconds'' [gvrText gvr]"
  have new: "length (AList.update gvr () ?is) = Suc (length ?is)" by (rule length_update_new [OF None])
  obtain e w where ew: "addEventHandler I gvr (dcWorld (mtController m)) = (e, w)" by (rule prod.exhaust)
  obtain b w1 where bw: "waitForCacheSync I gvr w = (b, w1)" by (rule prod.exhaust)
  consider e' where "e = Some e'" | "e = None" "\<not> b" | "e = None" b by fastforce
  then show ?thesis
  proof cases
    case 1
    then show ?thesis using assms None ew metersBy_nothing [of m' m] by (auto simp: StartServingGVKMetered_def Let_def)
  next
    case 2
    then have "metersBy m [?o] m'" using assms None ew bw by (auto simp: StartServingGVKMetered_def Let_def call_defs)
    then show ?thesis by blast
  next
    case 3
    then have "metersBy m [?o, GaugeInc ''dynamic_controller_gvr_count''] m'"
      using assms None ew bw new by (auto simp: StartServingGVKMetered_def Let_def call_defs)
    then show ?thesis by blast
  qed
next
  case (Some u)
  then show ?thesis using assms metersBy_nothing [of m' m] by (auto simp: StartServingGVKMetered_def Let_def)
qed

text \<open>A work item: the calls of the handler, then those of the decision on the item.\<close>

definition syncCalls :: "string \<Rightarrow> metric_call list" where
  "syncCalls key = [Observe ''dynamic_controller_reconcile_duration_seconds'' [key], CounterInc ''dynamic_controller_reconcile_total'' [key]]"

lemma sync_calls:
  "snd (syncFuncMetered oi dc) = syncCalls (gvrKey (oiGVR oi)) \<or>
   snd (syncFuncMetered oi dc) = CounterInc ''dynamic_controller_handler_errors_total'' [gvrKey (oiGVR oi)] # syncCalls (gvrKey (oiGVR oi))"
  by (auto simp: syncFuncMetered_def syncCalls_def Let_def split: option.split)

lemma requeue_calls:
  "snd (requeueMetered Q n item err q) = [] \<or>
   (\<exists>t \<in> {''no_requeue'', ''requeue'', ''requeue_after'', ''rate_limited''}.
      snd (requeueMetered Q n item err q) = [CounterInc ''dynamic_controller_requeue_total'' [gvrKey (oiGVR item), t]])"
  by (simp add: requeueMetered_def Let_def split: option.split goerror.split)

lemma item_calls:
  assumes "cs = syncCalls key \<or> cs = CounterInc ''dynamic_controller_handler_errors_total'' [key] # syncCalls key"
    and "rs = [] \<or> (\<exists>t \<in> {''no_requeue'', ''requeue'', ''requeue_after'', ''rate_limited''}. rs = [CounterInc ''dynamic_controller_requeue_total'' [key, t]])"
  shows "list_all labelled (GaugeSet ''dynamic_controller_queue_length'' k # cs @ rs)"
    "balanced (GaugeSet ''dynamic_controller_queue_length'' k # cs @ rs)"
    "fold (gaugeAfter ''dynamic_controller_gvr_count'') (GaugeSet ''dynamic_controller_queue_length'' k # cs @ rs) v = v"
  using assms by (elim disjE bexE; simp add: syncCalls_def call_defs; fail)+

lemma meters_work:
  assumes "processNextWorkItemMetered qLen Q m = (m', r)"
  shows "\<exists>cs. metersBy m cs m'"
proof -
  obtain x q1 where q1: "qGet Q (dcQueue (mtController m)) = (x, q1)" by (rule prod.exhaust)
  show ?thesis
  proof (cases x)
    case None
    then show ?thesis
      using assms q1 metersBy_nothing [of m' m] by (auto simp: processNextWorkItemMetered_def Let_def)
  next
    case (Some item)
    have inf: "dcInformers (mtController m') = dcInformers (mtController m)"
      using registrations_kept(3) [OF erase_work [OF assms]] by (simp add: sameRegistrations_def)
    obtain s cs where s: "syncFuncMetered item ((mtController m)\<lparr>dcQueue := q1\<rparr>) = (s, cs)" by (rule prod.exhaust)
    define rs where "rs = (case s of None \<Rightarrow> [] | Some (err, w) \<Rightarrow> snd (requeueMetered Q (dcQueueMaxRetries (mtController m)) item err q1))"
    have "mtCalls m' = mtCalls m @ (GaugeSet ''dynamic_controller_queue_length'' (qLen q1) # cs @ rs)"
      using assms q1 Some s by (auto simp: processNextWorkItemMetered_def Let_def rs_def split: option.splits prod.splits)
    moreover have "rs = [] \<or> (\<exists>t \<in> {''no_requeue'', ''requeue'', ''requeue_after'', ''rate_limited''}.
        rs = [CounterInc ''dynamic_controller_requeue_total'' [gvrKey (oiGVR item), t]])"
    proof (cases s)
      case (Some y)
      then have "rs = snd (requeueMetered Q (dcQueueMaxRetries (mtController m)) item (fst y) q1)" by (simp add: rs_def split_beta)
      then show ?thesis using requeue_calls by metis
    qed (simp add: rs_def)
    moreover have "cs = syncCalls (gvrKey (oiGVR item)) \<or>
        cs = CounterInc ''dynamic_controller_handler_errors_total'' [gvrKey (oiGVR item)] # syncCalls (gvrKey (oiGVR item))"
      using sync_calls s by (metis snd_conv)
    ultimately have "metersBy m (GaugeSet ''dynamic_controller_queue_length'' (qLen q1) # cs @ rs) m'"
      unfolding metersBy_def inf using item_calls [of cs "gvrKey (oiGVR item)" rs "qLen q1"] by simp
    then show ?thesis by blast
  qed
qed

section \<open>Properties\<close>

inductive metered_step ::
  "(GroupVersionResource \<Rightarrow> string) \<Rightarrow> ('q \<Rightarrow> nat) \<Rightarrow> 'w informerLib \<Rightarrow> object_lib \<Rightarrow> 'q workqueue \<Rightarrow> ('w, 'q) metered \<Rightarrow> ('w, 'q) metered \<Rightarrow> bool"
  for gvrText qLen I L Q where
  serve: "StartServingGVKMetered gvrText I gvr h m = (r, m') \<Longrightarrow> metered_step gvrText qLen I L Q m m'"
| stop: "metered_step gvrText qLen I L Q m (StopServiceGVKMetered gvr m)"
| added: "metered_step gvrText qLen I L Q m (enqueueObjectMetered gvrText L Q obj ''add'' m)"
| deleted: "metered_step gvrText qLen I L Q m (enqueueObjectMetered gvrText L Q obj ''delete'' m)"
| updated: "metered_step gvrText qLen I L Q m (updateFuncMetered gvrText L Q old new m)"
| worked: "processNextWorkItemMetered qLen Q m = (m', r) \<Longrightarrow> metered_step gvrText qLen I L Q m m'"

inductive metered_reachable ::
  "(GroupVersionResource \<Rightarrow> string) \<Rightarrow> ('q \<Rightarrow> nat) \<Rightarrow> 'w informerLib \<Rightarrow> object_lib \<Rightarrow> 'q workqueue \<Rightarrow> ('w, 'q) metered \<Rightarrow> ('w, 'q) metered \<Rightarrow> bool"
  for gvrText qLen I L Q m0 where
  start: "metered_reachable gvrText qLen I L Q m0 m0"
| step: "metered_reachable gvrText qLen I L Q m0 m \<Longrightarrow> metered_step gvrText qLen I L Q m m' \<Longrightarrow> metered_reachable gvrText qLen I L Q m0 m'"

lemma erase_step: "metered_step gvrText qLen I L Q m m' \<Longrightarrow> dc_step I L Q (mtController m) (mtController m')"
  by (induction rule: metered_step.induct) (auto simp: erase(2-3,5) dest!: erase(1,4) intro: dc_step.intros dc_call.intros)

lemma erase_reachable: "metered_reachable gvrText qLen I L Q m0 m \<Longrightarrow> dc_reachable I L Q (mtController m0) (mtController m)"
  by (induction rule: metered_reachable.induct) (auto intro: dc_reachable.intros erase_step)

lemma distinct_informers_step:
  assumes "dc_step I L Q dc dc'" and "distinct (map fst (dcInformers dc))"
  shows "distinct (map fst (dcInformers dc'))"
proof -
  have same: "dcInformers a' = dcInformers a" if "sameRegistrations a a'" for a a' :: "('a, 'b) DynamicController"
    using that by (simp add: sameRegistrations_def)
  show ?thesis
    using assms(1)
  proof cases
    case call
    then show ?thesis
    proof cases
      case (serve gvr h r)
      show ?thesis by (cases rule: startServing_cases [OF serve]) (use assms(2) in \<open>simp_all add: distinct_update\<close>)
    next
      case (stop gvr)
      then show ?thesis using assms(2) by (simp add: StopServiceGVK_def distinct_delete split: option.split)
    next
      case (add obj)
      then show ?thesis using assms(2) same [OF registrations_kept(1)] by simp
    next
      case (update old new)
      then show ?thesis using assms(2) same [OF registrations_kept(2)] by simp
    qed
  next
    case (work r)
    then show ?thesis using assms(2) same [OF registrations_kept(3) [OF work]] by simp
  qed
qed

lemma meters_step:
  assumes "metered_step gvrText qLen I L Q m m'" and "distinct (map fst (dcInformers (mtController m)))"
  shows "\<exists>cs. metersBy m cs m'"
  using assms(1)
proof cases
  case (serve gvr h r)
  then show ?thesis by (rule meters_start)
next
  case (worked r)
  then show ?thesis by (rule meters_work)
qed (use assms(2) in \<open>simp_all add: meters_stop meters_event meters_update\<close>)

text \<open>
  C38. The metrics of the dynamic controller tell the truth. Whatever sequence of registrations, removals, events
  and work items it goes through: the metrics do not change what the controller does; the gauge of
  managed types is the number of types that are watched; for every type there are at most as many errors of
  handlers and at most as many decisions on failed items as reconciliations; and no call on a metric
  panics for a wrong number of labels.
\<close>

theorem metrics_tell_the_state:
  assumes "metered_reachable gvrText qLen I L Q \<lparr>mtController = NewDynamicController maxRetries q w, mtCalls = []\<rparr> m"
  shows "dc_reachable I L Q (NewDynamicController maxRetries q w) (mtController m) \<and>
    gaugeValue ''dynamic_controller_gvr_count'' (mtCalls m) = int (length (dcRunning (mtController m))) \<and>
    (\<forall>key. counterValue ''dynamic_controller_handler_errors_total'' [key] (mtCalls m) \<le> counterValue ''dynamic_controller_reconcile_total'' [key] (mtCalls m) \<and>
       requeues key (mtCalls m) \<le> counterValue ''dynamic_controller_reconcile_total'' [key] (mtCalls m)) \<and>
    list_all labelled (mtCalls m)"
proof -
  have "distinct (map fst (dcInformers (mtController m))) \<and> list_all labelled (mtCalls m) \<and> balanced (mtCalls m) \<and>
      gaugeValue ''dynamic_controller_gvr_count'' (mtCalls m) = int (length (dcInformers (mtController m)))"
    using assms
  proof (induction rule: metered_reachable.induct)
    case start
    then show ?case by (simp add: NewDynamicController_def gaugeValue_def balanced_def counterValue_def requeues_def)
  next
    case (step m m')
    then obtain cs where "metersBy m cs m'" using meters_step by blast
    then show ?case
      using step.IH distinct_informers_step [OF erase_step [OF step.hyps(2)]] balanced_append
      by (simp add: metersBy_def gaugeValue_append)
  qed
  moreover have reach: "dc_reachable I L Q (NewDynamicController maxRetries q w) (mtController m)"
    using erase_reachable [OF assms] by simp
  moreover have "length (dcRunning (mtController m)) = length (dcInformers (mtController m))"
    if "distinct (map fst (dcInformers (mtController m)))"
  proof -
    have r: "registered (mtController m)" using registered_reachable [OF reach registered_new] .
    then have "set (dcRunning (mtController m)) = set (map fst (dcInformers (mtController m)))"
      by (auto simp: registered_def map_of_eq_None_iff)
    then show ?thesis using r that distinct_card by (metis length_map registered_def)
  qed
  ultimately show ?thesis by (simp add: balanced_def)
qed

text \<open>A type is served, an object of it arrives, its handler fails, and the type is removed.\<close>

definition exampleMetered :: "nat \<Rightarrow> (unit, example_queue) metered" where
  "exampleMetered n =
     (let m0 = \<lparr>mtController = exampleStart, mtCalls = []\<rparr>;
          m1 = snd (StartServingGVKMetered gvrKey exampleInformers exampleGvr failingHandler m0);
          m2 = enqueueObjectMetered gvrKey exampleObjects exampleQueue (Unstructured []) ''add'' m1;
          m3 = fst (processNextWorkItemMetered (\<lambda>q. length (fst q)) exampleQueue m2);
          m4 = StopServiceGVKMetered exampleGvr m3 in
      [m0, m1, m2, m3, m4] ! n)"

lemma exampleMetered_reachable:
  "metered_reachable gvrKey (\<lambda>q. length (fst q)) exampleInformers exampleObjects exampleQueue
    \<lparr>mtController = NewDynamicController 2 ([], \<lambda>i. 0) (), mtCalls = []\<rparr> (exampleMetered 3)"
proof -
  let ?s = "metered_step gvrKey (\<lambda>q. length (fst q)) exampleInformers exampleObjects exampleQueue"
  have "?s (exampleMetered 0) (exampleMetered 1)" "?s (exampleMetered 1) (exampleMetered 2)" "?s (exampleMetered 2) (exampleMetered 3)"
    unfolding exampleMetered_def Let_def by (auto intro: metered_step.intros prod.collapse [symmetric])
  moreover have "exampleMetered 0 = \<lparr>mtController = NewDynamicController 2 ([], \<lambda>i. 0) (), mtCalls = []\<rparr>"
    by (simp add: exampleMetered_def exampleStart_def)
  ultimately show ?thesis using metered_reachable.intros by metis
qed

theorem metrics_tell_the_state_witness:
  "gaugeValue ''dynamic_controller_gvr_count'' (mtCalls (exampleMetered 3)) = int (length (dcRunning (mtController (exampleMetered 3)))) \<and>
   gaugeValue ''dynamic_controller_gvr_count'' (mtCalls (exampleMetered 3)) = 1 \<and>
   gaugeValue ''dynamic_controller_gvr_count'' (mtCalls (exampleMetered 4)) = 0 \<and>
   requeues ''kro.run/v1/apps'' (mtCalls (exampleMetered 3)) = 1"
proof -
  have "gaugeValue ''dynamic_controller_gvr_count'' (mtCalls (exampleMetered 3)) = 1"
    "gaugeValue ''dynamic_controller_gvr_count'' (mtCalls (exampleMetered 4)) = 0"
    "requeues ''kro.run/v1/apps'' (mtCalls (exampleMetered 3)) = 1" by code_simp+
  then show ?thesis using metrics_tell_the_state [OF exampleMetered_reachable] by simp
qed

section \<open>Impersonation\<close>

text \<open>
  Choosing the client of an instance: the metrics do not change the choice; when service accounts are configured a success is
  counted once in the total and a failure once among the errors, and the duration is observed once.
\<close>

lemma impersonation_recorded:
  "fst (getExecutionClientMetered c namespace) = getExecutionClient c namespace \<and>
   list_all labelled (snd (getExecutionClientMetered c namespace)) \<and>
   (if ctlServiceAccounts c = [] then snd (getExecutionClientMetered c namespace) = []
    else \<exists>sa t. snd (getExecutionClientMetered c namespace) =
       [CounterInc (if isl (getExecutionClient c namespace) then ''controller_impersonation_errors_total'' else ''controller_impersonation_total'')
          [namespace, sa, t], Observe ''controller_impersonation_duration_seconds'' [namespace, []]])"
  by (auto simp: getExecutionClientMetered_def getExecutionClient_def impersonatedMetered_def impersonated_def Let_def
      handleImpersonateError_def recordImpersonateError_def dynamicControllerMetrics_def instanceMetrics_def
      split: option.split sum.split)

section \<open>Where the metrics depart from their description\<close>

text \<open>
  The counter of requeues counts an item that is dropped, the gauge of the queue does not follow the
  queue, a failed impersonation is missing from the attempts, and an invalid service account is not recorded as such.
\<close>

lemma dropped_item_counted_as_requeue:
  assumes "n \<le> qNumRequeues Q item q"
  shows "requeueMetered Q n item (Some (Errorf s)) q =
    (qForget Q item q, [CounterInc ''dynamic_controller_requeue_total'' [gvrKey (oiGVR item), ''rate_limited'']])"
  using assms by (simp add: requeueMetered_def IsNotFound_def)

lemma queue_gauge_is_stale:
  "gaugeValue ''dynamic_controller_queue_length'' (mtCalls (enqueueObjectMetered gvrText L Q obj t m)) =
   gaugeValue ''dynamic_controller_queue_length'' (mtCalls m)"
  by (simp add: enqueueObjectMetered_def gaugeValue_def Let_def split: informer_object.split sum.split)

lemma failed_impersonation_not_in_total:
  assumes "isl (getExecutionClient c namespace)"
  shows "counterValue ''controller_impersonation_total'' ls (snd (getExecutionClientMetered c namespace)) = 0"
proof -
  have "ctlServiceAccounts c \<noteq> []" using assms by (auto simp: getExecutionClient_def)
  then show ?thesis using impersonation_recorded [of c namespace] assms by (auto simp: counterValue_def)
qed

lemma invalid_account_category:
  "impersonatedMetered c invalid failed namespace [] =
     (Inl (ErrorfWrap invalid (Errorf ''namespace and service account must be provided'')),
      [recordImpersonateError namespace [] errorClientCreate])"
proof -
  have "\<not> strContains ''namespace and service account must be provided'' ''forbidden''"
    "\<not> strContains ''namespace and service account must be provided'' ''cannot get token''" by code_simp+
  then show ?thesis by (simp add: impersonatedMetered_def getServiceAccountUserName_def handleImpersonateError_def)
qed

end
