(* ===== verification/Controller_Run.thy ===== *)
theory Controller_Run
  imports Dynamic_Controller
begin

text \<open>
  The dynamic controller at run time: \<open>Run\<close>, its workers and its shutdown in
  \<open>src/pkg/dynamiccontroller/dynamic_controller.go\<close>.

  A worker is a goroutine that runs \<open>processNextWorkItem\<close> in a loop. Here every call it makes on the
  queue is a step of its own, so that the steps of several workers, of the informers and of the calls
  that register types interleave in any order. \<open>Get\<close> blocks while \<open>qBlocks\<close> holds. The context given to
  \<open>Run\<close> is cancelled at any time, or never. Whether the informers shut down before the timeout of
  \<open>gracefulShutdown\<close> is an argument, as it is client-go that waits for them.
\<close>

section \<open>A worker\<close>

datatype worker =
    Idle
  | Syncing ObjectIdentifiers
  | Requeueing ObjectIdentifiers "goerror option"
  | Retrying ObjectIdentifiers
  | Dropping ObjectIdentifiers
  | Finishing ObjectIdentifiers
  | Ended

text \<open>What the switch over the error of the handler does with the item.\<close>

datatype requeue_action = ForgetItem | AddItem | AddItemAfter "64 word" | RateLimitItem

definition requeueAction :: "goerror option \<Rightarrow> requeue_action" where
  "requeueAction err =
     (case err of
        None \<Rightarrow> ForgetItem
      | Some e \<Rightarrow>
          (if IsNotFound e then ForgetItem
           else case e of
                  NoRequeue _ \<Rightarrow> ForgetItem
                | RequeueNeeded _ \<Rightarrow> AddItem
                | RequeueNeededAfter _ d \<Rightarrow> AddItemAfter d
                | _ \<Rightarrow> RateLimitItem))"

definition onQueue :: "('q \<Rightarrow> 'q) \<Rightarrow> ('w, 'q) DynamicController \<Rightarrow> ('w, 'q) DynamicController" where
  "onQueue f dc = dc\<lparr>dcQueue := f (dcQueue dc)\<rparr>"

text \<open>
  One step of a worker, \<open>None\<close> for a panic of the handler. When the queue has shut down the worker
  returns; \<open>wait.UntilWithContext\<close> calls it again unless the context is cancelled.
\<close>

fun workerStep ::
  "'q workqueue \<Rightarrow> bool \<Rightarrow> worker \<Rightarrow> ('w, 'q) DynamicController \<Rightarrow> (worker \<times> ('w, 'q) DynamicController) option" where
  "workerStep Q stopped Idle dc =
     (case qGet Q (dcQueue dc) of
        (None, q) \<Rightarrow> Some (if stopped then Ended else Idle, dc\<lparr>dcQueue := q\<rparr>)
      | (Some item, q) \<Rightarrow> Some (Syncing item, dc\<lparr>dcQueue := q\<rparr>))"
| "workerStep Q stopped (Syncing item) dc =
     (case syncFunc item dc of
        None \<Rightarrow> None
      | Some (err, w) \<Rightarrow> Some (Requeueing item err, dc\<lparr>dcWorld := w\<rparr>))"
| "workerStep Q stopped (Requeueing item err) dc =
     Some (case requeueAction err of
             ForgetItem \<Rightarrow> (Finishing item, onQueue (qForget Q item) dc)
           | AddItem \<Rightarrow> (Finishing item, onQueue (qAdd Q item) dc)
           | AddItemAfter d \<Rightarrow> (Finishing item, onQueue (qAddAfter Q item d) dc)
           | RateLimitItem \<Rightarrow>
               (if qNumRequeues Q item (dcQueue dc) < dcQueueMaxRetries dc then Retrying item else Dropping item, dc))"
| "workerStep Q stopped (Retrying item) dc = Some (Finishing item, onQueue (qAddRateLimited Q item) dc)"
| "workerStep Q stopped (Dropping item) dc = Some (Finishing item, onQueue (qForget Q item) dc)"
| "workerStep Q stopped (Finishing item) dc = Some (Idle, onQueue (qDone Q item) dc)"
| "workerStep Q stopped Ended dc = Some (Ended, dc)"

text \<open>The item a worker has taken and not yet given back.\<close>

fun holds :: "worker \<Rightarrow> ObjectIdentifiers option" where
  "holds Idle = None"
| "holds (Syncing item) = Some item"
| "holds (Requeueing item _) = Some item"
| "holds (Retrying item) = Some item"
| "holds (Dropping item) = Some item"
| "holds (Finishing item) = Some item"
| "holds Ended = None"

section \<open>The process\<close>

record 'q queueLib =
  qBlocks :: "'q \<Rightarrow> bool"
  qShutDown :: "'q \<Rightarrow> 'q"

datatype phase = Created | WaitingForSync | Serving | Returned "goerror option" | Crashed

record ('w, 'q) process =
  prController :: "('w, 'q) DynamicController"
  prPhase :: phase
  prWorkers :: "worker list"
  prStopped :: bool

definition newProcess :: "int \<Rightarrow> 'q \<Rightarrow> 'w \<Rightarrow> ('w, 'q) process" where
  "newProcess maxRetries q w =
     \<lparr>prController = NewDynamicController maxRetries q w, prPhase = Created, prWorkers = [], prStopped = False\<rparr>"

text \<open>\<open>WaitForCacheSync\<close> polls until its function returns true or the channel is closed: \<open>None\<close> is another round.\<close>

definition WaitForInformersSync :: "bool \<Rightarrow> ('w, 'q) DynamicController \<Rightarrow> bool option" where
  "WaitForInformersSync stopped dc =
     (if AllInformerHaveSynced dc then Some True else if stopped then Some False else None)"

definition gracefulShutdown ::
  "(GroupVersionResource list \<Rightarrow> 'w \<Rightarrow> bool) \<Rightarrow> ('w, 'q) DynamicController \<Rightarrow> goerror option" where
  "gracefulShutdown inTime dc =
     (if inTime (map fst (dcInformers dc)) (dcWorld dc) then None else Some (Errorf ''context deadline exceeded''))"

text \<open>\<open>Run\<close> returns: the deferred call shuts the queue down.\<close>

definition returnRun :: "'q queueLib \<Rightarrow> goerror option \<Rightarrow> ('w, 'q) process \<Rightarrow> ('w, 'q) process" where
  "returnRun K err p = p\<lparr>prPhase := Returned err, prController := onQueue (qShutDown K) (prController p)\<rparr>"

text \<open>\<open>Run\<close> up to the start of its workers, and after the context is cancelled.\<close>

definition startRun :: "'q queueLib \<Rightarrow> nat \<Rightarrow> ('w, 'q) process \<Rightarrow> ('w, 'q) process" where
  "startRun K workers p =
     (case WaitForInformersSync (prStopped p) (prController p) of
        None \<Rightarrow> p\<lparr>prPhase := WaitingForSync\<rparr>
      | Some False \<Rightarrow> returnRun K (Some (Errorf ''failed to sync informers'')) p
      | Some True \<Rightarrow> p\<lparr>prPhase := Serving, prWorkers := replicate workers Idle\<rparr>)"

definition stopRun ::
  "'q queueLib \<Rightarrow> (GroupVersionResource list \<Rightarrow> 'w \<Rightarrow> bool) \<Rightarrow> ('w, 'q) process \<Rightarrow> ('w, 'q) process" where
  "stopRun K inTime p = returnRun K (gracefulShutdown inTime (prController p)) p"

definition workerMove :: "'q workqueue \<Rightarrow> nat \<Rightarrow> ('w, 'q) process \<Rightarrow> ('w, 'q) process" where
  "workerMove Q i p =
     (case workerStep Q (prStopped p) (prWorkers p ! i) (prController p) of
        None \<Rightarrow> p\<lparr>prPhase := Crashed\<rparr>
      | Some (wk, dc) \<Rightarrow> p\<lparr>prWorkers := (prWorkers p)[i := wk], prController := dc\<rparr>)"

definition canWork :: "'q queueLib \<Rightarrow> nat \<Rightarrow> ('w, 'q) process \<Rightarrow> bool" where
  "canWork K i p \<longleftrightarrow> i < length (prWorkers p) \<and> prPhase p \<noteq> Crashed \<and> prWorkers p ! i \<noteq> Ended \<and>
     (prWorkers p ! i = Idle \<longrightarrow> \<not> qBlocks K (dcQueue (prController p)))"

text \<open>
  Everything that can happen next. The label says whether it is a step of a worker.
\<close>

inductive process_step ::
  "'w informerLib \<Rightarrow> object_lib \<Rightarrow> 'q workqueue \<Rightarrow> 'q queueLib \<Rightarrow> (GroupVersionResource list \<Rightarrow> 'w \<Rightarrow> bool) \<Rightarrow> nat \<Rightarrow>
   bool \<Rightarrow> ('w, 'q) process \<Rightarrow> ('w, 'q) process \<Rightarrow> bool"
  for I L Q K inTime workers where
  call: "prPhase p \<noteq> Crashed \<Longrightarrow> dc_call I L Q (prController p) dc' \<Longrightarrow>
    process_step I L Q K inTime workers False p (p\<lparr>prController := dc'\<rparr>)"
| run: "prPhase p = Created \<or> prPhase p = WaitingForSync \<Longrightarrow>
    process_step I L Q K inTime workers False p (startRun K workers p)"
| cancel: "prPhase p \<noteq> Crashed \<Longrightarrow> process_step I L Q K inTime workers False p (p\<lparr>prStopped := True\<rparr>)"
| shutdown: "prPhase p = Serving \<Longrightarrow> prStopped p \<Longrightarrow> process_step I L Q K inTime workers False p (stopRun K inTime p)"
| work: "canWork K i p \<Longrightarrow> process_step I L Q K inTime workers True p (workerMove Q i p)"

text \<open>\<open>n\<close> of the steps of a run were steps of workers.\<close>

inductive process_run ::
  "'w informerLib \<Rightarrow> object_lib \<Rightarrow> 'q workqueue \<Rightarrow> 'q queueLib \<Rightarrow> (GroupVersionResource list \<Rightarrow> 'w \<Rightarrow> bool) \<Rightarrow> nat \<Rightarrow>
   ('w, 'q) process \<Rightarrow> nat \<Rightarrow> ('w, 'q) process \<Rightarrow> bool"
  for I L Q K inTime workers p0 where
  start: "process_run I L Q K inTime workers p0 0 p0"
| step: "process_run I L Q K inTime workers p0 n p \<Longrightarrow> process_step I L Q K inTime workers b p p' \<Longrightarrow>
    process_run I L Q K inTime workers p0 (n + of_bool b) p'"

section \<open>Mutual exclusion and retries\<close>

text \<open>
  What the documentation of the work queue promises to several consumers: an item that was taken and
  not yet given back is not handed out again. \<open>taken\<close> is the set of these items.
\<close>

definition exclusive :: "'q workqueue \<Rightarrow> 'q queueLib \<Rightarrow> ('q \<Rightarrow> ObjectIdentifiers set) \<Rightarrow> bool" where
  "exclusive Q K taken \<longleftrightarrow>
     (\<forall>q x q'. qGet Q q = (Some x, q') \<longrightarrow> x \<notin> taken q \<and> taken q' = insert x (taken q)) \<and>
     (\<forall>q q'. qGet Q q = (None, q') \<longrightarrow> taken q' = taken q) \<and>
     (\<forall>x q. taken (qDone Q x q) = taken q - {x}) \<and> (\<forall>x q. taken (qForget Q x q) = taken q) \<and>
     (\<forall>x q. taken (qAdd Q x q) = taken q) \<and> (\<forall>x d q. taken (qAddAfter Q x d q) = taken q) \<and>
     (\<forall>x q. taken (qAddRateLimited Q x q) = taken q) \<and> (\<forall>q. taken (qShutDown K q) = taken q)"

lemma onQueue_sel [simp]:
  "dcQueue (onQueue f dc) = f (dcQueue dc)" "dcQueueMaxRetries (onQueue f dc) = dcQueueMaxRetries dc"
  "dcInformers (onQueue f dc) = dcInformers dc" "dcRunning (onQueue f dc) = dcRunning dc"
  by (simp_all add: onQueue_def)

lemma exclusiveD:
  assumes "exclusive Q K taken"
  shows "qGet Q q = (Some x, q') \<Longrightarrow> x \<notin> taken q \<and> taken q' = insert x (taken q)"
    "qGet Q q = (None, q') \<Longrightarrow> taken q' = taken q"
    "taken (qDone Q x q) = taken q - {x}" "taken (qForget Q x q) = taken q" "taken (qAdd Q x q) = taken q"
    "taken (qAddAfter Q x d q) = taken q" "taken (qAddRateLimited Q x q) = taken q" "taken (qShutDown K q) = taken q"
  using assms by (simp_all add: exclusive_def)

text \<open>A step of a worker takes an item, gives its item back, or keeps what it has.\<close>

lemma workerStep_taken:
  assumes "exclusive Q K taken" and "workerStep Q stopped wk dc = Some (wk', dc')"
  obtains "holds wk' = holds wk" "taken (dcQueue dc') = taken (dcQueue dc)"
    | x where "holds wk = None" "holds wk' = Some x" "x \<notin> taken (dcQueue dc)" "taken (dcQueue dc') = insert x (taken (dcQueue dc))"
    | x where "holds wk = Some x" "holds wk' = None" "taken (dcQueue dc') = taken (dcQueue dc) - {x}"
proof (cases wk)
  case Idle
  obtain r q where get: "qGet Q (dcQueue dc) = (r, q)" by (rule prod.exhaust)
  show thesis
  proof (cases r)
    case None
    then show thesis using that(1) assms(2) Idle get exclusiveD(2) [OF assms(1)] by (auto split: if_splits)
  next
    case (Some x)
    then show thesis using that(2) assms(2) Idle get exclusiveD(1) [OF assms(1)] by auto
  qed
next
  case (Finishing x)
  then show thesis by (intro that(3)) (use assms(2) exclusiveD(3) [OF assms(1)] in auto)
next
  case (Requeueing x err)
  then show thesis
    by (intro that(1)) (use assms(2) in \<open>auto simp: exclusiveD(3-8) [OF assms(1)] split: requeue_action.splits if_splits\<close>)
next
  case (Syncing x)
  then show thesis by (intro that(1)) (use assms(2) in \<open>auto split: option.splits\<close>)
next
  case (Retrying x)
  then show thesis by (intro that(1)) (use assms(2) in \<open>auto simp: exclusiveD(3-8) [OF assms(1)]\<close>)
next
  case (Dropping x)
  then show thesis by (intro that(1)) (use assms(2) in \<open>auto simp: exclusiveD(3-8) [OF assms(1)]\<close>)
next
  case Ended
  then show thesis by (intro that(1)) (use assms(2) in auto)
qed

definition exclusiveWorkers :: "('q \<Rightarrow> ObjectIdentifiers set) \<Rightarrow> ('w, 'q) process \<Rightarrow> bool" where
  "exclusiveWorkers taken p \<longleftrightarrow>
     (\<forall>i j x. i < length (prWorkers p) \<longrightarrow> j < length (prWorkers p) \<longrightarrow>
        holds (prWorkers p ! i) = Some x \<longrightarrow> holds (prWorkers p ! j) = Some x \<longrightarrow> i = j) \<and>
     (\<forall>i x. i < length (prWorkers p) \<longrightarrow> holds (prWorkers p ! i) = Some x \<longrightarrow> x \<in> taken (dcQueue (prController p)))"

lemma workerMove_cases:
  obtains "workerStep Q (prStopped p) (prWorkers p ! i) (prController p) = None" "workerMove Q i p = p\<lparr>prPhase := Crashed\<rparr>"
    | wk dc where "workerStep Q (prStopped p) (prWorkers p ! i) (prController p) = Some (wk, dc)"
        "workerMove Q i p = p\<lparr>prWorkers := (prWorkers p)[i := wk], prController := dc\<rparr>"
  using that by (cases "workerStep Q (prStopped p) (prWorkers p ! i) (prController p)") (auto simp: workerMove_def)

lemma exclusive_work:
  assumes "exclusive Q K taken" and "exclusiveWorkers taken p" and "i < length (prWorkers p)"
  shows "exclusiveWorkers taken (workerMove Q i p)"
proof (cases rule: workerMove_cases [of Q p i])
  case 1
  then show ?thesis using assms(2) by (simp add: exclusiveWorkers_def)
next
  case (2 wk dc)
  from workerStep_taken [OF assms(1) 2(1)] show ?thesis
    by cases (use assms(2,3) 2(2) in \<open>auto simp: exclusiveWorkers_def nth_list_update\<close>)
qed

lemma countsD:
  assumes "counts_requeues Q"
  shows "qGet Q q = (r, q') \<Longrightarrow> qNumRequeues Q i q' = qNumRequeues Q i q"
    "qNumRequeues Q i (qDone Q j q) = qNumRequeues Q i q" "qNumRequeues Q i (qAdd Q j q) = qNumRequeues Q i q"
    "qNumRequeues Q i (qAddAfter Q j d q) = qNumRequeues Q i q"
    "qNumRequeues Q i (qForget Q j q) = (if i = j then 0 else qNumRequeues Q i q)"
    "qNumRequeues Q i (qAddRateLimited Q j q) = (if i = j then qNumRequeues Q i q + 1 else qNumRequeues Q i q)"
proof -
  show "qNumRequeues Q i q' = qNumRequeues Q i q" if "qGet Q q = (r, q')"
    using assms that unfolding counts_requeues_def by (metis snd_conv)
qed (use assms in \<open>simp_all add: counts_requeues_def\<close>)

text \<open>A worker changes the counter of its own item only, and keeps it within the limit.\<close>

lemma workerStep_counts:
  assumes "counts_requeues Q" and "workerStep Q stopped wk dc = Some (wk', dc')" and "holds wk \<noteq> Some y"
  shows "qNumRequeues Q y (dcQueue dc') = qNumRequeues Q y (dcQueue dc)"
proof (cases wk)
  case Idle
  then show ?thesis using assms(2) countsD(1) [OF assms(1)] by (auto split: prod.splits option.splits)
qed (use assms(2,3) in \<open>auto simp: countsD(2-) [OF assms(1)] split: option.splits requeue_action.splits if_splits\<close>)

lemma workerStep_retries:
  assumes "counts_requeues Q" and "workerStep Q stopped wk dc = Some (wk', dc')" and "0 \<le> n" and "dcQueueMaxRetries dc = n"
    and "withinRetries Q n (dcQueue dc)" and "\<forall>x. wk = Retrying x \<longrightarrow> qNumRequeues Q x (dcQueue dc) < n"
  shows "dcQueueMaxRetries dc' = n \<and> withinRetries Q n (dcQueue dc') \<and>
    (\<forall>x. wk' = Retrying x \<longrightarrow> qNumRequeues Q x (dcQueue dc') < n)"
proof (cases wk)
  case Idle
  then show ?thesis
    using assms(2,4,5) withinRetries_get [OF assms(1,5)] by (auto split: prod.splits option.splits if_splits)
next
  case (Syncing x)
  then show ?thesis using assms(2,4,5) by (auto split: option.splits)
next
  case (Requeueing x err)
  then show ?thesis
    using assms(2-5)
    by (auto simp: countsD(2-) [OF assms(1)] withinRetries_def split: requeue_action.splits if_splits)
next
  case (Retrying x)
  then have "qNumRequeues Q x (dcQueue dc) < n" using assms(6) by simp
  then show ?thesis using assms(2,4,5) Retrying by (auto simp: countsD(6) [OF assms(1)] withinRetries_def)
next
  case (Dropping x)
  then show ?thesis using assms(2-5) by (auto simp: countsD(5) [OF assms(1)] withinRetries_def)
next
  case (Finishing x)
  then show ?thesis using assms(2,4,5) withinRetries_keep(1) [OF assms(1)] by auto
next
  case Ended
  then show ?thesis using assms(2,4,5) by auto
qed

definition boundedRetries :: "'q workqueue \<Rightarrow> int \<Rightarrow> ('w, 'q) process \<Rightarrow> bool" where
  "boundedRetries Q n p \<longleftrightarrow> dcQueueMaxRetries (prController p) = n \<and> withinRetries Q n (dcQueue (prController p)) \<and>
     (\<forall>i x. i < length (prWorkers p) \<longrightarrow> prWorkers p ! i = Retrying x \<longrightarrow> qNumRequeues Q x (dcQueue (prController p)) < n)"

lemma bounded_work:
  assumes "counts_requeues Q" and "0 \<le> n" and "exclusiveWorkers taken p" and "boundedRetries Q n p" and "i < length (prWorkers p)"
  shows "boundedRetries Q n (workerMove Q i p)"
proof (cases rule: workerMove_cases [of Q p i])
  case 1
  then show ?thesis using assms(4) by (simp add: boundedRetries_def)
next
  case (2 wk dc)
  have own: "dcQueueMaxRetries dc = n \<and> withinRetries Q n (dcQueue dc) \<and> (\<forall>x. wk = Retrying x \<longrightarrow> qNumRequeues Q x (dcQueue dc) < n)"
    by (rule workerStep_retries [OF assms(1) 2(1) assms(2)]) (use assms(4,5) in \<open>auto simp: boundedRetries_def\<close>)
  have "qNumRequeues Q x (dcQueue dc) < n"
    if j: "j < length (prWorkers p)" "j \<noteq> i" "prWorkers p ! j = Retrying x" for j x
  proof -
    have "holds (prWorkers p ! i) \<noteq> Some x" using assms(3,5) j unfolding exclusiveWorkers_def by (metis holds.simps(4))
    from workerStep_counts [OF assms(1) 2(1) this] show ?thesis using assms(4) j by (simp add: boundedRetries_def)
  qed
  then show ?thesis using own 2(2) assms(5) by (auto simp: boundedRetries_def nth_list_update split: if_splits)
qed

text \<open>The queue after the other steps.\<close>

lemma otherStep_cases:
  assumes "process_step I L Q K inTime workers False p p'"
  obtains i where "prWorkers p' = prWorkers p" "dcQueueMaxRetries (prController p') = dcQueueMaxRetries (prController p)"
      "dcQueue (prController p') \<in> {dcQueue (prController p), qAdd Q i (dcQueue (prController p)), qShutDown K (dcQueue (prController p))}"
    | "prWorkers p' = replicate workers Idle" "prController p' = prController p"
  using assms
proof cases
  case (call dc')
  from call_queue [OF call(3)] show thesis by cases (use call(1) that(1) in auto)
next
  case run
  then show thesis
    using that by (cases "WaitForInformersSync (prStopped p) (prController p)") (auto simp: startRun_def returnRun_def split: bool.splits)
next
  case cancel
  then show thesis using that(1) by simp
next
  case shutdown
  then show thesis using that(1) by (simp add: stopRun_def returnRun_def)
qed simp

text \<open>The laws of a rate limiting queue that is shared by several workers.\<close>

definition shared_queue :: "'q workqueue \<Rightarrow> 'q queueLib \<Rightarrow> ('q \<Rightarrow> ObjectIdentifiers set) \<Rightarrow> bool" where
  "shared_queue Q K taken \<longleftrightarrow> counts_requeues Q \<and> exclusive Q K taken \<and>
     (\<forall>i q. qNumRequeues Q i (qShutDown K q) = qNumRequeues Q i q)"

definition soundWorkers :: "'q workqueue \<Rightarrow> ('q \<Rightarrow> ObjectIdentifiers set) \<Rightarrow> int \<Rightarrow> nat \<Rightarrow> ('w, 'q) process \<Rightarrow> bool" where
  "soundWorkers Q taken n workers p \<longleftrightarrow>
     exclusiveWorkers taken p \<and> boundedRetries Q n p \<and> length (prWorkers p) \<in> {0, workers}"

lemma sound_new:
  assumes "0 \<le> n" and "\<forall>i. qNumRequeues Q i q = 0"
  shows "soundWorkers Q taken n workers (newProcess n q w)"
  using assms by (simp add: soundWorkers_def exclusiveWorkers_def boundedRetries_def withinRetries_def newProcess_def NewDynamicController_def)

lemma sound_step:
  assumes "shared_queue Q K taken" and "0 \<le> n" and "soundWorkers Q taken n workers p"
    and "process_step I L Q K inTime workers b p p'"
  shows "soundWorkers Q taken n workers p'"
proof (cases b)
  case True
  have law: "counts_requeues Q" "exclusive Q K taken" using assms(1) by (simp_all add: shared_queue_def)
  from assms(4) True obtain i where i: "i < length (prWorkers p)" "p' = workerMove Q i p"
    by cases (auto simp: canWork_def)
  moreover have "length (prWorkers (workerMove Q i p)) = length (prWorkers p)"
    by (cases rule: workerMove_cases [of Q p i]) simp_all
  ultimately show ?thesis
    using exclusive_work [OF law(2)] bounded_work [OF law(1) assms(2)] assms(3) unfolding soundWorkers_def by metis
next
  case False
  then have "process_step I L Q K inTime workers False p p'" using assms(4) by simp
  then show ?thesis
  proof (cases rule: otherStep_cases)
    case (1 i)
    let ?q = "dcQueue (prController p)" and ?q' = "dcQueue (prController p')"
    have "taken ?q' = taken ?q" "\<forall>j. qNumRequeues Q j ?q' = qNumRequeues Q j ?q"
      using 1(3) assms(1) countsD(3) [of Q] exclusiveD(5,8) [of Q K taken] by (auto simp: shared_queue_def)
    then show ?thesis using assms(3) 1(1,2) by (simp add: soundWorkers_def exclusiveWorkers_def boundedRetries_def withinRetries_def)
  next
    case 2
    then show ?thesis using assms(3) by (simp add: soundWorkers_def exclusiveWorkers_def boundedRetries_def)
  qed
qed

lemma sound_run:
  assumes "shared_queue Q K taken" and "0 \<le> n" and "process_run I L Q K inTime workers p0 m p" and "soundWorkers Q taken n workers p0"
  shows "soundWorkers Q taken n workers p"
  using assms(3,4) by (induction rule: process_run.induct) (auto intro: sound_step [OF assms(1,2)])

section \<open>A worker alone\<close>

text \<open>\<open>k\<close> steps of one worker while nothing else happens.\<close>

primrec workerSteps ::
  "'q workqueue \<Rightarrow> bool \<Rightarrow> nat \<Rightarrow> worker \<Rightarrow> ('w, 'q) DynamicController \<Rightarrow> (worker \<times> ('w, 'q) DynamicController) option" where
  "workerSteps Q stopped 0 wk dc = Some (wk, dc)"
| "workerSteps Q stopped (Suc k) wk dc =
     (case workerStep Q stopped wk dc of None \<Rightarrow> None | Some (wk', dc') \<Rightarrow> workerSteps Q stopped k wk' dc')"

lemma requeueItem_action:
  "requeueItem Q n item err q =
     (case requeueAction err of
        ForgetItem \<Rightarrow> qForget Q item q
      | AddItem \<Rightarrow> qAdd Q item q
      | AddItemAfter d \<Rightarrow> qAddAfter Q item d q
      | RateLimitItem \<Rightarrow> if qNumRequeues Q item q < n then qAddRateLimited Q item q else qForget Q item q)"
  by (cases err) (simp_all add: requeueItem_def requeueAction_def split: goerror.split)

text \<open>After the handler: two steps, or three when the item is retried with a delay or dropped.\<close>

lemma requeue_steps:
  "\<exists>k\<in>{2, 3}. workerSteps Q stopped k (Requeueing item err) dc =
     Some (Idle, dc\<lparr>dcQueue := qDone Q item (requeueItem Q (dcQueueMaxRetries dc) item err (dcQueue dc))\<rparr>)"
proof (cases "requeueAction err")
  case RateLimitItem
  then have "workerSteps Q stopped 3 (Requeueing item err) dc =
      Some (Idle, dc\<lparr>dcQueue := qDone Q item (requeueItem Q (dcQueueMaxRetries dc) item err (dcQueue dc))\<rparr>)"
    by (simp add: numeral_3_eq_3 requeueItem_action onQueue_def)
  then show ?thesis by blast
qed (auto simp: numeral_2_eq_2 requeueItem_action onQueue_def intro: bexI [of _ 2])

section \<open>Shutdown\<close>

text \<open>
  What the documentation says of a queue that was shut down: \<open>Get\<close> does not block, new items are
  ignored, and the items that were added before are handed out once. \<open>closed\<close> tells that the
  queue was shut down, \<open>pending\<close> is the number of items that \<open>Get\<close> has still to return.
\<close>

definition quietly :: "('q \<Rightarrow> bool) \<Rightarrow> ('q \<Rightarrow> nat) \<Rightarrow> ('q \<Rightarrow> 'q) \<Rightarrow> bool" where
  "quietly closed pending f \<longleftrightarrow> (\<forall>q. closed q \<longrightarrow> closed (f q) \<and> pending (f q) = pending q)"

definition drains :: "'q workqueue \<Rightarrow> 'q queueLib \<Rightarrow> ('q \<Rightarrow> bool) \<Rightarrow> ('q \<Rightarrow> nat) \<Rightarrow> bool" where
  "drains Q K closed pending \<longleftrightarrow>
     (\<forall>q. closed (qShutDown K q)) \<and> (\<forall>q. closed q \<longrightarrow> \<not> qBlocks K q) \<and>
     (\<forall>q. closed q \<longrightarrow>
        (case qGet Q q of (Some x, q') \<Rightarrow> closed q' \<and> pending q' < pending q | (None, q') \<Rightarrow> closed q' \<and> pending q' = pending q)) \<and>
     (\<forall>x. quietly closed pending (qDone Q x)) \<and> (\<forall>x. quietly closed pending (qForget Q x)) \<and>
     (\<forall>x. quietly closed pending (qAdd Q x)) \<and> (\<forall>x d. quietly closed pending (qAddAfter Q x d)) \<and>
     (\<forall>x. quietly closed pending (qAddRateLimited Q x))"

lemma quietlyD: "quietly closed pending f \<Longrightarrow> closed q \<Longrightarrow> closed (f q) \<and> pending (f q) = pending q"
  by (simp add: quietly_def)

lemma drainsD:
  assumes "drains Q K closed pending" and "closed q"
  shows "\<not> qBlocks K q"
    "case qGet Q q of (Some x, q') \<Rightarrow> closed q' \<and> pending q' < pending q | (None, q') \<Rightarrow> closed q' \<and> pending q' = pending q"
    "closed (qDone Q x q) \<and> pending (qDone Q x q) = pending q"
    "closed (qForget Q x q) \<and> pending (qForget Q x q) = pending q"
    "closed (qAdd Q x q) \<and> pending (qAdd Q x q) = pending q"
    "closed (qAddAfter Q x d q) \<and> pending (qAddAfter Q x d q) = pending q"
    "closed (qAddRateLimited Q x q) \<and> pending (qAddRateLimited Q x q) = pending q"
proof -
  from assms(1) have q: "quietly closed pending (qDone Q x)" "quietly closed pending (qForget Q x)" "quietly closed pending (qAdd Q x)"
      "quietly closed pending (qAddAfter Q x d)" "quietly closed pending (qAddRateLimited Q x)"
    and get: "\<forall>q. closed q \<longrightarrow> \<not> qBlocks K q"
      "\<forall>q. closed q \<longrightarrow>
        (case qGet Q q of (Some x, q') \<Rightarrow> closed q' \<and> pending q' < pending q | (None, q') \<Rightarrow> closed q' \<and> pending q' = pending q)"
    by (simp_all add: drains_def)
  show "\<not> qBlocks K q"
    "case qGet Q q of (Some x, q') \<Rightarrow> closed q' \<and> pending q' < pending q | (None, q') \<Rightarrow> closed q' \<and> pending q' = pending q"
    using get assms(2) by simp_all
  show "closed (qDone Q x q) \<and> pending (qDone Q x q) = pending q"
    "closed (qForget Q x q) \<and> pending (qForget Q x q) = pending q"
    "closed (qAdd Q x q) \<and> pending (qAdd Q x q) = pending q"
    "closed (qAddAfter Q x d q) \<and> pending (qAddAfter Q x d q) = pending q"
    "closed (qAddRateLimited Q x q) \<and> pending (qAddRateLimited Q x q) = pending q"
    using q [THEN quietlyD, OF assms(2)] by simp_all
qed

text \<open>The steps a worker takes at most until it asks for the next item or ends.\<close>

fun stepsLeft :: "worker \<Rightarrow> nat" where
  "stepsLeft Idle = 1"
| "stepsLeft (Syncing _) = 5"
| "stepsLeft (Requeueing _ _) = 4"
| "stepsLeft (Retrying _) = 3"
| "stepsLeft (Dropping _) = 3"
| "stepsLeft (Finishing _) = 2"
| "stepsLeft Ended = 0"

definition workLeft :: "('q \<Rightarrow> nat) \<Rightarrow> ('w, 'q) process \<Rightarrow> nat" where
  "workLeft pending p =
     (if prPhase p = Crashed then 0 else 5 * pending (dcQueue (prController p)) + sum_list (map stepsLeft (prWorkers p)))"

lemma workerStep_drains:
  assumes "drains Q K closed pending" and "closed (dcQueue dc)" and "wk \<noteq> Ended" and "workerStep Q True wk dc = Some (wk', dc')"
  shows "closed (dcQueue dc') \<and> 5 * pending (dcQueue dc') + stepsLeft wk' < 5 * pending (dcQueue dc) + stepsLeft wk"
proof (cases wk)
  case Idle
  obtain r q where get: "qGet Q (dcQueue dc) = (r, q)" by (rule prod.exhaust)
  show ?thesis
  proof (cases r)
    case None
    then show ?thesis using drainsD(2) [OF assms(1,2)] get assms(4) Idle by auto
  next
    case (Some x)
    then show ?thesis using drainsD(2) [OF assms(1,2)] get assms(4) Idle by auto
  qed
next
  case (Syncing x)
  then show ?thesis using assms(2,4) by (auto split: option.splits)
next
  case (Requeueing x err)
  then show ?thesis
    using assms(2,4) by (auto simp: drainsD(3-) [OF assms(1,2)] split: requeue_action.splits if_splits)
qed (use assms(3,4) in \<open>auto simp: drainsD(3-) [OF assms(1,2)]\<close>)

lemma sum_list_map_update:
  fixes f :: "'a \<Rightarrow> nat"
  shows "i < length xs \<Longrightarrow> sum_list (map f (xs[i := y])) + f (xs ! i) = sum_list (map f xs) + f y"
  by (induction xs arbitrary: i) (auto split: nat.split)

text \<open>After \<open>Run\<close> has returned.\<close>

definition winding_down :: "('q \<Rightarrow> bool) \<Rightarrow> ('w, 'q) process \<Rightarrow> bool" where
  "winding_down closed p \<longleftrightarrow> ((\<exists>r. prPhase p = Returned r) \<or> prPhase p = Crashed) \<and> prStopped p \<and> closed (dcQueue (prController p))"

lemma winding_work:
  assumes "drains Q K closed pending" and "winding_down closed p" and "canWork K i p"
  shows "winding_down closed (workerMove Q i p) \<and> workLeft pending (workerMove Q i p) < workLeft pending p"
proof -
  let ?wk = "prWorkers p ! i"
  have i: "i < length (prWorkers p)" "prPhase p \<noteq> Crashed" "?wk \<noteq> Ended" using assms(3) by (simp_all add: canWork_def)
  have p: "prStopped p" "closed (dcQueue (prController p))" using assms(2) by (simp_all add: winding_down_def)
  have "0 < stepsLeft ?wk" using i(3) by (cases ?wk) simp_all
  then have pos: "0 < workLeft pending p" using i sum_list_map_update [OF i(1), of stepsLeft Ended] by (simp add: workLeft_def)
  show ?thesis
  proof (cases rule: workerMove_cases [of Q p i])
    case 1
    then show ?thesis using p pos by (simp add: winding_down_def workLeft_def)
  next
    case (2 wk dc)
    then show ?thesis
      using workerStep_drains [OF assms(1) p(2) i(3), of wk dc] p(1) i(2) assms(2) sum_list_map_update [OF i(1), of stepsLeft wk]
      by (simp add: winding_down_def workLeft_def)
  qed
qed

lemma winding_call:
  assumes "drains Q K closed pending" and "winding_down closed p" and "process_step I L Q K inTime workers False p p'"
  shows "winding_down closed p' \<and> workLeft pending p' = workLeft pending p"
  using assms(3)
proof cases
  case (call dc')
  then show ?thesis
    using drainsD(5) [OF assms(1)] assms(2) by (auto elim!: call_queue simp: winding_down_def workLeft_def)
qed (use assms(2) in \<open>auto simp: winding_down_def workLeft_def\<close>)

lemma winding_run:
  assumes "drains Q K closed pending" and "process_run I L Q K inTime workers p k p'" and "winding_down closed p"
  shows "winding_down closed p' \<and> workLeft pending p' + k \<le> workLeft pending p"
  using assms(2,3)
proof (induction rule: process_run.induct)
  case (step n p1 b p2)
  show ?case
  proof (cases b)
    case True
    from step.hyps(2) True obtain i where "canWork K i p1" "p2 = workerMove Q i p1" by cases auto
    then show ?thesis using winding_work [OF assms(1), of p1 i] step True by simp
  next
    case False
    then show ?thesis using winding_call [OF assms(1), of p1] step by auto
  qed
qed simp

lemma returned_winding_down:
  assumes "drains Q K closed pending" and "process_run I L Q K inTime workers (newProcess n q w) m p" and "prPhase p = Returned r"
  shows "winding_down closed p"
proof -
  have shut: "closed (qShutDown K q)" for q using assms(1) by (simp add: drains_def)
  have "prPhase p = Returned r \<longrightarrow> winding_down closed p" for r
    using assms(2)
  proof (induction arbitrary: r rule: process_run.induct)
    case start
    then show ?case by (simp add: newProcess_def)
  next
    case (step m p1 b p2)
    show ?case
    proof (cases "\<exists>r. prPhase p1 = Returned r")
      case True
      then have "winding_down closed p1" using step.IH by blast
      moreover have "process_run I L Q K inTime workers p1 (0 + of_bool b) p2"
        using step.hyps(2) process_run.intros by metis
      ultimately show ?thesis using winding_run [OF assms(1)] by blast
    next
      case False
      from step.hyps(2) show ?thesis
      proof cases
        case run
        then show ?thesis
          using shut by (auto simp: startRun_def returnRun_def winding_down_def WaitForInformersSync_def split: if_splits)
      next
        case shutdown
        then show ?thesis using shut by (simp add: stopRun_def returnRun_def winding_down_def)
      next
        case (work i)
        then show ?thesis using False by (auto simp: workerMove_def split: option.splits)
      qed (use False in auto)
    qed
  qed
  then show ?thesis using assms(3) by blast
qed

section \<open>Properties\<close>

text \<open>
  C6. Workers, informers and registrations interleave in any order: no two workers ever hold the
  same item, so that the reconciliations of one object never overlap; the number of workers is the
  configured one; and no item has more than \<open>QueueMaxRetries\<close> rate-limited retries on its count,
  although a worker reads the counter and adds the item in two separate calls on the queue.
\<close>

theorem workers_are_exclusive:
  assumes "shared_queue Q K taken" and "0 \<le> maxRetries" and "\<forall>i. qNumRequeues Q i q = 0"
    and "process_run I L Q K inTime workers (newProcess maxRetries q w) m p"
  shows "(\<forall>i j x. i < length (prWorkers p) \<longrightarrow> j < length (prWorkers p) \<longrightarrow>
      holds (prWorkers p ! i) = Some x \<longrightarrow> holds (prWorkers p ! j) = Some x \<longrightarrow> i = j) \<and>
    length (prWorkers p) \<in> {0, workers} \<and>
    (\<forall>item. 0 \<le> qNumRequeues Q item (dcQueue (prController p)) \<and> qNumRequeues Q item (dcQueue (prController p)) \<le> maxRetries)"
proof -
  have "soundWorkers Q taken maxRetries workers p"
    using sound_run [OF assms(1,2,4) sound_new [OF assms(2,3)]] .
  then show ?thesis by (simp add: soundWorkers_def exclusiveWorkers_def boundedRetries_def withinRetries_def)
qed

text \<open>
  The steps of a worker are a refinement of \<open>processNextWorkItem\<close>: when nothing else happens in
  between, an idle worker that processes an item is idle again after four or five steps, with the
  controller that \<open>processNextWorkItem\<close> returns; it panics exactly with its handler, and it leaves its
  loop when the queue has shut down and the context is cancelled.
\<close>

lemma worker_refines_processNextWorkItem:
  "case processNextWorkItem Q dc of
     (dc', NextItem) \<Rightarrow> \<exists>k\<in>{4, 5}. workerSteps Q stopped k Idle dc = Some (Idle, dc')
   | (dc', WorkerPanic) \<Rightarrow> workerSteps Q stopped 2 Idle dc = None
   | (dc', QueueShutDown) \<Rightarrow> workerSteps Q stopped 1 Idle dc = Some (if stopped then Ended else Idle, dc')"
proof -
  obtain r q where get: "qGet Q (dcQueue dc) = (r, q)" by (rule prod.exhaust)
  show ?thesis
  proof (cases r)
    case (Some item)
    show ?thesis
    proof (cases "syncFunc item (dc\<lparr>dcQueue := q\<rparr>)")
      case (Some res)
      obtain err w where res: "res = (err, w)" by (rule prod.exhaust)
      let ?dc = "dc\<lparr>dcQueue := q, dcWorld := w\<rparr>"
      from requeue_steps [of Q stopped item err ?dc] obtain k where k: "k \<in> {2, 3}"
        "workerSteps Q stopped k (Requeueing item err) ?dc =
           Some (Idle, ?dc\<lparr>dcQueue := qDone Q item (requeueItem Q (dcQueueMaxRetries ?dc) item err (dcQueue ?dc))\<rparr>)"
        by blast
      have "workerSteps Q stopped (Suc (Suc k)) Idle dc =
          Some (Idle, dc\<lparr>dcQueue := qDone Q item (requeueItem Q (dcQueueMaxRetries dc) item err q), dcWorld := w\<rparr>)"
        using get \<open>r = Some item\<close> Some res k(2) by (cases dc) simp
      then have "\<exists>j\<in>{4, 5}. workerSteps Q stopped j Idle dc =
          Some (Idle, dc\<lparr>dcQueue := qDone Q item (requeueItem Q (dcQueueMaxRetries dc) item err q), dcWorld := w\<rparr>)"
        by (rule bexI) (use k(1) in auto)
      then show ?thesis using get \<open>r = Some item\<close> Some res by (simp add: processNextWorkItem_def)
    qed (use get \<open>r = Some item\<close> in \<open>simp add: processNextWorkItem_def numeral_2_eq_2\<close>)
  qed (use get in \<open>simp add: processNextWorkItem_def\<close>)
qed

text \<open>
  C37. The shutdown comes to an end: once \<open>Run\<close> has returned, whatever else happens, the workers take
  at most \<open>workLeft\<close> more steps, five for every item that is left in the queue and at most five for
  every worker, and as long as the process lives a worker that has not ended can take its next step.
\<close>

theorem shutdown_drains:
  assumes "drains Q K closed pending" and "process_run I L Q K inTime workers (newProcess maxRetries q w) m p"
    and "prPhase p = Returned r" and "process_run I L Q K inTime workers p k p'"
  shows "k \<le> workLeft pending p \<and> workLeft pending p \<le> 5 * (pending (dcQueue (prController p)) + length (prWorkers p)) \<and>
    (prPhase p' = Crashed \<or> (\<forall>i < length (prWorkers p'). prWorkers p' ! i = Ended \<or> canWork K i p'))"
proof -
  have "winding_down closed p" using returned_winding_down [OF assms(1-3)] .
  then have end': "winding_down closed p'" "workLeft pending p' + k \<le> workLeft pending p"
    using winding_run [OF assms(1,4)] by blast+
  have "\<not> qBlocks K (dcQueue (prController p'))"
    using end'(1) drainsD(1) [OF assms(1)] by (simp add: winding_down_def)
  moreover have "stepsLeft wk \<le> 5" for wk by (cases wk) simp_all
  then have "sum_list (map stepsLeft ws) \<le> 5 * length ws" for ws
    by (induction ws) (auto intro: add_mono [of _ 5, simplified])
  ultimately show ?thesis using end'(2) by (auto simp: workLeft_def canWork_def add_mult_distrib2)
qed

section \<open>Witnesses\<close>

text \<open>A queue that keeps the waiting items, the taken ones, the counters, and whether it was shut down.\<close>

record exampleShared =
  esWaiting :: "ObjectIdentifiers list"
  esTaken :: "ObjectIdentifiers list"
  esCount :: "ObjectIdentifiers \<Rightarrow> int"
  esClosed :: bool

definition esEmpty :: exampleShared where
  "esEmpty = \<lparr>esWaiting = [], esTaken = [], esCount = (\<lambda>i. 0), esClosed = False\<rparr>"

definition esFree :: "exampleShared \<Rightarrow> ObjectIdentifiers option" where
  "esFree q = find (\<lambda>x. x \<notin> set (esTaken q)) (esWaiting q)"

definition esAdd :: "ObjectIdentifiers \<Rightarrow> exampleShared \<Rightarrow> exampleShared" where
  "esAdd x q = (if esClosed q then q else q\<lparr>esWaiting := esWaiting q @ [x]\<rparr>)"

definition sharedQueue :: "exampleShared workqueue" where
  "sharedQueue =
     \<lparr>qGet = (\<lambda>q. case esFree q of
                None \<Rightarrow> (None, q)
              | Some x \<Rightarrow> (Some x, q\<lparr>esWaiting := remove1 x (esWaiting q), esTaken := x # esTaken q\<rparr>)),
      qDone = (\<lambda>x q. q\<lparr>esTaken := removeAll x (esTaken q)\<rparr>),
      qForget = (\<lambda>x q. q\<lparr>esCount := (esCount q)(x := 0)\<rparr>),
      qAdd = esAdd, qAddAfter = (\<lambda>x d. esAdd x),
      qAddRateLimited = (\<lambda>x q. esAdd x (q\<lparr>esCount := (esCount q)(x := esCount q x + 1)\<rparr>)),
      qNumRequeues = (\<lambda>x q. esCount q x)\<rparr>"

definition sharedLib :: "exampleShared queueLib" where
  "sharedLib = \<lparr>qBlocks = (\<lambda>q. \<not> esClosed q \<and> esFree q = None), qShutDown = (\<lambda>q. q\<lparr>esClosed := True\<rparr>)\<rparr>"

lemma esAdd_sel [simp]:
  "esTaken (esAdd x q) = esTaken q" "esCount (esAdd x q) = esCount q" "esClosed (esAdd x q) = esClosed q"
  "esClosed q \<Longrightarrow> esWaiting (esAdd x q) = esWaiting q"
  by (simp_all add: esAdd_def)

lemma sharedQueue_shared: "shared_queue sharedQueue sharedLib (\<lambda>q. set (esTaken q))"
  by (auto simp: shared_queue_def counts_requeues_def exclusive_def sharedQueue_def sharedLib_def esFree_def find_Some_iff
      split: option.splits)

lemma sharedQueue_drains: "drains sharedQueue sharedLib esClosed (\<lambda>q. length (esWaiting q))"
proof -
  have "length (remove1 x xs) < length xs" if "find P xs = Some x" for P xs and x :: ObjectIdentifiers
    using that by (auto simp: length_remove1 find_Some_iff intro: Suc_pred')
  then show ?thesis
    by (auto simp: drains_def quietly_def sharedQueue_def sharedLib_def esFree_def split: option.splits)
qed

text \<open>Two workers; the object of the first event is being reconciled when it changes again.\<close>

definition exampleItem :: ObjectIdentifiers where
  "exampleItem = \<lparr>NamespacedKey = ''default/a'', oiGVR = exampleGvr\<rparr>"

definition runStarted :: "(unit, exampleShared) process" where
  "runStarted = startRun sharedLib 2 (newProcess 2 esEmpty ())"

definition objectArrives :: "(unit, exampleShared) process \<Rightarrow> (unit, exampleShared) process" where
  "objectArrives p = p\<lparr>prController := enqueueObject exampleObjects sharedQueue (Unstructured []) (prController p)\<rparr>"

definition runBusy :: "(unit, exampleShared) process" where
  "runBusy = objectArrives (workerMove sharedQueue 0 (objectArrives runStarted))"

abbreviation exampleRun where
  "exampleRun \<equiv> process_run exampleInformers exampleObjects sharedQueue sharedLib (\<lambda>gs w. True) 2"

lemmas run_defs = runBusy_def objectArrives_def runStarted_def startRun_def WaitForInformersSync_def AllInformerHaveSynced_def
  newProcess_def NewDynamicController_def workerMove_def enqueueObject_def exampleObjects_def sharedQueue_def sharedLib_def
  esAdd_def esFree_def esEmpty_def exampleItem_def exampleGvr_def GVKtoGVR_def toLower_def toLowerChar_def numeral_2_eq_2
  canWork_def stopRun_def returnRun_def onQueue_def workLeft_def gracefulShutdown_def

lemma other_step_run:
  "exampleRun p0 m p \<Longrightarrow>
   process_step exampleInformers exampleObjects sharedQueue sharedLib (\<lambda>gs w. True) 2 False p p' \<Longrightarrow> exampleRun p0 m p'"
  using process_run.step by fastforce

lemma runStarted_reached: "exampleRun (newProcess 2 esEmpty ()) 0 runStarted"
proof -
  have "process_step exampleInformers exampleObjects sharedQueue sharedLib (\<lambda>gs w. True) 2 False (newProcess 2 esEmpty ()) runStarted"
    unfolding runStarted_def by (rule process_step.run) (simp add: newProcess_def)
  from other_step_run [OF process_run.start this] show ?thesis .
qed

lemma objectArrives_step:
  "exampleRun p0 m p \<Longrightarrow> prPhase p \<noteq> Crashed \<Longrightarrow> exampleRun p0 m (objectArrives p)"
  unfolding objectArrives_def by (rule other_step_run) (auto intro: process_step.call dc_call.add)

lemma worker_step_run:
  "exampleRun p0 m p \<Longrightarrow> canWork sharedLib i p \<Longrightarrow> exampleRun p0 (m + 1) (workerMove sharedQueue i p)"
  using process_run.step [OF _ process_step.work] by fastforce

lemma runBusy_reached: "exampleRun (newProcess 2 esEmpty ()) 1 runBusy"
proof -
  have "exampleRun (newProcess 2 esEmpty ()) 0 (objectArrives runStarted)"
    by (rule objectArrives_step [OF runStarted_reached]) (simp add: run_defs)
  then have "exampleRun (newProcess 2 esEmpty ()) (0 + 1) (workerMove sharedQueue 0 (objectArrives runStarted))"
    by (rule worker_step_run) (simp add: run_defs)
  then have "exampleRun (newProcess 2 esEmpty ()) (0 + 1) runBusy"
    unfolding runBusy_def by (rule objectArrives_step) (simp add: run_defs)
  then show ?thesis by simp
qed

theorem workers_are_exclusive_witness:
  "prWorkers runBusy = [Syncing exampleItem, Idle] \<and> esWaiting (dcQueue (prController runBusy)) = [exampleItem] \<and>
   holds (prWorkers runBusy ! 1) \<noteq> Some exampleItem \<and> qNumRequeues sharedQueue exampleItem (dcQueue (prController runBusy)) \<le> 2"
proof -
  have "\<forall>i. qNumRequeues sharedQueue i esEmpty = 0" by (simp add: sharedQueue_def esEmpty_def)
  note sound = workers_are_exclusive [OF sharedQueue_shared _ this runBusy_reached]
  have "prWorkers runBusy = [Syncing exampleItem, Idle]" "esWaiting (dcQueue (prController runBusy)) = [exampleItem]"
    by (simp_all add: run_defs)
  moreover have "holds (prWorkers runBusy ! 0) = Some exampleItem \<Longrightarrow> holds (prWorkers runBusy ! 1) = Some exampleItem \<Longrightarrow> (0 :: nat) = 1"
    using sound calculation(1) by auto
  ultimately show ?thesis using sound by auto
qed

text \<open>The context is cancelled while an item waits.\<close>

definition runReturned :: "(unit, exampleShared) process" where
  "runReturned = stopRun sharedLib (\<lambda>gs w. True) ((objectArrives runStarted)\<lparr>prStopped := True\<rparr>)"

lemma runReturned_reached: "exampleRun (newProcess 2 esEmpty ()) 0 runReturned"
proof -
  let ?p = "objectArrives runStarted"
  let ?s = "process_step exampleInformers exampleObjects sharedQueue sharedLib (\<lambda>gs w. True) 2 False"
  have "exampleRun (newProcess 2 esEmpty ()) 0 ?p"
    by (rule objectArrives_step [OF runStarted_reached]) (simp add: run_defs)
  moreover have "?s ?p (?p\<lparr>prStopped := True\<rparr>)" by (rule process_step.cancel) (simp add: run_defs)
  moreover have "?s (?p\<lparr>prStopped := True\<rparr>) runReturned"
    unfolding runReturned_def by (rule process_step.shutdown) (simp_all add: run_defs)
  ultimately show ?thesis using other_step_run by blast
qed

theorem shutdown_drains_witness:
  "prPhase runReturned = Returned None \<and> 1 \<le> workLeft (\<lambda>q. length (esWaiting q)) runReturned \<and>
   workLeft (\<lambda>q. length (esWaiting q)) runReturned = 7 \<and>
   canWork sharedLib 0 (workerMove sharedQueue 0 runReturned) \<and> canWork sharedLib 1 (workerMove sharedQueue 0 runReturned)"
proof -
  let ?p = "workerMove sharedQueue 0 runReturned"
  have "exampleRun runReturned (0 + 1) ?p"
    by (rule worker_step_run [OF process_run.start]) (simp add: run_defs runReturned_def)
  moreover have ret: "prPhase runReturned = Returned None" by (simp add: run_defs runReturned_def)
  ultimately have "1 \<le> workLeft (\<lambda>q. length (esWaiting q)) runReturned"
      "prPhase ?p = Crashed \<or> (\<forall>i < length (prWorkers ?p). prWorkers ?p ! i = Ended \<or> canWork sharedLib i ?p)"
    using shutdown_drains [OF sharedQueue_drains runReturned_reached] by auto
  moreover have "prPhase ?p = Returned None" "prWorkers ?p = [Syncing exampleItem, Idle]"
      "workLeft (\<lambda>q. length (esWaiting q)) runReturned = 7"
    by (simp_all add: run_defs runReturned_def)
  ultimately show ?thesis using ret by auto
qed

section \<open>Where the code departs from its intention\<close>

text \<open>
  With a type registered before \<open>Run\<close> has looked at the informers, no worker ever starts: \<open>Run\<close> waits
  until its context is cancelled and returns an error.
\<close>

lemma run_never_serves:
  assumes "dcInformers (prController p) \<noteq> []"
  shows "prWorkers (startRun K workers p) = prWorkers p \<and>
    prPhase (startRun K workers p) =
      (if prStopped p then Returned (Some (Errorf ''failed to sync informers'')) else WaitingForSync)"
  using assms by (simp add: startRun_def WaitForInformersSync_def informers_never_synced returnRun_def)

text \<open>The shutdown waits for the informers but does not cancel them: they go on running.\<close>

lemma shutdown_leaves_informers_running: "dcRunning (prController (stopRun K inTime p)) = dcRunning (prController p)"
  by (simp add: stopRun_def returnRun_def)

end
