(* ===== verification/Client_Set.thy ===== *)
theory Client_Set
  imports Instance_Controller
begin

text \<open>
  The clients kro talks to the API server with, \<open>src/pkg/client/set.go\<close>, and the settings of the
  client for definitions, \<open>src/pkg/client/crd.go\<close>.

  A configuration is shared by pointer: the caller of \<open>NewSet\<close> keeps the one it passed, and every set
  has one. So configurations live in a heap, a list whose indices are the addresses, and \<open>NewSet\<close>
  returns the heap it leaves. The constructors of client-go and the loading of the default
  configuration are the record \<open>clientLib\<close>; a constructor copies the configuration it is given, so a
  client is a function of its contents. A \<open>float32\<close> is the word of its bits, a duration a number of nanoseconds.
\<close>

section \<open>Configurations\<close>

record ImpersonationConfig =
  impUserName :: string
  impUID :: string
  impGroups :: "string list"
  impExtra :: "string list gomap"

definition onlyUser :: "string \<Rightarrow> ImpersonationConfig" where
  "onlyUser user = \<lparr>impUserName = user, impUID = [], impGroups = [], impExtra = []\<rparr>"

text \<open>\<open>rest.Config\<close>: the fields that kro reads or writes, and the other ones as they are.\<close>

record 'h RestConfig =
  restImpersonate :: ImpersonationConfig
  restQPS :: "32 word"
  restBurst :: "64 word"
  restUserAgent :: string
  restOther :: 'h

type_synonym 'h heap = "'h RestConfig list"

record ClientConfig =
  cfgRestConfig :: "nat option"
  cfgImpersonateUser :: string
  cfgQPS :: "32 word"
  cfgBurst :: "64 word"

record ('h, 'k, 'd, 'x) clientLib =
  getDefaultConfig :: "string + 'h RestConfig"
  newKubernetes :: "'h RestConfig \<Rightarrow> string + 'k"
  newDynamic :: "'h RestConfig \<Rightarrow> string + 'd"
  newApiExtensions :: "'h RestConfig \<Rightarrow> string + 'x"

record ('k, 'd, 'x) ClientSet =
  setConfig :: nat
  setKubernetes :: 'k
  setDynamic :: 'd
  setApiExtensionsV1 :: 'x

text \<open>Both zeros of a \<open>float32\<close> compare equal to 0.\<close>

definition isZeroFloat32 :: "32 word \<Rightarrow> bool" where
  "isZeroFloat32 q \<longleftrightarrow> q = 0 \<or> q = 0x80000000"

definition allocConfig :: "'h RestConfig \<Rightarrow> 'h heap \<Rightarrow> nat \<times> 'h heap" where
  "allocConfig c h = (length h, h @ [c])"

section \<open>Creation\<close>

definition baseConfig :: "('h, 'k, 'd, 'x) clientLib \<Rightarrow> ClientConfig \<Rightarrow> 'h heap \<Rightarrow> (string + nat) \<times> 'h heap" where
  "baseConfig L cfg h =
     (case cfgRestConfig cfg of
        Some a \<Rightarrow> (Inr a, h)
      | None \<Rightarrow>
          (case getDefaultConfig L of
             Inl err \<Rightarrow> (Inl err, h)
           | Inr c \<Rightarrow> (case allocConfig c h of (a, h') \<Rightarrow> (Inr a, h'))))"

definition impersonateConfig :: "string \<Rightarrow> nat \<Rightarrow> 'h heap \<Rightarrow> nat \<times> 'h heap" where
  "impersonateConfig user a h =
     (if user \<noteq> [] then allocConfig ((h ! a)\<lparr>restImpersonate := onlyUser user\<rparr>) h else (a, h))"

definition setDefaults :: "32 word \<Rightarrow> 64 word \<Rightarrow> 'h RestConfig \<Rightarrow> 'h RestConfig" where
  "setDefaults qps burst c =
     (let c1 = (if isZeroFloat32 (restQPS c) then c\<lparr>restQPS := qps\<rparr> else c);
          c2 = (if restBurst c1 = 0 then c1\<lparr>restBurst := burst\<rparr> else c1) in
      c2\<lparr>restUserAgent := ''kro/0.1.0''\<rparr>)"

definition initSet :: "('h, 'k, 'd, 'x) clientLib \<Rightarrow> nat \<Rightarrow> 'h heap \<Rightarrow> string + ('k, 'd, 'x) ClientSet" where
  "initSet L a h =
     (case newKubernetes L (h ! a) of
        Inl err \<Rightarrow> Inl err
      | Inr k \<Rightarrow>
          (case newDynamic L (h ! a) of
             Inl err \<Rightarrow> Inl err
           | Inr d \<Rightarrow>
               (case newApiExtensions L (h ! a) of
                  Inl err \<Rightarrow> Inl err
                | Inr x \<Rightarrow> Inr \<lparr>setConfig = a, setKubernetes = k, setDynamic = d, setApiExtensionsV1 = x\<rparr>)))"

definition NewSet ::
  "('h, 'k, 'd, 'x) clientLib \<Rightarrow> ClientConfig \<Rightarrow> 'h heap \<Rightarrow> (string + ('k, 'd, 'x) ClientSet) \<times> 'h heap" where
  "NewSet L cfg h =
     (case baseConfig L cfg h of
        (Inl err, h1) \<Rightarrow> (Inl err, h1)
      | (Inr a, h1) \<Rightarrow>
          (case impersonateConfig (cfgImpersonateUser cfg) a h1 of
             (b, h2) \<Rightarrow>
               (let h3 = h2[b := setDefaults (cfgQPS cfg) (cfgBurst cfg) (h2 ! b)] in (initSet L b h3, h3))))"

section \<open>Use\<close>

definition RESTConfig :: "('k, 'd, 'x) ClientSet \<Rightarrow> 'h heap \<Rightarrow> nat \<times> 'h heap" where
  "RESTConfig c h = allocConfig (h ! setConfig c) h"

definition WithImpersonation ::
  "('h, 'k, 'd, 'x) clientLib \<Rightarrow> string \<Rightarrow> ('k, 'd, 'x) ClientSet \<Rightarrow> 'h heap \<Rightarrow> (string + ('k, 'd, 'x) ClientSet) \<times> 'h heap" where
  "WithImpersonation L user c h =
     NewSet L \<lparr>cfgRestConfig = Some (setConfig c), cfgImpersonateUser = user, cfgQPS = 0, cfgBurst = 0\<rparr> h"

record 'x CRDWrapperConfig =
  crdClientOf :: "'x option"
  crdPollInterval :: "64 word"
  crdTimeout :: "64 word"

definition defaultPollInterval :: "64 word" where
  "defaultPollInterval = 150 * 1000000"

definition defaultTimeout :: "64 word" where
  "defaultTimeout = 2 * 60 * 1000000000"

definition DefaultCRDWrapperConfig :: "'x CRDWrapperConfig" where
  "DefaultCRDWrapperConfig = \<lparr>crdClientOf = None, crdPollInterval = defaultPollInterval, crdTimeout = defaultTimeout\<rparr>"

text \<open>\<open>None\<close>: a call on a nil client.\<close>

definition newCRDWrapper :: "'x CRDWrapperConfig \<Rightarrow> ('x \<times> 64 word \<times> 64 word) option" where
  "newCRDWrapper cfg =
     map_option (\<lambda>x. (x,
       if crdPollInterval cfg = 0 then defaultPollInterval else crdPollInterval cfg,
       if crdTimeout cfg = 0 then defaultTimeout else crdTimeout cfg)) (crdClientOf cfg)"

definition CRDOf :: "('k, 'd, 'x) ClientSet \<Rightarrow> 'x CRDWrapperConfig \<Rightarrow> ('x \<times> 64 word \<times> 64 word) option" where
  "CRDOf s cfg = newCRDWrapper (if crdClientOf cfg = None then cfg\<lparr>crdClientOf := Some (setApiExtensionsV1 s)\<rparr> else cfg)"

section \<open>The controller of instances with a client set\<close>

text \<open>The dynamic client that \<open>getExecutionClient\<close> obtains for a user, in the heap at that time.\<close>

definition impersonatedDynamic ::
  "('h, 'k, 'w dynClient, 'x) clientLib \<Rightarrow> ('k, 'w dynClient, 'x) ClientSet \<Rightarrow> 'h heap \<Rightarrow> string \<Rightarrow> string + 'w dynClient" where
  "impersonatedDynamic L c h user = map_sum id setDynamic (fst (WithImpersonation L user c h))"

definition controllerWith ::
  "('h, 'k, 'w dynClient, 'x) clientLib \<Rightarrow> ('k, 'w dynClient, 'x) ClientSet \<Rightarrow> 'h heap \<Rightarrow> 'w Controller \<Rightarrow> 'w Controller" where
  "controllerWith L c h ctl = ctl\<lparr>ctlDynamic := setDynamic c, ctlImpersonate := impersonatedDynamic L c h\<rparr>"

section \<open>Lemmas\<close>

text \<open>What a successful \<open>init\<close> has made.\<close>

lemma initSet_Inr:
  "initSet L a h = Inr s \<longleftrightarrow> setConfig s = a \<and> newKubernetes L (h ! a) = Inr (setKubernetes s) \<and>
     newDynamic L (h ! a) = Inr (setDynamic s) \<and> newApiExtensions L (h ! a) = Inr (setApiExtensionsV1 s)"
  by (cases s) (auto simp: initSet_def split: sum.splits)

lemma setDefaults_sel [simp]:
  "restImpersonate (setDefaults q b c) = restImpersonate c"
  "restUserAgent (setDefaults q b c) = ''kro/0.1.0''" "restOther (setDefaults q b c) = restOther c"
  "restQPS (setDefaults q b c) = (if isZeroFloat32 (restQPS c) then q else restQPS c)"
  "restBurst (setDefaults q b c) = (if restBurst c = 0 then b else restBurst c)"
  by (simp_all add: setDefaults_def Let_def)

text \<open>The configuration a client set that impersonates \<open>user\<close> is made of.\<close>

definition asUser :: "string \<Rightarrow> 'h RestConfig \<Rightarrow> 'h RestConfig" where
  "asUser user c = setDefaults 0 0 (c\<lparr>restImpersonate := onlyUser user\<rparr>)"

lemma WithImpersonation_eq:
  assumes "user \<noteq> []"
  shows "WithImpersonation L user c h =
    (initSet L (length h) (h @ [asUser user (h ! setConfig c)]), h @ [asUser user (h ! setConfig c)])"
  using assms
  by (simp add: WithImpersonation_def NewSet_def baseConfig_def impersonateConfig_def allocConfig_def asUser_def Let_def)

lemma impersonatedDynamic_Inr:
  assumes "user \<noteq> []" and "impersonatedDynamic L c h user = Inr d"
  shows "newDynamic L (asUser user (h ! setConfig c)) = Inr d"
proof -
  from assms(2) obtain s where "fst (WithImpersonation L user c h) = Inr s" "d = setDynamic s"
    by (cases "fst (WithImpersonation L user c h)") (auto simp: impersonatedDynamic_def)
  then show ?thesis using assms(1) by (simp add: WithImpersonation_eq initSet_Inr)
qed

text \<open>The service account that is configured for a namespace.\<close>

definition serviceAccountFor :: "string gomap \<Rightarrow> string \<Rightarrow> string option" where
  "serviceAccountFor accounts namespace =
     (case map_of accounts namespace of Some sa \<Rightarrow> Some sa | None \<Rightarrow> map_of accounts ''*'')"

lemma getExecutionClient_Inr:
  "getExecutionClient c namespace = Inr d \<longleftrightarrow>
     (case serviceAccountFor (ctlServiceAccounts c) namespace of
        None \<Rightarrow> d = ctlDynamic c
      | Some sa \<Rightarrow> namespace \<noteq> [] \<and> sa \<noteq> [] \<and> ctlImpersonate c (''system:serviceaccount:'' @ namespace @ '':'' @ sa) = Inr d)"
  by (auto simp: getExecutionClient_def serviceAccountFor_def impersonated_def getServiceAccountUserName_def
      split: option.splits sum.splits)

section \<open>Properties\<close>

text \<open>
  C13. The client that reconciles an instance has the identity that is configured for its namespace.
  With a service account for the namespace, or else for \<open>*\<close>, it was made from a configuration that
  impersonates exactly this account in this namespace, without groups, with the address, credentials and
  limits of the client set and the user agent of kro; without one it is the client of the set itself.
\<close>

theorem execution_client_identity:
  assumes "getExecutionClient (controllerWith L c h ctl) namespace = Inr d"
  shows "case serviceAccountFor (ctlServiceAccounts ctl) namespace of
      None \<Rightarrow> d = setDynamic c
    | Some sa \<Rightarrow>
        (\<exists>config. newDynamic L config = Inr d \<and>
           restImpersonate config = onlyUser (''system:serviceaccount:'' @ namespace @ '':'' @ sa) \<and>
           restUserAgent config = ''kro/0.1.0'' \<and> restBurst config = restBurst (h ! setConfig c) \<and>
           (\<not> isZeroFloat32 (restQPS (h ! setConfig c)) \<longrightarrow> restQPS config = restQPS (h ! setConfig c)) \<and>
           restOther config = restOther (h ! setConfig c))"
proof (cases "serviceAccountFor (ctlServiceAccounts ctl) namespace")
  case None
  then show ?thesis using assms by (simp add: getExecutionClient_Inr controllerWith_def)
next
  case (Some sa)
  let ?user = "''system:serviceaccount:'' @ namespace @ '':'' @ sa"
  have "impersonatedDynamic L c h ?user = Inr d"
    using assms Some by (simp add: getExecutionClient_Inr controllerWith_def)
  then have "newDynamic L (asUser ?user (h ! setConfig c)) = Inr d" by (intro impersonatedDynamic_Inr) simp_all
  then show ?thesis using Some by (auto simp: asUser_def intro!: exI [of _ "asUser ?user (h ! setConfig c)"])
qed

text \<open>
  Impersonation and the copy that is handed to the manager leave every configuration that existed
  before as it was, and live at a new address, so that no write to them reaches the client set;
  the clients of an impersonating set are all made from its own configuration.
\<close>

lemma derived_configs_are_separate:
  assumes "user \<noteq> []" and "setConfig c < length h"
  shows "(\<exists>h'. snd (WithImpersonation L user c h) = h @ h') \<and>
    (\<forall>s. fst (WithImpersonation L user c h) = Inr s \<longrightarrow>
       setConfig s = length h \<and> newKubernetes L (snd (WithImpersonation L user c h) ! setConfig s) = Inr (setKubernetes s) \<and>
       newDynamic L (snd (WithImpersonation L user c h) ! setConfig s) = Inr (setDynamic s) \<and>
       newApiExtensions L (snd (WithImpersonation L user c h) ! setConfig s) = Inr (setApiExtensionsV1 s)) \<and>
    (\<forall>a h' v. RESTConfig c h = (a, h') \<longrightarrow> h' ! a = h ! setConfig c \<and> h'[a := v] ! setConfig c = h ! setConfig c)"
  using assms by (simp add: WithImpersonation_eq initSet_Inr RESTConfig_def allocConfig_def nth_append)

section \<open>Witnesses\<close>

definition exampleConfig :: "string RestConfig" where
  "exampleConfig = \<lparr>restImpersonate = \<lparr>impUserName = [], impUID = [], impGroups = [''admin''], impExtra = []\<rparr>, restQPS = 0x42c80000, restBurst = 150,
     restUserAgent = [], restOther = ''https://10.0.0.1''\<rparr>"

text \<open>A client whose only object is its own user.\<close>

definition identityClient :: "string RestConfig \<Rightarrow> unit dynClient" where
  "identityClient config =
     \<lparr>clientGet = (\<lambda>gvr ns name w. (Inr [(''user'', VStr (impUserName (restImpersonate config)))], w)),
      clientCreate = (\<lambda>gvr ns obj w. (Inr obj, w)), clientDelete = (\<lambda>gvr ns name w. (None, w)),
      clientUpdate = (\<lambda>gvr ns obj w. (Inr obj, w)), clientUpdateStatus = (\<lambda>gvr ns obj w. (Inr obj, w))\<rparr>"

definition exampleLib :: "(string, unit, unit dynClient, unit) clientLib" where
  "exampleLib = \<lparr>getDefaultConfig = Inr exampleConfig, newKubernetes = (\<lambda>c. Inr ()), newDynamic = (\<lambda>c. Inr (identityClient c)),
     newApiExtensions = (\<lambda>c. Inr ())\<rparr>"

definition exampleSet :: "(unit, unit dynClient, unit) ClientSet" where
  "exampleSet = \<lparr>setConfig = 0, setKubernetes = (), setDynamic = identityClient exampleConfig, setApiExtensionsV1 = ()\<rparr>"

definition exampleController :: "unit Controller" where
  "exampleController =
     \<lparr>ctlGvr = \<lparr>gvrGroup = ''kro.run'', gvrVersion = ''v1'', gvrResource = ''apps''\<rparr>, ctlDynamic = identityClient exampleConfig,
      ctlImpersonate = (\<lambda>u. Inl u),
      ctlGraph = \<lparr>graphDAG = NewDirectedAcyclicGraph, graphInstance = sampleInstance, graphResources = sampleResources, graphOrder = []\<rparr>,
      ctlInstanceLabeler = [], ctlRequeueDuration = 0, ctlServiceAccounts = [(''prod'', ''deployer''), (''*'', ''viewer'')]\<rparr>"

lemmas example_client_defs = exampleController_def controllerWith_def exampleLib_def exampleSet_def exampleConfig_def
  serviceAccountFor_def impersonatedDynamic_def

theorem execution_client_identity_witness:
  "\<exists>d config. getExecutionClient (controllerWith exampleLib exampleSet [exampleConfig] exampleController) ''prod'' = Inr d \<and>
     newDynamic exampleLib config = Inr d \<and> restImpersonate config = onlyUser ''system:serviceaccount:prod:deployer'' \<and>
     restOther config = ''https://10.0.0.1''"
proof -
  let ?c = "controllerWith exampleLib exampleSet [exampleConfig] exampleController"
  have "\<exists>d. getExecutionClient ?c ''prod'' = Inr d"
    by (simp add: getExecutionClient_Inr example_client_defs WithImpersonation_eq initSet_def)
  then obtain d where d: "getExecutionClient ?c ''prod'' = Inr d" by blast
  from execution_client_identity [OF this] show ?thesis
    using d by (auto simp: serviceAccountFor_def exampleController_def exampleSet_def exampleConfig_def)
qed

lemma derived_configs_are_separate_witness:
  "\<exists>s h'. WithImpersonation exampleLib ''alice'' exampleSet [exampleConfig] = (Inr s, [exampleConfig] @ h') \<and> setConfig s = 1"
proof -
  let ?r = "WithImpersonation exampleLib ''alice'' exampleSet [exampleConfig]"
  have "setConfig exampleSet < length [exampleConfig]" by (simp add: exampleSet_def)
  note sep = derived_configs_are_separate [OF _ this, of "''alice''" exampleLib]
  have "\<exists>s. fst ?r = Inr s" by (simp add: WithImpersonation_eq initSet_def exampleLib_def)
  then obtain s where "fst ?r = Inr s" by blast
  moreover obtain h' where "snd ?r = [exampleConfig] @ h'" using sep by blast
  ultimately show ?thesis using sep by (metis list.distinct(1) One_nat_def length_Cons list.size(3) prod.collapse)
qed

section \<open>Where the code departs from its intention\<close>

text \<open>Asked to impersonate no user, \<open>WithImpersonation\<close> shares and keeps the configuration of the set.\<close>

lemma impersonate_nobody:
  "setConfig c < length h \<Longrightarrow> WithImpersonation L [] c h =
    (initSet L (setConfig c) (h[setConfig c := setDefaults 0 0 (h ! setConfig c)]), h[setConfig c := setDefaults 0 0 (h ! setConfig c)])"
  by (simp add: WithImpersonation_def NewSet_def baseConfig_def impersonateConfig_def Let_def)

text \<open>A configuration that is passed to \<open>NewSet\<close> is written to: its caller finds the user agent of kro in it.\<close>

lemma NewSet_writes_callers_config:
  "a < length h \<Longrightarrow> restUserAgent (snd (NewSet L \<lparr>cfgRestConfig = Some a, cfgImpersonateUser = [], cfgQPS = q, cfgBurst = b\<rparr> h) ! a) = ''kro/0.1.0''"
  by (simp add: NewSet_def baseConfig_def impersonateConfig_def Let_def)

end
