(* ===== verification/Validation.thy ===== *)
theory Validation
  imports Kro_Prelude
begin

text \<open>
  The checks on a resource group before its graph is built,
  \<open>src/internal/graph/validation.go\<close>, and the part of \<open>src/api/v1alpha1/resource_group.go\<close> they
  read. The three regular expressions are matchers on the characters; parsing a group version
  (\<open>schema.ParseGroupVersion\<close> of apimachinery) is a parameter.
\<close>

section \<open>The resource group\<close>

record RGResource =
  rgID :: string
  rgTemplate :: string
  rgReadyWhen :: "string list"
  rgIncludeWhen :: "string list"

record RGSchema =
  rgKind :: string
  rgAPIVersion :: string
  rgSpec :: string
  rgStatus :: string

record ResourceGroup =
  rgName :: string
  rgSchema :: RGSchema
  rgResources :: "RGResource list"
  rgDefaultServiceAccounts :: "string gomap"

datatype validation_error =
    InvalidKindName string
  | ReservedWord string
  | InvalidResourceID string
  | DuplicateResourceID string
  | FieldNotFound string
  | FieldNotString string
  | InvalidGroupVersion string
  | InvalidVersion string
  | MetadataNotMap

section \<open>Operations\<close>

definition isLower :: "char \<Rightarrow> bool" where
  "isLower c = (CHR ''a'' \<le> c \<and> c \<le> CHR ''z'')"

definition isUpper :: "char \<Rightarrow> bool" where
  "isUpper c = (CHR ''A'' \<le> c \<and> c \<le> CHR ''Z'')"

definition isDigit :: "char \<Rightarrow> bool" where
  "isDigit c = (CHR ''0'' \<le> c \<and> c \<le> CHR ''9'')"

definition isAlnum :: "char \<Rightarrow> bool" where
  "isAlnum c = (isLower c \<or> isUpper c \<or> isDigit c)"

definition isValidResourceID :: "string \<Rightarrow> bool" where
  "isValidResourceID s = (case s of [] \<Rightarrow> False | c # cs \<Rightarrow> isLower c \<and> list_all isAlnum cs)"

definition isValidKindName :: "string \<Rightarrow> bool" where
  "isValidKindName s = (case s of [] \<Rightarrow> False | c # cs \<Rightarrow> isUpper c \<and> list_all isAlnum cs)"

definition digits1 :: "string \<Rightarrow> bool" where
  "digits1 s = (s \<noteq> [] \<and> list_all isDigit s)"

text \<open>\<open>^v\d+(?:(?:alpha|beta)\d+)?$\<close>\<close>

definition kubernetesVersionRegex :: "string \<Rightarrow> bool" where
  "kubernetesVersionRegex s =
     (case s of
        [] \<Rightarrow> False
      | c # cs \<Rightarrow>
          c = CHR ''v'' \<and> takeWhile isDigit cs \<noteq> [] \<and>
          (let rest = dropWhile isDigit cs in
           rest = [] \<or> (hasPrefix rest ''alpha'' \<and> digits1 (drop 5 rest)) \<or> (hasPrefix rest ''beta'' \<and> digits1 (drop 4 rest))))"

definition reservedKeyWords :: "string list" where
  "reservedKeyWords =
     [''apiVersion'', ''context'', ''dependency'', ''dependencies'', ''externalRef'', ''externalReference'',
      ''externalRefs'', ''externalReferences'', ''graph'', ''instance'', ''kind'', ''metadata'', ''namespace'',
      ''object'', ''resource'', ''resourcegroup'', ''resources'', ''runtime'', ''serviceAccountName'', ''spec'',
      ''status'', ''kro'', ''variables'', ''vars'', ''version'']"

definition isKROReservedWord :: "string \<Rightarrow> bool" where
  "isKROReservedWord word = list_ex (\<lambda>w. w = word) reservedKeyWords"

definition resourceIDStep :: "RGResource \<Rightarrow> string list \<Rightarrow> validation_error + string list" where
  "resourceIDStep res seen =
     (if isKROReservedWord (rgID res) then Inl (ReservedWord (rgID res))
      else if \<not> isValidResourceID (rgID res) then Inl (InvalidResourceID (rgID res))
      else if List.member seen (rgID res) then Inl (DuplicateResourceID (rgID res))
      else Inr (rgID res # seen))"

definition validateResourceIDs :: "ResourceGroup \<Rightarrow> validation_error option" where
  "validateResourceIDs rg =
     (case foldRes resourceIDStep (rgResources rg) [] of Inl e \<Rightarrow> Some e | Inr _ \<Rightarrow> None)"

definition validateResourceGroupNamingConventions :: "ResourceGroup \<Rightarrow> validation_error option" where
  "validateResourceGroupNamingConventions rg =
     (if \<not> isValidKindName (rgKind (rgSchema rg)) then Some (InvalidKindName (rgKind (rgSchema rg)))
      else validateResourceIDs rg)"

definition validateKubernetesVersion :: "string \<Rightarrow> validation_error option" where
  "validateKubernetesVersion version = (if \<not> kubernetesVersionRegex version then Some (InvalidVersion version) else None)"

definition stringField :: "val gomap \<Rightarrow> string \<Rightarrow> validation_error + string" where
  "stringField obj field =
     (case map_of obj field of
        None \<Rightarrow> Inl (FieldNotFound field)
      | Some (VStr s) \<Rightarrow> Inr s
      | Some _ \<Rightarrow> Inl (FieldNotString field))"

definition validateKubernetesObjectStructure ::
  "(string \<Rightarrow> string + string \<times> string) \<Rightarrow> val gomap \<Rightarrow> validation_error option" where
  "validateKubernetesObjectStructure parseGroupVersion obj =
     (case stringField obj ''apiVersion'' of
        Inl e \<Rightarrow> Some e
      | Inr apiVersion \<Rightarrow>
          (case parseGroupVersion apiVersion of
             Inl err \<Rightarrow> Some (InvalidGroupVersion err)
           | Inr (grp, version) \<Rightarrow>
               (case (if version \<noteq> [] then validateKubernetesVersion version else None) of
                  Some e \<Rightarrow> Some e
                | None \<Rightarrow>
                    (case stringField obj ''kind'' of
                       Inl e \<Rightarrow> Some e
                     | Inr _ \<Rightarrow>
                         (case map_of obj ''metadata'' of
                            None \<Rightarrow> Some (FieldNotFound ''metadata'')
                          | Some (VMap _) \<Rightarrow> None
                          | Some _ \<Rightarrow> Some MetadataNotMap)))))"

section \<open>Lemmas\<close>

lemma resourceIDStep_Inr:
  "resourceIDStep res seen = Inr seen' \<longleftrightarrow>
   seen' = rgID res # seen \<and> \<not> isKROReservedWord (rgID res) \<and> isValidResourceID (rgID res) \<and> rgID res \<notin> set seen"
  by (auto simp: resourceIDStep_def)

lemma resourceIDs_Inr:
  "(\<exists>seen'. foldRes resourceIDStep rs seen = Inr seen') \<longleftrightarrow>
   (\<forall>r \<in> set rs. \<not> isKROReservedWord (rgID r) \<and> isValidResourceID (rgID r) \<and> rgID r \<notin> set seen)
   \<and> distinct (map rgID rs)"
proof (induction rs arbitrary: seen)
  case (Cons r rs)
  have "(\<exists>seen'. foldRes resourceIDStep (r # rs) seen = Inr seen') \<longleftrightarrow>
      (\<exists>s. resourceIDStep r seen = Inr s \<and> (\<exists>seen'. foldRes resourceIDStep rs s = Inr seen'))"
    by (auto split: sum.splits)
  also have "\<dots> \<longleftrightarrow> \<not> isKROReservedWord (rgID r) \<and> isValidResourceID (rgID r) \<and> rgID r \<notin> set seen
      \<and> (\<exists>seen'. foldRes resourceIDStep rs (rgID r # seen) = Inr seen')"
    by (auto simp: resourceIDStep_Inr)
  finally have step: "(\<exists>seen'. foldRes resourceIDStep (r # rs) seen = Inr seen') \<longleftrightarrow> \<dots>" .
  show ?case unfolding step Cons.IH by (auto simp: image_iff)
qed simp

lemma validIDs_iff:
  "validateResourceIDs rg = None \<longleftrightarrow>
   distinct (map rgID (rgResources rg)) \<and>
   (\<forall>r \<in> set (rgResources rg). isValidResourceID (rgID r) \<and> \<not> isKROReservedWord (rgID r))"
  using resourceIDs_Inr [of "rgResources rg" "[]"]
  by (auto simp: validateResourceIDs_def split: sum.splits)

text \<open>The word \<open>schema\<close>, under which expressions refer to the instance, is not reserved.\<close>

lemma schema_not_reserved: "isValidResourceID ''schema'' \<and> \<not> isKROReservedWord ''schema''"
  by code_simp

section \<open>Property\<close>

text \<open>
  C26. A resource group passes the naming check exactly when its kind is an upper camel case
  name and its resource ids are pairwise distinct, lower camel case and not reserved; the first
  id that breaks a rule, in the order of the resources, is the one the error names.
\<close>

theorem naming_conventions_iff:
  "(validateResourceGroupNamingConventions rg = None \<longleftrightarrow>
      isValidKindName (rgKind (rgSchema rg)) \<and> distinct (map rgID (rgResources rg)) \<and>
      (\<forall>r \<in> set (rgResources rg). isValidResourceID (rgID r) \<and> \<not> isKROReservedWord (rgID r))) \<and>
   (\<forall>e. validateResourceIDs rg = Some e \<longrightarrow>
      (\<exists>ys r zs. rgResources rg = ys @ r # zs \<and> validateResourceIDs (rg\<lparr>rgResources := ys\<rparr>) = None \<and>
         e = (if isKROReservedWord (rgID r) then ReservedWord (rgID r)
              else if \<not> isValidResourceID (rgID r) then InvalidResourceID (rgID r)
              else DuplicateResourceID (rgID r))))"
proof -
  have "\<exists>ys r zs s. rs = ys @ r # zs \<and> foldRes resourceIDStep ys seen = Inr s \<and> resourceIDStep r s = Inl e"
    if "foldRes resourceIDStep rs seen = Inl e" for rs seen e
    using that
  proof (induction rs arbitrary: seen)
    case (Cons r rs)
    show ?case
    proof (cases "resourceIDStep r seen")
      case (Inl e')
      then show ?thesis using Cons.prems by (intro exI [of _ "[]"]) auto
    next
      case (Inr s)
      then have "foldRes resourceIDStep rs s = Inl e" using Cons.prems by simp
      then obtain ys t zs u where "rs = ys @ t # zs" "foldRes resourceIDStep ys s = Inr u" "resourceIDStep t u = Inl e"
        using Cons.IH by blast
      then show ?thesis using Inr by (intro exI [of _ "r # ys"]) auto
    qed
  qed simp
  then have first: "\<exists>ys r zs s. rgResources rg = ys @ r # zs \<and> foldRes resourceIDStep ys [] = Inr s \<and> resourceIDStep r s = Inl e"
    if "validateResourceIDs rg = Some e" for e
    using that by (auto simp: validateResourceIDs_def split: sum.splits)
  have "\<exists>ys r zs. rgResources rg = ys @ r # zs \<and> validateResourceIDs (rg\<lparr>rgResources := ys\<rparr>) = None \<and>
      e = (if isKROReservedWord (rgID r) then ReservedWord (rgID r)
           else if \<not> isValidResourceID (rgID r) then InvalidResourceID (rgID r) else DuplicateResourceID (rgID r))"
    if invalid: "validateResourceIDs rg = Some e" for e
  proof -
    obtain ys r zs s where r: "rgResources rg = ys @ r # zs" "foldRes resourceIDStep ys [] = Inr s" "resourceIDStep r s = Inl e"
      using first [OF invalid] by blast
    show ?thesis
      using r by (intro exI [of _ ys] exI [of _ r] exI [of _ zs])
        (auto simp: validateResourceIDs_def resourceIDStep_def split: if_splits)
  qed
  then show ?thesis by (auto simp: validateResourceGroupNamingConventions_def validIDs_iff)
qed

definition sampleGroup :: "string list \<Rightarrow> ResourceGroup" where
  "sampleGroup ids =
     \<lparr>rgName = ''net'', rgSchema = \<lparr>rgKind = ''Network'', rgAPIVersion = ''v1alpha1'', rgSpec = [], rgStatus = []\<rparr>,
      rgResources = map (\<lambda>i. \<lparr>rgID = i, rgTemplate = [], rgReadyWhen = [], rgIncludeWhen = []\<rparr>) ids,
      rgDefaultServiceAccounts = []\<rparr>"

theorem naming_conventions_iff_witness:
  "validateResourceGroupNamingConventions (sampleGroup [''vpc'', ''subnet1'']) = None \<and>
   validateResourceIDs (sampleGroup [''vpc'', ''vpc'']) = Some (DuplicateResourceID ''vpc'')"
proof
  have "isValidKindName (rgKind (rgSchema (sampleGroup [''vpc'', ''subnet1''])))"
    "distinct (map rgID (rgResources (sampleGroup [''vpc'', ''subnet1''])))"
    "\<forall>r \<in> set (rgResources (sampleGroup [''vpc'', ''subnet1''])). isValidResourceID (rgID r) \<and> \<not> isKROReservedWord (rgID r)"
    by code_simp+
  then show "validateResourceGroupNamingConventions (sampleGroup [''vpc'', ''subnet1'']) = None"
    using naming_conventions_iff by blast
  show "validateResourceIDs (sampleGroup [''vpc'', ''vpc'']) = Some (DuplicateResourceID ''vpc'')"
    by code_simp
qed

end
