(* ===== verification/Emulator.thy ===== *)
theory Emulator
  imports Variables Metadata
begin

text \<open>
  The emulator of \<open>src/internal/graph/emulator/emulator.go\<close>: dummy objects for an OpenAPI schema,
  against which the builder runs the expressions.

  A generator of \<open>math/rand\<close> is a sequence of draws, and the state of the emulator the number of
  draws made. \<open>draw k n\<close> is the value of the \<open>k\<close>-th draw below \<open>n\<close>; \<open>Intn\<close> and \<open>Int63n\<close> panic when
  their argument is not positive. \<open>floatIn k lo hi\<close> is \<open>lo + Float64() * (hi - lo)\<close> in floating
  point. The setters of unstructured objects belong to apimachinery. The properties of an object are
  generated in the order of the list that stands for the map. Memory is not bounded.
\<close>

section \<open>Operations\<close>

datatype emu_error = EmuError string | EmuPanic

record rng =
  draw :: "nat \<Rightarrow> int \<Rightarrow> int"
  floatIn :: "nat \<Rightarrow> 64 word \<Rightarrow> 64 word \<Rightarrow> 64 word"

record setters =
  setAPIVersion :: "string \<Rightarrow> val gomap \<Rightarrow> val gomap"
  setKind :: "string \<Rightarrow> val gomap \<Rightarrow> val gomap"
  setName :: "string \<Rightarrow> val gomap \<Rightarrow> val gomap"
  setNamespace :: "string \<Rightarrow> val gomap \<Rightarrow> val gomap"
  gvString :: "string \<Rightarrow> string \<Rightarrow> string"

definition kubernetesTopLevelFields :: "string list" where
  "kubernetesTopLevelFields = [''apiVersion'', ''kind'', ''metadata'']"

definition Intn :: "rng \<Rightarrow> int \<Rightarrow> nat \<Rightarrow> emu_error + int \<times> nat" where
  "Intn R n k = (if n \<le> 0 then Inl EmuPanic else Inr (draw R k n, k + 1))"

text \<open>
  The conversion \<open>int64(f)\<close> of the \<open>float64\<close> with these bits truncates towards zero. Out of range
  the language leaves the result open; it is the one of amd64.
\<close>

definition floatToInt64 :: "64 word \<Rightarrow> 64 word" where
  "floatToInt64 w =
     (let u = uint w;
          e = u div 2 ^ 52 mod 2 ^ 11;
          m = 2 ^ 52 + u mod 2 ^ 52;
          i = (if e < 1023 then 0 else if e < 1075 then m div 2 ^ nat (1075 - e) else m * 2 ^ nat (e - 1075)) in
      if e \<ge> 1086 then word_of_int (2 ^ 63) else if u \<ge> 2 ^ 63 then word_of_int (- i) else word_of_int i)"

definition generateString :: "rng \<Rightarrow> schema \<Rightarrow> nat \<Rightarrow> emu_error + val \<times> nat" where
  "generateString R s k =
     (if length (schemaEnum s) > 0 then
        (case Intn R (int (length (schemaEnum s))) k of
           Inl e \<Rightarrow> Inl e
         | Inr (i, k1) \<Rightarrow> (case schemaEnum s ! nat i of VStr x \<Rightarrow> Inr (VStr x, k1) | _ \<Rightarrow> Inl EmuPanic))
      else case Intn R 1000 k of
             Inl e \<Rightarrow> Inl e
           | Inr (i, k1) \<Rightarrow> Inr (VStr (''dummy-string-'' @ itoa i), k1))"

definition intMin :: "schema \<Rightarrow> 64 word" where
  "intMin s = (case schemaMinimum s of Some f \<Rightarrow> floatToInt64 f | None \<Rightarrow> 0)"

definition intMax :: "schema \<Rightarrow> 64 word" where
  "intMax s = (case schemaMaximum s of Some f \<Rightarrow> floatToInt64 f | None \<Rightarrow> 10000)"

definition generateInteger :: "rng \<Rightarrow> schema \<Rightarrow> nat \<Rightarrow> emu_error + val \<times> nat" where
  "generateInteger R s k =
     (if intMin s = intMax s then Inr (VInt (intMin s), k)
      else case Intn R (sint (intMax s - intMin s)) k of
             Inl e \<Rightarrow> Inl e
           | Inr (r, k1) \<Rightarrow> Inr (VInt (intMin s + word_of_int r), k1))"

text \<open>The bits of \<open>0.0\<close> and of \<open>100.0\<close>.\<close>

definition generateNumber :: "rng \<Rightarrow> schema \<Rightarrow> nat \<Rightarrow> val \<times> nat" where
  "generateNumber R s k =
     (VFloat (floatIn R k (case schemaMinimum s of Some f \<Rightarrow> f | None \<Rightarrow> 0)
        (case schemaMaximum s of Some f \<Rightarrow> f | None \<Rightarrow> 0x4059000000000000)), k + 1)"

definition minItems :: "schema \<Rightarrow> 64 word" where
  "minItems s = (case schemaMinItems s of Some n \<Rightarrow> n | None \<Rightarrow> 1)"

definition maxItems :: "schema \<Rightarrow> 64 word" where
  "maxItems s = (case schemaMaxItems s of Some n \<Rightarrow> n | None \<Rightarrow> 3)"

definition arrayLength :: "rng \<Rightarrow> schema \<Rightarrow> nat \<Rightarrow> emu_error + 64 word \<times> nat" where
  "arrayLength R s k =
     (if sint (maxItems s) > sint (minItems s) then
        (case Intn R (sint (maxItems s - minItems s)) k of
           Inl e \<Rightarrow> Inl e
         | Inr (r, k1) \<Rightarrow> Inr (minItems s + word_of_int r, k1))
      else Inr (minItems s, k))"

text \<open>A loop that generates one value after the other and stops at the first error.\<close>

fun generateAll :: "('a \<Rightarrow> nat \<Rightarrow> emu_error + 'b \<times> nat) \<Rightarrow> 'a list \<Rightarrow> nat \<Rightarrow> emu_error + 'b list \<times> nat" where
  "generateAll f [] k = Inr ([], k)"
| "generateAll f (x # xs) k =
     (case f x k of
        Inl e \<Rightarrow> Inl e
      | Inr (y, k1) \<Rightarrow> (case generateAll f xs k1 of Inl e \<Rightarrow> Inl e | Inr (ys, k2) \<Rightarrow> Inr (y # ys, k2)))"

lemma generateAll_cong [fundef_cong]:
  "xs = ys \<Longrightarrow> k = l \<Longrightarrow> (\<And>x m. x \<in> set ys \<Longrightarrow> f x m = g x m) \<Longrightarrow> generateAll f xs k = generateAll g ys l"
  by (induction xs arbitrary: ys k l) (auto split: sum.splits)

definition fieldError :: "string \<Rightarrow> emu_error \<Rightarrow> emu_error" where
  "fieldError name e =
     (case e of EmuError m \<Rightarrow> EmuError (''error generating field '' @ name @ '': '' @ m) | EmuPanic \<Rightarrow> EmuPanic)"

definition propertyList :: "schema \<Rightarrow> schema gomap" where
  "propertyList s = (case schemaProperties s of None \<Rightarrow> [] | Some ps \<Rightarrow> ps)"

text \<open>The body of the loop over the properties, here and in \<open>GenerateDummyCR\<close>.\<close>

definition generateField :: "(nat \<Rightarrow> emu_error + val \<times> nat) \<Rightarrow> string \<Rightarrow> nat \<Rightarrow> emu_error + (string \<times> val) \<times> nat" where
  "generateField g name k = (case g k of Inl e \<Rightarrow> Inl (fieldError name e) | Inr (v, k1) \<Rightarrow> Inr ((name, v), k1))"

lemma schema_size_properties: "x \<in> set (propertyList s) \<Longrightarrow> size (snd x) < size s"
proof (cases s)
  case (Schema t ps a it os e n mn mx mi ma)
  assume "x \<in> set (propertyList s)"
  then obtain qs where qs: "ps = Some qs" "x \<in> set qs"
    using Schema by (auto simp: propertyList_def split: option.splits)
  then have "size_prod (\<lambda>_. 0) size x \<le> size_list (size_prod (\<lambda>_. 0) size) qs"
    by (intro size_list_estimation' [of x]) simp_all
  moreover have "size (snd x) \<le> size_prod (\<lambda>_. 0) size x" by (cases x) simp
  ultimately show ?thesis using Schema qs(1) by simp
qed

lemma schema_size_oneOf: "o' \<in> set (schemaOneOf s) \<Longrightarrow> size o' < size s"
  by (cases s) (auto dest: size_list_estimation' [where y = "size o'" and f = size])

lemma schema_size_items: "schemaItems s = Some it \<Longrightarrow> size it < size s"
  by (cases s) simp

lemmas schema_sizes = schema_size_properties schema_size_oneOf schema_size_oneOf [OF nth_mem]
  schema_size_items schema_size_items [OF sym]

text \<open>
  \<open>generateObject\<close> and \<open>generateArray\<close> are given \<open>generateValue\<close>, with which they recur.
\<close>

definition generateObject :: "(schema \<Rightarrow> nat \<Rightarrow> emu_error + val \<times> nat) \<Rightarrow> schema \<Rightarrow> nat \<Rightarrow> emu_error + val \<times> nat" where
  "generateObject value s k =
     (case generateAll (\<lambda>x. generateField (value (snd x)) (fst x)) (propertyList s) k of
        Inl e \<Rightarrow> Inl e
      | Inr (m, k1) \<Rightarrow> Inr (VMap m, k1))"

lemma generateObject_cong [fundef_cong]:
  assumes "s = t" and "k = l" and "\<And>x m. x \<in> set (propertyList t) \<Longrightarrow> f (snd x) m = g (snd x) m"
  shows "generateObject f s k = generateObject g t l"
  using assms generateAll_cong [OF refl refl, of "propertyList t" "\<lambda>x. generateField (f (snd x)) (fst x)"
      "\<lambda>x. generateField (g (snd x)) (fst x)" l]
  by (simp add: generateObject_def generateField_def)

definition generateArray :: "(schema \<Rightarrow> nat \<Rightarrow> emu_error + val \<times> nat) \<Rightarrow> rng \<Rightarrow> schema \<Rightarrow> nat \<Rightarrow> emu_error + val \<times> nat" where
  "generateArray value R s k =
     (case schemaItems s of
        None \<Rightarrow> Inl (EmuError ''array items schema is nil'')
      | Some item \<Rightarrow>
          (case arrayLength R s k of
             Inl e \<Rightarrow> Inl e
           | Inr (n, k1) \<Rightarrow>
               (if sint n < 0 then Inl EmuPanic
                else case generateAll (\<lambda>_. value item) (replicate (unat n) ()) k1 of
                       Inl e \<Rightarrow> Inl e
                     | Inr (vs, k2) \<Rightarrow> Inr (VList vs, k2))))"

lemma generateArray_cong [fundef_cong]:
  assumes "R = Q" and "s = t" and "k = l" and "\<And>item m. schemaItems t = Some item \<Longrightarrow> f item m = g item m"
  shows "generateArray f R s k = generateArray g Q t l"
proof -
  have "f item = g item" if "schemaItems t = Some item" for item using assms(4) [OF that] by blast
  then show ?thesis using assms(1-3) by (cases "schemaItems t") (auto simp: generateArray_def split: sum.split)
qed

function generateValue :: "rng \<Rightarrow> schema \<Rightarrow> nat \<Rightarrow> emu_error + val \<times> nat" where
  "generateValue R s k =
     (if length (schemaType s) = 0 then
        (if length (propertyList s) > 0 then generateObject (generateValue R) s k
         else if length (schemaOneOf s) > 0 then
           (case Intn R (int (length (schemaOneOf s))) k of
              Inl e \<Rightarrow> Inl e
            | Inr (i, k1) \<Rightarrow> (if nat i < length (schemaOneOf s) then generateValue R (schemaOneOf s ! nat i) k1 else Inl EmuPanic))
         else Inl (EmuError ''schema type is empty and has no properties''))
      else if length (schemaType s) \<noteq> 1 then Inl (EmuError ''schema type is not a single type'')
      else if hd (schemaType s) = ''string'' then generateString R s k
      else if hd (schemaType s) = ''integer'' then generateInteger R s k
      else if hd (schemaType s) = ''number'' then Inr (generateNumber R s k)
      else if hd (schemaType s) = ''boolean'' then
        (case Intn R 2 k of Inl e \<Rightarrow> Inl e | Inr (i, k1) \<Rightarrow> Inr (VBool (i = 1), k1))
      else if hd (schemaType s) = ''array'' then generateArray (generateValue R) R s k
      else if hd (schemaType s) = ''object'' then generateObject (generateValue R) s k
      else Inl (EmuError (''unsupported type: '' @ hd (schemaType s))))"
  by pat_completeness auto
termination
  by (relation "measure (\<lambda>(R, s, k). size s)") (auto dest: schema_sizes)

declare generateValue.simps [simp del]

definition GenerateDummyCR ::
  "rng \<Rightarrow> setters \<Rightarrow> GroupVersionKind \<Rightarrow> schema option \<Rightarrow> nat \<Rightarrow> emu_error + val gomap \<times> nat" where
  "GenerateDummyCR R U gvk sch k =
     (case sch of
        None \<Rightarrow> Inl (EmuError ''schema is nil'')
      | Some s \<Rightarrow>
          (case generateAll (\<lambda>x. generateField (generateValue R (snd x)) (fst x))
                  (filter (\<lambda>x. \<not> List.member kubernetesTopLevelFields (fst x)) (propertyList s)) k of
             Inl e \<Rightarrow> Inl e
           | Inr (m, k1) \<Rightarrow>
               Inr (setNamespace U ''default'' (setName U (toLower (gvkKind gvk) @ ''-sample'')
                 (setKind U (gvkKind gvk) (setAPIVersion U (gvString U (gvkGroup gvk) (gvkVersion gvk)) m))), k1)))"

section \<open>Values of a schema\<close>

text \<open>
  The exact value of the finite \<open>float64\<close> with these bits, in units of the smallest positive one,
  \<open>2\<^sup>-\<^sup>1\<^sup>0\<^sup>7\<^sup>4\<close>. It reads sign, exponent and fraction as IEEE 754 does and knows nothing of the code.
\<close>

definition floatUnits :: "64 word \<Rightarrow> int" where
  "floatUnits w =
     (let e = uint w div 2 ^ 52 mod 2 ^ 11;
          f = uint w mod 2 ^ 52;
          m = (if e = 0 then f else (2 ^ 52 + f) * 2 ^ nat (e - 1)) in
      if uint w < 2 ^ 63 then m else - m)"

definition unitsPerOne :: int where
  "unitsPerOne = 2 ^ 1074"

text \<open>A bound of a schema that is a whole number of 64 bits, and its value; \<open>d\<close> where it is absent.\<close>

definition boundOf :: "int \<Rightarrow> 64 word option \<Rightarrow> int" where
  "boundOf d b = (case b of None \<Rightarrow> d | Some f \<Rightarrow> floatUnits f div unitsPerOne)"

definition isBound :: "int \<Rightarrow> 64 word option \<Rightarrow> int \<Rightarrow> bool" where
  "isBound d b z \<longleftrightarrow>
     (case b of
        None \<Rightarrow> z = d
      | Some f \<Rightarrow> floatUnits f = z * unitsPerOne \<and> - (2 ^ 63) \<le> z \<and> z < 2 ^ 63)"

text \<open>
  \<open>conforms s v\<close>: \<open>v\<close> is a value that the schema \<open>s\<close> describes, by its type, its properties, the
  enumeration of a string, the bounds of an integer and of the length of an array, and one of the
  alternatives where the schema has only alternatives. It reads the constraints of the schema itself.
  The bounds of a \<open>number\<close>, enumerations of other types, and the lengths and patterns of strings are
  not part of it: the emulator does not look at the last three.
\<close>

function conforms :: "schema \<Rightarrow> val \<Rightarrow> bool" where
  "conforms s v =
     (let object = (case v of
             VMap m \<Rightarrow> map fst m = map fst (propertyList s) \<and>
               list_all (\<lambda>x. case map_of m (fst x) of None \<Rightarrow> False | Some w \<Rightarrow> conforms (snd x) w) (propertyList s)
           | _ \<Rightarrow> False) in
      if schemaType s = [] then (if propertyList s \<noteq> [] then object else list_ex (\<lambda>p. conforms p v) (schemaOneOf s))
      else if schemaType s = [''string''] then (case v of VStr x \<Rightarrow> schemaEnum s = [] \<or> v \<in> set (schemaEnum s) | _ \<Rightarrow> False)
      else if schemaType s = [''integer''] then
        (case v of
           VInt w \<Rightarrow> (case schemaMinimum s of None \<Rightarrow> True | Some b \<Rightarrow> floatUnits b \<le> sint w * unitsPerOne) \<and>
             (case schemaMaximum s of None \<Rightarrow> True | Some b \<Rightarrow> sint w * unitsPerOne \<le> floatUnits b)
         | _ \<Rightarrow> False)
      else if schemaType s = [''number''] then (case v of VFloat _ \<Rightarrow> True | _ \<Rightarrow> False)
      else if schemaType s = [''boolean''] then (case v of VBool _ \<Rightarrow> True | _ \<Rightarrow> False)
      else if schemaType s = [''array''] then
        (case (schemaItems s, v) of
           (Some item, VList vs) \<Rightarrow> list_all (conforms item) vs \<and>
             (case schemaMinItems s of None \<Rightarrow> True | Some n \<Rightarrow> sint n \<le> int (length vs)) \<and>
             (case schemaMaxItems s of None \<Rightarrow> True | Some n \<Rightarrow> int (length vs) \<le> sint n)
         | _ \<Rightarrow> False)
      else schemaType s = [''object''] \<and> object)"
  by pat_completeness auto
termination
  by (relation "measure (\<lambda>(s, v). size s)") (auto dest: schema_sizes)

declare conforms.simps [simp del]

text \<open>
  \<open>emulable s\<close>: the schema, with all schemas in it, is one the emulator can handle. The types are the
  six the emulator knows, the enumeration of a string has strings. The bounds of an integer are whole
  numbers, in order when an absent one is 0 and 10000, and less than \<open>2\<^sup>6\<^sup>3\<close> apart. The least length of
  an array, 1 when absent, is not negative and not above the greatest one, when that is given.
\<close>

function emulable :: "schema \<Rightarrow> bool" where
  "emulable s =
     (let object = (distinct (map fst (propertyList s)) \<and> list_all (\<lambda>x. emulable (snd x)) (propertyList s)) in
      if schemaType s = [] then
        (if propertyList s \<noteq> [] then object else schemaOneOf s \<noteq> [] \<and> list_all emulable (schemaOneOf s))
      else if schemaType s = [''string''] then list_all (\<lambda>v. case v of VStr _ \<Rightarrow> True | _ \<Rightarrow> False) (schemaEnum s)
      else if schemaType s = [''integer''] then
        isBound 0 (schemaMinimum s) (boundOf 0 (schemaMinimum s)) \<and>
        isBound 10000 (schemaMaximum s) (boundOf 10000 (schemaMaximum s)) \<and>
        boundOf 0 (schemaMinimum s) \<le> boundOf 10000 (schemaMaximum s) \<and>
        boundOf 10000 (schemaMaximum s) - boundOf 0 (schemaMinimum s) < 2 ^ 63
      else if schemaType s = [''number''] \<or> schemaType s = [''boolean''] then True
      else if schemaType s = [''array''] then
        (case schemaItems s of
           Some item \<Rightarrow> emulable item \<and>
             (let least = (case schemaMinItems s of None \<Rightarrow> 1 | Some n \<Rightarrow> sint n) in
              0 \<le> least \<and> (case schemaMaxItems s of None \<Rightarrow> True | Some n \<Rightarrow> least \<le> sint n))
         | None \<Rightarrow> False)
      else schemaType s = [''object''] \<and> object)"
  by pat_completeness auto
termination
  by (relation "measure size") (auto dest: schema_sizes)

declare emulable.simps [simp del]

section \<open>Laws\<close>

definition fair :: "rng \<Rightarrow> bool" where
  "fair R \<longleftrightarrow> (\<forall>k n. 0 < n \<longrightarrow> 0 \<le> draw R k n \<and> draw R k n < n)"

lemma Intn_fair:
  assumes "fair R" and "0 < n"
  shows "\<exists>i. Intn R n k = Inr (int i, k + 1) \<and> int i < n"
proof -
  have "0 \<le> draw R k n" "draw R k n < n" using assms unfolding fair_def by simp_all
  then show ?thesis using assms(2) by (intro exI [of _ "nat (draw R k n)"]) (simp add: Intn_def)
qed

lemma sint_fits:
  fixes x :: int
  assumes "- (2 ^ 63) \<le> x" and "x < 2 ^ 63"
  shows "sint (word_of_int x :: 64 word) = x"
  using assms by (simp add: sint_sbintrunc' signed_take_bit_int_eq_self)

lemma sint_range: "- (2 ^ 63) \<le> sint (a :: 64 word)" "sint (a :: 64 word) < 2 ^ 63"
  using sint_ge [of a] sint_less [of a] by simp_all

lemma sint_nonneg:
  fixes a :: "64 word"
  assumes "0 \<le> sint a"
  shows "sint a = int (unat a)"
proof -
  have "uint a = sint a mod 2 ^ 64" using uint_word_of_int [of "sint a", where 'a = 64] by simp
  then show ?thesis using assms sint_range(2) [of a] by simp
qed

lemma sint_add_small:
  fixes a b :: "64 word"
  assumes "sint a + int r \<le> sint b"
  shows "sint (a + of_nat r) = sint a + int r"
proof -
  have "- (2 ^ 63) \<le> sint a + int r" "sint a + int r < 2 ^ 63"
    using assms sint_range(1) [of a] sint_range(2) [of b] by linarith+
  then have "sint (word_of_int (sint a + int r) :: 64 word) = sint a + int r" by (rule sint_fits)
  then show ?thesis by simp
qed

lemma sint_diff_small:
  fixes a b :: "64 word"
  assumes "sint a \<le> sint b" and "sint b - sint a < 2 ^ 63"
  shows "sint (b - a) = sint b - sint a"
proof -
  have "- (2 ^ 63) \<le> sint b - sint a" using assms(1) by simp
  then have "sint (word_of_int (sint b - sint a) :: 64 word) = sint b - sint a" using assms(2) by (rule sint_fits)
  then show ?thesis by simp
qed

lemma sint_diff_large:
  fixes a b :: "64 word"
  assumes "sint b - sint a \<ge> 2 ^ 63"
  shows "sint (b - a) < 0"
proof -
  let ?d = "sint b - sint a - 2 ^ 64"
  have d: "?d < 0" "- (2 ^ 63) \<le> ?d" using assms sint_range(1) [of a] sint_range(2) [of b] by simp_all
  then have "sint (word_of_int ?d :: 64 word) = ?d" by (intro sint_fits) simp_all
  moreover have "(word_of_int ?d :: 64 word) = b - a" by simp
  ultimately show ?thesis using d(1) by metis
qed

lemma sint_diff_negative:
  fixes a b :: "64 word"
  assumes "sint b < sint a" and "sint a - sint b \<le> 2 ^ 63"
  shows "sint (b - a) < 0"
proof -
  have "sint (word_of_int (sint b - sint a) :: 64 word) = sint b - sint a" using assms by (intro sint_fits) simp_all
  then show ?thesis using assms(1) by simp
qed

lemma sint_diff_wraps:
  fixes a b :: "64 word"
  assumes "2 ^ 63 < sint a - sint b"
  shows "sint (b - a) = sint b - sint a + 2 ^ 64"
proof -
  let ?d = "sint b - sint a + 2 ^ 64"
  have "sint (word_of_int ?d :: 64 word) = ?d"
    using assms sint_range(2) [of a] sint_range(1) [of b] by (intro sint_fits) simp_all
  moreover have "(word_of_int ?d :: 64 word) = b - a" by simp
  ultimately show ?thesis by metis
qed

text \<open>Above the larger of two bounds, or around the end of the range and below the smaller one.\<close>

lemma sint_add_wraps:
  fixes a b :: "64 word"
  assumes "sint b < sint a" and "int r < sint b - sint a + 2 ^ 64"
  shows "sint a \<le> sint (a + of_nat r) \<or> sint (a + of_nat r) < sint b"
proof (cases "sint a + int r < 2 ^ 63")
  case True
  then have "sint (word_of_int (sint a + int r) :: 64 word) = sint a + int r"
    using sint_range(1) [of a] by (intro sint_fits) simp_all
  then show ?thesis by simp
next
  case False
  let ?x = "sint a + int r - 2 ^ 64"
  have "sint (word_of_int ?x :: 64 word) = ?x" using False assms(2) sint_range(2) [of b] by (intro sint_fits) simp_all
  moreover have "(word_of_int ?x :: 64 word) = a + of_nat r" by simp
  ultimately have "sint (a + of_nat r) = ?x" by (simp only:)
  then show ?thesis using assms(2) by linarith
qed

lemma arrayLength_bounds:
  assumes "fair R" and "0 \<le> sint (minItems s)"
  shows "\<exists>n k'. arrayLength R s k = Inr (n, k') \<and> sint (minItems s) \<le> sint n \<and>
    sint n \<le> max (sint (minItems s)) (sint (maxItems s))"
proof (cases "sint (maxItems s) > sint (minItems s)")
  case True
  then have "sint (maxItems s - minItems s) = sint (maxItems s) - sint (minItems s)"
    using assms(2) sint_range(2) [of "maxItems s"] by (intro sint_diff_small) simp_all
  moreover from this obtain r where
    r: "Intn R (sint (maxItems s - minItems s)) k = Inr (int r, k + 1)" "int r < sint (maxItems s) - sint (minItems s)"
    using Intn_fair [OF assms(1), of "sint (maxItems s - minItems s)" k] True by auto
  ultimately show ?thesis
    using True sint_add_small [of "minItems s" r "maxItems s"] by (simp add: arrayLength_def)
qed (simp add: arrayLength_def)

text \<open>The three functions for each type of schema.\<close>

lemma emulable_string:
  "schemaType s = [''string''] \<Longrightarrow> emulable s \<longleftrightarrow> list_all (\<lambda>v. case v of VStr _ \<Rightarrow> True | _ \<Rightarrow> False) (schemaEnum s)"
  by (subst emulable.simps) simp

lemma conforms_string:
  "schemaType s = [''string''] \<Longrightarrow>
   conforms s v \<longleftrightarrow> (case v of VStr x \<Rightarrow> schemaEnum s = [] \<or> v \<in> set (schemaEnum s) | _ \<Rightarrow> False)"
  by (subst conforms.simps) simp

lemma emulable_integer:
  "schemaType s = [''integer''] \<Longrightarrow>
   emulable s \<longleftrightarrow> isBound 0 (schemaMinimum s) (boundOf 0 (schemaMinimum s)) \<and>
        isBound 10000 (schemaMaximum s) (boundOf 10000 (schemaMaximum s)) \<and>
        boundOf 0 (schemaMinimum s) \<le> boundOf 10000 (schemaMaximum s) \<and>
        boundOf 10000 (schemaMaximum s) - boundOf 0 (schemaMinimum s) < 2 ^ 63"
  by (subst emulable.simps) simp

lemma conforms_integer:
  "schemaType s = [''integer''] \<Longrightarrow>
   conforms s (VInt w) \<longleftrightarrow>
     (case schemaMinimum s of None \<Rightarrow> True | Some b \<Rightarrow> floatUnits b \<le> sint w * unitsPerOne) \<and>
     (case schemaMaximum s of None \<Rightarrow> True | Some b \<Rightarrow> sint w * unitsPerOne \<le> floatUnits b)"
  by (subst conforms.simps) simp

lemma emulable_boolean: "schemaType s = [''boolean''] \<Longrightarrow> emulable s"
  by (subst emulable.simps) simp

lemma emulable_array:
  "schemaType s = [''array''] \<Longrightarrow>
   emulable s \<longleftrightarrow> (case schemaItems s of
      Some item \<Rightarrow> emulable item \<and> 0 \<le> sint (minItems s) \<and>
        (case schemaMaxItems s of None \<Rightarrow> True | Some n \<Rightarrow> sint (minItems s) \<le> sint n)
    | None \<Rightarrow> False)"
  by (subst emulable.simps) (auto simp: minItems_def Let_def split: option.splits)

lemma conforms_array:
  "schemaType s = [''array''] \<Longrightarrow> schemaItems s = Some item \<Longrightarrow>
   conforms s (VList vs) \<longleftrightarrow> list_all (conforms item) vs \<and>
     (case schemaMinItems s of None \<Rightarrow> True | Some n \<Rightarrow> sint n \<le> int (length vs)) \<and>
     (case schemaMaxItems s of None \<Rightarrow> True | Some n \<Rightarrow> int (length vs) \<le> sint n)"
  by (subst conforms.simps) simp

lemma emulable_object:
  "schemaType s = [''object''] \<or> schemaType s = [] \<and> propertyList s \<noteq> [] \<Longrightarrow>
   emulable s \<longleftrightarrow> distinct (map fst (propertyList s)) \<and> list_all (\<lambda>x. emulable (snd x)) (propertyList s)"
  by (subst emulable.simps) auto

lemma conforms_object:
  "schemaType s = [''object''] \<or> schemaType s = [] \<and> propertyList s \<noteq> [] \<Longrightarrow>
   conforms s (VMap m) \<longleftrightarrow> map fst m = map fst (propertyList s) \<and>
     list_all (\<lambda>x. case map_of m (fst x) of None \<Rightarrow> False | Some w \<Rightarrow> conforms (snd x) w) (propertyList s)"
  by (subst conforms.simps) auto

lemma emulable_oneOf:
  "schemaType s = [] \<Longrightarrow> propertyList s = [] \<Longrightarrow> emulable s \<longleftrightarrow> schemaOneOf s \<noteq> [] \<and> list_all emulable (schemaOneOf s)"
  by (subst emulable.simps) simp

lemma conforms_oneOf:
  "schemaType s = [] \<Longrightarrow> propertyList s = [] \<Longrightarrow> conforms s v \<longleftrightarrow> list_ex (\<lambda>p. conforms p v) (schemaOneOf s)"
  by (subst conforms.simps) simp

lemma conforms_scalar:
  "schemaType s = [''number''] \<Longrightarrow> conforms s (VFloat f)" "schemaType s = [''boolean''] \<Longrightarrow> conforms s (VBool b)"
  by (subst conforms.simps, simp)+

text \<open>The conversion to an integer cuts the exact value off towards zero.\<close>

lemma units_pos: "0 < unitsPerOne"
  unfolding unitsPerOne_def by (rule zero_less_power) simp

lemma units_split: "n + k = 1074 \<Longrightarrow> unitsPerOne = 2 ^ n * 2 ^ k"
  unfolding unitsPerOne_def by (simp only: flip: power_add)

lemma div_power_units:
  fixes m :: int
  assumes "1 \<le> e" and "e < 1075"
  shows "m * 2 ^ nat (e - 1) div unitsPerOne = m div 2 ^ nat (1075 - e)"
proof -
  have "unitsPerOne = 2 ^ nat (e - 1) * 2 ^ nat (1075 - e)" using assms by (intro units_split) simp
  then have "m * 2 ^ nat (e - 1) div unitsPerOne = (2 ^ nat (e - 1) * m) div (2 ^ nat (e - 1) * 2 ^ nat (1075 - e))"
    by (simp only: mult.commute [of m])
  then show ?thesis by simp
qed

lemma mult_power_units:
  fixes m :: int
  assumes "1075 \<le> e"
  shows "m * 2 ^ nat (e - 1) = m * 2 ^ nat (e - 1075) * unitsPerOne"
proof -
  have "nat (e - 1) = nat (e - 1075) + 1074" using assms by simp
  then show ?thesis by (simp only: unitsPerOne_def power_add mult.assoc)
qed

lemma truncate_sign:
  fixes M :: int
  assumes "0 \<le> M"
  shows "sgn (if u < c then M else - M) * (\<bar>if u < c then M else - M\<bar> div U) = (if u < c then M div U else - (M div U))"
  using assms by (cases "M = 0") (simp_all add: sgn_if)

lemma word_of_int_sign:
  "(if u \<ge> c then word_of_int (- i) else word_of_int i) = word_of_int (if u < c then i else - i)" for u c :: int
  by auto

lemma truncated_units:
  fixes m :: int
  assumes "0 \<le> m" and "m < 2 ^ 53" and "1 \<le> e"
  shows "(if e < 1023 then 0 else if e < 1075 then m div 2 ^ nat (1075 - e) else m * 2 ^ nat (e - 1075)) =
    m * 2 ^ nat (e - 1) div unitsPerOne"
proof (cases "e < 1075")
  case True
  have "m div 2 ^ nat (1075 - e) = 0" if "e < 1023"
  proof -
    have "(2 :: int) ^ 53 \<le> 2 ^ nat (1075 - e)" using that by (intro power_increasing) simp_all
    then show ?thesis using assms(1,2) by (intro div_pos_pos_trivial) linarith+
  qed
  then show ?thesis using div_power_units [OF assms(3) True, of m] True by presburger
next
  case False
  then have "m * 2 ^ nat (e - 1) = m * 2 ^ nat (e - 1075) * unitsPerOne" by (intro mult_power_units) simp
  moreover have "unitsPerOne \<noteq> 0" using units_pos by simp
  ultimately have "m * 2 ^ nat (e - 1) div unitsPerOne = m * 2 ^ nat (e - 1075)"
    by (simp only: nonzero_mult_div_cancel_right not_False_eq_True)
  then show ?thesis using False by simp
qed

lemma floatToInt64_small:
  fixes w :: "64 word"
  defines "e \<equiv> uint w div 2 ^ 52 mod 2 ^ 11"
  assumes "e < 1086"
  shows "floatToInt64 w = word_of_int (sgn (floatUnits w) * (\<bar>floatUnits w\<bar> div unitsPerOne))"
proof -
  let ?f = "uint w mod 2 ^ 52"
  let ?m = "2 ^ 52 + ?f"
  let ?M = "if e = 0 then ?f else ?m * 2 ^ nat (e - 1)"
  let ?i = "if e < 1023 then 0 else if e < 1075 then ?m div 2 ^ nat (1075 - e) else ?m * 2 ^ nat (e - 1075)"
  have f: "0 \<le> ?f" "?f < 2 ^ 52" by simp_all
  have e: "0 \<le> e" unfolding e_def by simp
  have i: "?i = ?M div unitsPerOne"
  proof (cases "e = 0")
    case True
    have "(2 :: int) ^ 52 \<le> unitsPerOne" unfolding unitsPerOne_def by (rule power_increasing) simp_all
    then have "?f div unitsPerOne = 0" using f by (intro div_pos_pos_trivial) linarith+
    then show ?thesis using True by simp
  next
    case False
    have m: "0 \<le> ?m" "?m < 2 ^ 53" using f by simp_all
    have "1 \<le> e" using e False by simp
    then have "?i = ?m * 2 ^ nat (e - 1) div unitsPerOne" by (rule truncated_units [OF m])
    then show ?thesis using False by (simp only: if_False)
  qed
  have units: "floatUnits w = (if uint w < 2 ^ 63 then ?M else - ?M)" by (simp add: floatUnits_def e_def Let_def)
  have "0 \<le> ?M" using f by simp
  then have "sgn (floatUnits w) * (\<bar>floatUnits w\<bar> div unitsPerOne) = (if uint w < 2 ^ 63 then ?i else - ?i)"
    unfolding units i by (rule truncate_sign)
  moreover have "floatToInt64 w = word_of_int (if uint w < 2 ^ 63 then ?i else - ?i)"
    unfolding floatToInt64_def Let_def e_def [symmetric] word_of_int_sign by (rule if_not_P) (use assms(2) in simp)
  ultimately show ?thesis by (simp only:)
qed

lemma sint_floatToInt64:
  assumes "floatUnits w = z * unitsPerOne" and "- (2 ^ 63) \<le> z" and "z < 2 ^ 63"
  shows "sint (floatToInt64 w) = z"
proof (cases "uint w div 2 ^ 52 mod 2 ^ 11 < 1086")
  case True
  have "sgn (floatUnits w) * (\<bar>floatUnits w\<bar> div unitsPerOne) = z"
    unfolding assms(1) using units_pos by (simp add: abs_mult sgn_mult sgn_mult_abs)
  then show ?thesis using floatToInt64_small [OF True] sint_fits [OF assms(2,3)] by simp
next
  case False
  define e where "e = uint w div 2 ^ 52 mod 2 ^ 11"
  define M where "M = (2 ^ 52 + uint w mod 2 ^ 52) * 2 ^ nat (e - 1)"
  have e: "1086 \<le> e" using False by (simp add: e_def)
  have "(2 :: int) ^ 11 \<le> 2 ^ nat (e - 1075)" using e by (intro power_increasing) simp_all
  then have "(2 :: int) ^ 52 * 2 ^ 11 \<le> (2 ^ 52 + uint w mod 2 ^ 52) * 2 ^ nat (e - 1075)" by (intro mult_mono) simp_all
  then have "2 ^ 63 * unitsPerOne \<le> (2 ^ 52 + uint w mod 2 ^ 52) * 2 ^ nat (e - 1075) * unitsPerOne"
    using units_pos by (intro mult_right_mono) simp_all
  moreover have "M = (2 ^ 52 + uint w mod 2 ^ 52) * 2 ^ nat (e - 1075) * unitsPerOne"
    unfolding M_def using e by (intro mult_power_units) simp
  ultimately have M: "2 ^ 63 * unitsPerOne \<le> M" by (simp only:)
  have "floatUnits w = (if uint w < 2 ^ 63 then M else - M)"
    unfolding floatUnits_def Let_def e_def [symmetric] M_def using e by simp
  then have "\<bar>z * unitsPerOne\<bar> = \<bar>M\<bar>" "uint w < 2 ^ 63 \<Longrightarrow> z * unitsPerOne = M" using assms(1) by (simp_all split: if_splits)
  then have "2 ^ 63 \<le> \<bar>z\<bar>" "\<not> uint w < 2 ^ 63 \<or> 2 ^ 63 \<le> z"
    using M units_pos by (auto simp: abs_mult mult_le_cancel_right)
  then have "z = - (2 ^ 63)" using assms(2,3) by linarith
  moreover have "floatToInt64 w = word_of_int (2 ^ 63)"
    unfolding floatToInt64_def Let_def e_def [symmetric] using e by (simp only: if_True)
  ultimately show ?thesis by simp
qed

lemma floatUnits_whole:
  assumes "uint w < 2 ^ 63" and "1 \<le> e" and "e < 1075"
    and "e = uint w div 2 ^ 52 mod 2 ^ 11" and "2 ^ 52 + uint w mod 2 ^ 52 = z * 2 ^ nat (1075 - e)"
  shows "floatUnits w = z * unitsPerOne"
proof -
  have "unitsPerOne = 2 ^ nat (1075 - e) * 2 ^ nat (e - 1)" using assms(2,3) by (intro units_split) simp
  moreover have "floatUnits w = (2 ^ 52 + uint w mod 2 ^ 52) * 2 ^ nat (e - 1)"
    using assms(1,2) unfolding floatUnits_def assms(4) by (simp add: Let_def)
  ultimately show ?thesis unfolding assms(5) by (simp only: mult.assoc)
qed

lemma sint_bounds:
  "isBound 0 (schemaMinimum s) lo \<Longrightarrow> sint (intMin s) = lo"
  "isBound 10000 (schemaMaximum s) hi \<Longrightarrow> sint (intMax s) = hi"
  by (auto simp: isBound_def intMin_def intMax_def sint_floatToInt64 split: option.splits)

lemma isBound_boundOf: "isBound d b z \<Longrightarrow> boundOf d b = z"
  using units_pos by (auto simp: isBound_def boundOf_def split: option.splits)

lemma bounds_conform:
  assumes "isBound 0 (schemaMinimum s) lo" and "isBound 10000 (schemaMaximum s) hi"
    and "schemaType s = [''integer'']" and "lo \<le> sint w" and "sint w \<le> hi"
  shows "conforms s (VInt w)"
proof -
  have "lo * unitsPerOne \<le> sint w * unitsPerOne" "sint w * unitsPerOne \<le> hi * unitsPerOne"
    using assms(4,5) units_pos by (simp_all add: mult_right_mono)
  then show ?thesis
    using assms(1,2) unfolding conforms_integer [OF assms(3)] isBound_def by (simp split: option.splits)
qed

lemma generateInteger_draws:
  assumes "fair R" and "sint (intMin s) \<noteq> sint (intMax s)" and "0 < sint (intMax s - intMin s)"
  shows "\<exists>r. generateInteger R s k = Inr (VInt (intMin s + of_nat r), k + 1) \<and> int r < sint (intMax s - intMin s)"
  using Intn_fair [OF assms(1,3), of k] assms(2) by (auto simp: generateInteger_def)

lemma generateInteger_panics:
  "sint (intMin s) \<noteq> sint (intMax s) \<Longrightarrow> sint (intMax s - intMin s) \<le> 0 \<Longrightarrow> generateInteger R s k = Inl EmuPanic"
  by (auto simp: generateInteger_def Intn_def)

lemma generateInteger_in_range:
  assumes "fair R" and "sint (intMin s) < sint (intMax s)" and "sint (intMax s) - sint (intMin s) < 2 ^ 63"
  shows "\<exists>w. generateInteger R s k = Inr (VInt w, k + 1) \<and> sint (intMin s) \<le> sint w \<and> sint w < sint (intMax s)"
proof -
  have d: "sint (intMax s - intMin s) = sint (intMax s) - sint (intMin s)"
    using assms(2,3) by (intro sint_diff_small) simp_all
  then obtain r where r: "generateInteger R s k = Inr (VInt (intMin s + of_nat r), k + 1)"
    "int r < sint (intMax s) - sint (intMin s)"
    using generateInteger_draws [OF assms(1), of s k] assms(2) by auto
  moreover from this have "sint (intMin s + of_nat r) = sint (intMin s) + int r" by (intro sint_add_small [of _ _ "intMax s"]) simp
  ultimately show ?thesis by auto
qed

lemma generateInteger_equal:
  assumes "sint (intMin s) = sint (intMax s)"
  shows "generateInteger R s k = Inr (VInt (intMin s), k)"
  using signed_word_eqI [OF assms] by (simp add: generateInteger_def)

lemma generateInteger_wraps:
  assumes "fair R" and "sint (intMax s) < sint (intMin s)" and "2 ^ 63 < sint (intMin s) - sint (intMax s)"
  shows "\<exists>w. generateInteger R s k = Inr (VInt w, k + 1) \<and> (sint (intMin s) \<le> sint w \<or> sint w < sint (intMax s))"
proof -
  have d: "sint (intMax s - intMin s) = sint (intMax s) - sint (intMin s) + 2 ^ 64"
    using assms(3) by (rule sint_diff_wraps)
  moreover have "0 < sint (intMax s) - sint (intMin s) + 2 ^ 64"
    using sint_range(1) [of "intMax s"] sint_range(2) [of "intMin s"] by simp
  ultimately obtain r where r: "generateInteger R s k = Inr (VInt (intMin s + of_nat r), k + 1)"
    "int r < sint (intMax s) - sint (intMin s) + 2 ^ 64"
    using generateInteger_draws [OF assms(1), of s k] assms(2) by auto
  then show ?thesis using sint_add_wraps [OF assms(2) r(2)] by blast
qed

lemma emulable_types:
  assumes "emulable s"
  obtains "schemaType s = [''string'']" | "schemaType s = [''integer'']" | "schemaType s = [''number'']"
    | "schemaType s = [''boolean'']" | "schemaType s = [''array'']"
    | "schemaType s = [''object''] \<or> schemaType s = [] \<and> propertyList s \<noteq> []"
    | "schemaType s = []" "propertyList s = []"
proof -
  have "schemaType s \<in> {[], [''string''], [''integer''], [''number''], [''boolean''], [''array''], [''object'']}"
    using assms by (subst (asm) emulable.simps) (auto simp: Let_def split: if_splits)
  then show ?thesis using that by auto
qed

lemma generateString_conforms:
  assumes "fair R" and "schemaType s = [''string'']" and "emulable s"
  shows "\<exists>v k'. generateString R s k = Inr (v, k') \<and> conforms s v"
proof (cases "schemaEnum s = []")
  case True
  then show ?thesis
    using assms(2) Intn_fair [OF assms(1), of 1000 k] by (auto simp: generateString_def conforms_string)
next
  case False
  then obtain i where i: "Intn R (int (length (schemaEnum s))) k = Inr (int i, k + 1)" "i < length (schemaEnum s)"
    using Intn_fair [OF assms(1), of "int (length (schemaEnum s))" k] by auto
  then have "case schemaEnum s ! i of VStr _ \<Rightarrow> True | _ \<Rightarrow> False"
    using assms(2,3) by (simp add: emulable_string list_all_length)
  then obtain x where "schemaEnum s ! i = VStr x" by (auto split: val.splits)
  moreover from this have "VStr x \<in> set (schemaEnum s)" using i(2) nth_mem by metis
  ultimately show ?thesis using False i assms(2) by (auto simp: generateString_def conforms_string)
qed

lemma generateInteger_conforms:
  assumes "fair R" and "schemaType s = [''integer'']" and "emulable s"
  shows "\<exists>w k'. generateInteger R s k = Inr (VInt w, k') \<and> conforms s (VInt w)"
proof -
  define lo where "lo = boundOf 0 (schemaMinimum s)"
  define hi where "hi = boundOf 10000 (schemaMaximum s)"
  have b: "isBound 0 (schemaMinimum s) lo" "isBound 10000 (schemaMaximum s) hi" "lo \<le> hi" "hi - lo < 2 ^ 63"
    using assms(3) by (simp_all add: emulable_integer [OF assms(2)] lo_def hi_def)
  note sb = sint_bounds(1) [OF b(1)] sint_bounds(2) [OF b(2)]
  obtain w k' where "generateInteger R s k = Inr (VInt w, k')" "lo \<le> sint w" "sint w \<le> hi"
  proof (cases "lo = hi")
    case True
    then show ?thesis using that generateInteger_equal [of s R k] sb by simp
  next
    case False
    then obtain w where "generateInteger R s k = Inr (VInt w, k + 1)" "lo \<le> sint w" "sint w < hi"
      using generateInteger_in_range [OF assms(1), of s k] sb b(3,4) by auto
    then show ?thesis using that by simp
  qed
  then show ?thesis using bounds_conform [OF b(1,2) assms(2)] by blast
qed

lemma generateAll_list_all2:
  "(\<And>x k. x \<in> set xs \<Longrightarrow> \<exists>y k'. f x k = Inr (y, k') \<and> P x y) \<Longrightarrow>
   \<exists>ys k'. generateAll f xs k = Inr (ys, k') \<and> list_all2 P xs ys"
proof (induction xs arbitrary: k)
  case (Cons x xs)
  obtain y k1 where "f x k = Inr (y, k1)" "P x y" using Cons.prems [of x k] by auto
  moreover obtain ys k2 where "generateAll f xs k1 = Inr (ys, k2)" "list_all2 P xs ys"
    using Cons.IH [of k1] Cons.prems by auto
  ultimately show ?case by simp
qed simp

text \<open>The fields of an object, when the property schemas can be generated.\<close>

lemma generateFields_conform:
  assumes "distinct (map fst ps)"
    and "\<And>x k. x \<in> set ps \<Longrightarrow> \<exists>v k'. generateValue R (snd x) k = Inr (v, k') \<and> conforms (snd x) v"
  shows "\<exists>m k'. generateAll (\<lambda>x. generateField (generateValue R (snd x)) (fst x)) ps k = Inr (m, k') \<and>
    map fst m = map fst ps \<and> list_all (\<lambda>x. case map_of m (fst x) of None \<Rightarrow> False | Some w \<Rightarrow> conforms (snd x) w) ps"
proof -
  let ?P = "\<lambda>x y. fst y = fst x \<and> conforms (snd x) (snd y)"
  have "\<exists>y k'. generateField (generateValue R (snd x)) (fst x) k = Inr (y, k') \<and> ?P x y" if "x \<in> set ps" for x k
    using assms(2) [OF that, of k] by (auto simp: generateField_def)
  then have "\<exists>m k'. generateAll (\<lambda>x. generateField (generateValue R (snd x)) (fst x)) ps k = Inr (m, k') \<and> list_all2 ?P ps m"
    by (rule generateAll_list_all2)
  then obtain m k' where
    m: "generateAll (\<lambda>x. generateField (generateValue R (snd x)) (fst x)) ps k = Inr (m, k')" "list_all2 ?P ps m"
    by blast
  have "\<exists>w. (fst x, w) \<in> set m \<and> conforms (snd x) w" if "x \<in> set ps" for x
    using m(2) that by (induction rule: list_all2_induct) auto
  moreover have names: "map fst m = map fst ps" using m(2) by (induction rule: list_all2_induct) auto
  ultimately have "\<exists>w. map_of m (fst x) = Some w \<and> conforms (snd x) w" if "x \<in> set ps" for x
    using that assms(1) by (metis map_of_is_SomeI)
  then show ?thesis using m(1) names by (fastforce simp: list_all_iff)
qed

lemma generateObject_conforms:
  assumes "schemaType s = [''object''] \<or> schemaType s = [] \<and> propertyList s \<noteq> []" and "emulable s"
    and "\<And>x k. x \<in> set (propertyList s) \<Longrightarrow> emulable (snd x) \<Longrightarrow>
      \<exists>v k'. generateValue R (snd x) k = Inr (v, k') \<and> conforms (snd x) v"
  shows "\<exists>v k'. generateValue R s k = Inr (v, k') \<and> conforms s v"
proof -
  have "distinct (map fst (propertyList s))" "\<And>x. x \<in> set (propertyList s) \<Longrightarrow> emulable (snd x)"
    using assms(1,2) by (auto simp: emulable_object list_all_iff)
  from generateFields_conform [OF this(1) assms(3) [OF _ this(2)], of k] obtain m k' where
    "generateAll (\<lambda>x. generateField (generateValue R (snd x)) (fst x)) (propertyList s) k = Inr (m, k')" "conforms s (VMap m)"
    using conforms_object [OF assms(1)] by blast
  then show ?thesis using assms(1) by (subst generateValue.simps) (auto simp: generateObject_def)
qed

lemma generateArray_conforms:
  assumes "fair R" and "schemaType s = [''array'']" and "emulable s"
    and "\<And>item k. schemaItems s = Some item \<Longrightarrow> emulable item \<Longrightarrow>
      \<exists>v k'. generateValue R item k = Inr (v, k') \<and> conforms item v"
  shows "\<exists>v k'. generateValue R s k = Inr (v, k') \<and> conforms s v"
proof -
  obtain item where item: "schemaItems s = Some item" "emulable item" "0 \<le> sint (minItems s)"
    "case schemaMaxItems s of None \<Rightarrow> True | Some m \<Rightarrow> sint (minItems s) \<le> sint m"
    using assms(2,3) by (auto simp: emulable_array split: option.splits)
  obtain n k1 where n: "arrayLength R s k = Inr (n, k1)" "sint (minItems s) \<le> sint n"
    "sint n \<le> max (sint (minItems s)) (sint (maxItems s))"
    using arrayLength_bounds [OF assms(1) item(3)] by blast
  have "\<exists>vs k'. generateAll (\<lambda>_. generateValue R item) (replicate (unat n) ()) k1 = Inr (vs, k') \<and>
      list_all2 (\<lambda>_. conforms item) (replicate (unat n) ()) vs"
    by (rule generateAll_list_all2) (use assms(4) [OF item(1,2)] in blast)
  then obtain vs k2 where vs: "generateAll (\<lambda>_. generateValue R item) (replicate (unat n) ()) k1 = Inr (vs, k2)"
    "list_all2 (\<lambda>_. conforms item) (replicate (unat n) ()) vs"
    by blast
  have "length vs = unat n" "list_all (conforms item) vs"
    using vs(2) by (auto simp: list_all_length list_all2_conv_all_nth)
  moreover from this have "sint n = int (length vs)" using n(2) item(3) sint_nonneg [of n] by simp
  ultimately have "conforms s (VList vs)"
    using n(2,3) item(4) by (simp add: conforms_array [OF assms(2) item(1)] minItems_def maxItems_def split: option.splits)
  then show ?thesis using assms(2) item n vs(1) by (subst generateValue.simps) (auto simp: generateArray_def)
qed

text \<open>
  C32. The dummy values have the shape that the schema asks for. For every schema, to any depth, of the
  types the emulator knows, whose integer bounds are whole numbers in order and less than \<open>2\<^sup>6\<^sup>3\<close> apart
  (an absent one counts as 0 and 10000) and whose least array lengths (1 when absent) are not negative
  and not above the greatest, \<open>generateValue\<close> returns a value, and the value conforms to the schema:
  its types and fields, the enumerations of strings, the minimum and maximum of integers, read as exact
  floating-point values, and \<open>minItems\<close> and \<open>maxItems\<close> of arrays. Bounds of numbers, enumerations of
  other types, and lengths and patterns of strings are not part of the claim.
\<close>

theorem generated_value_conforms:
  assumes "fair R" and "emulable s"
  shows "\<exists>v k'. generateValue R s k = Inr (v, k') \<and> conforms s v"
  using assms(2)
proof (induction s arbitrary: k rule: measure_induct_rule [where f = size])
  case (less s)
  from less.prems show ?case
  proof (cases rule: emulable_types)
    case 1
    then show ?thesis using generateString_conforms [OF assms(1) 1 less.prems] by (subst generateValue.simps) simp
  next
    case 2
    then have "\<exists>w k'. generateInteger R s k = Inr (VInt w, k') \<and> conforms s (VInt w)"
      using generateInteger_conforms [OF assms(1) 2 less.prems] by blast
    then show ?thesis using 2 by (subst generateValue.simps) auto
  next
    case 3
    then show ?thesis using conforms_scalar(1) by (subst generateValue.simps) (simp add: generateNumber_def)
  next
    case 4
    then show ?thesis
      using conforms_scalar(2) Intn_fair [OF assms(1), of 2 k] by (subst generateValue.simps) auto
  next
    case 5
    then show ?thesis using generateArray_conforms [OF assms(1) 5 less.prems] less.IH schema_size_items by blast
  next
    case 6
    then show ?thesis using generateObject_conforms [OF 6 less.prems] less.IH schema_size_properties by blast
  next
    case 7
    obtain i where i: "Intn R (int (length (schemaOneOf s))) k = Inr (int i, k + 1)" "i < length (schemaOneOf s)"
      using Intn_fair [OF assms(1), of "int (length (schemaOneOf s))" k] less.prems 7 by (auto simp: emulable_oneOf)
    then have o': "schemaOneOf s ! i \<in> set (schemaOneOf s)" by simp
    then have "emulable (schemaOneOf s ! i)" using less.prems 7 by (auto simp: emulable_oneOf list_all_iff)
    then obtain v k' where "generateValue R (schemaOneOf s ! i) (k + 1) = Inr (v, k')" "conforms (schemaOneOf s ! i) v"
      using less.IH [OF schema_size_oneOf [OF o']] by blast
    moreover from this have "conforms s v" using o' 7 by (auto simp: conforms_oneOf list_ex_iff)
    ultimately show ?thesis using i 7 less.prems by (subst generateValue.simps) (simp add: emulable_oneOf)
  qed
qed

text \<open>
  C33. What \<open>generateInteger\<close> returns, with the arithmetic of 64 bits, for all whole bounds \<open>lo\<close> and \<open>hi\<close>
  of the schema, in order or not, where an absent minimum is 0 and an absent maximum 10000. Equal bounds
  give their value; bounds in order and less than \<open>2\<^sup>6\<^sup>3\<close> apart a value from \<open>lo\<close> on and below \<open>hi\<close>. Bounds
  in order that are further apart panic in \<open>Int63n\<close>, and so do bounds out of order that are at most \<open>2\<^sup>6\<^sup>3\<close>
  apart, such as a minimum of 20000 with no maximum. Out of order and further apart, the difference wraps
  around to a positive one: a value is returned that keeps one of the two bounds at most.
\<close>

theorem generated_integer_in_bounds:
  assumes "fair R" and "isBound 0 (schemaMinimum s) lo" and "isBound 10000 (schemaMaximum s) hi"
  shows "if lo = hi then generateInteger R s k = Inr (VInt (word_of_int lo), k)
    else if lo < hi \<and> hi - lo < 2 ^ 63
      then \<exists>w. generateInteger R s k = Inr (VInt w, k + 1) \<and> lo \<le> sint w \<and> sint w < hi
    else if lo < hi \<or> lo - hi \<le> 2 ^ 63 then generateInteger R s k = Inl EmuPanic
    else \<exists>w. generateInteger R s k = Inr (VInt w, k + 1) \<and> (lo \<le> sint w \<or> sint w < hi)"
proof -
  note b = sint_bounds(1) [OF assms(2)] sint_bounds(2) [OF assms(3)]
  consider "lo = hi" | "lo < hi" "hi - lo < 2 ^ 63" | "lo < hi" "2 ^ 63 \<le> hi - lo" | "hi < lo" "lo - hi \<le> 2 ^ 63"
    | "hi < lo" "2 ^ 63 < lo - hi" by linarith
  then show ?thesis
  proof cases
    case 1
    have "word_of_int (sint (intMin s)) = intMin s" by simp
    then have "word_of_int lo = intMin s" by (simp only: b)
    then show ?thesis using 1 generateInteger_equal [of s R k] b by simp
  next
    case 2
    then have "\<exists>w. generateInteger R s k = Inr (VInt w, k + 1) \<and> lo \<le> sint w \<and> sint w < hi"
      using generateInteger_in_range [OF assms(1), of s k] by (simp only: b)
    then show ?thesis using 2 by simp
  next
    case 3
    then have "sint (intMax s - intMin s) < 0" by (intro sint_diff_large) (simp only: b)
    then have "generateInteger R s k = Inl EmuPanic" using 3 b by (intro generateInteger_panics) simp_all
    then show ?thesis using 3 by simp
  next
    case 4
    then have "sint (intMax s - intMin s) < 0" by (intro sint_diff_negative) (simp_all only: b)
    then have "generateInteger R s k = Inl EmuPanic" using 4 b by (intro generateInteger_panics) simp_all
    then show ?thesis using 4 by simp
  next
    case 5
    then have "\<exists>w. generateInteger R s k = Inr (VInt w, k + 1) \<and> (lo \<le> sint w \<or> sint w < hi)"
      using generateInteger_wraps [OF assms(1), of s k] by (simp only: b)
    then show ?thesis using 5 by simp
  qed
qed

text \<open>The bits of \<open>3.0\<close>, \<open>5.0\<close> and \<open>20000.0\<close>.\<close>

definition exampleSchema :: schema where
  "exampleSchema =
     Schema [''object''] (Some [(''replicas'', Schema [''integer''] None None None [] [] [] (Some 0x4008000000000000) (Some 0x4014000000000000) None None),
       (''mode'', Schema [''string''] None None None [] [] [VStr ''on'', VStr ''off''] None None None None),
       (''ports'', Schema [''array''] None None (Some (withType [''boolean''] emptySchema)) [] [] [] None None None None)])
       None None [] [] [] None None None None"

definition exampleRng :: rng where
  "exampleRng = \<lparr>draw = (\<lambda>k n. int k mod n), floatIn = (\<lambda>k lo hi. lo)\<rparr>"

lemma exampleRng_fair: "fair exampleRng"
  by (simp add: fair_def exampleRng_def)

lemma example_floats:
  "floatUnits 0x4008000000000000 = 3 * unitsPerOne" "floatUnits 0x4014000000000000 = 5 * unitsPerOne"
  "floatUnits 0x40D3880000000000 = 20000 * unitsPerOne"
  by (rule floatUnits_whole [where e = 1024], simp_all) (rule floatUnits_whole [where e = 1025], simp_all,
    rule floatUnits_whole [where e = 1037], simp_all)

lemma isBound_example:
  "floatUnits f = z * unitsPerOne \<Longrightarrow> - (2 ^ 63) \<le> z \<Longrightarrow> z < 2 ^ 63 \<Longrightarrow> isBound d (Some f) z"
  by (simp add: isBound_def)

theorem generated_value_conforms_witness:
  "emulable exampleSchema \<and> (\<exists>v k'. generateValue exampleRng exampleSchema 0 = Inr (v, k') \<and> conforms exampleSchema v)"
proof -
  have "isBound 0 (Some 0x4008000000000000) 3" "isBound 10000 (Some 0x4014000000000000) 5"
    using example_floats by (auto intro: isBound_example)
  moreover from this have "boundOf 0 (Some 0x4008000000000000) = 3" "boundOf 10000 (Some 0x4014000000000000) = 5"
    by (auto dest: isBound_boundOf)
  ultimately have "emulable exampleSchema"
    by (simp add: exampleSchema_def emulable_object emulable_integer emulable_string emulable_array propertyList_def
      emulable_boolean minItems_def emptySchema_def)
  then show ?thesis using generated_value_conforms [OF exampleRng_fair] by blast
qed

theorem generated_integer_in_bounds_witness:
  "(\<exists>w. generateInteger exampleRng (withType [''integer''] emptySchema) 0 = Inr (VInt w, 1) \<and> 0 \<le> sint w \<and> sint w < 10000) \<and>
   generateInteger exampleRng (Schema [''integer''] None None None [] [] [] (Some 0x40D3880000000000) None None None) 0 =
     Inl EmuPanic"
proof -
  have "isBound 0 (Some 0x40D3880000000000) 20000" using example_floats(3) by (auto intro: isBound_example)
  then show ?thesis
    using generated_integer_in_bounds [OF exampleRng_fair, of "withType [''integer''] emptySchema" 0 10000 0]
      generated_integer_in_bounds [OF exampleRng_fair,
        of "Schema [''integer''] None None None [] [] [] (Some 0x40D3880000000000) None None None" 20000 10000 0]
    by (simp add: isBound_def emptySchema_def)
qed

text \<open>
  What the conditions leave out. A fractional minimum is cut off: an integer of at least 0.5 and below 2
  may be generated as 0. An array of at most no elements gets one.
\<close>

lemma fractional_minimum_violated:
  "\<exists>s R. fair R \<and> schemaType s = [''integer''] \<and> generateValue R s 0 = Inr (VInt 0, 1) \<and> \<not> conforms s (VInt 0)"
proof -
  let ?s = "Schema [''integer''] None None None [] [] [] (Some 0x3FE0000000000000) None None None"
  have "generateValue exampleRng ?s 0 = Inr (VInt 0, 1)"
    by (subst generateValue.simps) (simp add: generateInteger_def intMin_def intMax_def floatToInt64_def Intn_def exampleRng_def)
  moreover have "0 < floatUnits 0x3FE0000000000000" by (simp add: floatUnits_def)
  then have "\<not> conforms ?s (VInt 0)" by (simp add: conforms_integer)
  ultimately show ?thesis using exampleRng_fair by (intro exI [of _ ?s] exI [of _ exampleRng]) simp
qed

lemma max_items_zero_violated:
  "\<exists>s v. schemaType s = [''array''] \<and> schemaMaxItems s = Some 0 \<and> generateValue R s k = Inr (v, k + 1) \<and> \<not> conforms s v"
proof -
  let ?i = "withType [''number''] emptySchema"
  let ?s = "Schema [''array''] None None (Some ?i) [] [] [] None None None (Some 0)"
  have "generateValue R ?s k = Inr (VList [VFloat (floatIn R k 0 0x4059000000000000)], k + 1)"
    by (subst generateValue.simps)
      (simp add: generateArray_def arrayLength_def minItems_def maxItems_def generateNumber_def emptySchema_def
        generateValue.simps [of R "Schema [''number''] None None None [] [] [] None None None None"])
  moreover have "\<not> conforms ?s (VList [w])" for w by (simp add: conforms_array)
  ultimately show ?thesis by (intro exI [of _ ?s]) auto
qed

text \<open>
  The default of the upper bound is kept when only a lower bound is given: an integer of at least
  20000, a valid schema, makes the emulator panic.
\<close>

lemma large_minimum_panics:
  "generateValue R (Schema [''integer''] None None None [] [] [] (Some 0x40D3880000000000) None None None) k = Inl EmuPanic"
proof -
  have "floatToInt64 0x40D3880000000000 = 20000" by (simp add: floatToInt64_def)
  then show ?thesis by (subst generateValue.simps) (simp add: generateInteger_def intMin_def intMax_def Intn_def)
qed

end
