(* ===== verification/Simple_Schema.thy ===== *)
theory Simple_Schema
  imports Json_Schema
begin

text \<open>
  SimpleSchema, the language in which a resource group describes the spec of its instances
  (\<open>src/pkg/simpleschema/\<close>): a field is a type with markers, \<open>[]string | required=true default="x"\<close>.

  Text is a list of bytes; the characters the code tests for are ASCII, and the space characters of
  \<open>unicode.IsSpace\<close> are those of ASCII. An object comes from JSON, so its maps have string keys and
  \<open>transformMap\<close> is not reached. A parent schema that the code updates through a pointer is passed in and
  returned.
\<close>

section \<open>Types\<close>

datatype simple_error = SimpleError string | SimplePanic

definition AtomicTypeBool :: string where "AtomicTypeBool = ''boolean''"
definition AtomicTypeInteger :: string where "AtomicTypeInteger = ''integer''"
definition AtomicTypeFloat :: string where "AtomicTypeFloat = ''float''"
definition AtomicTypeString :: string where "AtomicTypeString = ''string''"

definition isAtomicType :: "string \<Rightarrow> bool" where
  "isAtomicType s \<longleftrightarrow> s = AtomicTypeBool \<or> s = AtomicTypeInteger \<or> s = AtomicTypeFloat \<or> s = AtomicTypeString"

definition isMapType :: "string \<Rightarrow> bool" where
  "isMapType s = hasPrefix s ''map''"

definition isSliceType :: "string \<Rightarrow> bool" where
  "isSliceType s = hasPrefix s ''[]''"

definition isCollectionType :: "string \<Rightarrow> bool" where
  "isCollectionType s = (if hasPrefix s ''[]'' then True else if hasPrefix s ''map'' then True else False)"

text \<open>The index of the bracket that closes the one opened before \<open>s\<close>.\<close>

fun matchingBracket :: "nat \<Rightarrow> nat \<Rightarrow> string \<Rightarrow> nat option" where
  "matchingBracket i depth [] = None"
| "matchingBracket i depth (c # cs) =
     (if c = CHR ''['' then matchingBracket (i + 1) (depth + 1) cs
      else if c = CHR '']'' then (if depth - 1 = 0 then Some i else matchingBracket (i + 1) (depth - 1) cs)
      else matchingBracket (i + 1) depth cs)"

definition findMatchingBracket :: "string \<Rightarrow> nat option" where
  "findMatchingBracket s = matchingBracket 0 1 s"

definition parseMapType :: "string \<Rightarrow> string + string \<times> string" where
  "parseMapType s =
     (if \<not> hasPrefix s ''map['' then Inl (''invalid map type: '' @ s)
      else let s1 = drop 4 s in
        (case findMatchingBracket s1 of
           None \<Rightarrow> Inl (''invalid map key type: '' @ s1)
         | Some i \<Rightarrow>
             (let keyType = take i s1; valueType = trimSuffix (drop (i + 1) s1) '']'' in
              if keyType = [] then Inl ''empty map key type''
              else if valueType = [] then Inl ''empty map value type''
              else Inr (keyType, valueType))))"

definition parseSliceType :: "string \<Rightarrow> string + string" where
  "parseSliceType s =
     (if \<not> hasPrefix s ''[]'' then Inl (''invalid slice type: '' @ s)
      else let s1 = trimPrefix s ''[]'' in if s1 = [] then Inl ''empty slice type'' else Inr s1)"

section \<open>Markers\<close>

datatype MarkerType = MarkerTypeRequired | MarkerTypeDefault | MarkerTypeDescription

primrec markerKey :: "MarkerType \<Rightarrow> string" where
  "markerKey MarkerTypeRequired = ''required''"
| "markerKey MarkerTypeDefault = ''default''"
| "markerKey MarkerTypeDescription = ''description''"

definition markerTypeFromString :: "string \<Rightarrow> string + MarkerType" where
  "markerTypeFromString s =
     (if s = ''required'' then Inr MarkerTypeRequired
      else if s = ''default'' then Inr MarkerTypeDefault
      else if s = ''description'' then Inr MarkerTypeDescription
      else Inl (''unknown marker type: '' @ s))"

record Marker =
  markerType :: MarkerType
  Key :: string
  Value :: string

fun unescapeLoop :: "bool \<Rightarrow> string \<Rightarrow> string" where
  "unescapeLoop escaped [] = []"
| "unescapeLoop escaped (c # cs) =
     (if escaped then (if c \<noteq> CHR 0x22 \<and> c \<noteq> CHR 0x5C then [CHR 0x5C] else []) @ c # unescapeLoop False cs
      else if c = CHR 0x5C then unescapeLoop True cs
      else c # unescapeLoop False cs)"

definition unescapeString :: "string \<Rightarrow> string" where
  "unescapeString s = unescapeLoop False s"

text \<open>\<open>None\<close>: the slice \<open>value[1 : len(value)-1]\<close> of a single quote panics.\<close>

definition processValue :: "string \<Rightarrow> string option" where
  "processValue v =
     (if hasPrefix v [CHR 0x22] \<and> hasSuffix v [CHR 0x22] then
        (if length v < 2 then None else Some (unescapeString (take (length v - 2) (drop 1 v))))
      else Some (trimSpace v))"

record marker_state =
  msResult :: "Marker list"
  currentMarker :: "Marker option"
  inQuotes :: bool
  bracketCount :: int
  msBuffer :: string
  msEscaped :: bool

definition finishMarker :: "marker_state \<Rightarrow> simple_error + marker_state" where
  "finishMarker st =
     (case currentMarker st of
        None \<Rightarrow> Inr st
      | Some m \<Rightarrow>
          (case processValue (msBuffer st) of
             None \<Rightarrow> Inl SimplePanic
           | Some v \<Rightarrow> Inr (st\<lparr>msResult := msResult st @ [m\<lparr>Value := v\<rparr>], currentMarker := None, msBuffer := []\<rparr>)))"

definition writeRune :: "char \<Rightarrow> marker_state \<Rightarrow> marker_state" where
  "writeRune c st = st\<lparr>msBuffer := msBuffer st @ [c]\<rparr>"

definition markerStep :: "char \<Rightarrow> marker_state \<Rightarrow> simple_error + marker_state" where
  "markerStep c st =
     (if c = CHR ''='' \<and> currentMarker st = None \<and> \<not> inQuotes st \<and> bracketCount st = 0 then
        (let key = trimSpace (msBuffer st) in
         if key = [] then Inl (SimpleError ''empty marker key'')
         else case markerTypeFromString key of
                Inl err \<Rightarrow> Inl (SimpleError (''invalid marker key '' @ key @ '': '' @ err))
              | Inr t \<Rightarrow> Inr (st\<lparr>currentMarker := Some \<lparr>markerType = t, Key = key, Value = []\<rparr>, msBuffer := []\<rparr>))
      else if c = CHR 0x22 \<and> \<not> msEscaped st then Inr (writeRune c (st\<lparr>inQuotes := \<not> inQuotes st\<rparr>))
      else if c = CHR 0x5C \<and> inQuotes st \<and> \<not> msEscaped st then Inr (writeRune c (st\<lparr>msEscaped := True\<rparr>))
      else if (c = CHR ''{'' \<or> c = CHR ''['') \<and> \<not> inQuotes st then
        Inr (writeRune c (st\<lparr>bracketCount := bracketCount st + 1\<rparr>))
      else if (c = CHR ''}'' \<or> c = CHR '']'') \<and> \<not> inQuotes st then
        (if bracketCount st - 1 < 0 then Inl (SimpleError ''unmatched closing bracket/brace'')
         else Inr (writeRune c (st\<lparr>bracketCount := bracketCount st - 1\<rparr>)))
      else if c \<in> set spaces \<and> \<not> inQuotes st \<and> bracketCount st = 0 then finishMarker st
      else Inr (writeRune c (if msEscaped st \<and> inQuotes st then st\<lparr>msEscaped := False\<rparr> else st)))"

definition parseMarkers :: "string \<Rightarrow> simple_error + Marker list" where
  "parseMarkers markers =
     (case foldRes markerStep markers
             \<lparr>msResult = [], currentMarker = None, inQuotes = False, bracketCount = 0, msBuffer = [], msEscaped = False\<rparr> of
        Inl e \<Rightarrow> Inl e
      | Inr st \<Rightarrow>
          (case finishMarker st of
             Inl e \<Rightarrow> Inl e
           | Inr st1 \<Rightarrow>
               (if inQuotes st1 then Inl (SimpleError ''unclosed quote'')
                else if bracketCount st1 > 0 then Inl (SimpleError ''unclosed bracket/brace'')
                else Inr (msResult st1))))"

section \<open>Fields\<close>

definition parseFieldSchema :: "string \<Rightarrow> simple_error + string \<times> Marker list" where
  "parseFieldSchema fieldSchema =
     (if fieldSchema = [] then Inl (SimpleError ''empty type'')
      else let parts = splitOn (CHR ''|'') fieldSchema in
        if length parts > 2 then Inl (SimpleError (''invalid type: '' @ fieldSchema))
        else let typ = trimSpace (parts ! 0) in
          if typ = [] then Inl (SimpleError ''empty type'')
          else if length parts = 1 then Inr (typ, [])
          else case parseMarkers (trimSpace (parts ! 1)) of Inl e \<Rightarrow> Inl e | Inr ms \<Rightarrow> Inr (typ, ms))"

section \<open>The transformer\<close>

definition applyMarker :: "string \<Rightarrow> Marker \<Rightarrow> props \<times> props \<Rightarrow> props \<times> props" where
  "applyMarker key m st =
     (case markerType m of
        MarkerTypeRequired \<Rightarrow> (fst st, setRequired (pRequired (snd st) @ [key]) (snd st))
      | MarkerTypeDefault \<Rightarrow>
          (setDefault (Some (if pType (fst st) = ''string'' then [CHR 0x22] @ Value m @ [CHR 0x22] else Value m)) (fst st), snd st)
      | MarkerTypeDescription \<Rightarrow> (setDescription (Value m) (fst st), snd st))"

definition applyMarkers :: "props \<Rightarrow> Marker list \<Rightarrow> string \<Rightarrow> props \<Rightarrow> props \<times> props" where
  "applyMarkers sch markers key parent = fold (applyMarker key) markers (sch, parent)"

text \<open>
  The handlers of the collection types are given the method \<open>parseFieldSchema\<close> of the transformer, with
  which they recur. \<open>pre\<close> holds the types defined before.
\<close>

type_synonym field_parser = "string \<Rightarrow> string \<Rightarrow> props \<Rightarrow> simple_error + props \<times> props"

definition handleMapType :: "field_parser \<Rightarrow> props gomap \<Rightarrow> string \<Rightarrow> string \<Rightarrow> simple_error + props" where
  "handleMapType parseField pre key fieldType =
     (case parseMapType fieldType of
        Inl err \<Rightarrow> Inl (SimpleError (''failed to parse map type for '' @ key @ '': '' @ err))
      | Inr (keyType, valueType) \<Rightarrow>
          (if keyType \<noteq> ''string'' then Inl (SimpleError (''unsupported key type for maps: '' @ keyType))
           else let p = setAdditional (Some (Some (typed []), False)) (typed ''object'') in
             if isCollectionType valueType then
               (case parseField key valueType p of
                  Inl e \<Rightarrow> Inl e
                | Inr (valueSchema, p') \<Rightarrow> Inr (setAdditional (Some (Some valueSchema, False)) p'))
             else case map_of pre valueType of
                    Some q \<Rightarrow> Inr (setAdditional (Some (Some q, False)) p)
                  | None \<Rightarrow>
                      (if isAtomicType valueType then Inr (setAdditional (Some (Some (setType valueType (typed [])), False)) p)
                       else Inl (SimpleError (''unknown type: '' @ valueType)))))"

definition handleSliceType :: "field_parser \<Rightarrow> props gomap \<Rightarrow> string \<Rightarrow> string \<Rightarrow> simple_error + props" where
  "handleSliceType parseField pre key fieldType =
     (case parseSliceType fieldType of
        Inl err \<Rightarrow> Inl (SimpleError (''failed to parse slice type for '' @ key @ '': '' @ err))
      | Inr elementType \<Rightarrow>
          (let p = setItems (Some (typed [])) (typed ''array'') in
           if isCollectionType elementType then
             (case parseField key elementType p of
                Inl e \<Rightarrow> Inl e
              | Inr (elementSchema, p') \<Rightarrow> Inr (setItems (Some elementSchema) p'))
           else if isAtomicType elementType then Inr (setItems (Some (setType elementType (typed []))) p)
           else case map_of pre elementType of
                  Some q \<Rightarrow> Inr (setItems (Some q) p)
                | None \<Rightarrow> Inl (SimpleError (''unknown type: '' @ elementType))))"

lemma handleMapType_cong [fundef_cong]:
  assumes "pre = pre'" and "key = key'" and "t = t'"
    and "\<And>k v p. parseMapType t' = Inr (k, v) \<Longrightarrow> f key' v p = g key' v p"
  shows "handleMapType f pre key t = handleMapType g pre' key' t'"
  using assms by (auto simp: handleMapType_def Let_def split: sum.split)

lemma handleSliceType_cong [fundef_cong]:
  assumes "pre = pre'" and "key = key'" and "t = t'"
    and "\<And>v p. parseSliceType t' = Inr v \<Longrightarrow> f key' v p = g key' v p"
  shows "handleSliceType f pre key t = handleSliceType g pre' key' t'"
  using assms by (auto simp: handleSliceType_def Let_def split: sum.split)

definition wrapField :: "string \<Rightarrow> simple_error \<Rightarrow> simple_error" where
  "wrapField key e =
     (case e of SimpleError m \<Rightarrow> SimpleError (''failed to parse field schema for '' @ key @ '': '' @ m) | SimplePanic \<Rightarrow> SimplePanic)"

lemma length_trimSet: "length (trimSet s cs) \<le> length s"
  unfolding trimSet_def by (metis length_dropWhile_le length_rev order_trans)

lemma length_splitOn: "length (splitOn c s ! 0) \<le> length s"
  by (induction s) (auto split: list.splits)

lemma parseFieldSchema_shorter: "parseFieldSchema s = Inr (t, ms) \<Longrightarrow> length t \<le> length s"
  using length_trimSet [of "splitOn (CHR ''|'') s ! 0" spaces] length_splitOn [of "CHR ''|''" s]
  by (auto simp: parseFieldSchema_def trimSpace_def Let_def split: if_splits sum.splits)

lemma parseMapType_shorter: "parseMapType s = Inr (k, v) \<Longrightarrow> length v < length s"
  by (auto simp: parseMapType_def trimSuffix_def hasPrefix_iff Let_def split: if_splits option.splits)

lemma parseSliceType_shorter: "parseSliceType s = Inr v \<Longrightarrow> length v < length s"
  by (auto simp: parseSliceType_def trimPrefix_def hasPrefix_iff Let_def split: if_splits)

function transformer_parseFieldSchema :: "props gomap \<Rightarrow> field_parser" where
  "transformer_parseFieldSchema pre key fieldValue parent =
     (case parseFieldSchema fieldValue of
        Inl e \<Rightarrow> Inl (wrapField key e)
      | Inr (fieldType, markers) \<Rightarrow>
          (case (if isAtomicType fieldType then Inr (typed fieldType)
                 else if isCollectionType fieldType then
                   (if isMapType fieldType then handleMapType (transformer_parseFieldSchema pre) pre key fieldType
                    else if isSliceType fieldType then handleSliceType (transformer_parseFieldSchema pre) pre key fieldType
                    else Inl (SimpleError (''unknown collection type: '' @ fieldType)))
                 else case map_of pre fieldType of
                        None \<Rightarrow> Inl (SimpleError (''unknown type: '' @ fieldType))
                      | Some q \<Rightarrow> Inr q) of
             Inl e \<Rightarrow> Inl e
           | Inr p \<Rightarrow> Inr (applyMarkers p markers key parent)))"
  by pat_completeness auto
termination
  by (relation "measure (\<lambda>(pre, key, v, p). length v)")
    (auto intro: order_less_le_trans [OF parseMapType_shorter parseFieldSchema_shorter]
      order_less_le_trans [OF parseSliceType_shorter parseFieldSchema_shorter])

declare transformer_parseFieldSchema.simps [simp del]

text \<open>\<open>buildOpenAPISchema\<close> and \<open>transformField\<close>, which call each other.\<close>

function buildOpenAPISchema :: "props gomap \<Rightarrow> val gomap \<Rightarrow> simple_error + props"
  and transformField :: "props gomap \<Rightarrow> string \<Rightarrow> val \<Rightarrow> props \<Rightarrow> simple_error + props \<times> props" where
  "buildOpenAPISchema pre obj =
     foldRes (\<lambda>x sch. case transformField pre (fst x) (snd x) sch of
         Inl e \<Rightarrow> Inl e
       | Inr (fieldSchema, sch1) \<Rightarrow>
           Inr (setProperties (map_option (AList.update (fst x) fieldSchema) (pProperties sch1)) sch1))
       obj (objectOf [])"
| "transformField pre key v parent =
     (case v of
        VMap m \<Rightarrow> (case buildOpenAPISchema pre m of Inl e \<Rightarrow> Inl e | Inr p \<Rightarrow> Inr (p, parent))
      | VStr s \<Rightarrow> transformer_parseFieldSchema pre key s parent
      | _ \<Rightarrow> Inl (SimpleError (''unknown type in schema: key: '' @ key)))"
  by pat_completeness auto
termination
proof (relation "measure (\<lambda>x. case x of Inl (pre, obj) \<Rightarrow> 2 * size (VMap obj) | Inr (pre, key, v, p) \<Rightarrow> 2 * size v + 1)", goal_cases)
  case (2 pre obj x sch)
  then show ?case using val_size_map [of "fst x" "snd x" obj] by simp
qed simp_all

declare buildOpenAPISchema.simps [simp del] transformField.simps [simp del]

definition loadPreDefinedTypes :: "val gomap \<Rightarrow> simple_error + props gomap" where
  "loadPreDefinedTypes obj =
     (case buildOpenAPISchema [] obj of
        Inl e \<Rightarrow> Inl e
      | Inr p \<Rightarrow> Inr (fold (\<lambda>x pre. AList.update (fst x) (snd x) pre) (case pProperties p of None \<Rightarrow> [] | Some ps \<Rightarrow> ps) []))"

definition ToOpenAPISpec :: "val gomap \<Rightarrow> simple_error + props" where
  "ToOpenAPISpec obj = buildOpenAPISchema [] obj"

section \<open>Writing markers\<close>

definition escapeString :: "string \<Rightarrow> string" where
  "escapeString s = concat (map (\<lambda>c. if c = CHR 0x22 \<or> c = CHR 0x5C then [CHR 0x5C, c] else [c]) s)"

definition writeMarker :: "Marker \<Rightarrow> string" where
  "writeMarker m = markerKey (markerType m) @ ''='' @ [CHR 0x22] @ escapeString (Value m) @ [CHR 0x22]"

definition writeMarkers :: "Marker list \<Rightarrow> string" where
  "writeMarkers ms = joinWith '' '' (map writeMarker ms)"

definition keyed :: "Marker \<Rightarrow> bool" where
  "keyed m \<longleftrightarrow> Key m = markerKey (markerType m)"

lemma escape_simps [simp]:
  "escapeString [] = []"
  "escapeString (c # s) = (if c = CHR 0x22 \<or> c = CHR 0x5C then CHR 0x5C # c # escapeString s else c # escapeString s)"
  by (simp_all add: escapeString_def)

lemma unescape_escape: "unescapeString (escapeString s) = s"
  unfolding unescapeString_def by (induction s) auto

lemma processValue_quoted: "processValue (CHR 0x22 # escapeString v @ [CHR 0x22]) = Some v"
  by (simp add: processValue_def hasSuffix_iff unescape_escape)

lemma scan_quoted:
  assumes "inQuotes st" and "\<not> msEscaped st"
  shows "foldRes markerStep (escapeString v @ rest) st = foldRes markerStep rest (st\<lparr>msBuffer := msBuffer st @ escapeString v\<rparr>)"
  using assms
proof (induction v arbitrary: st)
  case (Cons c v)
  let ?st = "st\<lparr>msBuffer := msBuffer st @ escapeString [c]\<rparr>"
  have "foldRes markerStep (escapeString (c # v) @ rest) st = foldRes markerStep (escapeString v @ rest) ?st"
    using Cons.prems by (cases st) (auto simp: markerStep_def writeRune_def)
  then show ?case using Cons.IH [of ?st] Cons.prems by simp
qed simp

lemma scan_key:
  assumes "currentMarker st = None" and "\<not> inQuotes st" and "bracketCount st = 0" and "msBuffer st = []" and "\<not> msEscaped st"
  shows "foldRes markerStep (markerKey t @ ''='' @ rest) st =
    foldRes markerStep rest (st\<lparr>currentMarker := Some \<lparr>markerType = t, Key = markerKey t, Value = []\<rparr>\<rparr>)"
proof -
  have "trimSpace (markerKey t) = markerKey t" by (cases t) (simp_all add: trimSpace_def trimSet_def spaces_def)
  moreover have "markerTypeFromString (markerKey t) = Inr t" by (cases t) (simp_all add: markerTypeFromString_def)
  moreover have "foldRes markerStep (markerKey t @ cs) st = foldRes markerStep cs (st\<lparr>msBuffer := markerKey t\<rparr>)" for cs
    using assms by (cases t) (simp_all add: markerStep_def writeRune_def spaces_def)
  moreover have "markerKey t \<noteq> []" by (cases t) simp_all
  ultimately show ?thesis using assms by (cases st) (simp add: markerStep_def)
qed

text \<open>The state between two markers.\<close>

definition betweenMarkers :: "Marker list \<Rightarrow> marker_state" where
  "betweenMarkers ms =
     \<lparr>msResult = ms, currentMarker = None, inQuotes = False, bracketCount = 0, msBuffer = [], msEscaped = False\<rparr>"

lemma scan_marker:
  "foldRes markerStep (writeMarker m @ rest) (betweenMarkers ms) =
   foldRes markerStep rest ((betweenMarkers ms)
     \<lparr>currentMarker := Some \<lparr>markerType = markerType m, Key = markerKey (markerType m), Value = []\<rparr>,
      msBuffer := CHR 0x22 # escapeString (Value m) @ [CHR 0x22]\<rparr>)"
  by (simp add: writeMarker_def scan_key [simplified] betweenMarkers_def)
    (simp add: markerStep_def writeRune_def scan_quoted)

lemma scan_markers:
  assumes "list_all keyed ms" and "ms \<noteq> []"
  shows "\<exists>st. foldRes markerStep (writeMarkers ms) (betweenMarkers done') = Inr st \<and>
    finishMarker st = Inr (betweenMarkers (done' @ ms))"
  using assms
proof (induction ms arbitrary: done')
  case (Cons m ms)
  have m: "\<lparr>markerType = markerType m, Key = markerKey (markerType m), Value = Value m\<rparr> = m"
    using Cons.prems by (cases m) (simp add: keyed_def)
  let ?st = "(betweenMarkers done')
     \<lparr>currentMarker := Some \<lparr>markerType = markerType m, Key = markerKey (markerType m), Value = []\<rparr>,
      msBuffer := CHR 0x22 # escapeString (Value m) @ [CHR 0x22]\<rparr>"
  have fin: "finishMarker ?st = Inr (betweenMarkers (done' @ [m]))"
    using m by (simp add: finishMarker_def processValue_quoted [simplified] betweenMarkers_def)
  show ?case
  proof (cases "ms = []")
    case True
    then show ?thesis using scan_marker [of m "[]" done'] fin by (simp add: writeMarkers_def)
  next
    case False
    then have "writeMarkers (m # ms) = writeMarker m @ CHR '' '' # writeMarkers ms"
      by (cases ms) (simp_all add: writeMarkers_def)
    moreover have "markerStep (CHR '' '') ?st = finishMarker ?st"
      by (simp add: markerStep_def betweenMarkers_def spaces_def)
    ultimately have "foldRes markerStep (writeMarkers (m # ms)) (betweenMarkers done') =
        foldRes markerStep (writeMarkers ms) (betweenMarkers (done' @ [m]))"
      using scan_marker [of m "CHR '' '' # writeMarkers ms" done'] fin by simp
    then show ?thesis using Cons.IH [of "done' @ [m]"] Cons.prems False by simp
  qed
qed simp

lemma parseMarkers_write: "list_all keyed ms \<Longrightarrow> parseMarkers (writeMarkers ms) = Inr ms"
proof (cases "ms = []")
  case False
  assume "list_all keyed ms"
  then obtain st where "foldRes markerStep (writeMarkers ms) (betweenMarkers []) = Inr st"
    "finishMarker st = Inr (betweenMarkers ms)"
    using scan_markers [OF _ False, of "[]"] by auto
  then show ?thesis by (simp add: parseMarkers_def betweenMarkers_def)
qed (simp add: parseMarkers_def writeMarkers_def finishMarker_def)

section \<open>Writing types\<close>

datatype simple_type = Atomic string | SliceOf simple_type | MapTo simple_type

primrec writeType :: "simple_type \<Rightarrow> string" where
  "writeType (Atomic a) = a"
| "writeType (SliceOf t) = ''[]'' @ writeType t"
| "writeType (MapTo t) = ''map[string]'' @ writeType t"

text \<open>The atomic types that OpenAPI has under the same name; \<open>float\<close> is not one of them.\<close>

primrec wfType :: "simple_type \<Rightarrow> bool" where
  "wfType (Atomic a) = (isAtomicType a \<and> a \<noteq> AtomicTypeFloat)"
| "wfType (SliceOf t) = wfType t"
| "wfType (MapTo t) = wfType t"

primrec typeSchema :: "simple_type \<Rightarrow> props" where
  "typeSchema (Atomic a) = typed a"
| "typeSchema (SliceOf t) = setItems (Some (typeSchema t)) (typed ''array'')"
| "typeSchema (MapTo t) = setAdditional (Some (Some (typeSchema t), False)) (typed ''object'')"

lemmas atomic_defs = isAtomicType_def AtomicTypeBool_def AtomicTypeInteger_def AtomicTypeFloat_def AtomicTypeString_def

lemma atomic_cases:
  assumes "isAtomicType a"
  obtains "a = ''boolean''" | "a = ''integer''" | "a = ''float''" | "a = ''string''"
  using assms by (auto simp: atomic_defs)

lemma writeType_ends: "wfType t \<Longrightarrow> writeType t \<noteq> [] \<and> hd (writeType t) \<notin> set spaces \<and> last (writeType t) \<notin> set (CHR '']'' # spaces)"
  by (induction t) (auto simp: spaces_def elim!: atomic_cases)

lemma writeType_plain: "wfType t \<Longrightarrow> CHR ''|'' \<notin> set (writeType t)"
  by (induction t) (auto elim!: atomic_cases)

lemma trimSpace_pad:
  assumes "s \<noteq> []" and "hd s \<notin> set spaces" and "last s \<notin> set spaces" and "set a \<subseteq> set spaces" and "set b \<subseteq> set spaces"
  shows "trimSpace (a @ s @ b) = s"
proof -
  let ?P = "\<lambda>c. List.member spaces c"
  have "dropWhile ?P (a @ s @ b) = s @ b"
    using assms(1,2,4) by (cases s) (auto simp: dropWhile_append2 subset_iff)
  moreover have "dropWhile ?P (rev b @ rev s) = dropWhile ?P (rev s)"
    by (rule dropWhile_append2) (use assms(5) in auto)
  moreover have "dropWhile ?P (rev s) = rev s" using assms(1,3) by (cases s rule: rev_cases) auto
  ultimately show ?thesis by (simp add: trimSpace_def trimSet_def)
qed

lemma isCollection_write:
  "wfType t \<Longrightarrow> isCollectionType (writeType t) \<longleftrightarrow> (\<forall>a. t \<noteq> Atomic a)"
  "wfType t \<Longrightarrow> isAtomicType (writeType t) \<longleftrightarrow> (\<exists>a. t = Atomic a)"
  by (cases t; auto simp: isCollectionType_def atomic_defs)+

lemma parseSlice_write: "wfType t \<Longrightarrow> parseSliceType (writeType (SliceOf t)) = Inr (writeType t)"
  using writeType_ends [of t] by (simp add: parseSliceType_def trimPrefix_def)

lemma parseMap_write: "wfType t \<Longrightarrow> parseMapType (writeType (MapTo t)) = Inr (''string'', writeType t)"
proof -
  assume "wfType t"
  then have "writeType t \<noteq> []" "trimSuffix (writeType t) '']'' = writeType t"
    using writeType_ends [of t] by (auto simp: trimSuffix_def hasSuffix_iff)
  then show ?thesis by (simp add: parseMapType_def findMatchingBracket_def)
qed

lemma parseField_type: "wfType t \<Longrightarrow> parseFieldSchema (writeType t) = Inr (writeType t, [])"
  using writeType_ends [of t] trimSpace_pad [of "writeType t" "[]" "[]"] splitOn_notin [OF writeType_plain, of t]
  by (simp add: parseFieldSchema_def)

text \<open>The schema that the transformer gives to a type, before the markers.\<close>

definition typeResult :: "props gomap \<Rightarrow> string \<Rightarrow> string \<Rightarrow> simple_error + props" where
  "typeResult pre key fieldType =
     (if isAtomicType fieldType then Inr (typed fieldType)
      else if isCollectionType fieldType then
        (if isMapType fieldType then handleMapType (transformer_parseFieldSchema pre) pre key fieldType
         else if isSliceType fieldType then handleSliceType (transformer_parseFieldSchema pre) pre key fieldType
         else Inl (SimpleError (''unknown collection type: '' @ fieldType)))
      else case map_of pre fieldType of
             None \<Rightarrow> Inl (SimpleError (''unknown type: '' @ fieldType))
           | Some q \<Rightarrow> Inr q)"

lemma transformer_typeResult:
  "transformer_parseFieldSchema pre key v parent =
     (case parseFieldSchema v of
        Inl e \<Rightarrow> Inl (wrapField key e)
      | Inr (fieldType, markers) \<Rightarrow>
          (case typeResult pre key fieldType of Inl e \<Rightarrow> Inl e | Inr p \<Rightarrow> Inr (applyMarkers p markers key parent)))"
  unfolding typeResult_def by (rule transformer_parseFieldSchema.simps)

lemma setType_typed [simp]: "setType a (typed b) = typed a"
  by (simp add: typed_def)

lemma set_again [simp]:
  "setItems x (setItems y p) = setItems x p" "setAdditional a (setAdditional b p) = setAdditional a p"
  by (cases p; simp)+

lemma typeResult_write: "wfType t \<Longrightarrow> typeResult [] key (writeType t) = Inr (typeSchema t)"
proof (induction t)
  case (Atomic a)
  then show ?case by (simp add: typeResult_def)
next
  case (SliceOf t)
  let ?p = "setItems (Some (typed [])) (typed ''array'')"
  have "transformer_parseFieldSchema [] key (writeType t) ?p = Inr (typeSchema t, ?p)"
    using SliceOf by (simp add: transformer_typeResult parseField_type applyMarkers_def)
  then have "handleSliceType (transformer_parseFieldSchema []) [] key (writeType (SliceOf t)) = Inr (typeSchema (SliceOf t))"
    using SliceOf.prems isCollection_write [of t] parseSlice_write [of t] by (cases t) (simp_all add: handleSliceType_def)
  then show ?case by (simp add: typeResult_def isCollectionType_def isMapType_def isSliceType_def atomic_defs)
next
  case (MapTo t)
  let ?p = "setAdditional (Some (Some (typed []), False)) (typed ''object'')"
  have "transformer_parseFieldSchema [] key (writeType t) ?p = Inr (typeSchema t, ?p)"
    using MapTo by (simp add: transformer_typeResult parseField_type applyMarkers_def)
  then have "handleMapType (transformer_parseFieldSchema []) [] key (writeType (MapTo t)) = Inr (typeSchema (MapTo t))"
    using MapTo.prems isCollection_write [of t] parseMap_write [of t] by (cases t) (simp_all add: handleMapType_def)
  then show ?case by (simp add: typeResult_def isCollectionType_def isMapType_def isSliceType_def atomic_defs)
qed

section \<open>Writing fields\<close>

definition writeField :: "simple_type \<Rightarrow> Marker list \<Rightarrow> string" where
  "writeField t ms = (if ms = [] then writeType t else writeType t @ '' | '' @ writeMarkers ms)"

definition wfMarkers :: "Marker list \<Rightarrow> bool" where
  "wfMarkers ms \<longleftrightarrow> list_all (\<lambda>m. keyed m \<and> CHR ''|'' \<notin> set (Value m)) ms"

text \<open>What the markers of a field mean: the last default and the last description count.\<close>

definition lastValue :: "MarkerType \<Rightarrow> Marker list \<Rightarrow> string option" where
  "lastValue T ms = (case rev (filter (\<lambda>m. markerType m = T) ms) of [] \<Rightarrow> None | m # _ \<Rightarrow> Some (Value m))"

definition leafSchema :: "simple_type \<Rightarrow> Marker list \<Rightarrow> props" where
  "leafSchema t ms =
     setDescription (case lastValue MarkerTypeDescription ms of None \<Rightarrow> [] | Some d \<Rightarrow> d)
       (setDefault (map_option (\<lambda>v. if t = Atomic ''string'' then [CHR 0x22] @ v @ [CHR 0x22] else v) (lastValue MarkerTypeDefault ms))
         (typeSchema t))"

definition requiredKeys :: "string \<Rightarrow> Marker list \<Rightarrow> string list" where
  "requiredKeys key ms = map (\<lambda>_. key) (filter (\<lambda>m. markerType m = MarkerTypeRequired) ms)"

lemma escape_set: "set (escapeString v) \<subseteq> insert (CHR 0x5C) (set v)"
  by (induction v) auto

lemma writeMarker_ends:
  "writeMarker m \<noteq> []" "hd (writeMarker m) \<notin> set spaces" "last (writeMarker m) = CHR 0x22"
  "CHR ''|'' \<notin> set (Value m) \<Longrightarrow> CHR ''|'' \<notin> set (writeMarker m)"
  using escape_set [of "Value m"] by (cases "markerType m"; auto simp: writeMarker_def spaces_def)+

lemma writeMarkers_ends:
  assumes "ms \<noteq> []"
  shows "writeMarkers ms \<noteq> []" "hd (writeMarkers ms) \<notin> set spaces" "last (writeMarkers ms) = CHR 0x22"
    "wfMarkers ms \<Longrightarrow> CHR ''|'' \<notin> set (writeMarkers ms)"
proof -
  have "writeMarkers ms \<noteq> [] \<and> hd (writeMarkers ms) \<notin> set spaces \<and> last (writeMarkers ms) = CHR 0x22 \<and>
      (wfMarkers ms \<longrightarrow> CHR ''|'' \<notin> set (writeMarkers ms))"
    using assms
  proof (induction ms rule: list_nonempty_induct)
    case (single m)
    then show ?case using writeMarker_ends [of m] by (auto simp: writeMarkers_def wfMarkers_def)
  next
    case (cons m ms)
    then have "writeMarkers (m # ms) = writeMarker m @ CHR '' '' # writeMarkers ms"
      by (cases ms) (simp_all add: writeMarkers_def)
    then show ?case using cons writeMarker_ends [of m] by (auto simp: wfMarkers_def)
  qed
  then show "writeMarkers ms \<noteq> []" "hd (writeMarkers ms) \<notin> set spaces" "last (writeMarkers ms) = CHR 0x22"
    "wfMarkers ms \<Longrightarrow> CHR ''|'' \<notin> set (writeMarkers ms)" by blast+
qed

lemma parseField_write:
  assumes "wfType t" and "wfMarkers ms"
  shows "parseFieldSchema (writeField t ms) = Inr (writeType t, ms)"
proof (cases "ms = []")
  case True
  then show ?thesis using assms parseField_type by (simp add: writeField_def)
next
  case False
  have "CHR ''|'' \<notin> set (writeType t @ '' '')" "CHR ''|'' \<notin> set ('' '' @ writeMarkers ms)"
    using writeType_plain [OF assms(1)] writeMarkers_ends(4) [OF False assms(2)] by auto
  then have "splitOn (CHR ''|'') (writeField t ms) = [writeType t @ '' '', '' '' @ writeMarkers ms]"
    using False splitOn_append [of "CHR ''|''" "writeType t @ '' ''" "'' '' @ writeMarkers ms"]
      splitOn_notin [of "CHR ''|''" "'' '' @ writeMarkers ms"]
    by (simp add: writeField_def)
  moreover have "trimSpace (writeType t @ '' '') = writeType t"
    using trimSpace_pad [of "writeType t" "[]" "'' ''"] writeType_ends [OF assms(1)] by (simp add: spaces_def)
  moreover have "trimSpace ('' '' @ writeMarkers ms) = writeMarkers ms"
    using trimSpace_pad [of "writeMarkers ms" "'' ''" "[]"] writeMarkers_ends [OF False] by (simp add: spaces_def)
  moreover have "parseMarkers (writeMarkers ms) = Inr ms"
    using assms(2) by (intro parseMarkers_write) (auto simp: wfMarkers_def list_all_iff)
  ultimately show ?thesis using writeType_ends [OF assms(1)] False by (simp add: parseFieldSchema_def writeField_def)
qed

lemma set_marker_simps:
  "setDefault x (setDefault y p) = setDefault x p" "setDescription d (setDescription e p) = setDescription d p"
  "setDefault x (setDescription d p) = setDescription d (setDefault x p)"
  "setDefault (pDefault p) p = p" "setDescription (pDescription p) p = p"
  "setRequired r (setRequired q p) = setRequired r p" "setRequired (pRequired p) p = p"
  by (cases p; simp)+

lemma applyMarkers_effect:
  "applyMarkers p ms key parent =
     (setDescription (case lastValue MarkerTypeDescription ms of None \<Rightarrow> pDescription p | Some d \<Rightarrow> d)
       (setDefault (case lastValue MarkerTypeDefault ms of None \<Rightarrow> pDefault p
          | Some v \<Rightarrow> Some (if pType p = ''string'' then [CHR 0x22] @ v @ [CHR 0x22] else v)) p),
      setRequired (pRequired parent @ requiredKeys key ms) parent)"
proof (induction ms rule: rev_induct)
  case Nil
  then show ?case by (simp add: applyMarkers_def lastValue_def requiredKeys_def set_marker_simps)
next
  case (snoc m ms)
  then show ?case
    by (cases "markerType m") (simp_all add: applyMarkers_def applyMarker_def lastValue_def requiredKeys_def set_marker_simps)
qed

lemma typeSchema_plain: "pDefault (typeSchema t) = None" "pDescription (typeSchema t) = []"
  "pType (typeSchema t) = ''string'' \<longleftrightarrow> t = Atomic ''string''"
  by (cases t; simp add: typed_def)+

lemma transformer_write:
  assumes "wfType t" and "wfMarkers ms"
  shows "transformer_parseFieldSchema [] key (writeField t ms) parent =
    Inr (leafSchema t ms, setRequired (pRequired parent @ requiredKeys key ms) parent)"
  using assms
  by (simp add: transformer_typeResult parseField_write typeResult_write applyMarkers_effect leafSchema_def typeSchema_plain
      split: option.splits)

section \<open>Writing objects\<close>

datatype simple_field = Leaf simple_type "Marker list" | Struct "(string \<times> simple_field) list"

primrec fieldValue :: "simple_field \<Rightarrow> val" where
  "fieldValue (Leaf t ms) = VStr (writeField t ms)"
| "fieldValue (Struct fs) = VMap (map (map_prod id fieldValue) fs)"

primrec requiredOf :: "string \<Rightarrow> simple_field \<Rightarrow> string list" where
  "requiredOf key (Leaf t ms) = requiredKeys key ms"
| "requiredOf key (Struct fs) = []"

primrec fieldSchema :: "simple_field \<Rightarrow> props" where
  "fieldSchema (Leaf t ms) = leafSchema t ms"
| "fieldSchema (Struct fs) =
     setRequired (concat (map (\<lambda>x. requiredOf (fst x) (snd x)) fs)) (objectOf (map (map_prod id fieldSchema) fs))"

text \<open>
  The markers the documentation has: the marker for required fields comes with the value \<open>true\<close>, and the
  default of a string can stand between quotes as it is.
\<close>

definition plainText :: "string \<Rightarrow> bool" where
  "plainText v \<longleftrightarrow> list_all (\<lambda>c. c \<noteq> CHR 0x22 \<and> c \<noteq> CHR 0x5C \<and> (of_char c :: nat) \<ge> 32) v"

definition documentedMarkers :: "simple_type \<Rightarrow> Marker list \<Rightarrow> bool" where
  "documentedMarkers t ms \<longleftrightarrow>
     list_all (\<lambda>m. (markerType m = MarkerTypeRequired \<longrightarrow> Value m = ''true'') \<and>
       (markerType m = MarkerTypeDefault \<longrightarrow> t = Atomic AtomicTypeString \<longrightarrow> plainText (Value m))) ms"

primrec wfField :: "simple_field \<Rightarrow> bool" where
  "wfField (Leaf t ms) \<longleftrightarrow> wfType t \<and> wfMarkers ms \<and> documentedMarkers t ms"
| "wfField (Struct fs) \<longleftrightarrow> distinct (map fst fs) \<and> list_all snd (map (map_prod id wfField) fs)"

lemma update_fresh: "k \<notin> fst ` set ps \<Longrightarrow> AList.update k v ps = ps @ [(k, v)]"
  by (induction ps) auto

lemma setRequired_objectOf:
  "setProperties (map_option (AList.update k v) (pProperties (objectOf ps))) (setRequired r (objectOf ps)) =
   setRequired r (objectOf (AList.update k v ps))" "pRequired (setRequired r (objectOf ps)) = r"
  "objectOf ps = setRequired [] (objectOf ps)"
  by (simp_all add: objectOf_def)

lemma build_fields:
  assumes "distinct (map fst fs)" and "fst ` set ps \<inter> fst ` set fs = {}"
    and "\<And>x parent. x \<in> set fs \<Longrightarrow> transformField [] (fst x) (fieldValue (snd x)) parent =
      Inr (fieldSchema (snd x), setRequired (pRequired parent @ requiredOf (fst x) (snd x)) parent)"
  shows "foldRes (\<lambda>x sch. case transformField [] (fst x) (snd x) sch of
         Inl e \<Rightarrow> Inl e
       | Inr (p, sch1) \<Rightarrow> Inr (setProperties (map_option (AList.update (fst x) p) (pProperties sch1)) sch1))
       (map (map_prod id fieldValue) fs) (setRequired r (objectOf ps)) =
    Inr (setRequired (r @ concat (map (\<lambda>x. requiredOf (fst x) (snd x)) fs)) (objectOf (ps @ map (map_prod id fieldSchema) fs)))"
  using assms
proof (induction fs arbitrary: ps r)
  case (Cons x fs)
  have "fst x \<notin> fst ` set ps" using Cons.prems(2) by auto
  moreover have "fst ` set (ps @ [(fst x, fieldSchema (snd x))]) \<inter> fst ` set fs = {}"
    using Cons.prems(1,2) by auto
  ultimately show ?case
    using Cons.IH [of "ps @ [(fst x, fieldSchema (snd x))]" "r @ requiredOf (fst x) (snd x)"] Cons.prems(1,3)
    by (simp add: set_marker_simps setRequired_objectOf(1,2) update_fresh map_prod_def split_beta)
qed simp

lemma transformField_write:
  "wfField f \<Longrightarrow> transformField [] key (fieldValue f) parent =
     Inr (fieldSchema f, setRequired (pRequired parent @ requiredOf key f) parent)"
proof (induction f arbitrary: key parent)
  case (Leaf t ms)
  then show ?case by (simp add: transformField.simps transformer_write)
next
  case (Struct fs)
  have "transformField [] (fst x) (fieldValue (snd x)) parent =
      Inr (fieldSchema (snd x), setRequired (pRequired parent @ requiredOf (fst x) (snd x)) parent)"
    if "x \<in> set fs" for x parent
    using Struct.IH [of x "snd x"] Struct.prems that by (cases x) (fastforce simp: list_all_iff)
  moreover have "distinct (map fst fs)" using Struct.prems by simp
  ultimately have "buildOpenAPISchema [] (map (map_prod id fieldValue) fs) = Inr (fieldSchema (Struct fs))"
    using build_fields [of fs "[]" "[]"]
    by (subst buildOpenAPISchema.simps, subst setRequired_objectOf(3)) simp
  then show ?case by (subst transformField.simps) (simp add: set_marker_simps)
qed

section \<open>Properties\<close>

text \<open>
  C34. Markers round-trip: whatever the values are, quotes, backslashes, brackets and spaces included,
  \<open>parseMarkers\<close> reads a list of markers, written with quoted and escaped values, as that list.
\<close>

theorem markers_write_parse_roundtrip:
  assumes "list_all keyed ms"
  shows "parseMarkers (writeMarkers ms) = Inr ms"
  by (rule parseMarkers_write [OF assms])

definition exampleMarkers :: "Marker list" where
  "exampleMarkers =
     [\<lparr>markerType = MarkerTypeRequired, Key = ''required'', Value = ''true''\<rparr>,
      \<lparr>markerType = MarkerTypeDefault, Key = ''default'', Value = [CHR ''{'', CHR 0x22, CHR '' '', CHR 0x5C]\<rparr>]"

theorem markers_write_parse_roundtrip_witness:
  "parseMarkers (writeMarkers exampleMarkers) = Inr exampleMarkers"
  by (rule markers_write_parse_roundtrip) (simp add: exampleMarkers_def keyed_def)


definition exampleFields :: "(string \<times> simple_field) list" where
  "exampleFields =
     [(''name'', Leaf (Atomic ''string'')
         [\<lparr>markerType = MarkerTypeRequired, Key = ''required'', Value = ''true''\<rparr>,
          \<lparr>markerType = MarkerTypeDefault, Key = ''default'', Value = ''my app''\<rparr>,
          \<lparr>markerType = MarkerTypeDescription, Key = ''description'', Value = [CHR ''a'', CHR 0x22, CHR 0x5C]\<rparr>]),
      (''net'', Struct [(''ports'', Leaf (MapTo (SliceOf (Atomic ''integer''))) [])])]"


section \<open>Where the parser departs from its documentation\<close>

lemma unclosed_quote_panics: "parseMarkers (''default='' @ [CHR 0x22]) = Inl SimplePanic"
  by code_simp

lemma required_false_is_required:
  "ToOpenAPISpec [(''size'', VStr ''integer | required=false'')] = Inr (setRequired [''size''] (objectOf [(''size'', typed ''integer'')]))"
  by code_simp

text \<open>Of the documented markers and types, \<open>enum\<close>, \<open>minimum\<close>, \<open>maximum\<close> and \<open>number\<close> are rejected.\<close>

lemma documented_marker_rejected:
  "isl (ToOpenAPISpec [(''replicas'', VStr ''integer | minimum=1'')])" "isl (ToOpenAPISpec [(''replicas'', VStr ''integer | maximum=9'')])"
  "isl (ToOpenAPISpec [(''mode'', VStr ''string | enum=on'')])"
  by code_simp+

lemma documented_number_rejected: "isl (ToOpenAPISpec [(''price'', VStr ''number'')])"
  by code_simp

lemma marker_without_value_ignored: "parseMarkers ''required'' = Inr []"
  by code_simp

lemma bar_in_description_rejected:
  "\<exists>e. parseFieldSchema (''string | description='' @ [CHR 0x22] @ ''a|b'' @ [CHR 0x22]) = Inl (SimpleError e)"
proof -
  have "length (splitOn (CHR ''|'') (''string | description='' @ [CHR 0x22] @ ''a|b'' @ [CHR 0x22])) = 3" by code_simp
  then show ?thesis by (simp add: parseFieldSchema_def)
qed

text \<open>The default of a string is put between quotes as it is, so a quote in it ends the JSON string.\<close>

lemma default_not_escaped:
  "applyMarkers (typed ''string'') [\<lparr>markerType = MarkerTypeDefault, Key = ''default'', Value = [CHR 0x22]\<rparr>] key parent =
   (setDefault (Some [CHR 0x22, CHR 0x22, CHR 0x22]) (typed ''string''), parent)"
  by (simp add: applyMarkers_def applyMarker_def typed_def)

lemma float_is_no_json_type: "ToOpenAPISpec [(''rate'', VStr ''float'')] = Inr (objectOf [(''rate'', typed ''float'')])"
  by code_simp

lemma map_type_trailing_bracket: "parseMapType ''map[string]string]'' = Inr (''string'', ''string'')"
  by code_simp

end
