(* ===== verification/Resource_Group.thy ===== *)
theory Resource_Group
  imports Graph_Builder Validation Emulator Simple_Schema
begin

text \<open>
  The builder of a resource group, \<open>NewResourceGroup\<close> of \<open>src/internal/graph/builder.go\<close> with the
  functions that build its resources and its instance.

  The record \<open>builder\<close> holds what the code takes from elsewhere: cel-go, the YAML decoder, the schemas
  and the resource types of the API server, the random generator. The number of draws of the emulator
  is passed along. The definition (CRD) of the instance is returned beside the instance.
\<close>

section \<open>Operations\<close>

datatype group_error =
    GroupError string
  | GroupWrap string group_error
  | GroupValidation validation_error
  | GroupParser parser_error
  | GroupExpr expr_error
  | GroupEmulator emu_error
  | GroupSimple simple_error
  | GroupSchema schema_error
  | GroupBuilder builder_error
  | GroupDag dag_error
  | GroupPanic

record builder =
  bdFloat :: "64 word \<Rightarrow> string"
  bdParse :: cel_parser
  bdCel :: cel
  bdUnmarshal :: "string \<Rightarrow> string + val gomap"
  bdParseGroupVersion :: "string \<Rightarrow> string + string \<times> string"
  bdFromAPIVersionAndKind :: "string \<Rightarrow> string \<Rightarrow> GroupVersionKind"
  bdResolveSchema :: "GroupVersionKind \<Rightarrow> string + schema option"
  bdNamespacedResources :: "string + (string \<times> (string \<times> bool) list) list"
  bdRand :: rng
  bdSetters :: setters
  bdPluralize :: "string \<Rightarrow> string"

text \<open>Sequencing with the error of the first step wrapped.\<close>

definition orFail :: "('e \<Rightarrow> group_error) \<Rightarrow> 'e + 'a \<Rightarrow> ('a \<Rightarrow> group_error + 'b) \<Rightarrow> group_error + 'b" where
  "orFail f r k = (case r of Inl e \<Rightarrow> Inl (f e) | Inr x \<Rightarrow> k x)"

definition orFailNone :: "('e \<Rightarrow> group_error) \<Rightarrow> 'e option \<Rightarrow> group_error + 'b \<Rightarrow> group_error + 'b" where
  "orFailNone f r k = (case r of Some e \<Rightarrow> Inl (f e) | None \<Rightarrow> k)"

definition isCRDKind :: "GroupVersionKind \<Rightarrow> bool" where
  "isCRDKind gvk \<longleftrightarrow> gvkGroup gvk = ''apiextensions.k8s.io'' \<and> gvkVersion gvk = ''v1'' \<and> gvkKind gvk = ''CustomResourceDefinition''"

definition staticVariable :: "FieldDescriptor \<Rightarrow> ResourceField" where
  "staticVariable fd = FieldDescriptor.extend fd (ResourceField.fields ResourceVariableKindStatic [])"

text \<open>The emulated object and the variables of a resource; neither for a custom resource definition.\<close>

definition emulateAndParse ::
  "builder \<Rightarrow> GroupVersionKind \<Rightarrow> schema option \<Rightarrow> val gomap \<Rightarrow> nat \<Rightarrow>
   group_error + (val gomap option \<times> ResourceField list) \<times> nat" where
  "emulateAndParse B gvk resourceSchema obj k =
     (if isCRDKind gvk then
        orFail (\<lambda>e. GroupWrap ''failed to parse schemaless resource'' (GroupParser e)) (ParseSchemalessResource obj) (\<lambda>celExpressions.
          if length celExpressions > 0 then Inl (GroupError ''failed, CEL expressions are not supported for CRDs'')
          else Inr ((None, []), k))
      else
        orFail (\<lambda>e. GroupWrap ''failed to generate dummy CR'' (GroupEmulator e))
          (GenerateDummyCR (bdRand B) (bdSetters B) gvk resourceSchema k) (\<lambda>(emulated, k1).
          orFail (\<lambda>e. GroupWrap ''failed to extract CEL expressions from schema'' (GroupParser e)) (ParseResource obj resourceSchema)
            (\<lambda>fieldDescriptors. Inr ((Some emulated, map staticVariable fieldDescriptors), k1))))"

definition buildRGResource ::
  "builder \<Rightarrow> (GroupVersionKind \<times> bool) list \<Rightarrow> RGResource \<Rightarrow> nat \<Rightarrow> group_error + Resource \<times> nat" where
  "buildRGResource B namespacedResources r k =
     orFail (\<lambda>e. GroupError (''failed to unmarshal resource: '' @ e)) (bdUnmarshal B (rgTemplate r)) (\<lambda>resourceObject.
     orFailNone (\<lambda>e. GroupWrap ''not a valid Kubernetes object'' (GroupValidation e))
       (validateKubernetesObjectStructure (bdParseGroupVersion B) resourceObject) (
     orFail (\<lambda>e. GroupError (''failed to extract GVK from resource: '' @ e)) (ExtractGVKFromUnstructured resourceObject) (\<lambda>gvk.
     orFail (\<lambda>e. GroupError (''failed to get schema for resource: '' @ e)) (bdResolveSchema B gvk) (\<lambda>resourceSchema.
     orFail id (emulateAndParse B gvk resourceSchema resourceObject k) (\<lambda>((emulated, variables), k1).
     orFail (\<lambda>e. GroupWrap ''failed to parse readyWhen expressions'' (GroupExpr e)) (ParseConditionExpressions (rgReadyWhen r)) (\<lambda>readyWhen.
     orFail (\<lambda>e. GroupWrap ''failed to parse includeWhen expressions'' (GroupExpr e)) (ParseConditionExpressions (rgIncludeWhen r)) (\<lambda>includeWhen.
       Inr (\<lparr>resId = rgID r, resGvr = GVKtoGVR (bdPluralize B) gvk, resSchema = resourceSchema, resCrd = None,
             originalObject = resourceObject, emulatedObject = emulated, resVariables = variables, resDependencies = [],
             readyWhenExpressions = readyWhen, includeWhenExpressions = includeWhen,
             resNamespaced = (map_of namespacedResources gvk \<noteq> None)\<rparr>, k1))))))))"

section \<open>The instance\<close>

definition buildInstanceSpecSchema :: "builder \<Rightarrow> RGSchema \<Rightarrow> group_error + props" where
  "buildInstanceSpecSchema B sch =
     orFail (\<lambda>e. GroupError (''failed to unmarshal spec schema: '' @ e)) (bdUnmarshal B (rgSpec sch)) (\<lambda>instanceSpec.
     orFail (\<lambda>e. GroupWrap ''failed to build OpenAPI schema for instance'' (GroupSimple e)) (ToOpenAPISpec instanceSpec) Inr)"

definition dryRunStatus ::
  "builder \<Rightarrow> cel_env \<Rightarrow> Resource gomap \<Rightarrow> string \<Rightarrow> refval list \<Rightarrow> group_error + refval list" where
  "dryRunStatus B env resources expr evals =
     orFailNone (\<lambda>e. GroupWrap ''failed to validate expression context'' (GroupBuilder e))
       (validateCELExpressionContext (bdFloat B) (bdParse B) env expr (map fst resources)) (
     orFail (\<lambda>e. GroupWrap ''failed to dry-run expression'' (GroupBuilder e))
       (dryRunExpression (bdCel B) env expr (map (\<lambda>x. (fst x, emulatedObject (snd x))) resources)) (\<lambda>v. Inr (evals @ [v])))"

definition buildStatusSchema ::
  "builder \<Rightarrow> RGSchema \<Rightarrow> Resource gomap \<Rightarrow> group_error + props \<times> FieldDescriptor list" where
  "buildStatusSchema B sch resources =
     orFail (\<lambda>e. GroupError (''failed to unmarshal status schema: '' @ e)) (bdUnmarshal B (rgStatus sch)) (\<lambda>unstructuredStatus.
     orFail (\<lambda>e. GroupWrap ''failed to extract CEL expressions from status'' (GroupParser e)) (ParseSchemalessResource unstructuredStatus) (\<lambda>fieldDescriptors.
     orFail (\<lambda>e. GroupError (''failed to create CEL environment: '' @ e)) (DefaultEnvironment (bdCel B) [WithResourceIDs (map fst resources)]) (\<lambda>env.
     orFail id (foldRes (\<lambda>found results.
         orFail id (foldRes (dryRunStatus B env resources) (Expressions found) []) (\<lambda>evals.
           Inr (AList.update (Path found) evals results))) fieldDescriptors []) (\<lambda>statusDryRunResults.
     orFail (\<lambda>e. GroupWrap ''failed to build JSON schema from status structure'' (GroupSchema e)) (GenerateSchemaFromEvals statusDryRunResults) (\<lambda>statusSchema.
       Inr (statusSchema, fieldDescriptors))))))"

definition statusVariableStep ::
  "builder \<Rightarrow> cel_env \<Rightarrow> string list \<Rightarrow> FieldDescriptor \<Rightarrow> Resource \<Rightarrow> group_error + Resource" where
  "statusVariableStep B env resourceNames statusVariable inst =
     (case Expressions statusVariable of
        [] \<Rightarrow> Inl GroupPanic
      | e # _ \<Rightarrow>
          orFail (\<lambda>err. GroupWrap ''failed to extract dependencies'' (GroupBuilder err))
            (extractDependencies (bdFloat B) (bdParse B) env e resourceNames) (\<lambda>(deps, isStatic).
            if isStatic then Inl (GroupError ''instance status field must refer to a resource'')
            else Inr ((addDependencies deps inst)\<lparr>resVariables := resVariables inst @
              [FieldDescriptor.extend (statusVariable\<lparr>Path := ''status.'' @ Path statusVariable\<rparr>)
                 (ResourceField.fields ResourceVariableKindDynamic deps)]\<rparr>)))"

definition buildInstanceResource ::
  "builder \<Rightarrow> RGSchema \<Rightarrow> Resource gomap \<Rightarrow> nat \<Rightarrow> group_error + (Resource \<times> CustomResourceDefinition) \<times> nat" where
  "buildInstanceResource B sch resources k =
     (let gvk = GetResourceGroupInstanceGVK (rgAPIVersion sch) (rgKind sch) in
     orFail (\<lambda>e. GroupError (''failed to unmarshal instance schema: '' @ e)) (bdUnmarshal B (rgSpec sch)) (\<lambda>_.
     orFail (GroupWrap ''failed to build OpenAPI schema for instance'') (buildInstanceSpecSchema B sch) (\<lambda>instanceSpecSchema.
     orFail (GroupWrap ''failed to build OpenAPI schema for instance status'') (buildStatusSchema B sch resources) (\<lambda>(instanceStatusSchema, statusVariables).
     (let instanceCRD = SynthesizeCRD (bdPluralize B) (rgAPIVersion sch) (rgKind sch) instanceSpecSchema instanceStatusSchema True;
          instanceSchema = ConvertJSONSchemaPropsToSpecSchema (crdSchema instanceCRD) in
     orFail (\<lambda>e. GroupWrap ''failed to generate dummy CR for instance'' (GroupEmulator e))
       (GenerateDummyCR (bdRand B) (bdSetters B) gvk (Some instanceSchema) k) (\<lambda>(emulatedInstance, k1).
     orFail (\<lambda>e. GroupError (''failed to create CEL environment: '' @ e)) (DefaultEnvironment (bdCel B) [WithResourceIDs (map fst resources)]) (\<lambda>env.
     orFail id (foldRes (statusVariableStep B env (map fst resources)) statusVariables
       \<lparr>resId = ''instance'', resGvr = GVKtoGVR (bdPluralize B) gvk, resSchema = Some instanceSchema, resCrd = None,
        originalObject = [], emulatedObject = Some emulatedInstance, resVariables = [], resDependencies = [],
        readyWhenExpressions = [], includeWhenExpressions = [], resNamespaced = False\<rparr>) (\<lambda>inst.
       Inr ((inst, instanceCRD), k1)))))))))"

section \<open>The resource group\<close>

definition namespacedKinds :: "builder \<Rightarrow> (string \<times> (string \<times> bool) list) list \<Rightarrow> (GroupVersionKind \<times> bool) list" where
  "namespacedKinds B apiResourceList =
     fold (\<lambda>(gv, rs) m. fold (\<lambda>(kind, namespaced) m. AList.update (bdFromAPIVersionAndKind B gv kind) namespaced m) rs m) apiResourceList []"

definition NewResourceGroup ::
  "builder \<Rightarrow> ResourceGroup \<Rightarrow> nat \<Rightarrow> group_error + (Graph \<times> CustomResourceDefinition) \<times> nat" where
  "NewResourceGroup B rg k =
     orFailNone (\<lambda>e. GroupWrap ''failed to validate resourcegroup'' (GroupValidation e)) (validateResourceGroupNamingConventions rg) (
     orFail (\<lambda>e. GroupError (''failed to retrieve Kubernetes namespaced resources: '' @ e)) (bdNamespacedResources B) (\<lambda>apiResourceList.
     orFail id (foldRes (\<lambda>r (resources, k). orFail (GroupWrap (''failed to build resource '' @ rgID r))
         (buildRGResource B (namespacedKinds B apiResourceList) r k) (\<lambda>(res, k1). Inr (AList.update (rgID r) res resources, k1)))
         (rgResources rg) ([], k)) (\<lambda>(resources, k1).
     orFail (GroupWrap (''failed to build resourcegroup '' @ rgName rg)) (buildInstanceResource B (rgSchema rg) resources k1) (\<lambda>((inst, crd), k2).
     orFail (\<lambda>e. GroupWrap ''failed to validate resource CEL expressions'' (GroupBuilder e))
       (validateResourceCELExpressions (bdFloat B) (bdParse B) (bdCel B) resources inst) (\<lambda>_.
     orFail (\<lambda>e. GroupWrap ''failed to build dependency graph'' (GroupBuilder e))
       (buildDependencyGraph (bdFloat B) (bdParse B) (bdCel B) resources) (\<lambda>(d, resources').
     (case TopologicalSort d of
        None \<Rightarrow> Inl GroupPanic
      | Some r \<Rightarrow>
          orFail (\<lambda>e. GroupWrap ''failed to get topological order'' (GroupDag e)) r (\<lambda>topologicalOrder.
            Inr ((\<lparr>graphDAG = d, graphInstance = inst, graphResources = resources', graphOrder = topologicalOrder\<rparr>, crd), k2)))))))))"

section \<open>Lemmas\<close>

lemma orFail_Inr: "orFail f r k = Inr y \<longleftrightarrow> (\<exists>x. r = Inr x \<and> k x = Inr y)"
  by (cases r) (simp_all add: orFail_def)

lemma orFailNone_Inr: "orFailNone f r k = Inr y \<longleftrightarrow> r = None \<and> k = Inr y"
  by (cases r) (simp_all add: orFailNone_def)

lemmas orFail_simps = orFail_Inr orFailNone_Inr

lemma list_all2_right: "list_all2 P xs ys \<Longrightarrow> y \<in> set ys \<Longrightarrow> \<exists>x \<in> set xs. P x y"
  by (induction rule: list_all2_induct) auto

text \<open>What a resource keeps of its definition.\<close>

definition builtFrom :: "builder \<Rightarrow> RGResource \<Rightarrow> Resource \<Rightarrow> bool" where
  "builtFrom B r res \<longleftrightarrow> resId res = rgID r \<and> resDependencies res = [] \<and> bdUnmarshal B (rgTemplate r) = Inr (originalObject res)
     \<and> ParseConditionExpressions (rgReadyWhen r) = Inr (readyWhenExpressions res)
     \<and> ParseConditionExpressions (rgIncludeWhen r) = Inr (includeWhenExpressions res)
     \<and> list_all (\<lambda>v. Kind v = ResourceVariableKindStatic \<and> Dependencies v = []) (resVariables res)"

lemma emulateAndParse_static:
  "emulateAndParse B gvk sch obj k = Inr ((em, vs), k') \<Longrightarrow> list_all (\<lambda>v. Kind v = ResourceVariableKindStatic \<and> Dependencies v = []) vs"
  by (auto simp: emulateAndParse_def orFail_simps split_beta list_all_iff staticVariable_def FieldDescriptor.defs ResourceField.defs
      split: if_splits)

lemma buildRGResource_Inr: "buildRGResource B nk r k = Inr (res, k') \<Longrightarrow> builtFrom B r res"
  by (auto simp: buildRGResource_def orFail_simps builtFrom_def split_beta dest!: emulateAndParse_static)

text \<open>The loop over the resources.\<close>

lemma buildResources_Inr:
  assumes "foldRes (\<lambda>r (resources, k). orFail (GroupWrap (m r)) (buildRGResource B nk r k)
      (\<lambda>(res, k1). Inr (AList.update (rgID r) res resources, k1))) rs (acc, k) = Inr (resources, k')"
    and "distinct (map rgID rs)" and "fst ` set acc \<inter> rgID ` set rs = {}"
  shows "\<exists>new. resources = acc @ new \<and> list_all2 (\<lambda>r x. fst x = rgID r \<and> builtFrom B r (snd x)) rs new"
  using assms
proof (induction rs arbitrary: acc k)
  case (Cons r rs)
  then obtain res k1 where r: "buildRGResource B nk r k = Inr (res, k1)"
    and rest: "foldRes (\<lambda>r (resources, k). orFail (GroupWrap (m r)) (buildRGResource B nk r k)
      (\<lambda>(res, k1). Inr (AList.update (rgID r) res resources, k1))) rs (AList.update (rgID r) res acc, k1) = Inr (resources, k')"
    by (auto simp: orFail_def split: sum.splits)
  have upd: "AList.update (rgID r) res acc = acc @ [(rgID r, res)]" using Cons.prems(3) by (intro update_fresh) auto
  obtain new where "resources = (acc @ [(rgID r, res)]) @ new"
    "list_all2 (\<lambda>r x. fst x = rgID r \<and> builtFrom B r (snd x)) rs new"
    using Cons.IH [OF rest] Cons.prems(2,3) upd by auto
  then show ?case using buildRGResource_Inr [OF r] by (intro exI [of _ "(rgID r, res) # new"]) simp
qed simp

text \<open>The variables of an instance are dynamic fields of its status.\<close>

definition statusVariable :: "ResourceField \<Rightarrow> bool" where
  "statusVariable v \<longleftrightarrow> hasPrefix (Path v) ''status.'' \<and> Kind v = ResourceVariableKindDynamic \<and> Dependencies v \<noteq> [] \<and>
     ''schema'' \<notin> set (Dependencies v)"

lemma addDependency_variables: "resVariables (addDependencies deps inst) = resVariables inst \<and> resGvr (addDependencies deps inst) = resGvr inst"
  by (induction deps arbitrary: inst) (simp_all add: addDependencies_def addDependency_def)

lemma statusVariables_Inr:
  assumes "foldRes (statusVariableStep B env names) fds inst = Inr inst'" and "list_all statusVariable (resVariables inst)"
  shows "list_all statusVariable (resVariables inst') \<and> resGvr inst' = resGvr inst"
proof -
  let ?P = "\<lambda>t. list_all statusVariable (resVariables t) \<and> resGvr t = resGvr inst"
  have step: "?P t'"
    if "list_all statusVariable (resVariables t) \<and> resGvr t = resGvr inst" "statusVariableStep B env names fd t = Inr t'" for fd t t'
    using that addDependency_variables extractDependencies_static extractDependencies_schema
    by (auto simp: statusVariableStep_def orFail_simps statusVariable_def FieldDescriptor.defs ResourceField.defs
        split: list.splits if_splits)
  show ?thesis by (rule foldRes_invariant [where P = ?P, OF assms(1)]) (use assms(2) step in blast)+
qed

lemma crd_status_fields:
  assumes "crd = SynthesizeCRD pl v kind spec status True"
  shows "lookupField (crdSchema crd) [''status'', ''state''] \<noteq> None" "lookupField (crdSchema crd) [''status'', ''conditions''] \<noteq> None"
    "lookupField (crdSchema crd) [''spec''] = Some spec" "crdKind crd = kind"
  using assms
  by (auto simp: SynthesizeCRD_def newCRD_def newCRDSchema_def objectOf_def addMissing_def Let_def gomap_simps split: option.splits)

lemma buildInstance_Inr:
  assumes "buildInstanceResource B sch resources k = Inr ((inst, crd), k')"
  shows "list_all statusVariable (resVariables inst) \<and>
    resGvr inst = GVKtoGVR (bdPluralize B) (GetResourceGroupInstanceGVK (rgAPIVersion sch) (rgKind sch)) \<and>
    (\<exists>spec status. buildInstanceSpecSchema B sch = Inr spec \<and>
      crd = SynthesizeCRD (bdPluralize B) (rgAPIVersion sch) (rgKind sch) spec status True)"
proof -
  from assms obtain spec status env names fds inst0 where
    fold: "foldRes (statusVariableStep B env names) fds inst0 = Inr inst" and
    inst0: "resVariables inst0 = []" "resGvr inst0 = GVKtoGVR (bdPluralize B) (GetResourceGroupInstanceGVK (rgAPIVersion sch) (rgKind sch))" and
    crd: "buildInstanceSpecSchema B sch = Inr spec" "crd = SynthesizeCRD (bdPluralize B) (rgAPIVersion sch) (rgKind sch) spec status True"
    unfolding buildInstanceResource_def Let_def orFail_simps split_beta by force
  from statusVariables_Inr [OF fold] inst0 crd show ?thesis by auto
qed

text \<open>The steps of a successful build.\<close>

lemma NewResourceGroup_Inr:
  assumes "NewResourceGroup B rg k = Inr ((g, crd), k')"
  obtains nk resources k1 where
    "validateResourceGroupNamingConventions rg = None"
    "foldRes (\<lambda>r (resources, k). orFail (GroupWrap (''failed to build resource '' @ rgID r)) (buildRGResource B nk r k)
        (\<lambda>(res, k1). Inr (AList.update (rgID r) res resources, k1))) (rgResources rg) ([], k) = Inr (resources, k1)"
    "buildInstanceResource B (rgSchema rg) resources k1 = Inr ((graphInstance g, crd), k')"
    "validateResourceCELExpressions (bdFloat B) (bdParse B) (bdCel B) resources (graphInstance g) = Inr ()"
    "buildDependencyGraph (bdFloat B) (bdParse B) (bdCel B) resources = Inr (graphDAG g, graphResources g)"
    "TopologicalSort (graphDAG g) = Some (Inr (graphOrder g))"
  using assms unfolding NewResourceGroup_def orFail_simps split_beta
  by (auto simp: orFail_simps split: option.splits)

lemma built_resources:
  assumes "list_all2 (\<lambda>r x. fst x = rgID r \<and> builtFrom B r (snd x)) rs resources"
    and "list_all2 (resourceBuilt ff parse names) resources resources'"
  shows "map fst resources' = map rgID rs" and "map fst resources = map rgID rs"
    and "\<And>n res. (n, res) \<in> set resources' \<Longrightarrow>
      \<exists>r \<in> set rs. n = rgID r \<and> resId res = n \<and> bdUnmarshal B (rgTemplate r) = Inr (originalObject res)"
    and "\<And>n res. (n, res) \<in> set resources' \<Longrightarrow>
      \<exists>res0. (n, res0) \<in> set resources \<and> set (resDependencies res) = resourceDeps ff parse names res0"
proof -
  let ?P = "\<lambda>r y. fst y = rgID r \<and> resId (snd y) = fst y \<and> bdUnmarshal B (rgTemplate r) = Inr (originalObject (snd y))"
  have "?P r y" if "fst x = rgID r \<and> builtFrom B r (snd x)" "resourceBuilt ff parse names x y" for r x y
  proof -
    have "resId (snd y) = resId (snd x)" "originalObject (snd y) = originalObject (snd x)"
      using that(2) unfolding resourceBuilt_def by (metis Resource.select_convs(1,5) Resource.surjective Resource.update_convs(7,8))+
    then show ?thesis using that by (simp add: resourceBuilt_def builtFrom_def)
  qed
  then have built: "list_all2 ?P rs resources'" by (rule list_all2_trans [OF _ assms])
  show "map fst resources' = map rgID rs" using built by (induction rule: list_all2_induct) simp_all
  show "map fst resources = map rgID rs" using assms(1) by (induction rule: list_all2_induct) simp_all
  show "\<exists>r \<in> set rs. n = rgID r \<and> resId res = n \<and> bdUnmarshal B (rgTemplate r) = Inr (originalObject res)"
    if "(n, res) \<in> set resources'" for n res
    using built that by (induction rule: list_all2_induct) auto
  have "\<forall>x \<in> set resources. resDependencies (snd x) = []"
    using assms(1) by (induction rule: list_all2_induct) (auto simp: builtFrom_def)
  with assms(2) show "\<exists>res0. (n, res0) \<in> set resources \<and> set (resDependencies res) = resourceDeps ff parse names res0"
    if "(n, res) \<in> set resources'" for n res
    using that by (induction rule: list_all2_induct) (auto simp: resourceBuilt_def)
qed

text \<open>The resources of a group that is built, and their order.\<close>

lemma built_group_order:
  assumes "NewResourceGroup B rg k = Inr ((g, crd), k')"
  shows "distinct (map rgID (rgResources rg))" "map fst (graphResources g) = map rgID (rgResources rg)"
    "\<And>n res. (n, res) \<in> set (graphResources g) \<Longrightarrow> \<exists>r \<in> set (rgResources rg). n = rgID r \<and> resId res = n \<and>
      bdUnmarshal B (rgTemplate r) = Inr (originalObject res)"
    "distinct (graphOrder g)" "set (graphOrder g) = rgID ` set (rgResources rg)"
    "\<And>n res x ys zs. (n, res) \<in> set (graphResources g) \<Longrightarrow> x \<in> set (resDependencies res) \<Longrightarrow>
      graphOrder g = ys @ n # zs \<Longrightarrow> x \<in> set ys"
proof -
  obtain nk resources k1 where
    naming: "validateResourceGroupNamingConventions rg = None" and
    res: "foldRes (\<lambda>r (resources, k). orFail (GroupWrap (''failed to build resource '' @ rgID r)) (buildRGResource B nk r k)
        (\<lambda>(res, k1). Inr (AList.update (rgID r) res resources, k1))) (rgResources rg) ([], k) = Inr (resources, k1)" and
    graph: "buildDependencyGraph (bdFloat B) (bdParse B) (bdCel B) resources = Inr (graphDAG g, graphResources g)" and
    sort: "TopologicalSort (graphDAG g) = Some (Inr (graphOrder g))"
    by (rule NewResourceGroup_Inr [OF assms])
  show ids: "distinct (map rgID (rgResources rg))"
    using naming by (auto simp: validateResourceGroupNamingConventions_def validIDs_iff split: if_splits)
  have from_def: "list_all2 (\<lambda>r x. fst x = rgID r \<and> builtFrom B r (snd x)) (rgResources rg) resources"
    using buildResources_Inr [OF res ids] by simp
  note built = buildDependencyGraph_Inr [OF graph]
  let ?names = "map fst resources @ [''schema'']"
  have rs': "list_all2 (resourceBuilt (bdFloat B) (bdParse B) ?names) resources (graphResources g)" using built by blast
  note rs = built_resources [OF from_def rs']
  show "map fst (graphResources g) = map rgID (rgResources rg)" by (rule rs(1))
  show "\<exists>r \<in> set (rgResources rg). n = rgID r \<and> resId res = n \<and> bdUnmarshal B (rgTemplate r) = Inr (originalObject res)"
    if "(n, res) \<in> set (graphResources g)" for n res using rs(3) [OF that] .
  have order: "topoOrder (graphDAG g) = Some (graphOrder g)" "distinct (graphOrder g)" "set (graphOrder g) = vertexNames (graphDAG g)"
    using TopologicalSort_correct [of "graphDAG g"] built sort by (auto simp: topoOrder_def)
  show "distinct (graphOrder g)" by (rule order(2))
  show "set (graphOrder g) = rgID ` set (rgResources rg)" using order(3) built rs(2) by (metis list.set_map)
  show "x \<in> set ys" if dep: "(n, r) \<in> set (graphResources g)" "x \<in> set (resDependencies r)" "graphOrder g = ys @ n # zs" for n r x ys zs
  proof -
    obtain r0 where "(n, r0) \<in> set resources" "set (resDependencies r) = resourceDeps (bdFloat B) (bdParse B) ?names r0"
      using rs(4) [OF dep(1)] by blast
    then have "(n, x) \<in> edgeRel (graphDAG g)" using built dep(2) by force
    then show ?thesis using topo.deps_before [OF _ order(1) dep(3)] built by blast
  qed
qed

text \<open>The fields of a group that is built: the dynamic ones are those that depend on a resource.\<close>

lemma built_group_fields:
  assumes "NewResourceGroup B rg k = Inr ((g, crd), k')"
  shows "''instance'' \<notin> rgID ` set (rgResources rg)" "list_all statusVariable (resVariables (graphInstance g))"
    "\<And>n res v. (n, res) \<in> set (graphResources g) \<Longrightarrow> v \<in> set (resVariables res) \<Longrightarrow>
      (Kind v = ResourceVariableKindDynamic \<longleftrightarrow> Dependencies v \<noteq> []) \<and>
      set (Dependencies v) \<subseteq> set (resDependencies res) \<and> ''schema'' \<notin> set (Dependencies v)"
proof -
  obtain nk resources k1 where
    naming: "validateResourceGroupNamingConventions rg = None" and
    res: "foldRes (\<lambda>r (resources, k). orFail (GroupWrap (''failed to build resource '' @ rgID r)) (buildRGResource B nk r k)
        (\<lambda>(res, k1). Inr (AList.update (rgID r) res resources, k1))) (rgResources rg) ([], k) = Inr (resources, k1)" and
    inst: "buildInstanceResource B (rgSchema rg) resources k1 = Inr ((graphInstance g, crd), k')" and
    graph: "buildDependencyGraph (bdFloat B) (bdParse B) (bdCel B) resources = Inr (graphDAG g, graphResources g)"
    by (rule NewResourceGroup_Inr [OF assms])
  have ids: "distinct (map rgID (rgResources rg))" "\<forall>r \<in> set (rgResources rg). \<not> isKROReservedWord (rgID r)"
    using naming by (auto simp: validateResourceGroupNamingConventions_def validIDs_iff split: if_splits)
  moreover have "isKROReservedWord ''instance''" by code_simp
  ultimately show "''instance'' \<notin> rgID ` set (rgResources rg)" by force
  show "list_all statusVariable (resVariables (graphInstance g))" using buildInstance_Inr [OF inst] by blast
  have static: "list_all (\<lambda>v. Kind v = ResourceVariableKindStatic \<and> Dependencies v = []) (resVariables (snd x))"
    if "x \<in> set resources" for x
  proof -
    have "list_all2 (\<lambda>r x. fst x = rgID r \<and> builtFrom B r (snd x)) (rgResources rg) resources"
      using buildResources_Inr [OF res ids(1)] by simp
    from list_all2_right [OF this that] show ?thesis by (auto simp: builtFrom_def)
  qed
  fix n r v
  assume r: "(n, r) \<in> set (graphResources g)" and v: "v \<in> set (resVariables r)"
  have "list_all2 (resourceBuilt (bdFloat B) (bdParse B) (map fst resources @ [''schema''])) resources (graphResources g)"
    using buildDependencyGraph_Inr [OF graph] by blast
  from list_all2_right [OF this r] obtain x where x: "x \<in> set resources" "resourceBuilt (bdFloat B) (bdParse B) (map fst resources @ [''schema'']) x (n, r)"
    by blast
  have built: "list_all2 (\<lambda>v. variableGrown v (variableDeps (bdFloat B) (bdParse B) (map fst resources @ [''schema'']) v))
      (resVariables (snd x)) (resVariables r)"
    "resourceDeps (bdFloat B) (bdParse B) (map fst resources @ [''schema'']) (snd x) \<subseteq> set (resDependencies r)"
    using x(2) unfolding resourceBuilt_def snd_conv by blast+
  from list_all2_right [OF built(1) v] obtain v0 where v0: "v0 \<in> set (resVariables (snd x))"
      "variableGrown v0 (variableDeps (bdFloat B) (bdParse B) (map fst resources @ [''schema'']) v0) v"
    by blast
  have "Kind v0 = ResourceVariableKindStatic" "Dependencies v0 = []" using static [OF x(1)] v0(1) by (auto simp: list_all_iff)
  then have "set (Dependencies v) = variableDeps (bdFloat B) (bdParse B) (map fst resources @ [''schema'']) v0"
    "Kind v = ResourceVariableKindDynamic \<longleftrightarrow> Dependencies v \<noteq> []"
    using v0(2) by (auto simp: variableGrown_def)
  then show "(Kind v = ResourceVariableKindDynamic \<longleftrightarrow> Dependencies v \<noteq> []) \<and>
      set (Dependencies v) \<subseteq> set (resDependencies r) \<and> ''schema'' \<notin> set (Dependencies v)"
    using built(2) v0(1) by (auto simp: resourceDeps_def variableDeps_def exprDeps_schema)
qed

lemma built_group_gvr:
  assumes "NewResourceGroup B rg k = Inr ((g, crd), k')"
  shows "resGvr (graphInstance g) = GVKtoGVR (bdPluralize B) (GetResourceGroupInstanceGVK (rgAPIVersion (rgSchema rg)) (rgKind (rgSchema rg)))"
proof -
  obtain nk resources k1 where inst: "buildInstanceResource B (rgSchema rg) resources k1 = Inr ((graphInstance g, crd), k')"
    by (rule NewResourceGroup_Inr [OF assms])
  then show ?thesis using buildInstance_Inr [OF inst] by blast
qed

section \<open>Properties\<close>

text \<open>
  C5. A resource group that is built is sound. Its resources are those of the definition, one for each
  identifier and with the objects of the templates; the creation order holds each of them once and puts
  every resource after all of its dependencies; the instance is served under the group and version of
  its definition, its status fields depend on resources; and the definition that is installed has the
  spec of the group and the status fields that kro writes.
\<close>

theorem resource_group_built:
  assumes "NewResourceGroup B rg k = Inr ((g, crd), k')"
  shows "distinct (map rgID (rgResources rg)) \<and> map fst (graphResources g) = map rgID (rgResources rg) \<and>
    (\<forall>(n, res) \<in> set (graphResources g). \<exists>r \<in> set (rgResources rg). n = rgID r \<and> resId res = n \<and>
      bdUnmarshal B (rgTemplate r) = Inr (originalObject res)) \<and>
    distinct (graphOrder g) \<and> set (graphOrder g) = rgID ` set (rgResources rg) \<and>
    (\<forall>n res x ys zs. (n, res) \<in> set (graphResources g) \<longrightarrow> x \<in> set (resDependencies res) \<longrightarrow>
      graphOrder g = ys @ n # zs \<longrightarrow> x \<in> set ys) \<and>
    resGvr (graphInstance g) = GVKtoGVR (bdPluralize B) (GetResourceGroupInstanceGVK (rgAPIVersion (rgSchema rg)) (rgKind (rgSchema rg))) \<and>
    list_all statusVariable (resVariables (graphInstance g)) \<and>
    lookupField (crdSchema crd) [''spec''] = (case buildInstanceSpecSchema B (rgSchema rg) of Inr p \<Rightarrow> Some p | Inl _ \<Rightarrow> None) \<and>
    lookupField (crdSchema crd) [''status'', ''state''] \<noteq> None \<and> lookupField (crdSchema crd) [''status'', ''conditions''] \<noteq> None"
proof -
  obtain nk resources k1 where inst: "buildInstanceResource B (rgSchema rg) resources k1 = Inr ((graphInstance g, crd), k')"
    by (rule NewResourceGroup_Inr [OF assms])
  obtain spec status where "buildInstanceSpecSchema B (rgSchema rg) = Inr spec"
    "crd = SynthesizeCRD (bdPluralize B) (rgAPIVersion (rgSchema rg)) (rgKind (rgSchema rg)) spec status True"
    using buildInstance_Inr [OF inst] by blast
  then show ?thesis
    using built_group_order [OF assms] buildInstance_Inr [OF inst]
      crd_status_fields(1-3) [of crd "bdPluralize B" "rgAPIVersion (rgSchema rg)" "rgKind (rgSchema rg)" spec status]
    by fastforce
qed

section \<open>A concrete group\<close>

definition netObject :: "string \<Rightarrow> string \<Rightarrow> val gomap" where
  "netObject kind name =
     [(''apiVersion'', VStr ''v1''), (''kind'', VStr kind), (''metadata'', VMap []), (''spec'', VMap [(''name'', VStr name)])]"

definition netSchema :: schema where
  "netSchema =
     (let str = withType [''string''] emptySchema; obj = (\<lambda>ps. Schema [''object''] (Some ps) None None [] [] [] None None None None) in
      obj [(''apiVersion'', str), (''kind'', str), (''metadata'', obj []), (''spec'', obj [(''name'', str)]), (''status'', obj [(''id'', str)])])"

definition netBuilder :: builder where
  "netBuilder =
     \<lparr>bdFloat = (\<lambda>w. []), bdParse = sampleBuildParse,
      bdCel = \<lparr>celNewEnv = (\<lambda>ids. None), celCompile = (\<lambda>env e. None), celProgram = (\<lambda>env e. None),
               celEval = (\<lambda>env e ctxt. Inr (RString ''x''))\<rparr>,
      bdUnmarshal = (\<lambda>raw. if raw = ''vpc'' then Inr (netObject ''Vpc'' ''${schema.spec.name}'')
                      else if raw = ''subnet'' then Inr (netObject ''Subnet'' ''${vpc.status.id}'')
                      else if raw = ''spec'' then Inr [(''name'', VStr ''string'')]
                      else if raw = ''status'' then Inr [(''vpcID'', VStr ''${vpc.status.id}'')]
                      else Inl ''invalid''),
      bdParseGroupVersion = (\<lambda>s. Inr ([], s)),
      bdFromAPIVersionAndKind = (\<lambda>gv kind. \<lparr>gvkGroup = [], gvkVersion = gv, gvkKind = kind\<rparr>),
      bdResolveSchema = (\<lambda>gvk. Inr (Some netSchema)),
      bdNamespacedResources = Inr [(''v1'', [(''Subnet'', True)])],
      bdRand = \<lparr>draw = (\<lambda>k n. 0), floatIn = (\<lambda>k lo hi. lo)\<rparr>,
      bdSetters = \<lparr>setAPIVersion = (\<lambda>v. AList.update ''apiVersion'' (VStr v)), setKind = (\<lambda>v. AList.update ''kind'' (VStr v)),
                   setName = (\<lambda>v. AList.update ''metadata'' (VMap [(''name'', VStr v)])), setNamespace = (\<lambda>v m. m),
                   gvString = (\<lambda>g v. v)\<rparr>,
      bdPluralize = (\<lambda>s. s @ ''s'')\<rparr>"

definition netGroup :: ResourceGroup where
  "netGroup =
     \<lparr>rgName = ''net'', rgSchema = \<lparr>rgKind = ''Net'', rgAPIVersion = ''v1alpha1'', rgSpec = ''spec'', rgStatus = ''status''\<rparr>,
      rgResources = [\<lparr>rgID = ''subnet'', rgTemplate = ''subnet'', rgReadyWhen = [], rgIncludeWhen = []\<rparr>,
                     \<lparr>rgID = ''vpc'', rgTemplate = ''vpc'', rgReadyWhen = [], rgIncludeWhen = []\<rparr>],
      rgDefaultServiceAccounts = []\<rparr>"

definition netBuilt :: "(Graph \<times> CustomResourceDefinition) option" where
  "netBuilt = (case NewResourceGroup netBuilder netGroup 0 of Inr (r, _) \<Rightarrow> Some r | Inl _ \<Rightarrow> None)"

lemma netBuilt_order: "map_option (\<lambda>r. graphOrder (fst r)) netBuilt = Some [''vpc'', ''subnet'']"
  by code_simp

theorem resource_group_built_witness:
  "\<exists>g crd k'. NewResourceGroup netBuilder netGroup 0 = Inr ((g, crd), k') \<and> graphOrder g = [''vpc'', ''subnet''] \<and>
     map fst (graphResources g) = [''subnet'', ''vpc''] \<and> lookupField (crdSchema crd) [''status'', ''state''] \<noteq> None"
proof -
  obtain g crd k' where b: "NewResourceGroup netBuilder netGroup 0 = Inr ((g, crd), k')" "graphOrder g = [''vpc'', ''subnet'']"
    using netBuilt_order by (auto simp: netBuilt_def split: sum.splits)
  from resource_group_built [OF b(1)] b show ?thesis by (auto simp: netGroup_def)
qed

section \<open>Where the builder departs from its intention\<close>

text \<open>A field of the status with two expressions depends on the resources of the first one only.\<close>

definition twoExpressions :: FieldDescriptor where
  "twoExpressions =
     \<lparr>Path = ''ids'', Expressions = [''vpc.status.id'', ''subnet.status.id''], ExpectedType = ''any'', ExpectedSchema = None,
      StandaloneExpression = False\<rparr>"

definition twoExpressionParse :: cel_parser where
  "twoExpressionParse env s =
     (if s = ''subnet.status.id'' then Inr (SelectExpr (SelectExpr (IdentExpr ''subnet'') ''status'') ''id'') else sampleBuildParse env s)"

definition emptyInstance :: Resource where
  "emptyInstance =
     \<lparr>resId = ''instance'', resGvr = sampleGvr, resSchema = None, resCrd = None, originalObject = [], emulatedObject = None,
      resVariables = [], resDependencies = [], readyWhenExpressions = [], includeWhenExpressions = [], resNamespaced = False\<rparr>"

lemma status_depends_on_first_expression:
  "case statusVariableStep (netBuilder\<lparr>bdParse := twoExpressionParse\<rparr>) [''vpc'', ''subnet''] [''vpc'', ''subnet''] twoExpressions emptyInstance of
     Inl _ \<Rightarrow> False
   | Inr inst \<Rightarrow> resDependencies inst = [''vpc''] \<and> map Dependencies (resVariables inst) = [[''vpc'']]"
  by code_simp

text \<open>A spec with a field of type \<open>float\<close> cannot be emulated, so its resource group is always rejected.\<close>

lemma float_cannot_be_emulated:
  "generateValue R (ConvertJSONSchemaPropsToSpecSchema (leafSchema (Atomic ''float'') [])) k = Inl (EmuError ''unsupported type: float'')"
  by (subst generateValue.simps) (simp add: leafSchema_def lastValue_def typed_def)

end
