(* ===== verification/Group_Controller.thy ===== *)
theory Group_Controller
  imports Resource_Group Dynamic_Controller Instance_Controller
begin

text \<open>
  The controller of resource groups, \<open>src/internal/controller/resourcegroup/\<close>, with the conditions of
  \<open>src/api/v1alpha1/conditions.go\<close> and the client of resource definitions \<open>src/pkg/client/crd.go\<close>: one call
  of \<open>Reconcile\<close> builds the graph of a group, installs the definition of its instances and registers the
  controller of the instances, or takes all of this back when the group is deleted.

  The API server is the world of the dynamic controller; clients are records of functions. The
  retries of \<open>RetryOnConflict\<close> are an argument. Polling ends after \<open>crdPolls\<close> attempts, the number that fits
  into the timeout. An error of the builder that stands for a panic ends the call (\<open>GroupStopped\<close>).
\<close>

section \<open>Conditions\<close>

datatype ConditionStatus = ConditionTrue | ConditionFalse | ConditionUnknown

record Condition =
  condType :: string
  condStatus :: ConditionStatus
  LastTransitionTime :: "string option"
  condReason :: "string option"
  condMessage :: "string option"
  condObservedGeneration :: "64 word"

definition NewCondition :: "string \<Rightarrow> string \<Rightarrow> ConditionStatus \<Rightarrow> string \<Rightarrow> string \<Rightarrow> Condition" where
  "NewCondition now t status reason message =
     \<lparr>condType = t, condStatus = status, LastTransitionTime = Some now, condReason = Some reason, condMessage = Some message,
      condObservedGeneration = 0\<rparr>"

fun GetCondition :: "Condition list \<Rightarrow> string \<Rightarrow> Condition option" where
  "GetCondition [] t = None"
| "GetCondition (c # cs) t = (if condType c = t then Some c else GetCondition cs t)"

fun SetCondition :: "Condition list \<Rightarrow> Condition \<Rightarrow> Condition list" where
  "SetCondition [] condition = [condition]"
| "SetCondition (c # cs) condition = (if condType c = condType condition then condition # cs else c # SetCondition cs condition)"

definition HasCondition :: "Condition list \<Rightarrow> string \<Rightarrow> bool" where
  "HasCondition cs t = (GetCondition cs t \<noteq> None)"

section \<open>Resource definitions\<close>

record 'w crdClient =
  crdGet :: "string \<Rightarrow> 'w \<Rightarrow> (goerror + (string \<times> string) list) \<times> 'w"
  crdCreate :: "CustomResourceDefinition \<Rightarrow> 'w \<Rightarrow> goerror option \<times> 'w"
  crdPatch :: "string \<Rightarrow> CustomResourceDefinition \<Rightarrow> 'w \<Rightarrow> goerror option \<times> 'w"
  crdRemove :: "string \<Rightarrow> 'w \<Rightarrow> goerror option \<times> 'w"
  crdPolls :: nat

text \<open>\<open>crdGet\<close> returns the types and the states of the conditions of the definition.\<close>

definition established :: "(string \<times> string) list \<Rightarrow> bool" where
  "established conds = list_ex (\<lambda>c. fst c = ''Established'' \<and> snd c = ''True'') conds"

fun pollReady :: "'w crdClient \<Rightarrow> string \<Rightarrow> nat \<Rightarrow> 'w \<Rightarrow> goerror option \<times> 'w" where
  "pollReady K name 0 w = (Some (Errorf ''context deadline exceeded''), w)"
| "pollReady K name (Suc n) w =
     (case crdGet K name w of
        (Inl err, w1) \<Rightarrow> (if IsNotFound err then pollReady K name n w1 else (Some err, w1))
      | (Inr conds, w1) \<Rightarrow> (if established conds then (None, w1) else pollReady K name n w1))"

definition waitForReady :: "'w crdClient \<Rightarrow> string \<Rightarrow> 'w \<Rightarrow> goerror option \<times> 'w" where
  "waitForReady K name w = pollReady K name (crdPolls K) w"

definition Ensure :: "'w crdClient \<Rightarrow> CustomResourceDefinition \<Rightarrow> 'w \<Rightarrow> goerror option \<times> 'w" where
  "Ensure K crd w =
     (case crdGet K (crdName crd) w of
        (Inl err, w1) \<Rightarrow>
          (if \<not> IsNotFound err then (Some (ErrorfWrap ''failed to check for existing CRD'' err), w1)
           else case crdCreate K crd w1 of
                  (Some e, w2) \<Rightarrow> (Some (ErrorfWrap ''failed to create CRD'' e), w2)
                | (None, w2) \<Rightarrow> waitForReady K (crdName crd) w2)
      | (Inr _, w1) \<Rightarrow>
          (case crdPatch K (crdName crd) crd w1 of
             (Some e, w2) \<Rightarrow> (Some (ErrorfWrap ''failed to patch CRD'' e), w2)
           | (None, w2) \<Rightarrow> waitForReady K (crdName crd) w2))"

definition Delete :: "'w crdClient \<Rightarrow> string \<Rightarrow> 'w \<Rightarrow> goerror option \<times> 'w" where
  "Delete K name w =
     (case crdRemove K name w of
        (Some err, w1) \<Rightarrow> (if \<not> IsNotFound err then (Some (ErrorfWrap ''failed to delete CRD'' err), w1) else (None, w1))
      | (None, w1) \<Rightarrow> (None, w1))"

section \<open>Resource groups\<close>

record ResourceInformation =
  infoID :: string
  infoDependencies :: "string list"

record ResourceGroupStatus =
  statusState :: string
  statusOrder :: "string list"
  statusConditions :: "Condition list"
  statusResources :: "ResourceInformation list"

record RGObject =
  rgMeta :: ObjectMeta
  rgDeleting :: bool
  rgDefinition :: ResourceGroup
  rgStatusField :: ResourceGroupStatus

record 'w rgClient =
  rgGet :: "string \<Rightarrow> string \<Rightarrow> 'w \<Rightarrow> (goerror + RGObject) \<times> 'w"
  rgPatch :: "RGObject \<Rightarrow> RGObject \<Rightarrow> 'w \<Rightarrow> goerror option \<times> 'w"
  rgStatusPatch :: "RGObject \<Rightarrow> RGObject \<Rightarrow> 'w \<Rightarrow> goerror option \<times> 'w"
  retryOnConflict :: "('w \<Rightarrow> goerror option \<times> 'w) \<Rightarrow> 'w \<Rightarrow> goerror option \<times> 'w"

datatype rg_error = GraphError group_error | CrdError goerror | MicroControllerError goerror | PlainError string

datatype group_stop = GroupFailed rg_error | GroupStopped

record 'w ResourceGroupReconciler =
  rrBuilder :: builder
  rrClient :: "'w rgClient"
  rrCrd :: "'w crdClient"
  rrInformers :: "'w informerLib"
  rrDynamic :: "'w dynClient"
  rrImpersonate :: "string \<Rightarrow> string + 'w dynClient"
  rrAllowCRDDeletion :: bool
  rrLabeler :: labeler
  rrErrorText :: "rg_error \<Rightarrow> string"
  rrRuntimeText :: "runtime_error \<Rightarrow> string"
  rrLib :: unstructuredLib
  rrNow :: string

record ('w, 'q) groupState =
  gsController :: "('w, 'q) DynamicController"
  gsDraws :: nat

definition onWorld :: "('w \<Rightarrow> goerror option \<times> 'w) \<Rightarrow> ('w, 'q) groupState \<Rightarrow> goerror option \<times> ('w, 'q) groupState" where
  "onWorld f s =
     (case f (dcWorld (gsController s)) of (r, w) \<Rightarrow> (r, s\<lparr>gsController := (gsController s)\<lparr>dcWorld := w\<rparr>\<rparr>))"

subsection \<open>Status\<close>

definition newReconcilerReadyCondition :: "string \<Rightarrow> ConditionStatus \<Rightarrow> string \<Rightarrow> Condition" where
  "newReconcilerReadyCondition now status reason = NewCondition now ''ReconcilerReady'' status reason ''micro controller is ready''"

definition newGraphVerifiedCondition :: "string \<Rightarrow> ConditionStatus \<Rightarrow> string \<Rightarrow> Condition" where
  "newGraphVerifiedCondition now status reason = NewCondition now ''GraphVerified'' status reason ''Directed Acyclic Graph is synced''"

definition newCustomResourceDefinitionSyncedCondition :: "string \<Rightarrow> ConditionStatus \<Rightarrow> string \<Rightarrow> Condition" where
  "newCustomResourceDefinitionSyncedCondition now status reason =
     NewCondition now ''CustomResourceDefinitionSynced'' status reason ''Custom Resource Definition is synced''"

record StatusProcessor =
  spConditions :: "Condition list"
  spState :: string

definition NewStatusProcessor :: StatusProcessor where
  "NewStatusProcessor = \<lparr>spConditions = [], spState = ''Active''\<rparr>"

definition setDefaultConditions :: "string \<Rightarrow> StatusProcessor \<Rightarrow> StatusProcessor" where
  "setDefaultConditions now sp =
     sp\<lparr>spConditions := [newReconcilerReadyCondition now ConditionTrue [], newGraphVerifiedCondition now ConditionTrue [],
        newCustomResourceDefinitionSyncedCondition now ConditionTrue []]\<rparr>"

definition processGraphError :: "string \<Rightarrow> string \<Rightarrow> StatusProcessor \<Rightarrow> StatusProcessor" where
  "processGraphError now err sp =
     sp\<lparr>spConditions := [newGraphVerifiedCondition now ConditionFalse err, newReconcilerReadyCondition now ConditionUnknown ''Faulty Graph'',
        newCustomResourceDefinitionSyncedCondition now ConditionUnknown ''Faulty Graph''], spState := ''Inactive''\<rparr>"

definition processCRDError :: "string \<Rightarrow> string \<Rightarrow> StatusProcessor \<Rightarrow> StatusProcessor" where
  "processCRDError now err sp =
     sp\<lparr>spConditions := [newGraphVerifiedCondition now ConditionTrue [], newCustomResourceDefinitionSyncedCondition now ConditionFalse err,
        newReconcilerReadyCondition now ConditionUnknown ''CRD not-synced''], spState := ''Inactive''\<rparr>"

definition processMicroControllerError :: "string \<Rightarrow> string \<Rightarrow> StatusProcessor \<Rightarrow> StatusProcessor" where
  "processMicroControllerError now err sp =
     sp\<lparr>spConditions := [newGraphVerifiedCondition now ConditionTrue [], newCustomResourceDefinitionSyncedCondition now ConditionTrue [],
        newReconcilerReadyCondition now ConditionFalse err], spState := ''Inactive''\<rparr>"

definition processStatus :: "'w ResourceGroupReconciler \<Rightarrow> rg_error option \<Rightarrow> StatusProcessor option" where
  "processStatus R err =
     (case err of
        None \<Rightarrow> Some (setDefaultConditions (rrNow R) NewStatusProcessor)
      | Some e \<Rightarrow>
          (case e of
             GraphError _ \<Rightarrow> Some (processGraphError (rrNow R) (rrErrorText R e) NewStatusProcessor)
           | CrdError _ \<Rightarrow> Some (processCRDError (rrNow R) (rrErrorText R e) NewStatusProcessor)
           | MicroControllerError _ \<Rightarrow> Some (processMicroControllerError (rrNow R) (rrErrorText R e) NewStatusProcessor)
           | PlainError _ \<Rightarrow> None))"

definition setResourceGroupStatus ::
  "'w ResourceGroupReconciler \<Rightarrow> RGObject \<Rightarrow> string list \<Rightarrow> ResourceInformation list \<Rightarrow> rg_error option \<Rightarrow>
   ('w, 'q) groupState \<Rightarrow> goerror option \<times> ('w, 'q) groupState" where
  "setResourceGroupStatus R rg order resources reconcileErr s =
     (case processStatus R reconcileErr of
        None \<Rightarrow> (Some (ErrorfWrap ''unhandled reconciliation error'' (Errorf (case reconcileErr of Some e \<Rightarrow> rrErrorText R e | None \<Rightarrow> []))), s)
      | Some processor \<Rightarrow>
          onWorld (retryOnConflict (rrClient R) (\<lambda>w.
            case rgGet (rrClient R) (metaNamespace (rgMeta rg)) (metaName (rgMeta rg)) w of
              (Inl err, w1) \<Rightarrow> (Some (ErrorfWrap ''failed to get current resource group'' err), w1)
            | (Inr current, w1) \<Rightarrow>
                rgStatusPatch (rrClient R)
                  (current\<lparr>rgStatusField := \<lparr>statusState = spState processor, statusOrder = order,
                     statusConditions = spConditions processor, statusResources = resources\<rparr>\<rparr>) current w1)) s)"

subsection \<open>Finalizer\<close>

definition setGroupManaged :: "'w ResourceGroupReconciler \<Rightarrow> RGObject \<Rightarrow> ('w, 'q) groupState \<Rightarrow> goerror option \<times> ('w, 'q) groupState" where
  "setGroupManaged R rg s =
     (if HasResourceGroupFinalizer objectMeta (rgMeta rg) then (None, s)
      else onWorld (rgPatch (rrClient R) (rg\<lparr>rgMeta := SetResourceGroupFinalizer objectMeta (rgMeta rg)\<rparr>) rg) s)"

definition setGroupUnmanaged :: "'w ResourceGroupReconciler \<Rightarrow> RGObject \<Rightarrow> ('w, 'q) groupState \<Rightarrow> goerror option \<times> ('w, 'q) groupState" where
  "setGroupUnmanaged R rg s =
     (if \<not> HasResourceGroupFinalizer objectMeta (rgMeta rg) then (None, s)
      else onWorld (rgPatch (rrClient R) (rg\<lparr>rgMeta := RemoveResourceGroupFinalizer objectMeta (rgMeta rg)\<rparr>) rg) s)"

subsection \<open>Reconciliation\<close>

fun builderPanics :: "builder_error \<Rightarrow> bool" where
  "builderPanics BuildPanic = True"
| "builderPanics (BuildWrap _ e) = builderPanics e"
| "builderPanics _ = False"

fun parserPanics :: "parser_error \<Rightarrow> bool" where
  "parserPanics ParserPanic = True"
| "parserPanics (ErrorGettingFieldSchema _ e) = parserPanics e"
| "parserPanics _ = False"

fun groupPanics :: "group_error \<Rightarrow> bool" where
  "groupPanics GroupPanic = True"
| "groupPanics (GroupWrap _ e) = groupPanics e"
| "groupPanics (GroupParser e) = parserPanics e"
| "groupPanics (GroupEmulator e) = (e = EmuPanic)"
| "groupPanics (GroupSimple e) = (e = SimplePanic)"
| "groupPanics (GroupSchema e) = (e = SchemaPanic \<or> e = SchemaNoReturn)"
| "groupPanics (GroupBuilder e) = builderPanics e"
| "groupPanics _ = False"

definition setupMicroController ::
  "'w ResourceGroupReconciler \<Rightarrow> GroupVersionResource \<Rightarrow> Graph \<Rightarrow> string gomap \<Rightarrow> labeler \<Rightarrow> 'w Controller" where
  "setupMicroController R gvr processedRG defaultSVCs labeler =
     \<lparr>ctlGvr = gvr, ctlDynamic = rrDynamic R, ctlImpersonate = rrImpersonate R, ctlGraph = processedRG,
      ctlInstanceLabeler = labeler, ctlRequeueDuration = 3 * 1000000000, ctlServiceAccounts = defaultSVCs\<rparr>"

text \<open>The method \<open>Reconcile\<close> of a controller of instances, as a handler.\<close>

definition controllerHandler :: "'w ResourceGroupReconciler \<Rightarrow> 'w Controller \<Rightarrow> 'w handler" where
  "controllerHandler R c req w =
     (case Reconcile (bdFloat (rrBuilder R)) (rrRuntimeText R) (bdCel (rrBuilder R)) (rrLib R) (rrNow R) c req w of
        (w', None) \<Rightarrow> Some (None, w')
      | (w', Some (StopErr e)) \<Rightarrow> Some (Some e, w')
      | (w', Some StopPanic) \<Rightarrow> None)"

definition buildResourceInfo :: "string \<Rightarrow> string list \<Rightarrow> ResourceInformation" where
  "buildResourceInfo name deps = \<lparr>infoID = name, infoDependencies = deps\<rparr>"

definition resourcesInformation :: "Graph \<Rightarrow> ResourceInformation list" where
  "resourcesInformation g =
     map (\<lambda>x. buildResourceInfo (fst x) (resDependencies (snd x))) (filter (\<lambda>x. length (resDependencies (snd x)) > 0) (graphResources g))"

definition setupLabeler :: "'w ResourceGroupReconciler \<Rightarrow> RGObject \<Rightarrow> string + labeler" where
  "setupLabeler R rg = Merge (rrLabeler R) (NewResourceGroupLabeler objectMeta (rgMeta rg))"

definition reconcileResourceGroup ::
  "'w ResourceGroupReconciler \<Rightarrow> RGObject \<Rightarrow> ('w, 'q) groupState \<Rightarrow>
   (string list \<times> ResourceInformation list) \<times> group_stop option \<times> ('w, 'q) groupState" where
  "reconcileResourceGroup R rg s =
     (case NewResourceGroup (rrBuilder R) (rgDefinition rg) (gsDraws s) of
        Inl e \<Rightarrow> (([], []), Some (if groupPanics e then GroupStopped else GroupFailed (GraphError e)), s)
      | Inr ((g, crd), k) \<Rightarrow>
          (let result = (graphOrder g, resourcesInformation g) in
           case onWorld (Ensure (rrCrd R) crd) (s\<lparr>gsDraws := k\<rparr>) of
             (Some err, s1) \<Rightarrow> (result, Some (GroupFailed (CrdError err)), s1)
           | (None, s1) \<Rightarrow>
               (case setupLabeler R rg of
                  Inl err \<Rightarrow> (([], []), Some (GroupFailed (PlainError (''failed to setup labeler: '' @ err))), s1)
                | Inr labeler \<Rightarrow>
                    (let gvr = resGvr (graphInstance g);
                         controller = setupMicroController R gvr g (rgDefaultServiceAccounts (rgDefinition rg)) labeler in
                     case StartServingGVK (rrInformers R) gvr (controllerHandler R controller) (gsController s1) of
                       (Some err, dc) \<Rightarrow> (result, Some (GroupFailed (MicroControllerError err)), s1\<lparr>gsController := dc\<rparr>)
                     | (None, dc) \<Rightarrow> (result, None, s1\<lparr>gsController := dc\<rparr>)))))"

subsection \<open>Cleanup\<close>

definition extractCRDName :: "'w ResourceGroupReconciler \<Rightarrow> string \<Rightarrow> string" where
  "extractCRDName R kind = bdPluralize (rrBuilder R) (toLower kind) @ ''.'' @ KroDomainName"

definition cleanupResourceGroupCRD :: "'w ResourceGroupReconciler \<Rightarrow> string \<Rightarrow> ('w, 'q) groupState \<Rightarrow> goerror option \<times> ('w, 'q) groupState" where
  "cleanupResourceGroupCRD R name s =
     (if \<not> rrAllowCRDDeletion R then (None, s)
      else case onWorld (Delete (rrCrd R) name) s of
             (Some err, s1) \<Rightarrow> (Some (ErrorfWrap ''error deleting CRD'' err), s1)
           | (None, s1) \<Rightarrow> (None, s1))"

definition shutdownResourceGroupMicroController :: "GroupVersionResource \<Rightarrow> ('w, 'q) groupState \<Rightarrow> ('w, 'q) groupState" where
  "shutdownResourceGroupMicroController gvr s = s\<lparr>gsController := StopServiceGVK gvr (gsController s)\<rparr>"

definition cleanupGVR :: "'w ResourceGroupReconciler \<Rightarrow> RGObject \<Rightarrow> GroupVersionResource" where
  "cleanupGVR R rg =
     GetResourceGroupInstanceGVR (bdPluralize (rrBuilder R)) (rgAPIVersion (rgSchema (rgDefinition rg))) (rgKind (rgSchema (rgDefinition rg)))"

definition cleanupResourceGroup :: "'w ResourceGroupReconciler \<Rightarrow> RGObject \<Rightarrow> ('w, 'q) groupState \<Rightarrow> goerror option \<times> ('w, 'q) groupState" where
  "cleanupResourceGroup R rg s =
     (let crdName = extractCRDName R (rgKind (rgSchema (rgDefinition rg))) in
      case cleanupResourceGroupCRD R crdName (shutdownResourceGroupMicroController (cleanupGVR R rg) s) of
        (Some err, s1) \<Rightarrow> (Some (ErrorfWrap (''failed to cleanup CRD '' @ crdName) err), s1)
      | (None, s1) \<Rightarrow> (None, s1))"

datatype group_result = GroupDone "goerror option" | GroupPanicked

definition ReconcileGroup :: "'w ResourceGroupReconciler \<Rightarrow> RGObject \<Rightarrow> ('w, 'q) groupState \<Rightarrow> group_result \<times> ('w, 'q) groupState" where
  "ReconcileGroup R rg s =
     (if rgDeleting rg then
        (case cleanupResourceGroup R rg s of
           (Some err, s1) \<Rightarrow> (GroupDone (Some err), s1)
         | (None, s1) \<Rightarrow> (case setGroupUnmanaged R rg s1 of (r, s2) \<Rightarrow> (GroupDone r, s2)))
      else
        (case setGroupManaged R rg s of
           (Some err, s1) \<Rightarrow> (GroupDone (Some err), s1)
         | (None, s1) \<Rightarrow>
             (case reconcileResourceGroup R rg s1 of
                (_, Some GroupStopped, s2) \<Rightarrow> (GroupPanicked, s2)
              | ((order, info), stop, s2) \<Rightarrow>
                  (case setResourceGroupStatus R rg order info (case stop of Some (GroupFailed e) \<Rightarrow> Some e | _ \<Rightarrow> None) s2 of
                     (r, s3) \<Rightarrow> (GroupDone r, s3)))))"

section \<open>Lemmas\<close>

lemma GetCondition_SetCondition:
  "GetCondition (SetCondition cs c) t = (if t = condType c then Some c else GetCondition cs t)"
  by (induction cs) auto

lemma SetCondition_types: "distinct (map condType cs) \<Longrightarrow> distinct (map condType (SetCondition cs c))"
proof -
  have "set (map condType (SetCondition cs c)) = insert (condType c) (set (map condType cs))" for cs
    by (induction cs) auto
  then show "distinct (map condType cs) \<Longrightarrow> distinct (map condType (SetCondition cs c))"
    by (induction cs) auto
qed

text \<open>A definition that was ensured has been seen as established.\<close>

lemma pollReady_established: "pollReady K name n w = (None, w') \<Longrightarrow> \<exists>w0 conds. crdGet K name w0 = (Inr conds, w') \<and> established conds"
  by (induction n arbitrary: w) (auto split: prod.splits sum.splits if_splits)

lemma Ensure_established:
  assumes "Ensure K crd w = (None, w')"
  shows "\<exists>w0 conds. crdGet K (crdName crd) w0 = (Inr conds, w') \<and> established conds"
  using assms pollReady_established [of K "crdName crd" "crdPolls K"]
  by (auto simp: Ensure_def waitForReady_def split: prod.splits sum.splits option.splits if_splits)

text \<open>\<open>RetryOnConflict\<close> returns what the last call of its function returned.\<close>

definition retries_last :: "'w rgClient \<Rightarrow> bool" where
  "retries_last C \<longleftrightarrow> (\<forall>f w. \<exists>w'. retryOnConflict C f w = f w')"

definition statusWritten :: "'w ResourceGroupReconciler \<Rightarrow> RGObject \<Rightarrow> ResourceGroupStatus \<Rightarrow> 'w \<Rightarrow> bool" where
  "statusWritten R rg st w' \<longleftrightarrow>
     (\<exists>w0 current w1. rgGet (rrClient R) (metaNamespace (rgMeta rg)) (metaName (rgMeta rg)) w0 = (Inr current, w1) \<and>
        rgStatusPatch (rrClient R) (current\<lparr>rgStatusField := st\<rparr>) current w1 = (None, w'))"

text \<open>
  The stage at which the reconciliation of a group ends, started in the state \<open>s\<close>: the builder finds no
  graph, the definition of the instances is not ensured, the labels do not merge, the controller of the instances is
  not started, or the end is reached.
\<close>

datatype group_stage = AtGraph group_error | AtDefinition goerror | AtLabels string | AtController goerror | Completed

definition stageReached :: "'w ResourceGroupReconciler \<Rightarrow> RGObject \<Rightarrow> ('w, 'q) groupState \<Rightarrow> group_stage" where
  "stageReached R rg s =
     (case NewResourceGroup (rrBuilder R) (rgDefinition rg) (gsDraws s) of
        Inl e \<Rightarrow> AtGraph e
      | Inr ((g, crd), k) \<Rightarrow>
          (case Ensure (rrCrd R) crd (dcWorld (gsController s)) of
             (Some e, w) \<Rightarrow> AtDefinition e
           | (None, w) \<Rightarrow>
               (case setupLabeler R rg of
                  Inl e \<Rightarrow> AtLabels e
                | Inr labeler \<Rightarrow>
                    (let gvr = resGvr (graphInstance g);
                         c = setupMicroController R gvr g (rgDefaultServiceAccounts (rgDefinition rg)) labeler in
                     case fst (StartServingGVK (rrInformers R) gvr (controllerHandler R c) ((gsController s)\<lparr>dcWorld := w\<rparr>)) of
                       Some e \<Rightarrow> AtController e
                     | None \<Rightarrow> Completed))))"

text \<open>
  What a status must say of a stage: the state, the three conditions, and as the reason of the condition
  of the stage that failed the text of its error.
\<close>

definition stageStatus :: "'w ResourceGroupReconciler \<Rightarrow> group_stage \<Rightarrow> ResourceGroupStatus \<Rightarrow> bool" where
  "stageStatus R stage st \<longleftrightarrow>
     (let c = GetCondition (statusConditions st);
          says = (\<lambda>t x. map_option condStatus (c t) = Some x);
          because = (\<lambda>t e. map_option condReason (c t) = Some (Some (rrErrorText R e))) in
      length (statusConditions st) = 3 \<and>
      (case stage of
         AtGraph e \<Rightarrow> statusState st = ''Inactive'' \<and> says ''GraphVerified'' ConditionFalse \<and> because ''GraphVerified'' (GraphError e) \<and>
           says ''CustomResourceDefinitionSynced'' ConditionUnknown \<and> says ''ReconcilerReady'' ConditionUnknown
       | AtDefinition e \<Rightarrow> statusState st = ''Inactive'' \<and> says ''GraphVerified'' ConditionTrue \<and>
           says ''CustomResourceDefinitionSynced'' ConditionFalse \<and> because ''CustomResourceDefinitionSynced'' (CrdError e) \<and>
           says ''ReconcilerReady'' ConditionUnknown
       | AtLabels e \<Rightarrow> False
       | AtController e \<Rightarrow> statusState st = ''Inactive'' \<and> says ''GraphVerified'' ConditionTrue \<and>
           says ''CustomResourceDefinitionSynced'' ConditionTrue \<and>
           says ''ReconcilerReady'' ConditionFalse \<and> because ''ReconcilerReady'' (MicroControllerError e)
       | Completed \<Rightarrow> statusState st = ''Active'' \<and> says ''GraphVerified'' ConditionTrue \<and>
           says ''CustomResourceDefinitionSynced'' ConditionTrue \<and> says ''ReconcilerReady'' ConditionTrue))"

definition stageError :: "group_stage \<Rightarrow> rg_error option" where
  "stageError stage =
     (case stage of AtGraph e \<Rightarrow> Some (GraphError e) | AtDefinition e \<Rightarrow> Some (CrdError e)
      | AtLabels e \<Rightarrow> Some (PlainError (''failed to setup labeler: '' @ e))
      | AtController e \<Rightarrow> Some (MicroControllerError e) | Completed \<Rightarrow> None)"

lemmas condition_defs = NewCondition_def newReconcilerReadyCondition_def newGraphVerifiedCondition_def
  newCustomResourceDefinitionSyncedCondition_def setDefaultConditions_def processGraphError_def processCRDError_def
  processMicroControllerError_def NewStatusProcessor_def

lemma processStatus_stage:
  "processStatus R (stageError stage) = Some p \<Longrightarrow>
   stageStatus R stage \<lparr>statusState = spState p, statusOrder = order, statusConditions = spConditions p, statusResources = info\<rparr>"
  by (cases stage) (auto simp: processStatus_def stageError_def stageStatus_def condition_defs)

text \<open>The error of a reconciliation is the one of the stage it reached, and the order and the resources those of the graph.\<close>

definition graphReported :: "'w ResourceGroupReconciler \<Rightarrow> RGObject \<Rightarrow> nat \<Rightarrow> string list \<Rightarrow> ResourceInformation list \<Rightarrow> bool" where
  "graphReported R rg k order info \<longleftrightarrow>
     (case NewResourceGroup (rrBuilder R) (rgDefinition rg) k of
        Inl e \<Rightarrow> order = [] \<and> info = []
      | Inr ((g, crd), k') \<Rightarrow> order = graphOrder g \<and> info = resourcesInformation g)"

lemma reconcile_stage:
  assumes "reconcileResourceGroup R rg s = ((order, info), stop, s')" and "stop \<noteq> Some GroupStopped"
    and "\<And>e. stop \<noteq> Some (GroupFailed (PlainError e))"
  shows "(case stop of Some (GroupFailed e) \<Rightarrow> Some e | _ \<Rightarrow> None) = stageError (stageReached R rg s) \<and>
    graphReported R rg (gsDraws s) order info"
proof (cases "NewResourceGroup (rrBuilder R) (rgDefinition rg) (gsDraws s)")
  case (Inl e)
  then show ?thesis
    using assms(1,2) by (auto simp: reconcileResourceGroup_def stageReached_def graphReported_def stageError_def split: if_splits)
next
  case (Inr r)
  obtain g crd k where r: "r = ((g, crd), k)" by (cases r) auto
  obtain ens w where ens: "Ensure (rrCrd R) crd (dcWorld (gsController s)) = (ens, w)" by fastforce
  show ?thesis
  proof (cases ens)
    case (Some err)
    then show ?thesis
      using assms(1) Inr r ens by (auto simp: reconcileResourceGroup_def stageReached_def graphReported_def stageError_def onWorld_def)
  next
    case None
    show ?thesis
    proof (cases "setupLabeler R rg")
      case (Inl err)
      then show ?thesis
        using assms(1,3) Inr r ens None by (auto simp: reconcileResourceGroup_def onWorld_def)
    next
      case labeler: (Inr l)
      let ?gvr = "resGvr (graphInstance g)"
      let ?c = "setupMicroController R ?gvr g (rgDefaultServiceAccounts (rgDefinition rg)) l"
      obtain e dc where "StartServingGVK (rrInformers R) ?gvr (controllerHandler R ?c) ((gsController s)\<lparr>dcWorld := w\<rparr>) = (e, dc)"
        by fastforce
      then show ?thesis
        using assms(1) Inr r ens None labeler
        by (cases e) (auto simp: reconcileResourceGroup_def stageReached_def graphReported_def stageError_def onWorld_def Let_def)
    qed
  qed
qed

lemma setStatus_written:
  assumes "retries_last (rrClient R)" and "setResourceGroupStatus R rg order info (stageError stage) s = (None, s')"
  shows "\<exists>st. statusWritten R rg st (dcWorld (gsController s')) \<and> stageStatus R stage st \<and> statusOrder st = order \<and>
    statusResources st = info \<and> s' = s\<lparr>gsController := (gsController s)\<lparr>dcWorld := dcWorld (gsController s')\<rparr>\<rparr>"
proof -
  from assms(2) obtain p where p: "processStatus R (stageError stage) = Some p"
    by (auto simp: setResourceGroupStatus_def split: option.splits)
  let ?st = "\<lparr>statusState = spState p, statusOrder = order, statusConditions = spConditions p, statusResources = info\<rparr>"
  let ?f = "\<lambda>w. case rgGet (rrClient R) (metaNamespace (rgMeta rg)) (metaName (rgMeta rg)) w of
              (Inl err, w1) \<Rightarrow> (Some (ErrorfWrap ''failed to get current resource group'' err), w1)
            | (Inr current, w1) \<Rightarrow> rgStatusPatch (rrClient R) (current\<lparr>rgStatusField := ?st\<rparr>) current w1"
  obtain w0 where "retryOnConflict (rrClient R) ?f (dcWorld (gsController s)) = ?f w0"
    using assms(1) unfolding retries_last_def by blast
  then have s': "onWorld (\<lambda>w. ?f w0) s = (None, s')"
    using assms(2) p by (simp add: setResourceGroupStatus_def onWorld_def)
  then have "?f w0 = (None, dcWorld (gsController s'))" "s' = s\<lparr>gsController := (gsController s)\<lparr>dcWorld := dcWorld (gsController s')\<rparr>\<rparr>"
    by (auto simp: onWorld_def split: prod.splits)
  moreover from this(1) have "statusWritten R rg ?st (dcWorld (gsController s'))"
    by (auto simp: statusWritten_def split: prod.splits sum.splits)
  ultimately show ?thesis using processStatus_stage [OF p] by (intro exI [of _ ?st]) simp
qed

lemma start_serves:
  assumes "registered dc" and "StartServingGVK I gvr h dc = (None, dc')"
  shows "map_of (dcHandlers dc') gvr = Some h \<and> gvr \<in> set (dcRunning dc') \<and> registered dc'"
proof -
  have "registered dc'" using registered_start [OF assms] .
  moreover have "map_of (dcHandlers dc') gvr = Some h \<and> map_of (dcInformers dc') gvr \<noteq> None"
    by (cases rule: startServing_cases [OF assms(2)]) (simp_all add: update_conv')
  ultimately show ?thesis by (auto simp: registered_def)
qed

lemma registered_onWorld: "onWorld f s = (r, s') \<Longrightarrow> registered (gsController s') \<longleftrightarrow> registered (gsController s)"
  by (auto simp: onWorld_def registered_def split: prod.splits)

text \<open>What a reconciliation without an error has done.\<close>

definition served :: "'w ResourceGroupReconciler \<Rightarrow> RGObject \<Rightarrow> string list \<Rightarrow> nat \<Rightarrow> ('w, 'q) DynamicController \<Rightarrow> bool" where
  "served R rg order k dc \<longleftrightarrow>
     (\<exists>g crd k' labeler. NewResourceGroup (rrBuilder R) (rgDefinition rg) k = Inr ((g, crd), k') \<and> order = graphOrder g \<and>
        (\<exists>w0 conds w1. crdGet (rrCrd R) (crdName crd) w0 = (Inr conds, w1) \<and> established conds) \<and>
        setupLabeler R rg = Inr labeler \<and> resGvr (graphInstance g) \<in> set (dcRunning dc) \<and>
        map_of (dcHandlers dc) (resGvr (graphInstance g)) =
          Some (controllerHandler R (setupMicroController R (resGvr (graphInstance g)) g (rgDefaultServiceAccounts (rgDefinition rg)) labeler)))"

lemma reconcile_served:
  assumes "registered (gsController s)" and "reconcileResourceGroup R rg s = ((order, info), None, s')"
  shows "served R rg order (gsDraws s) (gsController s')"
proof -
  from assms(2) obtain g crd k where g: "NewResourceGroup (rrBuilder R) (rgDefinition rg) (gsDraws s) = Inr ((g, crd), k)"
    by (auto simp: reconcileResourceGroup_def split: sum.splits)
  obtain r s1 where s1: "onWorld (Ensure (rrCrd R) crd) (s\<lparr>gsDraws := k\<rparr>) = (r, s1)" by (rule prod.exhaust)
  have r: "r = None" using assms(2) g s1 by (auto simp: reconcileResourceGroup_def Let_def split: option.splits)
  obtain labeler where l: "setupLabeler R rg = Inr labeler"
    using assms(2) g s1 r by (auto simp: reconcileResourceGroup_def Let_def split: sum.splits)
  let ?gvr = "resGvr (graphInstance g)"
  let ?h = "controllerHandler R (setupMicroController R ?gvr g (rgDefaultServiceAccounts (rgDefinition rg)) labeler)"
  obtain e dc where dc: "StartServingGVK (rrInformers R) ?gvr ?h (gsController s1) = (e, dc)" by (rule prod.exhaust)
  have end': "e = None" "gsController s' = dc" "order = graphOrder g"
    using assms(2) g s1 r l dc by (auto simp: reconcileResourceGroup_def Let_def split: option.splits)
  have "registered (gsController s1)" using registered_onWorld [OF s1] assms(1) by simp
  from start_serves [OF this] dc end' have "map_of (dcHandlers (gsController s')) ?gvr = Some ?h" "?gvr \<in> set (dcRunning (gsController s'))"
    by auto
  moreover have ens: "Ensure (rrCrd R) crd (dcWorld (gsController s)) = (None, dcWorld (gsController s1))"
    using s1 r by (auto simp: onWorld_def split: prod.splits)
  moreover from Ensure_established [OF ens]
  have "\<exists>w0 conds w1. crdGet (rrCrd R) (crdName crd) w0 = (Inr conds, w1) \<and> established conds" by fast
  ultimately show ?thesis
    using g l end'(3) unfolding served_def by (intro exI [of _ g] exI [of _ crd] exI [of _ k] exI [of _ labeler]) simp
qed

lemma managed_keeps:
  assumes "setGroupManaged R rg s = (r, s')"
  shows "gsDraws s' = gsDraws s \<and> (registered (gsController s') \<longleftrightarrow> registered (gsController s))"
  using assms registered_onWorld
  by (auto simp: setGroupManaged_def onWorld_def registered_def split: if_splits prod.splits)

text \<open>
  The type that cleanup stops has the plural of the kind in its group, the type that was started has not:
  the controller of the instances keeps running after its group is deleted.
\<close>

lemma cleanup_stops_another_type:
  assumes "NewResourceGroup (rrBuilder R) (rgDefinition rg) k = Inr ((g, crd), k')"
  shows "resGvr (graphInstance g) \<noteq> cleanupGVR R rg"
proof -
  have "gvrGroup (cleanupGVR R rg) \<noteq> gvrGroup (GVKtoGVR pl (GetResourceGroupInstanceGVK v kind))" for pl v kind
    by (auto simp: cleanupGVR_def GetResourceGroupInstanceGVR_def GetResourceGroupInstanceGVK_def GVKtoGVR_def
        KroInstancesGroupSuffix_def KroDomainName_def Let_def dest: arg_cong [where f = length])
  moreover obtain nk resources k1 where inst: "buildInstanceResource (rrBuilder R) (rgSchema (rgDefinition rg)) resources k1 = Inr ((graphInstance g, crd), k')"
    by (rule NewResourceGroup_Inr [OF assms(1)])
  ultimately show ?thesis using buildInstance_Inr [OF inst] by metis
qed

lemma stop_keeps_others:
  assumes "gvr \<noteq> stopped"
  shows "gvr \<in> set (dcRunning (StopServiceGVK stopped dc)) \<longleftrightarrow> gvr \<in> set (dcRunning dc)"
    "map_of (dcHandlers (StopServiceGVK stopped dc)) gvr = map_of (dcHandlers dc) gvr"
  using assms by (simp_all add: StopServiceGVK_def map_of_delete in_set_remove1 split: option.splits)

lemma deletion_leaves_controller_running:
  assumes "NewResourceGroup (rrBuilder R) (rgDefinition rg) k = Inr ((g, crd), k')"
    and "resGvr (graphInstance g) \<in> set (dcRunning dc)"
  shows "resGvr (graphInstance g) \<in> set (dcRunning (StopServiceGVK (cleanupGVR R rg) dc))"
  using stop_keeps_others(1) [OF cleanup_stops_another_type [OF assms(1)], of dc] assms(2) by blast

section \<open>Properties\<close>

text \<open>
  C10. The status of a resource group says how its reconciliation ended. When a reconciliation of a group
  that is not deleted returns without an error, its last write is the status of the stage that this very
  run reached after the group was marked as managed: when the builder found no graph, the graph is not
  verified and the rest unknown; when the definition of the instances was not ensured, the graph is
  verified, the definition not synced and the controller unknown; when the controller of the instances
  was not started, it is not ready and the others are fine; in these cases the state is Inactive and the
  condition that failed carries the error. When nothing failed, all is well and the state Active. The
  status has the creation order and the resources of the graph that was found. And when the state is
  Active, the definition was seen as established and the instances of the group are watched, with the
  controller for its graph as their handler.
\<close>

theorem group_status_tells_outcome:
  assumes "\<not> rgDeleting rg" and "retries_last (rrClient R)" and "registered (gsController s)"
    and "ReconcileGroup R rg s = (GroupDone None, s')"
  shows "\<exists>s1 st. setGroupManaged R rg s = (None, s1) \<and> statusWritten R rg st (dcWorld (gsController s')) \<and>
    stageStatus R (stageReached R rg s1) st \<and> graphReported R rg (gsDraws s) (statusOrder st) (statusResources st) \<and>
    (statusState st = ''Active'' \<longrightarrow> served R rg (statusOrder st) (gsDraws s) (gsController s'))"
proof -
  obtain r s1 where s1: "setGroupManaged R rg s = (r, s1)" by (rule prod.exhaust)
  have r: "r = None" using assms(1,4) s1 by (auto simp: ReconcileGroup_def split: option.splits)
  obtain order info stop s2 where s2: "reconcileResourceGroup R rg s1 = ((order, info), stop, s2)"
    by (cases "reconcileResourceGroup R rg s1") auto
  define err where "err = (case stop of Some (GroupFailed e) \<Rightarrow> Some e | _ \<Rightarrow> None)"
  have set: "setResourceGroupStatus R rg order info err s2 = (None, s')" and stop: "stop \<noteq> Some GroupStopped"
    using assms(1,4) s1 r s2 by (auto simp: ReconcileGroup_def err_def split: option.splits group_stop.splits prod.splits)
  have "stop \<noteq> Some (GroupFailed (PlainError e))" for e
    using set by (auto simp: err_def setResourceGroupStatus_def processStatus_def)
  then have stage: "err = stageError (stageReached R rg s1)" "graphReported R rg (gsDraws s) order info"
    using reconcile_stage [OF s2 stop] managed_keeps [OF s1] by (simp_all add: err_def)
  from setStatus_written [OF assms(2) set [unfolded stage(1)]] obtain st where
    st: "statusWritten R rg st (dcWorld (gsController s'))" "stageStatus R (stageReached R rg s1) st" "statusOrder st = order"
      "statusResources st = info" "s' = s2\<lparr>gsController := (gsController s2)\<lparr>dcWorld := dcWorld (gsController s')\<rparr>\<rparr>"
    by blast
  have "served R rg (statusOrder st) (gsDraws s) (gsController s')" if "statusState st = ''Active''"
  proof -
    have "stageReached R rg s1 = Completed" using st(2) that by (auto simp: stageStatus_def Let_def split: group_stage.splits)
    then have "err = None" using stage(1) by (simp add: stageError_def)
    then have "stop = None" using stop by (auto simp: err_def split: option.splits group_stop.splits)
    then have "served R rg order (gsDraws s) (gsController s2)"
      using reconcile_served s2 managed_keeps [OF s1] assms(3) by metis
    moreover have "dcRunning (gsController s') = dcRunning (gsController s2)" "dcHandlers (gsController s') = dcHandlers (gsController s2)"
      by (subst st(5), simp)+
    ultimately show ?thesis using st(3) by (simp add: served_def)
  qed
  then show ?thesis using s1 r st(1-4) stage(2) by blast
qed

text \<open>
  C11. What the deletion of a resource group does, and in which order. When a reconciliation of a group
  with the finalizer of kro that is being deleted returns without an error, the definition of the
  instances was deleted first, if the controller may delete definitions, without an error other than
  that it was gone; after that, and last, the group was patched to have all of its finalizers but that of
  kro. Of the registrations only the one of \<open>cleanupGVR\<close>, with the group \<open><plural>.kro.run\<close>, is taken back.
  That is not the type of the instances, whatever graph the group is built to: contrary to the comment in
  \<open>controller_cleanup.go\<close> the instances are as much watched as before, with the same handler.
\<close>

theorem group_deletion_order:
  assumes "rgDeleting rg" and "HasResourceGroupFinalizer objectMeta (rgMeta rg)" and "registered (gsController s)"
    and "ReconcileGroup R rg s = (GroupDone None, s')"
  shows "\<exists>w1 rg'. (if rrAllowCRDDeletion R
      then Delete (rrCrd R) (extractCRDName R (rgKind (rgSchema (rgDefinition rg)))) (dcWorld (gsController s)) = (None, w1)
      else w1 = dcWorld (gsController s)) \<and>
    rgPatch (rrClient R) rg' rg w1 = (None, dcWorld (gsController s')) \<and>
    rg' = rg\<lparr>rgMeta := (rgMeta rg)\<lparr>metaFinalizers := removeAll kroFinalizer (metaFinalizers (rgMeta rg))\<rparr>\<rparr> \<and>
    registered (gsController s') \<and> cleanupGVR R rg \<notin> set (dcRunning (gsController s')) \<and>
    (\<forall>gvr. gvr \<noteq> cleanupGVR R rg \<longrightarrow>
       (gvr \<in> set (dcRunning (gsController s')) \<longleftrightarrow> gvr \<in> set (dcRunning (gsController s))) \<and>
       map_of (dcHandlers (gsController s')) gvr = map_of (dcHandlers (gsController s)) gvr) \<and>
    (\<forall>k g crd k'. NewResourceGroup (rrBuilder R) (rgDefinition rg) k = Inr ((g, crd), k') \<longrightarrow>
       resGvr (graphInstance g) \<noteq> cleanupGVR R rg)"
proof -
  let ?s1 = "shutdownResourceGroupMicroController (cleanupGVR R rg) s"
  let ?name = "extractCRDName R (rgKind (rgSchema (rgDefinition rg)))"
  have world: "dcWorld (gsController ?s1) = dcWorld (gsController s)"
    by (simp add: shutdownResourceGroupMicroController_def StopServiceGVK_def split: option.splits)
  have reg: "registered (gsController ?s1)"
    using registered_stop [OF assms(3)] by (simp add: shutdownResourceGroupMicroController_def)
  have stopped: "cleanupGVR R rg \<notin> set (dcRunning (gsController ?s1))"
    using assms(3) by (auto simp: shutdownResourceGroupMicroController_def StopServiceGVK_def registered_def split: option.splits)
  obtain r s2 where s2: "cleanupResourceGroupCRD R ?name ?s1 = (r, s2)" by (rule prod.exhaust)
  have r: "r = None" and s': "setGroupUnmanaged R rg s2 = (None, s')"
    using assms(1,4) s2 by (auto simp: ReconcileGroup_def cleanupResourceGroup_def Let_def split: option.splits prod.splits)
  have crd: "if rrAllowCRDDeletion R then Delete (rrCrd R) ?name (dcWorld (gsController s)) = (None, dcWorld (gsController s2))
      else dcWorld (gsController s2) = dcWorld (gsController s)"
    using s2 r world by (auto simp: cleanupResourceGroupCRD_def onWorld_def split: if_splits option.splits prod.splits)
  have same: "sameRegistrations (gsController ?s1) (gsController s2)"
    using s2 by (auto simp: cleanupResourceGroupCRD_def onWorld_def sameRegistrations_def split: if_splits option.splits prod.splits)
  from s' assms(2) have patch: "rgPatch (rrClient R) (rg\<lparr>rgMeta := RemoveResourceGroupFinalizer objectMeta (rgMeta rg)\<rparr>) rg
      (dcWorld (gsController s2)) = (None, dcWorld (gsController s'))" "sameRegistrations (gsController s2) (gsController s')"
    by (auto simp: setGroupUnmanaged_def onWorld_def sameRegistrations_def split: prod.splits)
  have meta: "RemoveResourceGroupFinalizer objectMeta (rgMeta rg) =
      (rgMeta rg)\<lparr>metaFinalizers := removeAll kroFinalizer (metaFinalizers (rgMeta rg))\<rparr>"
    by (simp add: RemoveResourceGroupFinalizer_def objectMeta_def)
  have regs: "registered (gsController s')" "cleanupGVR R rg \<notin> set (dcRunning (gsController s'))"
    using registered_same [OF same reg] registered_same [OF patch(2)] stopped same patch(2)
    by (simp_all add: sameRegistrations_def)
  have others: "(gvr \<in> set (dcRunning (gsController s')) \<longleftrightarrow> gvr \<in> set (dcRunning (gsController s))) \<and>
      map_of (dcHandlers (gsController s')) gvr = map_of (dcHandlers (gsController s)) gvr" if "gvr \<noteq> cleanupGVR R rg" for gvr
    using stop_keeps_others [OF that, of "gsController s"] same patch(2)
    by (simp add: sameRegistrations_def shutdownResourceGroupMicroController_def)
  show ?thesis
    by (intro exI [of _ "dcWorld (gsController s2)"]
        exI [of _ "rg\<lparr>rgMeta := (rgMeta rg)\<lparr>metaFinalizers := removeAll kroFinalizer (metaFinalizers (rgMeta rg))\<rparr>\<rparr>"] conjI)
      (use crd patch(1) [unfolded meta] regs others cleanup_stops_another_type in blast)+
qed

section \<open>Witnesses\<close>

definition netCrdClient :: "unit crdClient" where
  "netCrdClient =
     \<lparr>crdGet = (\<lambda>n w. (Inr [(''Established'', ''True'')], w)), crdCreate = (\<lambda>c w. (None, w)), crdPatch = (\<lambda>n c w. (None, w)),
      crdRemove = (\<lambda>n w. (None, w)), crdPolls = 3\<rparr>"

definition netGroupObject :: "bool \<Rightarrow> RGObject" where
  "netGroupObject deleting =
     \<lparr>rgMeta = \<lparr>metaName = ''net'', metaNamespace = ''default'', metaUID = ''1'', metaLabels = None,
        metaFinalizers = [''other'', kroFinalizer]\<rparr>,
      rgDeleting = deleting, rgDefinition = netGroup,
      rgStatusField = \<lparr>statusState = [], statusOrder = [], statusConditions = [], statusResources = []\<rparr>\<rparr>"

definition netRgClient :: "unit rgClient" where
  "netRgClient =
     \<lparr>rgGet = (\<lambda>ns n w. (Inr (netGroupObject False), w)), rgPatch = (\<lambda>new old w. (None, w)),
      rgStatusPatch = (\<lambda>new old w. (None, w)), retryOnConflict = (\<lambda>f w. f w)\<rparr>"

definition netDynClient :: "unit dynClient" where
  "netDynClient =
     \<lparr>clientGet = (\<lambda>g ns n w. (Inl (NotFound []), w)), clientCreate = (\<lambda>g ns obj w. (Inr obj, w)),
      clientDelete = (\<lambda>g ns n w. (None, w)), clientUpdate = (\<lambda>g ns obj w. (Inr obj, w)),
      clientUpdateStatus = (\<lambda>g ns obj w. (Inr obj, w))\<rparr>"

definition netLib :: unstructuredLib where
  "netLib =
     \<lparr>uObject = \<lparr>GetName = (\<lambda>u. []), GetNamespace = (\<lambda>u. []), GetUID = (\<lambda>u. []), GetLabels = (\<lambda>u. None),
        SetLabels = (\<lambda>u l. u), GetFinalizers = (\<lambda>u. []), SetFinalizers = (\<lambda>u f. u)\<rparr>,
      uNested = \<lparr>NestedStringSlice = (\<lambda>u p. Inr ([], False)), SetNestedStringSlice = (\<lambda>u xs p. Inr u)\<rparr>,
      uGeneration = (\<lambda>u. 0), uDeleting = (\<lambda>u. False)\<rparr>"

definition netReconciler :: "unit ResourceGroupReconciler" where
  "netReconciler =
     \<lparr>rrBuilder = netBuilder, rrClient = netRgClient, rrCrd = netCrdClient, rrInformers = exampleInformers, rrDynamic = netDynClient,
      rrImpersonate = (\<lambda>u. Inr netDynClient), rrAllowCRDDeletion = True, rrLabeler = NewKroMetaLabeler ''0.1.0'' ''kro-pod'',
      rrErrorText = (\<lambda>e. []), rrRuntimeText = (\<lambda>e. []), rrLib = netLib, rrNow = ''now''\<rparr>"

definition netState :: "(unit, example_queue) groupState" where
  "netState = \<lparr>gsController = exampleStart, gsDraws = 0\<rparr>"

lemma netState_registered: "registered (gsController netState)"
  using registered_new by (simp add: netState_def exampleStart_def)

text \<open>The first reconciler succeeds; the second is refused the definition of the instances.\<close>

definition refusingReconciler :: "unit ResourceGroupReconciler" where
  "refusingReconciler = netReconciler\<lparr>rrCrd := netCrdClient\<lparr>crdPatch := (\<lambda>n c w. (Some (Errorf ''forbidden''), w))\<rparr>\<rparr>"

theorem group_status_tells_outcome_witness:
  "(\<exists>s' st. ReconcileGroup netReconciler (netGroupObject False) netState = (GroupDone None, s') \<and>
     statusWritten netReconciler (netGroupObject False) st (dcWorld (gsController s')) \<and>
     stageStatus netReconciler Completed st) \<and>
   (\<exists>s' st e. ReconcileGroup refusingReconciler (netGroupObject False) netState = (GroupDone None, s') \<and>
     statusWritten refusingReconciler (netGroupObject False) st (dcWorld (gsController s')) \<and>
     stageStatus refusingReconciler (AtDefinition e) st)"
proof -
  have group: "\<not> rgDeleting (netGroupObject False)" by (simp add: netGroupObject_def)
  have last: "retries_last (rrClient netReconciler)" "retries_last (rrClient refusingReconciler)"
    by (auto simp: retries_last_def netReconciler_def refusingReconciler_def netRgClient_def)
  have run: "fst (ReconcileGroup netReconciler (netGroupObject False) netState) = GroupDone None"
    "fst (ReconcileGroup refusingReconciler (netGroupObject False) netState) = GroupDone None" by code_simp+
  have stages: "case stageReached netReconciler (netGroupObject False) netState of Completed \<Rightarrow> True | _ \<Rightarrow> False"
    "case stageReached refusingReconciler (netGroupObject False) netState of AtDefinition e \<Rightarrow> True | _ \<Rightarrow> False" by code_simp+
  have managed: "setGroupManaged R (netGroupObject False) netState = (None, netState)" for R
    by (simp add: setGroupManaged_def netGroupObject_def HasResourceGroupFinalizer_def objectMeta_def)
  obtain s1 where s1: "ReconcileGroup netReconciler (netGroupObject False) netState = (GroupDone None, s1)"
    using run(1) by (cases "ReconcileGroup netReconciler (netGroupObject False) netState") simp
  obtain s2 where s2: "ReconcileGroup refusingReconciler (netGroupObject False) netState = (GroupDone None, s2)"
    using run(2) by (cases "ReconcileGroup refusingReconciler (netGroupObject False) netState") simp
  obtain e where "stageReached netReconciler (netGroupObject False) netState = Completed"
      "stageReached refusingReconciler (netGroupObject False) netState = AtDefinition e"
    using stages by (auto split: group_stage.splits)
  then show ?thesis
    using group_status_tells_outcome [OF group last(1) netState_registered s1]
      group_status_tells_outcome [OF group last(2) netState_registered s2] s1 s2 by (fastforce simp: managed)
qed

theorem group_deletion_order_witness:
  "\<exists>s' w1. ReconcileGroup netReconciler (netGroupObject True) netState = (GroupDone None, s') \<and>
     Delete netCrdClient ''nets.kro.run'' () = (None, w1) \<and> registered (gsController s')"
proof -
  have "fst (ReconcileGroup netReconciler (netGroupObject True) netState) = GroupDone None"
    "extractCRDName netReconciler (rgKind (rgSchema (rgDefinition (netGroupObject True)))) = ''nets.kro.run''"
    "HasResourceGroupFinalizer objectMeta (rgMeta (netGroupObject True))" by code_simp+
  moreover from this(1) obtain s' where "ReconcileGroup netReconciler (netGroupObject True) netState = (GroupDone None, s')"
    by (cases "ReconcileGroup netReconciler (netGroupObject True) netState") simp
  moreover have "rgDeleting (netGroupObject True)" by (simp add: netGroupObject_def)
  ultimately show ?thesis
    using group_deletion_order [of "netGroupObject True" netState netReconciler s'] netState_registered
    by (auto simp: netReconciler_def)
qed

end
