(* ===== verification/Startup.thy ===== *)
theory Startup
  imports Controller_Run Client_Set Group_Controller
begin

text \<open>
  The start of the program, \<open>src/cmd/controller/main.go\<close>: the flags, the clients, the manager, the dynamic
  controller, the builder (\<open>NewBuilder\<close> of \<open>src/internal/graph/builder.go\<close> with the schema resolver of
  \<open>src/internal/graph/schema/resolver.go\<close>) and the reconciler of resource groups, wired together.

  controller-runtime, the resolvers of apiserver and the discovery client of client-go are the record
  \<open>startupLib\<close>; the parts of the builder and of the reconciler that come from libraries are taken from
  \<open>slBuilder\<close> and \<open>slReconciler\<close>. Every configuration lives in the heap of \<open>Client_Set\<close>. An \<open>int\<close> is a word of 64 bits.
\<close>

section \<open>Flags\<close>

record flags =
  flMetricsAddr :: string
  flEnableLeaderElection :: bool
  flProbeAddr :: string
  flAllowCRDDeletion :: bool
  flResourceGroupConcurrentReconciles :: "64 word"
  flDynamicControllerConcurrentReconciles :: "64 word"
  flResyncPeriod :: "64 word"
  flQueueMaxRetries :: "64 word"
  flShutdownTimeout :: "64 word"
  flLogLevel :: "64 word"
  flQPS :: "64 word"
  flBurst :: "64 word"

definition defaultFlags :: flags where
  "defaultFlags =
     \<lparr>flMetricsAddr = '':8078'', flEnableLeaderElection = False, flProbeAddr = '':8079'', flAllowCRDDeletion = False,
      flResourceGroupConcurrentReconciles = 1, flDynamicControllerConcurrentReconciles = 1, flResyncPeriod = 10,
      flQueueMaxRetries = 20, flShutdownTimeout = 60, flLogLevel = 10, flQPS = 0x4059000000000000, flBurst = 150\<rparr>"

text \<open>The levels of zap are 8-bit integers; the verbosity \<open>n\<close> of \<open>V(n)\<close> is the level \<open>-n\<close>.\<close>

definition Enabled :: "64 word \<Rightarrow> 8 word \<Rightarrow> bool" where
  "Enabled level lvl \<longleftrightarrow> - (signed lvl :: 64 word) \<le>s level"

record Config =
  Workers :: "64 word"
  ResyncPeriod :: "64 word"
  QueueMaxRetries :: "64 word"
  ShutdownTimeout :: "64 word"

definition controllerConfig :: "flags \<Rightarrow> Config" where
  "controllerConfig fl =
     \<lparr>Workers = flDynamicControllerConcurrentReconciles fl,
      ResyncPeriod = flResyncPeriod fl * 3600000000000,
      QueueMaxRetries = flQueueMaxRetries fl,
      ShutdownTimeout = flShutdownTimeout fl * 1000000000\<rparr>"

record managerOptions =
  moMetricsBindAddress :: string
  moHealthProbeBindAddress :: string
  moLeaderElection :: bool
  moLeaderElectionID :: string

section \<open>Libraries\<close>

type_synonym schemaResolver = "GroupVersionKind \<Rightarrow> string + schema option"

record ('h, 'k, 'w, 'x, 'q, 'm, 'd) startupLib =
  slClients :: "('h, 'k, 'w dynClient, 'x) clientLib"
  slFloat32 :: "64 word \<Rightarrow> 32 word"
  slNewManager :: "'h RestConfig \<Rightarrow> managerOptions \<Rightarrow> string + 'm"
  slManagerClient :: "'m \<Rightarrow> 'w rgClient"
  slNewDiscoveryClientForConfig :: "'h RestConfig \<Rightarrow> string + 'd"
  slClientDiscoveryResolver :: "'d \<Rightarrow> schemaResolver"
  slDefinitionsSchemaResolver :: schemaResolver
  slCombine :: "schemaResolver \<Rightarrow> schemaResolver \<Rightarrow> schemaResolver"
  slNamespacedResources :: "'d \<Rightarrow> string + (string \<times> (string \<times> bool) list) list"
  slCRD :: "'x \<Rightarrow> 64 word \<Rightarrow> 64 word \<Rightarrow> 'w crdClient"
  slComplete :: "'m \<Rightarrow> 64 word \<Rightarrow> 'w ResourceGroupReconciler \<Rightarrow> string option"
  slAddHealthzCheck :: "'m \<Rightarrow> string \<Rightarrow> string option"
  slAddReadyzCheck :: "'m \<Rightarrow> string \<Rightarrow> string option"
  slStart :: "'m \<Rightarrow> string option"
  slQueue :: 'q
  slBuilder :: builder
  slReconciler :: "'w ResourceGroupReconciler"

text \<open>What apiserver documents of \<open>Combine\<close>: the second resolver answers for the kinds that the first does not know.\<close>

definition combines :: "(schemaResolver \<Rightarrow> schemaResolver \<Rightarrow> schemaResolver) \<Rightarrow> bool" where
  "combines comb \<longleftrightarrow> (\<forall>r1 r2 gvk. comb r1 r2 gvk = (case r1 gvk of Inr s \<Rightarrow> Inr s | Inl _ \<Rightarrow> r2 gvk))"

section \<open>Construction\<close>

definition NewCombinedResolver ::
  "('h, 'k, 'w, 'x, 'q, 'm, 'd) startupLib \<Rightarrow> 'h RestConfig \<Rightarrow> string + schemaResolver \<times> 'd" where
  "NewCombinedResolver lib clientConfig =
     (case slNewDiscoveryClientForConfig lib clientConfig of
        Inl err \<Rightarrow> Inl err
      | Inr discoveryClient \<Rightarrow>
          (let clientResolver = slClientDiscoveryResolver lib discoveryClient;
               coreResolver = slDefinitionsSchemaResolver lib in
           Inr (slCombine lib coreResolver clientResolver, discoveryClient)))"

definition NewBuilder :: "('h, 'k, 'w, 'x, 'q, 'm, 'd) startupLib \<Rightarrow> 'h RestConfig \<Rightarrow> string + builder" where
  "NewBuilder lib clientConfig =
     (case NewCombinedResolver lib clientConfig of
        Inl err \<Rightarrow> Inl (''failed to create schema resolver: '' @ err)
      | Inr (schemaResolver, dc) \<Rightarrow>
          Inr ((slBuilder lib)\<lparr>bdResolveSchema := schemaResolver, bdNamespacedResources := slNamespacedResources lib dc\<rparr>))"

text \<open>\<open>None\<close>: the panic of \<open>CRD\<close> on a nil client.\<close>

definition NewResourceGroupReconciler ::
  "('h, 'k, 'w, 'x, 'q, 'm, 'd) startupLib \<Rightarrow> 'w rgClient \<Rightarrow> ('k, 'w dynClient, 'x) ClientSet \<Rightarrow> 'h heap \<Rightarrow> bool \<Rightarrow> builder \<Rightarrow>
   'w ResourceGroupReconciler option" where
  "NewResourceGroupReconciler lib mgrClient clientSet h allowCRDDeletion B =
     (case CRDOf clientSet \<lparr>crdClientOf = None, crdPollInterval = 0, crdTimeout = 0\<rparr> of
        None \<Rightarrow> None
      | Some (x, pollInterval, timeout) \<Rightarrow>
          Some ((slReconciler lib)
            \<lparr>rrBuilder := B, rrClient := mgrClient, rrCrd := slCRD lib x pollInterval timeout, rrDynamic := setDynamic clientSet,
             rrImpersonate := impersonatedDynamic (slClients lib) clientSet h, rrAllowCRDDeletion := allowCRDDeletion,
             rrLabeler := NewKroMetaLabeler ''0.1.0'' ''kro-pod''\<rparr>))"

section \<open>Main\<close>

record ('h, 'k, 'w, 'x, 'q) started =
  stSet :: "('k, 'w dynClient, 'x) ClientSet"
  stHeap :: "'h heap"
  stRestConfig :: nat
  stConfig :: Config
  stProcess :: "('w, 'q) process"
  stWorkers :: nat
  stReconciler :: "'w ResourceGroupReconciler"

datatype goroutine = RunDynamicController | StartManager

text \<open>\<open>ExitOne\<close> is the call of \<open>os.Exit(1)\<close> after the message was logged.\<close>

datatype 's startup = ExitOne string string | StartupPanic | Waiting 's

definition newManager :: "('h, 'k, 'w, 'x, 'q, 'm, 'd) startupLib \<Rightarrow> flags \<Rightarrow> 'h RestConfig \<Rightarrow> string + 'm" where
  "newManager lib fl restConfig =
     slNewManager lib restConfig
       \<lparr>moMetricsBindAddress = flMetricsAddr fl, moHealthProbeBindAddress = flProbeAddr fl,
        moLeaderElection = flEnableLeaderElection fl, moLeaderElectionID = ''6f0f64a5.kro.run''\<rparr>"

text \<open>From the health checks on; the dynamic controller is already running.\<close>

definition startManager ::
  "('h, 'k, 'w, 'x, 'q, 'm, 'd) startupLib \<Rightarrow> 'm \<Rightarrow> 's \<Rightarrow> goroutine list \<times> 's startup" where
  "startManager lib mgr s =
     (case slAddHealthzCheck lib mgr ''healthz'' of
        Some err \<Rightarrow> ([RunDynamicController], ExitOne ''unable to set up health check'' err)
      | None \<Rightarrow>
          (case slAddReadyzCheck lib mgr ''readyz'' of
             Some err \<Rightarrow> ([RunDynamicController], ExitOne ''unable to set up ready check'' err)
           | None \<Rightarrow>
               (case slStart lib mgr of
                  Some err \<Rightarrow> ([RunDynamicController, StartManager], ExitOne ''problem running manager'' err)
                | None \<Rightarrow> ([RunDynamicController, StartManager], Waiting s))))"

definition main ::
  "('h, 'k, 'w, 'x, 'q, 'm, 'd) startupLib \<Rightarrow> flags \<Rightarrow> 'h heap \<Rightarrow> 'w \<Rightarrow> goroutine list \<times> ('h, 'k, 'w, 'x, 'q) started startup" where
  "main lib fl h w =
     (case NewSet (slClients lib) \<lparr>cfgRestConfig = None, cfgImpersonateUser = [], cfgQPS = slFloat32 lib (flQPS fl), cfgBurst = flBurst fl\<rparr> h of
        (Inl err, h1) \<Rightarrow> ([], ExitOne ''unable to create client set'' err)
      | (Inr cs, h1) \<Rightarrow>
          (case RESTConfig cs h1 of
             (restConfig, h2) \<Rightarrow>
               (case newManager lib fl (h2 ! restConfig) of
                  Inl err \<Rightarrow> ([], ExitOne ''unable to start manager'' err)
                | Inr mgr \<Rightarrow>
                    (let config = controllerConfig fl;
                         dc = newProcess (sint (QueueMaxRetries config)) (slQueue lib) w in
                     case NewBuilder lib (h2 ! restConfig) of
                       Inl err \<Rightarrow> ([], ExitOne ''unable to create resource group graph builder'' err)
                     | Inr B \<Rightarrow>
                         (case NewResourceGroupReconciler lib (slManagerClient lib mgr) cs h2 (flAllowCRDDeletion fl) B of
                            None \<Rightarrow> ([], StartupPanic)
                          | Some reconciler \<Rightarrow>
                              (case slComplete lib mgr (flResourceGroupConcurrentReconciles fl) reconciler of
                                 Some err \<Rightarrow> ([], ExitOne ''unable to create controller'' err)
                               | None \<Rightarrow>
                                   startManager lib mgr
                                     \<lparr>stSet = cs, stHeap = h2, stRestConfig = restConfig, stConfig = config, stProcess = dc,
                                      stWorkers = nat (sint (Workers config)), stReconciler = reconciler\<rparr>))))))"

section \<open>Lemmas\<close>

text \<open>A duration is exact as long as it fits: \<open>time.Duration\<close> wraps around silently.\<close>

lemma duration_exact:
  assumes "- (2 ^ 63) \<le> sint x * k" and "sint x * k < 2 ^ 63" and "0 \<le> k" and "k < 2 ^ 63"
  shows "sint (x * word_of_int k :: 64 word) = sint x * k"
proof -
  have "sint (word_of_int k :: 64 word) = k"
    using assms(3,4) by (simp add: sint_sbintrunc' signed_take_bit_int_eq_self)
  then have "sint (x * word_of_int k :: 64 word) = signed_take_bit 63 (sint x * k)"
    by (simp add: sint_word_ariths)
  also have "\<dots> = sint x * k" using assms(1,2) by (intro signed_take_bit_int_eq_self) simp_all
  finally show ?thesis .
qed

lemma NewSet_default:
  assumes "NewSet L \<lparr>cfgRestConfig = None, cfgImpersonateUser = [], cfgQPS = q, cfgBurst = b\<rparr> h = (Inr cs, h1)"
  obtains c where "getDefaultConfig L = Inr c" "setConfig cs = length h" "h1 = h @ [setDefaults q b c]"
    "newDynamic L (setDefaults q b c) = Inr (setDynamic cs)"
  using assms
  by (auto simp: NewSet_def baseConfig_def impersonateConfig_def allocConfig_def initSet_Inr Let_def split: sum.splits)

text \<open>The ways in which the start ends.\<close>

lemma new_reconciler:
  "\<exists>K. NewResourceGroupReconciler lib c cs h allow B = Some ((slReconciler lib)
     \<lparr>rrBuilder := B, rrClient := c, rrCrd := K, rrDynamic := setDynamic cs, rrImpersonate := impersonatedDynamic (slClients lib) cs h,
      rrAllowCRDDeletion := allow, rrLabeler := NewKroMetaLabeler ''0.1.0'' ''kro-pod''\<rparr>)"
  by (auto simp: NewResourceGroupReconciler_def CRDOf_def newCRDWrapper_def)

lemma main_cases:
  assumes "main lib fl h w = (gs, out)"
  obtains (exit) msg err where "out = ExitOne msg err" "StartManager \<in> set gs \<longrightarrow> msg = ''problem running manager''"
  | (wait) cs h1 d K c where "gs = [RunDynamicController, StartManager]"
      "NewSet (slClients lib) \<lparr>cfgRestConfig = None, cfgImpersonateUser = [], cfgQPS = slFloat32 lib (flQPS fl), cfgBurst = flBurst fl\<rparr> h = (Inr cs, h1)"
      "out = Waiting \<lparr>stSet = cs, stHeap = h1 @ [h1 ! setConfig cs], stRestConfig = length h1, stConfig = controllerConfig fl,
         stProcess = newProcess (sint (flQueueMaxRetries fl)) (slQueue lib) w, stWorkers = nat (sint (flDynamicControllerConcurrentReconciles fl)),
         stReconciler = (slReconciler lib)
           \<lparr>rrBuilder := (slBuilder lib)\<lparr>bdResolveSchema := slCombine lib (slDefinitionsSchemaResolver lib) (slClientDiscoveryResolver lib d),
              bdNamespacedResources := slNamespacedResources lib d\<rparr>, rrClient := c, rrCrd := K, rrDynamic := setDynamic cs,
            rrImpersonate := impersonatedDynamic (slClients lib) cs (h1 @ [h1 ! setConfig cs]), rrAllowCRDDeletion := flAllowCRDDeletion fl,
            rrLabeler := NewKroMetaLabeler ''0.1.0'' ''kro-pod''\<rparr>\<rparr>"
proof -
  note defs = main_def startManager_def Let_def RESTConfig_def allocConfig_def
  let ?n = "NewSet (slClients lib) \<lparr>cfgRestConfig = None, cfgImpersonateUser = [], cfgQPS = slFloat32 lib (flQPS fl), cfgBurst = flBurst fl\<rparr> h"
  obtain r h1 where n: "?n = (r, h1)" by (rule prod.exhaust)
  show thesis
  proof (cases r)
    case (Inl err)
    then show thesis using assms n by (auto simp: defs intro!: exit)
  next
    case (Inr cs)
    let ?h = "h1 @ [h1 ! setConfig cs]"
    show thesis
    proof (cases "newManager lib fl (?h ! length h1)")
      case (Inl err)
      then show thesis using assms n Inr by (auto simp: defs intro!: exit)
    next
      case mgr: (Inr mgr)
      show thesis
      proof (cases "NewBuilder lib (?h ! length h1)")
        case (Inl err)
        then show thesis using assms n Inr mgr by (auto simp: defs intro!: exit)
      next
        case B: (Inr B)
        then obtain d where d: "B = (slBuilder lib)\<lparr>bdResolveSchema := slCombine lib (slDefinitionsSchemaResolver lib) (slClientDiscoveryResolver lib d),
              bdNamespacedResources := slNamespacedResources lib d\<rparr>"
          by (auto simp: NewBuilder_def NewCombinedResolver_def Let_def split: sum.splits)
        obtain K where K: "NewResourceGroupReconciler lib (slManagerClient lib mgr) cs ?h (flAllowCRDDeletion fl) B = Some ((slReconciler lib)
             \<lparr>rrBuilder := B, rrClient := slManagerClient lib mgr, rrCrd := K, rrDynamic := setDynamic cs,
              rrImpersonate := impersonatedDynamic (slClients lib) cs ?h,
              rrAllowCRDDeletion := flAllowCRDDeletion fl, rrLabeler := NewKroMetaLabeler ''0.1.0'' ''kro-pod''\<rparr>)"
          using new_reconciler by blast
        show thesis
          using assms n Inr mgr B K d wait [OF _ n [unfolded Inr], where d = d and K = K and c = "slManagerClient lib mgr"]
          by (auto simp: defs controllerConfig_def split: option.splits intro: exit)
      qed
    qed
  qed
qed

section \<open>Properties\<close>

text \<open>
  C39. The program starts completely or exits. When a step of the start fails, the process exits with a message
  and the manager, so the reconciliation of resource groups, was not started. When it is
  waiting for its end, both goroutines run; the manager works with a copy of the configuration of the client set,
  which has the limits of the flags where the loaded one sets none and the user agent of kro; the reconciler acts
  with this identity, or with exactly the impersonated one; schemas are resolved from the built-in definitions first
  and from the API server otherwise; and the dynamic controller has the retries and workers of the flags and, for flags
  in range, exactly their durations.
\<close>

theorem startup_outcome:
  assumes "main lib fl h w = (gs, out)" and "combines (slCombine lib)"
  shows "out \<noteq> StartupPanic \<and> (\<forall>msg err. out = ExitOne msg err \<longrightarrow> StartManager \<in> set gs \<longrightarrow> msg = ''problem running manager'') \<and>
    (\<forall>s. out = Waiting s \<longrightarrow> gs = [RunDynamicController, StartManager] \<and>
      (\<exists>c d. getDefaultConfig (slClients lib) = Inr c \<and>
        stHeap s = h @ [setDefaults (slFloat32 lib (flQPS fl)) (flBurst fl) c, setDefaults (slFloat32 lib (flQPS fl)) (flBurst fl) c] \<and>
        setConfig (stSet s) = length h \<and> stRestConfig s = Suc (length h) \<and>
        newDynamic (slClients lib) (setDefaults (slFloat32 lib (flQPS fl)) (flBurst fl) c) = Inr (rrDynamic (stReconciler s)) \<and>
        (\<forall>user e. user \<noteq> [] \<longrightarrow> rrImpersonate (stReconciler s) user = Inr e \<longrightarrow>
           newDynamic (slClients lib) (asUser user (setDefaults (slFloat32 lib (flQPS fl)) (flBurst fl) c)) = Inr e) \<and>
        (\<forall>gvk. bdResolveSchema (rrBuilder (stReconciler s)) gvk =
           (case slDefinitionsSchemaResolver lib gvk of Inr x \<Rightarrow> Inr x | Inl _ \<Rightarrow> slClientDiscoveryResolver lib d gvk))) \<and>
      rrAllowCRDDeletion (stReconciler s) = flAllowCRDDeletion fl \<and>
      stProcess s = newProcess (sint (flQueueMaxRetries fl)) (slQueue lib) w \<and>
      stWorkers s = nat (sint (flDynamicControllerConcurrentReconciles fl)) \<and>
      (\<bar>sint (flShutdownTimeout fl)\<bar> \<le> 9223372036 \<longrightarrow> sint (ShutdownTimeout (stConfig s)) = sint (flShutdownTimeout fl) * 10 ^ 9) \<and>
      (\<bar>sint (flResyncPeriod fl)\<bar> \<le> 2562047 \<longrightarrow> sint (ResyncPeriod (stConfig s)) = sint (flResyncPeriod fl) * 3600 * 10 ^ 9))"
  using assms(1)
proof (cases rule: main_cases)
  case (exit msg err)
  then show ?thesis by simp
next
  case (wait cs h1 d K c)
  from NewSet_default [OF wait(2)] obtain c where c: "getDefaultConfig (slClients lib) = Inr c" "setConfig cs = length h"
    "h1 = h @ [setDefaults (slFloat32 lib (flQPS fl)) (flBurst fl) c]"
    "newDynamic (slClients lib) (setDefaults (slFloat32 lib (flQPS fl)) (flBurst fl) c) = Inr (setDynamic cs)" by blast
  have imp: "newDynamic (slClients lib) (asUser user (setDefaults (slFloat32 lib (flQPS fl)) (flBurst fl) c)) = Inr e"
    if "user \<noteq> []" "impersonatedDynamic (slClients lib) cs (h1 @ [h1 ! setConfig cs]) user = Inr e" for user e
    using impersonatedDynamic_Inr [OF that] c(2,3) by (simp add: nth_append)
  have times: "\<bar>sint (flShutdownTimeout fl)\<bar> \<le> 9223372036 \<longrightarrow> sint (flShutdownTimeout fl * 1000000000) = sint (flShutdownTimeout fl) * 1000000000"
    "\<bar>sint (flResyncPeriod fl)\<bar> \<le> 2562047 \<longrightarrow> sint (flResyncPeriod fl * 3600000000000) = sint (flResyncPeriod fl) * 3600000000000"
    using duration_exact [of "flShutdownTimeout fl" 1000000000] duration_exact [of "flResyncPeriod fl" 3600000000000] by (simp_all add: abs_le_iff)
  show ?thesis
    using wait(1,3) c imp times assms(2)
    by (simp add: combines_def controllerConfig_def nth_append) blast
qed

text \<open>Everything succeeds; and a manager without a free port.\<close>

definition exampleStartup :: "bool \<Rightarrow> (string, unit, unit, unit, example_queue, unit, unit) startupLib" where
  "exampleStartup fails =
     \<lparr>slClients = exampleLib, slFloat32 = (\<lambda>q. 0x42c80000), slNewManager = (\<lambda>c options. Inr ()), slManagerClient = (\<lambda>m. netRgClient),
      slNewDiscoveryClientForConfig = (\<lambda>c. Inr ()), slClientDiscoveryResolver = (\<lambda>d gvk. Inr (Some netSchema)),
      slDefinitionsSchemaResolver = (\<lambda>gvk. Inl ''unknown''), slCombine = (\<lambda>r1 r2 gvk. case r1 gvk of Inr s \<Rightarrow> Inr s | Inl _ \<Rightarrow> r2 gvk),
      slNamespacedResources = (\<lambda>d. Inr []), slCRD = (\<lambda>x poll timeout. netCrdClient), slComplete = (\<lambda>m n r. None),
      slAddHealthzCheck = (\<lambda>m name. None), slAddReadyzCheck = (\<lambda>m name. None),
      slStart = (\<lambda>m. if fails then Some ''address already in use'' else None), slQueue = ([], \<lambda>i. 0),
      slBuilder = netBuilder, slReconciler = netReconciler\<rparr>"

lemmas startup_defs = main_def startManager_def newManager_def NewBuilder_def NewCombinedResolver_def NewResourceGroupReconciler_def
  CRDOf_def newCRDWrapper_def NewSet_def baseConfig_def impersonateConfig_def allocConfig_def initSet_def RESTConfig_def
  exampleStartup_def exampleLib_def Let_def

theorem startup_outcome_witness:
  "\<exists>s. main (exampleStartup False) defaultFlags [] () = ([RunDynamicController, StartManager], Waiting s) \<and> stWorkers s = 1 \<and>
     sint (ShutdownTimeout (stConfig s)) = 60 * 10 ^ 9 \<and> sint (ResyncPeriod (stConfig s)) = 10 * 3600 * 10 ^ 9 \<and>
     stHeap s ! stRestConfig s = setDefaults 0x42c80000 150 exampleConfig"
proof -
  have "\<exists>s. main (exampleStartup False) defaultFlags [] () = ([RunDynamicController, StartManager], Waiting s)"
    by (simp add: startup_defs)
  then obtain s where s: "main (exampleStartup False) defaultFlags [] () = ([RunDynamicController, StartManager], Waiting s)" by blast
  have "combines (slCombine (exampleStartup False))" by (simp add: combines_def exampleStartup_def)
  from startup_outcome [OF s this] have "stWorkers s = nat (sint (1 :: 64 word))"
    "sint (ShutdownTimeout (stConfig s)) = sint (60 :: 64 word) * 10 ^ 9" "sint (ResyncPeriod (stConfig s)) = sint (10 :: 64 word) * 3600 * 10 ^ 9"
    "stHeap s ! stRestConfig s = setDefaults 0x42c80000 150 exampleConfig"
    by (auto simp: defaultFlags_def exampleStartup_def exampleLib_def)
  then show ?thesis using s by simp
qed

lemma startup_fails: "main (exampleStartup True) defaultFlags [] () =
  ([RunDynamicController, StartManager], ExitOne ''problem running manager'' ''address already in use'')"
  by (simp add: startup_defs)

section \<open>Verbosity\<close>

text \<open>A message of verbosity \<open>n\<close> is logged exactly up to the level of the flag.\<close>

lemma verbosity_enabled:
  assumes "0 \<le> n" and "n \<le> 128"
  shows "Enabled level (word_of_int (- n)) \<longleftrightarrow> n \<le> sint level"
proof -
  have "signed_take_bit 7 (- n) = - n" by (rule signed_take_bit_int_eq_self) (use assms in simp_all)
  then have "- (signed (word_of_int (- n) :: 8 word) :: 64 word) = word_of_int n" by (subst signed_of_int) simp
  moreover have "sint (word_of_int n :: 64 word) = n"
    by (subst sint_sbintrunc', rule signed_take_bit_int_eq_self) (use assms in simp_all)
  ultimately show ?thesis by (simp add: Enabled_def word_sle_eq)
qed

text \<open>The description of the flag calls 5 the most verbose level, but its own default is 10.\<close>

lemma default_log_level: "Enabled (flLogLevel defaultFlags) (- 10) \<and> \<not> Enabled 5 (- 10)"
  by code_simp

section \<open>The end of the program\<close>

text \<open>
  \<open>Run\<close> is given \<open>context.Background()\<close>, which is never cancelled: whatever happens, it does not return, so the graceful
  shutdown and its timeout never take effect.
\<close>

lemma uncancelled_step:
  assumes "process_step I L Q K inTime workers b p p'" and "\<not> prStopped p'" and "\<forall>r. prPhase p \<noteq> Returned r"
  shows "\<forall>r. prPhase p' \<noteq> Returned r"
  using assms
proof cases
  case run
  then show ?thesis
    using assms(2) by (auto simp: startRun_def WaitForInformersSync_def returnRun_def split: option.splits bool.splits if_splits)
next
  case shutdown
  then show ?thesis using assms(2) by (simp add: stopRun_def returnRun_def)
next
  case (work i)
  then show ?thesis using assms(3) by (auto simp: workerMove_def split: option.splits)
qed (use assms(3) in simp_all)

lemma main_never_shuts_down:
  assumes "main lib fl h w = (gs, Waiting s)"
    and "(\<lambda>p p'. (\<exists>b. process_step I L Q K inTime (stWorkers s) b p p') \<and> \<not> prStopped p')\<^sup>*\<^sup>* (stProcess s) p"
  shows "\<forall>r. prPhase p \<noteq> Returned r"
  using assms(2)
proof (induction rule: rtranclp_induct)
  case base
  from assms(1) show ?case by (cases rule: main_cases) (auto simp: newProcess_def)
next
  case (step p p')
  then show ?case using uncancelled_step by blast
qed

end
