(* ===== verification/Deep_Copier.thy ===== *)
theory Deep_Copier
  imports Kro_Prelude
begin

text \<open>
  The contract of a deep copy over a heap of cells, a list whose indices are the addresses, and the ways in which copies are put
  together: plain values, pairs, lists, optional values, pointers and structs.
\<close>

section \<open>The contract of a deep copy\<close>

text \<open>
  \<open>content\<close> is what a value stands for when all its addresses are followed, or \<open>None\<close> when one of them is dangling;
  \<open>reach\<close> are the addresses that are followed. A copy adds cells, stands for the same and reaches new cells only; what
  a value stands for does not depend on other cells.
\<close>

locale deep_copier =
  fixes copy :: "'a \<Rightarrow> 'c list \<Rightarrow> 'a \<times> 'c list"
    and content :: "'c list \<Rightarrow> 'a \<Rightarrow> 'v option"
    and reach :: "'c list \<Rightarrow> 'a \<Rightarrow> nat set"
  assumes copies: "content h x = Some v \<Longrightarrow> copy x h = (y, h') \<Longrightarrow>
      (\<exists>new. h' = h @ new) \<and> content h' y = Some v \<and> reach h' y \<subseteq> {length h..<length h'}"
    and grows: "content h x = Some v \<Longrightarrow> content (h @ new) x = Some v \<and> reach (h @ new) x = reach h x"
    and bounded: "content h x = Some v \<Longrightarrow> reach h x \<subseteq> {..<length h}"
    and elsewhere: "content h x = Some v \<Longrightarrow> a \<notin> reach h x \<Longrightarrow> content (h[a := c]) x = Some v \<and> reach (h[a := c]) x = reach h x"
begin

lemma writes_elsewhere:
  "content h x = Some v \<Longrightarrow> fst ` set ws \<inter> reach h x = {} \<Longrightarrow> content (fold (\<lambda>(a, c) h. h[a := c]) ws h) x = Some v"
proof (induction ws arbitrary: h)
  case (Cons w ws)
  then show ?case using elsewhere [of h x v "fst w" "snd w"] by (simp add: split_beta)
qed simp

text \<open>Original and copy are separate: whatever is written through one of them, the other stands for what it stood for.\<close>

lemma separate:
  assumes "content h x = Some v" and "copy x h = (y, h')"
  shows "content h' x = Some v" "content h' y = Some v" "reach h' x \<inter> reach h' y = {}"
    "fst ` set ws \<subseteq> reach h' y \<Longrightarrow> content (fold (\<lambda>(a, c) h. h[a := c]) ws h') x = Some v"
    "fst ` set ws \<subseteq> reach h' x \<Longrightarrow> content (fold (\<lambda>(a, c) h. h[a := c]) ws h') y = Some v"
proof -
  obtain new where new: "h' = h @ new" "content h' y = Some v" "reach h' y \<subseteq> {length h..<length h'}" using copies [OF assms] by blast
  have old: "content h' x = Some v" "reach h' x = reach h x" using grows [OF assms(1), of new] new(1) by simp_all
  then show "content h' x = Some v" "content h' y = Some v" using new(2) by simp_all
  show sep: "reach h' x \<inter> reach h' y = {}" using bounded [OF assms(1)] old(2) new(3) by fastforce
  show "fst ` set ws \<subseteq> reach h' y \<Longrightarrow> content (fold (\<lambda>(a, c) h. h[a := c]) ws h') x = Some v"
    using writes_elsewhere [OF old(1)] sep by blast
  show "fst ` set ws \<subseteq> reach h' x \<Longrightarrow> content (fold (\<lambda>(a, c) h. h[a := c]) ws h') y = Some v"
    using writes_elsewhere [OF new(2)] sep by blast
qed

end

section \<open>Values, pairs, lists and pointers\<close>

definition copyPlain :: "'a \<Rightarrow> 'c list \<Rightarrow> 'a \<times> 'c list" where
  "copyPlain x h = (x, h)"

definition plainContent :: "'c list \<Rightarrow> 'a \<Rightarrow> 'a option" where
  "plainContent h x = Some x"

definition plainReach :: "'c list \<Rightarrow> 'a \<Rightarrow> nat set" where
  "plainReach h x = {}"

lemma deep_copier_plain: "deep_copier copyPlain plainContent plainReach"
  by unfold_locales (simp_all add: copyPlain_def plainContent_def plainReach_def)

fun copyPair :: "('a \<Rightarrow> 'c list \<Rightarrow> 'a \<times> 'c list) \<Rightarrow> ('b \<Rightarrow> 'c list \<Rightarrow> 'b \<times> 'c list) \<Rightarrow> 'a \<times> 'b \<Rightarrow> 'c list \<Rightarrow> ('a \<times> 'b) \<times> 'c list" where
  "copyPair f g (x, y) h = (let (x', h1) = f x h; (y', h2) = g y h1 in ((x', y'), h2))"

fun pairContent :: "('c list \<Rightarrow> 'a \<Rightarrow> 'v option) \<Rightarrow> ('c list \<Rightarrow> 'b \<Rightarrow> 'u option) \<Rightarrow> 'c list \<Rightarrow> 'a \<times> 'b \<Rightarrow> ('v \<times> 'u) option" where
  "pairContent f g h (x, y) = (case (f h x, g h y) of (Some v, Some u) \<Rightarrow> Some (v, u) | _ \<Rightarrow> None)"

fun pairReach :: "('c list \<Rightarrow> 'a \<Rightarrow> nat set) \<Rightarrow> ('c list \<Rightarrow> 'b \<Rightarrow> nat set) \<Rightarrow> 'c list \<Rightarrow> 'a \<times> 'b \<Rightarrow> nat set" where
  "pairReach f g h (x, y) = f h x \<union> g h y"

lemma pairContent_Some: "pairContent f g h (x, y) = Some v \<longleftrightarrow> f h x = Some (fst v) \<and> g h y = Some (snd v)"
  by (cases v) (auto split: option.splits)

lemma deep_copier_pair:
  assumes "deep_copier c1 t1 r1" and "deep_copier c2 t2 r2"
  shows "deep_copier (copyPair c1 c2) (pairContent t1 t2) (pairReach r1 r2)"
proof
  fix h xy v zw h'
  assume c: "pairContent t1 t2 h xy = Some v" "copyPair c1 c2 xy h = (zw, h')"
  obtain x y where xy: "xy = (x, y)" by (rule prod.exhaust)
  obtain x' h1 where x': "c1 x h = (x', h1)" by (rule prod.exhaust)
  obtain y' where y': "c2 y h1 = (y', h')" "zw = (x', y')" using c(2) x' xy by (auto split: prod.splits)
  have v: "t1 h x = Some (fst v)" "t2 h y = Some (snd v)" using c(1) xy pairContent_Some by metis+
  from deep_copier.copies [OF assms(1) v(1) x'] obtain n1 where one: "h1 = h @ n1" "t1 h1 x' = Some (fst v)" "r1 h1 x' \<subseteq> {length h..<length h1}"
    by blast
  have "t2 h1 y = Some (snd v)" using deep_copier.grows [OF assms(2) v(2)] one(1) by simp
  from deep_copier.copies [OF assms(2) this y'(1)] obtain n2 where two: "h' = h1 @ n2" "t2 h' y' = Some (snd v)" "r2 h' y' \<subseteq> {length h1..<length h'}"
    by blast
  have "t1 h' x' = Some (fst v)" "r1 h' x' = r1 h1 x'" using deep_copier.grows [OF assms(1) one(2)] two(1) by simp_all
  then show "(\<exists>new. h' = h @ new) \<and> pairContent t1 t2 h' zw = Some v \<and> pairReach r1 r2 h' zw \<subseteq> {length h..<length h'}"
    using one two y'(2) by (fastforce simp: pairContent_Some)
next
  fix h xy v new
  assume "pairContent t1 t2 h xy = Some v"
  then show "pairContent t1 t2 (h @ new) xy = Some v \<and> pairReach r1 r2 (h @ new) xy = pairReach r1 r2 h xy"
    using deep_copier.grows [OF assms(1)] deep_copier.grows [OF assms(2)] by (cases xy) (simp add: pairContent_Some del: pairContent.simps)
next
  fix h xy v
  assume "pairContent t1 t2 h xy = Some v"
  then show "pairReach r1 r2 h xy \<subseteq> {..<length h}"
    using deep_copier.bounded [OF assms(1)] deep_copier.bounded [OF assms(2)] by (cases xy) (simp add: pairContent_Some del: pairContent.simps)
next
  fix h xy v a c
  assume "pairContent t1 t2 h xy = Some v" "a \<notin> pairReach r1 r2 h xy"
  then show "pairContent t1 t2 (h[a := c]) xy = Some v \<and> pairReach r1 r2 (h[a := c]) xy = pairReach r1 r2 h xy"
    using deep_copier.elsewhere [OF assms(1)] deep_copier.elsewhere [OF assms(2)] by (cases xy) (simp add: pairContent_Some del: pairContent.simps)
qed

primrec copyList :: "('a \<Rightarrow> 'c list \<Rightarrow> 'a \<times> 'c list) \<Rightarrow> 'a list \<Rightarrow> 'c list \<Rightarrow> 'a list \<times> 'c list" where
  "copyList f [] h = ([], h)"
| "copyList f (x # xs) h = (let (y, h1) = f x h; (ys, h2) = copyList f xs h1 in (y # ys, h2))"

primrec listContent :: "('c list \<Rightarrow> 'a \<Rightarrow> 'v option) \<Rightarrow> 'c list \<Rightarrow> 'a list \<Rightarrow> 'v list option" where
  "listContent t h [] = Some []"
| "listContent t h (x # xs) = (case (t h x, listContent t h xs) of (Some v, Some vs) \<Rightarrow> Some (v # vs) | _ \<Rightarrow> None)"

definition listReach :: "('c list \<Rightarrow> 'a \<Rightarrow> nat set) \<Rightarrow> 'c list \<Rightarrow> 'a list \<Rightarrow> nat set" where
  "listReach r h xs = (\<Union>x \<in> set xs. r h x)"

lemma listContent_Some:
  "listContent t h (x # xs) = Some w \<longleftrightarrow> (\<exists>v vs. w = v # vs \<and> t h x = Some v \<and> listContent t h xs = Some vs)"
  by (auto split: option.splits)

context deep_copier
begin

lemma list_grows: "listContent content h xs = Some vs \<Longrightarrow> listContent content (h @ new) xs = Some vs \<and> listReach reach (h @ new) xs = listReach reach h xs"
proof (induction xs arbitrary: vs)
  case (Cons x xs)
  then obtain v us where v: "vs = v # us" "content h x = Some v" "listContent content h xs = Some us"
    unfolding listContent_Some by blast
  show ?case using grows [OF v(2), of new] Cons.IH [OF v(3)] v(1) by (simp add: listReach_def)
qed (simp add: listReach_def)

lemma list_bounded: "listContent content h xs = Some vs \<Longrightarrow> listReach reach h xs \<subseteq> {..<length h}"
proof (induction xs arbitrary: vs)
  case (Cons x xs)
  then obtain v us where v: "content h x = Some v" "listContent content h xs = Some us" unfolding listContent_Some by blast
  show ?case using bounded [OF v(1)] Cons.IH [OF v(2)] by (simp add: listReach_def)
qed (simp add: listReach_def)

lemma list_elsewhere:
  "listContent content h xs = Some vs \<Longrightarrow> a \<notin> listReach reach h xs \<Longrightarrow>
   listContent content (h[a := c]) xs = Some vs \<and> listReach reach (h[a := c]) xs = listReach reach h xs"
proof (induction xs arbitrary: vs)
  case (Cons x xs)
  obtain v us where v: "vs = v # us" "content h x = Some v" "listContent content h xs = Some us"
    using Cons.prems(1) unfolding listContent_Some by blast
  have "a \<notin> reach h x" "a \<notin> listReach reach h xs" using Cons.prems(2) by (simp_all add: listReach_def)
  then have "content (h[a := c]) x = Some v \<and> reach (h[a := c]) x = reach h x"
    "listContent content (h[a := c]) xs = Some us \<and> listReach reach (h[a := c]) xs = listReach reach h xs"
    using elsewhere [OF v(2)] Cons.IH [OF v(3)] by simp_all
  then show ?case using v(1) by (simp add: listReach_def)
qed (simp add: listReach_def)

lemma list_copies:
  "listContent content h xs = Some vs \<Longrightarrow> copyList copy xs h = (ys, h') \<Longrightarrow>
   (\<exists>new. h' = h @ new) \<and> listContent content h' ys = Some vs \<and> listReach reach h' ys \<subseteq> {length h..<length h'}"
proof (induction xs arbitrary: vs h ys)
  case (Cons x xs)
  obtain v us where v: "vs = v # us" "content h x = Some v" "listContent content h xs = Some us"
    using Cons.prems(1) unfolding listContent_Some by blast
  obtain x' h1 where x': "copy x h = (x', h1)" by (rule prod.exhaust)
  obtain xs' where xs': "copyList copy xs h1 = (xs', h')" "ys = x' # xs'" using Cons.prems(2) x' by (auto split: prod.splits)
  from copies [OF v(2) x'] obtain n1 where one: "h1 = h @ n1" "content h1 x' = Some v" "reach h1 x' \<subseteq> {length h..<length h1}" by blast
  have "listContent content h1 xs = Some us" using list_grows [OF v(3)] one(1) by simp
  from Cons.IH [OF this xs'(1)] obtain n2 where two: "h' = h1 @ n2" "listContent content h' xs' = Some us"
    "listReach reach h' xs' \<subseteq> {length h1..<length h'}" by blast
  have head: "content h' x' = Some v" "reach h' x' = reach h1 x'" using grows [OF one(2)] two(1) by simp_all
  then have "listContent content h' ys = Some vs" using two(2) xs'(2) v(1) by simp
  moreover have "listReach reach h' ys = reach h1 x' \<union> listReach reach h' xs'" using head(2) xs'(2) by (simp add: listReach_def)
  moreover have "{length h..<length h1} \<subseteq> {length h..<length h'}" "{length h1..<length h'} \<subseteq> {length h..<length h'}"
    using one(1) two(1) by auto
  ultimately show ?case using one(1,3) two(1,3) by (intro conjI exI [of _ "n1 @ n2"]) (simp, blast+)
qed (auto simp: listReach_def)

end

lemma deep_copier_list:
  assumes "deep_copier c t r"
  shows "deep_copier (copyList c) (listContent t) (listReach r)"
proof (rule deep_copier.intro, goal_cases)
  case 1
  then show ?case by (rule deep_copier.list_copies [OF assms])
next
  case 2
  then show ?case by (rule deep_copier.list_grows [OF assms])
next
  case 3
  then show ?case by (rule deep_copier.list_bounded [OF assms])
next
  case 4
  then show ?case by (rule deep_copier.list_elsewhere [OF assms])
qed

text \<open>A pointer to a cell: \<open>get\<close> reads its value from the cell, \<open>mk\<close> makes a cell of a value.\<close>

definition copyPtr :: "('c \<Rightarrow> 'a option) \<Rightarrow> ('a \<Rightarrow> 'c) \<Rightarrow> ('a \<Rightarrow> 'c list \<Rightarrow> 'a \<times> 'c list) \<Rightarrow> nat option \<Rightarrow> 'c list \<Rightarrow> nat option \<times> 'c list" where
  "copyPtr get mk f p h =
     (case p of
        None \<Rightarrow> (None, h)
      | Some a \<Rightarrow>
          (case get (h ! a) of
             None \<Rightarrow> (None, h)
           | Some x \<Rightarrow> (let (y, h') = f x h in (Some (length h'), h' @ [mk y]))))"

definition ptrContent :: "('c \<Rightarrow> 'a option) \<Rightarrow> ('c list \<Rightarrow> 'a \<Rightarrow> 'v option) \<Rightarrow> 'c list \<Rightarrow> nat option \<Rightarrow> 'v option option" where
  "ptrContent get t h p =
     (case p of
        None \<Rightarrow> Some None
      | Some a \<Rightarrow> (if a < length h then (case get (h ! a) of None \<Rightarrow> None | Some x \<Rightarrow> map_option Some (t h x)) else None))"

definition ptrReach :: "('c \<Rightarrow> 'a option) \<Rightarrow> ('c list \<Rightarrow> 'a \<Rightarrow> nat set) \<Rightarrow> 'c list \<Rightarrow> nat option \<Rightarrow> nat set" where
  "ptrReach get r h p =
     (case p of None \<Rightarrow> {} | Some a \<Rightarrow> insert a (case get (h ! a) of None \<Rightarrow> {} | Some x \<Rightarrow> r h x))"

lemma ptrContent_cases:
  assumes "ptrContent get t h p = Some v"
  obtains "p = None" "v = None" | a x u where "p = Some a" "a < length h" "get (h ! a) = Some x" "t h x = Some u" "v = Some u"
  using assms by (cases p) (auto simp: ptrContent_def split: if_splits option.splits)

lemma deep_copier_ptr:
  assumes "deep_copier c t r" and "\<And>x. get (mk x) = Some x"
  shows "deep_copier (copyPtr get mk c) (ptrContent get t) (ptrReach get r)"
proof
  fix h p v q h'
  assume v: "ptrContent get t h p = Some v" and q: "copyPtr get mk c p h = (q, h')"
  from v show "(\<exists>new. h' = h @ new) \<and> ptrContent get t h' q = Some v \<and> ptrReach get r h' q \<subseteq> {length h..<length h'}"
  proof (cases rule: ptrContent_cases)
    case 1
    then show ?thesis using q by (simp add: copyPtr_def ptrContent_def ptrReach_def)
  next
    case (2 a x u)
    obtain y h1 where y: "c x h = (y, h1)" by (rule prod.exhaust)
    then have q': "q = Some (length h1)" "h' = h1 @ [mk y]" using q 2 by (simp_all add: copyPtr_def)
    from deep_copier.copies [OF assms(1) 2(4) y] obtain new where new: "h1 = h @ new" "t h1 y = Some u" "r h1 y \<subseteq> {length h..<length h1}"
      by blast
    have "t h' y = Some u" "r h' y = r h1 y" using deep_copier.grows [OF assms(1) new(2)] q'(2) by simp_all
    then show ?thesis using q' new 2(5) assms(2) by (fastforce simp: ptrContent_def ptrReach_def nth_append)
  qed
next
  fix h p v new
  assume "ptrContent get t h p = Some v"
  then show "ptrContent get t (h @ new) p = Some v \<and> ptrReach get r (h @ new) p = ptrReach get r h p"
    by (cases rule: ptrContent_cases) (auto simp: ptrContent_def ptrReach_def nth_append dest: deep_copier.grows [OF assms(1)])
next
  fix h p v
  assume "ptrContent get t h p = Some v"
  then show "ptrReach get r h p \<subseteq> {..<length h}"
    by (cases rule: ptrContent_cases) (auto simp: ptrReach_def dest: deep_copier.bounded [OF assms(1)])
next
  fix h p v a d
  assume "ptrContent get t h p = Some v" and a: "a \<notin> ptrReach get r h p"
  then show "ptrContent get t (h[a := d]) p = Some v \<and> ptrReach get r (h[a := d]) p = ptrReach get r h p"
    by (cases rule: ptrContent_cases) (use a in \<open>auto simp: ptrContent_def ptrReach_def dest: deep_copier.elsewhere [OF assms(1)]\<close>)
qed

text \<open>A struct whose fields \<open>part\<close> hold addresses; \<open>put\<close> writes these fields, the others stay.\<close>

definition copyStruct :: "('s \<Rightarrow> 'a) \<Rightarrow> ('s \<Rightarrow> 'a \<Rightarrow> 's) \<Rightarrow> ('a \<Rightarrow> 'c list \<Rightarrow> 'a \<times> 'c list) \<Rightarrow> 's \<Rightarrow> 'c list \<Rightarrow> 's \<times> 'c list" where
  "copyStruct part put f s h = (let (y, h') = f (part s) h in (put s y, h'))"

definition structContent :: "('s \<Rightarrow> 'a) \<Rightarrow> ('s \<Rightarrow> 'p) \<Rightarrow> ('c list \<Rightarrow> 'a \<Rightarrow> 'v option) \<Rightarrow> 'c list \<Rightarrow> 's \<Rightarrow> ('p \<times> 'v) option" where
  "structContent part plain t h s = map_option (Pair (plain s)) (t h (part s))"

definition structReach :: "('s \<Rightarrow> 'a) \<Rightarrow> ('c list \<Rightarrow> 'a \<Rightarrow> nat set) \<Rightarrow> 'c list \<Rightarrow> 's \<Rightarrow> nat set" where
  "structReach part r h s = r h (part s)"

lemma deep_copier_struct:
  assumes "deep_copier c t r" and "\<And>s y. part (put s y) = y" and "\<And>s y. plain (put s y) = plain s"
  shows "deep_copier (copyStruct part put c) (structContent part plain t) (structReach part r)"
proof
  fix h s v s' h'
  assume "structContent part plain t h s = Some v" "copyStruct part put c s h = (s', h')"
  then obtain u y where u: "t h (part s) = Some u" "v = (plain s, u)" and y: "c (part s) h = (y, h')" "s' = put s y"
    by (auto simp: structContent_def copyStruct_def split: prod.splits)
  from deep_copier.copies [OF assms(1) u(1) y(1)]
  show "(\<exists>new. h' = h @ new) \<and> structContent part plain t h' s' = Some v \<and> structReach part r h' s' \<subseteq> {length h..<length h'}"
    using u(2) y(2) assms(2,3) by (simp add: structContent_def structReach_def)
next
  fix h s v new
  assume "structContent part plain t h s = Some v"
  then show "structContent part plain t (h @ new) s = Some v \<and> structReach part r (h @ new) s = structReach part r h s"
    using deep_copier.grows [OF assms(1)] by (auto simp: structContent_def structReach_def)
next
  fix h s v
  assume "structContent part plain t h s = Some v"
  then obtain u where "t h (part s) = Some u" by (auto simp: structContent_def)
  then show "structReach part r h s \<subseteq> {..<length h}" unfolding structReach_def by (rule deep_copier.bounded [OF assms(1)])
next
  fix h s v a d
  assume "structContent part plain t h s = Some v" "a \<notin> structReach part r h s"
  then show "structContent part plain t (h[a := d]) s = Some v \<and> structReach part r (h[a := d]) s = structReach part r h s"
    using deep_copier.elsewhere [OF assms(1)] by (auto simp: structContent_def structReach_def)
qed

fun copyOption :: "('a \<Rightarrow> 'c list \<Rightarrow> 'a \<times> 'c list) \<Rightarrow> 'a option \<Rightarrow> 'c list \<Rightarrow> 'a option \<times> 'c list" where
  "copyOption f None h = (None, h)"
| "copyOption f (Some x) h = (let (y, h') = f x h in (Some y, h'))"

fun optionContent :: "('c list \<Rightarrow> 'a \<Rightarrow> 'v option) \<Rightarrow> 'c list \<Rightarrow> 'a option \<Rightarrow> 'v option option" where
  "optionContent t h None = Some None"
| "optionContent t h (Some x) = map_option Some (t h x)"

fun optionReach :: "('c list \<Rightarrow> 'a \<Rightarrow> nat set) \<Rightarrow> 'c list \<Rightarrow> 'a option \<Rightarrow> nat set" where
  "optionReach r h None = {}"
| "optionReach r h (Some x) = r h x"

lemma deep_copier_option:
  assumes "deep_copier c t r"
  shows "deep_copier (copyOption c) (optionContent t) (optionReach r)"
proof
  fix h p v q h'
  assume v: "optionContent t h p = Some v" "copyOption c p h = (q, h')"
  show "(\<exists>new. h' = h @ new) \<and> optionContent t h' q = Some v \<and> optionReach r h' q \<subseteq> {length h..<length h'}"
  proof (cases p)
    case (Some x)
    then obtain u where "t h x = Some u" "v = Some u" using v(1) by (cases "t h x") auto
    moreover obtain y where "c x h = (y, h')" "q = Some y" using v(2) Some by (auto split: prod.splits)
    ultimately show ?thesis using deep_copier.copies [OF assms, of h x u y h'] by simp
  qed (use v in simp)
next
  fix h p v new
  assume "optionContent t h p = Some v"
  then show "optionContent t (h @ new) p = Some v \<and> optionReach r (h @ new) p = optionReach r h p"
    using deep_copier.grows [OF assms] by (cases p) auto
next
  fix h p v
  assume "optionContent t h p = Some v"
  then show "optionReach r h p \<subseteq> {..<length h}"
    using deep_copier.bounded [OF assms] by (cases p) (simp, metis map_option_eq_Some optionContent.simps(2) optionReach.simps(2))
next
  fix h p v a d
  assume "optionContent t h p = Some v" "a \<notin> optionReach r h p"
  then show "optionContent t (h[a := d]) p = Some v \<and> optionReach r (h[a := d]) p = optionReach r h p"
    using deep_copier.elsewhere [OF assms] by (cases p) auto
qed

end
