(* ===== verification/Deep_Copy.thy ===== *)
theory Deep_Copy
  imports Deep_Copier
begin

text \<open>
  The copies of API objects, \<open>src/api/v1alpha1/zz_generated.deepcopy.go\<close>, for the types of \<open>resource_group.go\<close> and \<open>conditions.go\<close>.
  The controllers change a copy of an object and send the difference to the object, so a copy must not share memory with
  the original.

  Memory is a heap of cells, a list whose indices are the addresses; a pointer, a slice and a map are an address or
  nil. A struct is a record that holds addresses. A copy returns the struct it writes and the heap it leaves; a cell is made after the
  memory its contents point to. \<open>RawExtension\<close>, \<open>Time\<close>, \<open>ObjectMeta\<close> and \<open>ListMeta\<close> are values \<open>'x\<close> of apimachinery, whose copies are
  arguments.
\<close>

section \<open>The types of the API\<close>

record 'x apiCondition =
  acType :: string
  acStatus :: string
  acLastTransitionTime :: "'x option"
  acReason :: "nat option"
  acMessage :: "nat option"
  acObservedGeneration :: "64 word"

record apiDependency =
  adID :: string

record apiValidation =
  avExpression :: string
  avMessage :: string

record 'x apiResource =
  arID :: string
  arTemplate :: 'x
  arReadyWhen :: "nat option"
  arIncludeWhen :: "nat option"

record 'x apiSchema =
  asKind :: string
  asAPIVersion :: string
  asSpec :: 'x
  asStatus :: 'x
  asValidation :: "nat option"

record apiResourceInformation =
  aiID :: string
  aiDependencies :: "nat option"

record apiGroupSpec =
  agSchema :: "nat option"
  agResources :: "nat option"
  agDefaultServiceAccounts :: "nat option"

record apiGroupStatus =
  auState :: string
  auTopologicalOrder :: "nat option"
  auConditions :: "nat option"
  auResources :: "nat option"

record 'x apiGroup =
  apTypeMeta :: "string \<times> string"
  apObjectMeta :: 'x
  apSpec :: apiGroupSpec
  apStatus :: apiGroupStatus

record 'x apiGroupList =
  alTypeMeta :: "string \<times> string"
  alListMeta :: 'x
  alItems :: "nat option"

datatype 'x cell =
    StringCell string
  | StringsCell "string list"
  | AccountsCell "string gomap"
  | DependenciesCell "apiDependency list"
  | ConditionsCell "'x apiCondition list"
  | InformationsCell "apiResourceInformation list"
  | SchemaCell "'x apiSchema"
  | ResourceCell "'x apiResource"
  | ResourcesCell "nat option list"
  | GroupCell "'x apiGroup"
  | GroupsCell "'x apiGroup list"
  | GroupListCell "'x apiGroupList"
  | ConditionCell "'x apiCondition"
  | DependencyCell apiDependency
  | ValidationCell apiValidation
  | InformationCell apiResourceInformation
  | SpecCell apiGroupSpec
  | StatusCell apiGroupStatus
  | LibraryCell 'x

text \<open>The value in a cell of a given type.\<close>

definition stringIn :: "'x cell \<Rightarrow> string option" where
  "stringIn c = (case c of StringCell x \<Rightarrow> Some x | _ \<Rightarrow> None)"

definition stringsIn :: "'x cell \<Rightarrow> (string list) option" where
  "stringsIn c = (case c of StringsCell x \<Rightarrow> Some x | _ \<Rightarrow> None)"

definition accountsIn :: "'x cell \<Rightarrow> (string gomap) option" where
  "accountsIn c = (case c of AccountsCell x \<Rightarrow> Some x | _ \<Rightarrow> None)"

definition dependenciesIn :: "'x cell \<Rightarrow> (apiDependency list) option" where
  "dependenciesIn c = (case c of DependenciesCell x \<Rightarrow> Some x | _ \<Rightarrow> None)"

definition conditionsIn :: "'x cell \<Rightarrow> ('x apiCondition list) option" where
  "conditionsIn c = (case c of ConditionsCell x \<Rightarrow> Some x | _ \<Rightarrow> None)"

definition informationsIn :: "'x cell \<Rightarrow> (apiResourceInformation list) option" where
  "informationsIn c = (case c of InformationsCell x \<Rightarrow> Some x | _ \<Rightarrow> None)"

definition schemaIn :: "'x cell \<Rightarrow> ('x apiSchema) option" where
  "schemaIn c = (case c of SchemaCell x \<Rightarrow> Some x | _ \<Rightarrow> None)"

definition resourceIn :: "'x cell \<Rightarrow> ('x apiResource) option" where
  "resourceIn c = (case c of ResourceCell x \<Rightarrow> Some x | _ \<Rightarrow> None)"

definition resourcesIn :: "'x cell \<Rightarrow> (nat option list) option" where
  "resourcesIn c = (case c of ResourcesCell x \<Rightarrow> Some x | _ \<Rightarrow> None)"

definition groupIn :: "'x cell \<Rightarrow> ('x apiGroup) option" where
  "groupIn c = (case c of GroupCell x \<Rightarrow> Some x | _ \<Rightarrow> None)"

definition groupsIn :: "'x cell \<Rightarrow> ('x apiGroup list) option" where
  "groupsIn c = (case c of GroupsCell x \<Rightarrow> Some x | _ \<Rightarrow> None)"

definition groupListIn :: "'x cell \<Rightarrow> ('x apiGroupList) option" where
  "groupListIn c = (case c of GroupListCell x \<Rightarrow> Some x | _ \<Rightarrow> None)"

definition conditionIn :: "'x cell \<Rightarrow> ('x apiCondition) option" where
  "conditionIn c = (case c of ConditionCell x \<Rightarrow> Some x | _ \<Rightarrow> None)"

definition dependencyIn :: "'x cell \<Rightarrow> apiDependency option" where
  "dependencyIn c = (case c of DependencyCell x \<Rightarrow> Some x | _ \<Rightarrow> None)"

definition validationIn :: "'x cell \<Rightarrow> apiValidation option" where
  "validationIn c = (case c of ValidationCell x \<Rightarrow> Some x | _ \<Rightarrow> None)"

definition informationIn :: "'x cell \<Rightarrow> apiResourceInformation option" where
  "informationIn c = (case c of InformationCell x \<Rightarrow> Some x | _ \<Rightarrow> None)"

definition specIn :: "'x cell \<Rightarrow> apiGroupSpec option" where
  "specIn c = (case c of SpecCell x \<Rightarrow> Some x | _ \<Rightarrow> None)"

definition statusIn :: "'x cell \<Rightarrow> apiGroupStatus option" where
  "statusIn c = (case c of StatusCell x \<Rightarrow> Some x | _ \<Rightarrow> None)"

lemma cell_values [simp]:
  "stringIn (StringCell x0) = Some x0"
  "stringsIn (StringsCell x1) = Some x1"
  "accountsIn (AccountsCell x2) = Some x2"
  "dependenciesIn (DependenciesCell x3) = Some x3"
  "conditionsIn (ConditionsCell x4) = Some x4"
  "informationsIn (InformationsCell x5) = Some x5"
  "schemaIn (SchemaCell x6) = Some x6"
  "resourceIn (ResourceCell x7) = Some x7"
  "resourcesIn (ResourcesCell x8) = Some x8"
  "groupIn (GroupCell x9) = Some x9"
  "groupsIn (GroupsCell x10) = Some x10"
  "groupListIn (GroupListCell x11) = Some x11"
  "conditionIn (ConditionCell x12) = Some x12"
  "dependencyIn (DependencyCell x13) = Some x13"
  "validationIn (ValidationCell x14) = Some x14"
  "informationIn (InformationCell x15) = Some x15"
  "specIn (SpecCell x16) = Some x16"
  "statusIn (StatusCell x17) = Some x17"
  by (simp_all add: stringIn_def stringsIn_def accountsIn_def dependenciesIn_def conditionsIn_def informationsIn_def schemaIn_def resourceIn_def resourcesIn_def groupIn_def groupsIn_def groupListIn_def conditionIn_def dependencyIn_def validationIn_def informationIn_def specIn_def statusIn_def)

type_synonym ('a, 'x) copier = "'a \<Rightarrow> 'x cell list \<Rightarrow> 'a \<times> 'x cell list"

record 'x apimachinery =
  copyRawExtension :: "('x, 'x) copier"
  copyTime :: "('x, 'x) copier"
  copyObjectMeta :: "('x, 'x) copier"
  copyListMeta :: "('x, 'x) copier"

section \<open>The copies\<close>

definition copyString :: "(nat option, 'x) copier" where
  "copyString = copyPtr stringIn StringCell copyPlain"

definition copyStrings :: "(nat option, 'x) copier" where
  "copyStrings = copyPtr stringsIn StringsCell copyPlain"

definition copyAccounts :: "(nat option, 'x) copier" where
  "copyAccounts = copyPtr accountsIn AccountsCell
     (\<lambda>m h. (fold (\<lambda>(key, val) out. AList.update key val out) m [], h))"

definition ConditionDeepCopyInto :: "'x apimachinery \<Rightarrow> ('x apiCondition, 'x) copier" where
  "ConditionDeepCopyInto M c h =
     (let (lastTransitionTime, h1) = copyOption (copyTime M) (acLastTransitionTime c) h;
          (reason, h2) = copyString (acReason c) h1;
          (message, h3) = copyString (acMessage c) h2 in
      (c\<lparr>acLastTransitionTime := lastTransitionTime, acReason := reason, acMessage := message\<rparr>, h3))"

definition DependencyDeepCopyInto :: "(apiDependency, 'x) copier" where
  "DependencyDeepCopyInto d h = (d, h)"

definition ValidationDeepCopyInto :: "(apiValidation, 'x) copier" where
  "ValidationDeepCopyInto v h = (v, h)"

definition ResourceDeepCopyInto :: "'x apimachinery \<Rightarrow> ('x apiResource, 'x) copier" where
  "ResourceDeepCopyInto M r h =
     (let (template, h1) = copyRawExtension M (arTemplate r) h;
          (readyWhen, h2) = copyStrings (arReadyWhen r) h1;
          (includeWhen, h3) = copyStrings (arIncludeWhen r) h2 in
      (r\<lparr>arTemplate := template, arReadyWhen := readyWhen, arIncludeWhen := includeWhen\<rparr>, h3))"

definition SchemaDeepCopyInto :: "'x apimachinery \<Rightarrow> ('x apiSchema, 'x) copier" where
  "SchemaDeepCopyInto M s h =
     (let (spec, h1) = copyRawExtension M (asSpec s) h;
          (status, h2) = copyRawExtension M (asStatus s) h1;
          (validation, h3) = copyStrings (asValidation s) h2 in
      (s\<lparr>asSpec := spec, asStatus := status, asValidation := validation\<rparr>, h3))"

definition ResourceInformationDeepCopyInto :: "(apiResourceInformation, 'x) copier" where
  "ResourceInformationDeepCopyInto i h =
     (let (dependencies, h1) = copyPtr dependenciesIn DependenciesCell copyPlain (aiDependencies i) h in
      (i\<lparr>aiDependencies := dependencies\<rparr>, h1))"

definition SchemaDeepCopy :: "'x apimachinery \<Rightarrow> (nat option, 'x) copier" where
  "SchemaDeepCopy M = copyPtr schemaIn SchemaCell (SchemaDeepCopyInto M)"

definition ResourceDeepCopy :: "'x apimachinery \<Rightarrow> (nat option, 'x) copier" where
  "ResourceDeepCopy M = copyPtr resourceIn ResourceCell (ResourceDeepCopyInto M)"

text \<open>The slice of pointers keeps its nil elements.\<close>

definition ResourceGroupSpecDeepCopyInto :: "'x apimachinery \<Rightarrow> (apiGroupSpec, 'x) copier" where
  "ResourceGroupSpecDeepCopyInto M s h =
     (let (sch, h1) = SchemaDeepCopy M (agSchema s) h;
          (resources, h2) = copyPtr resourcesIn ResourcesCell (copyList (ResourceDeepCopy M)) (agResources s) h1;
          (accounts, h3) = copyAccounts (agDefaultServiceAccounts s) h2 in
      (s\<lparr>agSchema := sch, agResources := resources, agDefaultServiceAccounts := accounts\<rparr>, h3))"

definition ResourceGroupStatusDeepCopyInto :: "'x apimachinery \<Rightarrow> (apiGroupStatus, 'x) copier" where
  "ResourceGroupStatusDeepCopyInto M s h =
     (let (order, h1) = copyStrings (auTopologicalOrder s) h;
          (conditions, h2) = copyPtr conditionsIn ConditionsCell
             (copyList (ConditionDeepCopyInto M)) (auConditions s) h1;
          (resources, h3) = copyPtr informationsIn InformationsCell
             (copyList ResourceInformationDeepCopyInto) (auResources s) h2 in
      (s\<lparr>auTopologicalOrder := order, auConditions := conditions, auResources := resources\<rparr>, h3))"

definition ResourceGroupDeepCopyInto :: "'x apimachinery \<Rightarrow> ('x apiGroup, 'x) copier" where
  "ResourceGroupDeepCopyInto M g h =
     (let (objectMeta, h1) = copyObjectMeta M (apObjectMeta g) h;
          (spec, h2) = ResourceGroupSpecDeepCopyInto M (apSpec g) h1;
          (status, h3) = ResourceGroupStatusDeepCopyInto M (apStatus g) h2 in
      (g\<lparr>apObjectMeta := objectMeta, apSpec := spec, apStatus := status\<rparr>, h3))"

definition ResourceGroupListDeepCopyInto :: "'x apimachinery \<Rightarrow> ('x apiGroupList, 'x) copier" where
  "ResourceGroupListDeepCopyInto M l h =
     (let (listMeta, h1) = copyListMeta M (alListMeta l) h;
          (items, h2) = copyPtr groupsIn GroupsCell
             (copyList (ResourceGroupDeepCopyInto M)) (alItems l) h1 in
      (l\<lparr>alListMeta := listMeta, alItems := items\<rparr>, h2))"

text \<open>The copies of pointers; a nil pointer is copied to nil. \<open>DeepCopyObject\<close> returns the same pointer as an interface.\<close>

definition ConditionDeepCopy :: "'x apimachinery \<Rightarrow> (nat option, 'x) copier" where
  "ConditionDeepCopy M = copyPtr conditionIn ConditionCell (ConditionDeepCopyInto M)"

definition DependencyDeepCopy :: "(nat option, 'x) copier" where
  "DependencyDeepCopy = copyPtr dependencyIn DependencyCell DependencyDeepCopyInto"

definition ValidationDeepCopy :: "(nat option, 'x) copier" where
  "ValidationDeepCopy = copyPtr validationIn ValidationCell ValidationDeepCopyInto"

definition ResourceInformationDeepCopy :: "(nat option, 'x) copier" where
  "ResourceInformationDeepCopy = copyPtr informationIn InformationCell ResourceInformationDeepCopyInto"

definition ResourceGroupSpecDeepCopy :: "'x apimachinery \<Rightarrow> (nat option, 'x) copier" where
  "ResourceGroupSpecDeepCopy M = copyPtr specIn SpecCell (ResourceGroupSpecDeepCopyInto M)"

definition ResourceGroupStatusDeepCopy :: "'x apimachinery \<Rightarrow> (nat option, 'x) copier" where
  "ResourceGroupStatusDeepCopy M = copyPtr statusIn StatusCell (ResourceGroupStatusDeepCopyInto M)"

definition ResourceGroupDeepCopy :: "'x apimachinery \<Rightarrow> (nat option, 'x) copier" where
  "ResourceGroupDeepCopy M = copyPtr groupIn GroupCell (ResourceGroupDeepCopyInto M)"

definition ResourceGroupListDeepCopy :: "'x apimachinery \<Rightarrow> (nat option, 'x) copier" where
  "ResourceGroupListDeepCopy M = copyPtr groupListIn GroupListCell (ResourceGroupListDeepCopyInto M)"

definition ResourceGroupDeepCopyObject :: "'x apimachinery \<Rightarrow> (nat option, 'x) copier" where
  "ResourceGroupDeepCopyObject M p h =
     (case ResourceGroupDeepCopy M p h of (Some c, h') \<Rightarrow> (Some c, h') | (None, h') \<Rightarrow> (None, h'))"

definition ResourceGroupListDeepCopyObject :: "'x apimachinery \<Rightarrow> (nat option, 'x) copier" where
  "ResourceGroupListDeepCopyObject M p h =
     (case ResourceGroupListDeepCopy M p h of (Some c, h') \<Rightarrow> (Some c, h') | (None, h') \<Rightarrow> (None, h'))"

section \<open>What the objects stand for\<close>

text \<open>\<open>t\<close> and \<open>r\<close> are the content and the addresses of the values of apimachinery. A map has distinct keys.\<close>

definition mapContent :: "'c list \<Rightarrow> string gomap \<Rightarrow> string gomap option" where
  "mapContent h m = (if distinct (map fst m) then Some m else None)"

definition conditionContent where
  "conditionContent t = structContent (\<lambda>c. (acLastTransitionTime c, acReason c, acMessage c)) (\<lambda>c. (acType c, acStatus c, acObservedGeneration c))
     (pairContent (optionContent t) (pairContent (ptrContent stringIn plainContent) (ptrContent stringIn plainContent)))"

definition conditionReach where
  "conditionReach r = structReach (\<lambda>c. (acLastTransitionTime c, acReason c, acMessage c))
     (pairReach (optionReach r) (pairReach (ptrReach stringIn plainReach) (ptrReach stringIn plainReach)))"

definition resourceContent where
  "resourceContent t = structContent (\<lambda>x. (arTemplate x, arReadyWhen x, arIncludeWhen x)) arID
     (pairContent t (pairContent (ptrContent stringsIn plainContent) (ptrContent stringsIn plainContent)))"

definition resourceReach where
  "resourceReach r = structReach (\<lambda>x. (arTemplate x, arReadyWhen x, arIncludeWhen x))
     (pairReach r (pairReach (ptrReach stringsIn plainReach) (ptrReach stringsIn plainReach)))"

definition schemaContent where
  "schemaContent t = structContent (\<lambda>s. (asSpec s, asStatus s, asValidation s)) (\<lambda>s. (asKind s, asAPIVersion s))
     (pairContent t (pairContent t (ptrContent stringsIn plainContent)))"

definition schemaReach where
  "schemaReach r = structReach (\<lambda>s. (asSpec s, asStatus s, asValidation s)) (pairReach r (pairReach r (ptrReach stringsIn plainReach)))"

definition informationContent where
  "informationContent = structContent aiDependencies aiID (ptrContent dependenciesIn plainContent)"

definition informationReach where
  "informationReach = structReach aiDependencies (ptrReach dependenciesIn plainReach)"

definition specContent where
  "specContent t = structContent (\<lambda>s. (agSchema s, agResources s, agDefaultServiceAccounts s)) (\<lambda>s. ())
     (pairContent (ptrContent schemaIn (schemaContent t))
       (pairContent (ptrContent resourcesIn (listContent (ptrContent resourceIn (resourceContent t)))) (ptrContent accountsIn mapContent)))"

definition specReach where
  "specReach r = structReach (\<lambda>s. (agSchema s, agResources s, agDefaultServiceAccounts s))
     (pairReach (ptrReach schemaIn (schemaReach r))
       (pairReach (ptrReach resourcesIn (listReach (ptrReach resourceIn (resourceReach r)))) (ptrReach accountsIn plainReach)))"

definition statusContent where
  "statusContent t = structContent (\<lambda>s. (auTopologicalOrder s, auConditions s, auResources s)) auState
     (pairContent (ptrContent stringsIn plainContent)
       (pairContent (ptrContent conditionsIn (listContent (conditionContent t))) (ptrContent informationsIn (listContent informationContent))))"

definition statusReach where
  "statusReach r = structReach (\<lambda>s. (auTopologicalOrder s, auConditions s, auResources s))
     (pairReach (ptrReach stringsIn plainReach)
       (pairReach (ptrReach conditionsIn (listReach (conditionReach r))) (ptrReach informationsIn (listReach informationReach))))"

definition groupContent where
  "groupContent t = structContent (\<lambda>g. (apObjectMeta g, apSpec g, apStatus g)) apTypeMeta (pairContent t (pairContent (specContent t) (statusContent t)))"

definition groupReach where
  "groupReach r = structReach (\<lambda>g. (apObjectMeta g, apSpec g, apStatus g)) (pairReach r (pairReach (specReach r) (statusReach r)))"

definition groupListContent where
  "groupListContent t = structContent (\<lambda>l. (alListMeta l, alItems l)) alTypeMeta (pairContent t (ptrContent groupsIn (listContent (groupContent t))))"

definition groupListReach where
  "groupListReach r = structReach (\<lambda>l. (alListMeta l, alItems l)) (pairReach r (ptrReach groupsIn (listReach (groupReach r))))"

section \<open>Every copy is deep\<close>

text \<open>What the code relies on: the copies of apimachinery are deep.\<close>

definition libraryCopies where
  "libraryCopies M t r \<longleftrightarrow> deep_copier (copyRawExtension M) t r \<and> deep_copier (copyTime M) t r \<and>
     deep_copier (copyObjectMeta M) t r \<and> deep_copier (copyListMeta M) t r"

lemmas deep_copiers = deep_copier_plain deep_copier_pair deep_copier_list deep_copier_ptr deep_copier_option

lemma fold_update_distinct:
  "distinct (map fst (acc @ m)) \<Longrightarrow> fold (\<lambda>(key, val) out. AList.update key val out) m acc = acc @ m"
proof (induction m arbitrary: acc)
  case (Cons x m)
  have "AList.update (fst x) (snd x) acc = acc @ [x]" using Cons.prems by (induction acc) auto
  then show ?case using Cons by (simp add: split_beta)
qed simp

lemma deep_copier_map: "deep_copier (\<lambda>m h. (fold (\<lambda>(key, val) out. AList.update key val out) m [], h)) mapContent plainReach"
  by unfold_locales (auto simp: mapContent_def plainReach_def fold_update_distinct [of "[]", simplified] split: if_splits)

lemma deep_copier_strings:
  "deep_copier copyString (ptrContent stringIn plainContent) (ptrReach stringIn plainReach)"
  "deep_copier copyStrings (ptrContent stringsIn plainContent) (ptrReach stringsIn plainReach)"
  "deep_copier copyAccounts (ptrContent accountsIn mapContent) (ptrReach accountsIn plainReach)"
  unfolding copyString_def copyStrings_def copyAccounts_def by (rule deep_copier_ptr, rule deep_copier_plain deep_copier_map, simp)+

lemma deep_copier_condition:
  assumes "deep_copier (copyTime M) t r"
  shows "deep_copier (ConditionDeepCopyInto M) (conditionContent t) (conditionReach r)"
proof -
  have "ConditionDeepCopyInto M = copyStruct (\<lambda>c. (acLastTransitionTime c, acReason c, acMessage c))
      (\<lambda>c (x, y, z). c\<lparr>acLastTransitionTime := x, acReason := y, acMessage := z\<rparr>) (copyPair (copyOption (copyTime M)) (copyPair copyString copyString))"
    by (simp add: fun_eq_iff ConditionDeepCopyInto_def copyStruct_def Let_def split_beta)
  then show ?thesis
    unfolding conditionContent_def conditionReach_def
    by (simp only:) (intro deep_copier_struct deep_copiers deep_copier_strings assms; simp add: split_beta)
qed

lemma deep_copier_resource:
  assumes "deep_copier (copyRawExtension M) t r"
  shows "deep_copier (ResourceDeepCopyInto M) (resourceContent t) (resourceReach r)"
proof -
  have "ResourceDeepCopyInto M = copyStruct (\<lambda>x. (arTemplate x, arReadyWhen x, arIncludeWhen x))
      (\<lambda>s (x, y, z). s\<lparr>arTemplate := x, arReadyWhen := y, arIncludeWhen := z\<rparr>) (copyPair (copyRawExtension M) (copyPair copyStrings copyStrings))"
    by (simp add: fun_eq_iff ResourceDeepCopyInto_def copyStruct_def Let_def split_beta)
  then show ?thesis
    unfolding resourceContent_def resourceReach_def
    by (simp only:) (intro deep_copier_struct deep_copiers deep_copier_strings assms; simp add: split_beta)
qed

lemma deep_copier_schema:
  assumes "deep_copier (copyRawExtension M) t r"
  shows "deep_copier (SchemaDeepCopyInto M) (schemaContent t) (schemaReach r)"
proof -
  have "SchemaDeepCopyInto M = copyStruct (\<lambda>s. (asSpec s, asStatus s, asValidation s))
      (\<lambda>s (x, y, z). s\<lparr>asSpec := x, asStatus := y, asValidation := z\<rparr>) (copyPair (copyRawExtension M) (copyPair (copyRawExtension M) copyStrings))"
    by (simp add: fun_eq_iff SchemaDeepCopyInto_def copyStruct_def Let_def split_beta)
  then show ?thesis
    unfolding schemaContent_def schemaReach_def
    by (simp only:) (intro deep_copier_struct deep_copiers deep_copier_strings assms; simp add: split_beta)
qed

interpretation dependency: deep_copier DependencyDeepCopyInto plainContent plainReach
  by unfold_locales (simp_all add: DependencyDeepCopyInto_def plainContent_def plainReach_def)

interpretation validation: deep_copier ValidationDeepCopyInto plainContent plainReach
  by unfold_locales (simp_all add: ValidationDeepCopyInto_def plainContent_def plainReach_def)

lemma ResourceInformationDeepCopyInto_eq:
  "ResourceInformationDeepCopyInto = copyStruct aiDependencies (\<lambda>i x. i\<lparr>aiDependencies := x\<rparr>) (copyPtr dependenciesIn DependenciesCell copyPlain)"
  by (simp add: fun_eq_iff ResourceInformationDeepCopyInto_def copyStruct_def Let_def split_beta)

interpretation information: deep_copier ResourceInformationDeepCopyInto informationContent informationReach
  unfolding ResourceInformationDeepCopyInto_eq informationContent_def informationReach_def
  by (intro deep_copier_struct deep_copiers; simp)

lemma deep_copier_spec:
  assumes "deep_copier (copyRawExtension M) t r"
  shows "deep_copier (ResourceGroupSpecDeepCopyInto M) (specContent t) (specReach r)"
proof -
  have "ResourceGroupSpecDeepCopyInto M = copyStruct (\<lambda>s. (agSchema s, agResources s, agDefaultServiceAccounts s))
      (\<lambda>s (x, y, z). s\<lparr>agSchema := x, agResources := y, agDefaultServiceAccounts := z\<rparr>)
      (copyPair (SchemaDeepCopy M) (copyPair (copyPtr resourcesIn ResourcesCell (copyList (ResourceDeepCopy M))) copyAccounts))"
    by (simp add: fun_eq_iff ResourceGroupSpecDeepCopyInto_def copyStruct_def Let_def split_beta)
  then show ?thesis
    unfolding specContent_def specReach_def SchemaDeepCopy_def ResourceDeepCopy_def
    by (simp only:) (intro deep_copier_struct deep_copiers deep_copier_strings deep_copier_schema deep_copier_resource assms; simp add: split_beta)
qed

lemma deep_copier_status:
  assumes "deep_copier (copyTime M) t r"
  shows "deep_copier (ResourceGroupStatusDeepCopyInto M) (statusContent t) (statusReach r)"
proof -
  have "ResourceGroupStatusDeepCopyInto M = copyStruct (\<lambda>s. (auTopologicalOrder s, auConditions s, auResources s))
      (\<lambda>s (x, y, z). s\<lparr>auTopologicalOrder := x, auConditions := y, auResources := z\<rparr>)
      (copyPair copyStrings (copyPair (copyPtr conditionsIn ConditionsCell (copyList (ConditionDeepCopyInto M)))
        (copyPtr informationsIn InformationsCell (copyList ResourceInformationDeepCopyInto))))"
    by (simp add: fun_eq_iff ResourceGroupStatusDeepCopyInto_def copyStruct_def Let_def split_beta)
  then show ?thesis
    unfolding statusContent_def statusReach_def
    by (simp only:)
      (intro deep_copier_struct deep_copiers deep_copier_strings deep_copier_condition information.deep_copier_axioms assms; simp add: split_beta)
qed

lemma deep_copier_group:
  assumes "libraryCopies M t r"
  shows "deep_copier (ResourceGroupDeepCopyInto M) (groupContent t) (groupReach r)"
proof -
  have lib: "deep_copier (copyRawExtension M) t r" "deep_copier (copyTime M) t r" "deep_copier (copyObjectMeta M) t r"
    using assms by (simp_all add: libraryCopies_def)
  have "ResourceGroupDeepCopyInto M = copyStruct (\<lambda>g. (apObjectMeta g, apSpec g, apStatus g))
      (\<lambda>s (x, y, z). s\<lparr>apObjectMeta := x, apSpec := y, apStatus := z\<rparr>)
      (copyPair (copyObjectMeta M) (copyPair (ResourceGroupSpecDeepCopyInto M) (ResourceGroupStatusDeepCopyInto M)))"
    by (simp add: fun_eq_iff ResourceGroupDeepCopyInto_def copyStruct_def Let_def split_beta)
  then show ?thesis
    unfolding groupContent_def groupReach_def
    by (simp only:) (intro deep_copier_struct deep_copier_pair deep_copier_spec deep_copier_status lib; simp add: split_beta)
qed

lemma deep_copier_groupList:
  assumes "libraryCopies M t r"
  shows "deep_copier (ResourceGroupListDeepCopyInto M) (groupListContent t) (groupListReach r)"
proof -
  have lib: "deep_copier (copyListMeta M) t r" using assms by (simp add: libraryCopies_def)
  have "ResourceGroupListDeepCopyInto M = copyStruct (\<lambda>l. (alListMeta l, alItems l)) (\<lambda>s (x, y). s\<lparr>alListMeta := x, alItems := y\<rparr>)
      (copyPair (copyListMeta M) (copyPtr groupsIn GroupsCell (copyList (ResourceGroupDeepCopyInto M))))"
    by (simp add: fun_eq_iff ResourceGroupListDeepCopyInto_def copyStruct_def Let_def split_beta)
  then show ?thesis
    unfolding groupListContent_def groupListReach_def
    by (simp only:) (intro deep_copier_struct deep_copiers deep_copier_group [OF assms] lib; simp add: split_beta)
qed

lemma DeepCopyObject_eq:
  "ResourceGroupDeepCopyObject M = ResourceGroupDeepCopy M" "ResourceGroupListDeepCopyObject M = ResourceGroupListDeepCopy M"
  by (simp_all add: fun_eq_iff ResourceGroupDeepCopyObject_def ResourceGroupListDeepCopyObject_def split: prod.split option.split)

section \<open>Properties\<close>

text \<open>A sequence of writes to cells.\<close>

definition writes :: "(nat \<times> 'c) list \<Rightarrow> 'c list \<Rightarrow> 'c list" where
  "writes ws h = fold (\<lambda>(a, c) h. h[a := c]) ws h"

text \<open>The two values stand for the same, and writes to the memory of one of them are not seen through the other.\<close>

definition apart :: "('c list \<Rightarrow> 'a \<Rightarrow> 'v option) \<Rightarrow> ('c list \<Rightarrow> 'a \<Rightarrow> nat set) \<Rightarrow> 'c list \<Rightarrow> 'v \<Rightarrow> 'a \<Rightarrow> 'a \<Rightarrow> bool" where
  "apart t r h v x y \<longleftrightarrow> t h x = Some v \<and> t h y = Some v \<and> r h x \<inter> r h y = {} \<and>
     (\<forall>ws. fst ` set ws \<subseteq> r h y \<longrightarrow> t (writes ws h) x = Some v) \<and> (\<forall>ws. fst ` set ws \<subseteq> r h x \<longrightarrow> t (writes ws h) y = Some v)"

lemma deep_copier_apart:
  assumes "deep_copier c t r" and "t h x = Some v" and "c x h = (y, h')"
  shows "apart t r h' v x y"
  unfolding apart_def writes_def using deep_copier.separate [OF assms] by blast

lemma copied_pointer:
  assumes "deep_copier f t r" and "\<And>x. get (mk x) = Some x" and "ptrContent get t h p = Some v" and "copyPtr get mk f p h = (q, h')"
  shows "(q = None \<longleftrightarrow> p = None) \<and> take (length h) h' = h \<and> apart (ptrContent get t) (ptrReach get r) h' v p q"
proof -
  have ptr: "deep_copier (copyPtr get mk f) (ptrContent get t) (ptrReach get r)" using deep_copier_ptr [OF assms(1)] assms(2) by blast
  have "take (length h) h' = h" using deep_copier.copies [OF ptr assms(3,4)] by auto
  moreover have "q = None \<longleftrightarrow> p = None"
    using assms(3,4) by (cases rule: ptrContent_cases) (auto simp: copyPtr_def split: prod.splits)
  ultimately show ?thesis using deep_copier_apart [OF ptr assms(3,4)] by blast
qed

text \<open>
  C40. A copy of a resource group or of a list of them is equal to the original and shares no memory with it: both stand for the same
  object, to every depth, and whatever is written afterwards to the memory of the one is not seen through the
  other. So a controller may change the copy and compare it with the original. A nil pointer is copied to nil.
\<close>

theorem deep_copy_is_separate:
  assumes "libraryCopies M t r"
  shows "(ptrContent groupIn (groupContent t) h p = Some v \<longrightarrow> ResourceGroupDeepCopy M p h = (q, h') \<longrightarrow>
      (q = None \<longleftrightarrow> p = None) \<and> take (length h) h' = h \<and> apart (ptrContent groupIn (groupContent t)) (ptrReach groupIn (groupReach r)) h' v p q) \<and>
    (ptrContent groupListIn (groupListContent t) h l = Some u \<longrightarrow> ResourceGroupListDeepCopyObject M l h = (k, h2) \<longrightarrow>
      (k = None \<longleftrightarrow> l = None) \<and> take (length h) h2 = h \<and> apart (ptrContent groupListIn (groupListContent t)) (ptrReach groupListIn (groupListReach r)) h2 u l k)"
  unfolding DeepCopyObject_eq ResourceGroupDeepCopy_def ResourceGroupListDeepCopy_def
  using copied_pointer [OF deep_copier_group [OF assms], of groupIn GroupCell h p v q h']
    copied_pointer [OF deep_copier_groupList [OF assms], of groupListIn GroupListCell h l u k h2] by simp

section \<open>A concrete group\<close>

text \<open>Values of a library that are a text or the address of a text.\<close>

datatype libValue = Text string | At nat

fun libCopy :: "(libValue, libValue) copier" where
  "libCopy (Text s) h = (Text s, h)"
| "libCopy (At a) h = (At (length h), h @ [h ! a])"

fun libContent :: "libValue cell list \<Rightarrow> libValue \<Rightarrow> string option" where
  "libContent h (Text s) = Some s"
| "libContent h (At a) = (if a < length h then (case h ! a of LibraryCell (Text s) \<Rightarrow> Some s | _ \<Rightarrow> None) else None)"

fun libReach :: "libValue cell list \<Rightarrow> libValue \<Rightarrow> nat set" where
  "libReach h (Text s) = {}"
| "libReach h (At a) = {a}"

definition exampleMachinery :: "libValue apimachinery" where
  "exampleMachinery = \<lparr>copyRawExtension = libCopy, copyTime = libCopy, copyObjectMeta = libCopy, copyListMeta = libCopy\<rparr>"

interpretation lib: deep_copier libCopy libContent libReach
proof
  fix h x v y h'
  assume "libContent h x = Some v" "libCopy x h = (y, h')"
  then show "(\<exists>new. h' = h @ new) \<and> libContent h' y = Some v \<and> libReach h' y \<subseteq> {length h..<length h'}"
    by (cases x) (auto split: if_splits)
next
  fix h x v new
  assume "libContent h x = Some v"
  then show "libContent (h @ new) x = Some v \<and> libReach (h @ new) x = libReach h x"
    by (cases x) (auto simp: nth_append split: if_splits)
next
  fix h x v
  assume "libContent h x = Some v"
  then show "libReach h x \<subseteq> {..<length h}" by (cases x) (auto split: if_splits)
next
  fix h x v a c
  assume "libContent h x = Some v" "a \<notin> libReach h x"
  then show "libContent (h[a := c]) x = Some v \<and> libReach (h[a := c]) x = libReach h x" by (cases x) (auto split: if_splits)
qed

lemma exampleMachinery_copies: "libraryCopies exampleMachinery libContent libReach"
  using lib.deep_copier_axioms by (simp add: libraryCopies_def exampleMachinery_def)

text \<open>A group with a resource, a nil resource, a service account and a condition; its address is 10.\<close>

definition exampleHeap :: "libValue cell list" where
  "exampleHeap =
     [LibraryCell (Text ''template''), StringsCell [''${vpc.status.ready}''],
      ResourceCell \<lparr>arID = ''vpc'', arTemplate = At 0, arReadyWhen = Some 1, arIncludeWhen = None\<rparr>, ResourcesCell [Some 2, None],
      SchemaCell \<lparr>asKind = ''Net'', asAPIVersion = ''v1alpha1'', asSpec = Text ''spec'', asStatus = At 0, asValidation = None\<rparr>,
      AccountsCell [(''*'', ''kro'')], StringsCell [''vpc''], StringCell ''synced'',
      ConditionsCell [\<lparr>acType = ''GraphVerified'', acStatus = ''True'', acLastTransitionTime = Some (Text ''now''), acReason = Some 7, acMessage = Some 7,
        acObservedGeneration = 1\<rparr>],
      InformationsCell [\<lparr>aiID = ''vpc'', aiDependencies = None\<rparr>],
      GroupCell \<lparr>apTypeMeta = (''ResourceGroup'', ''kro.run/v1alpha1''), apObjectMeta = Text ''net'',
        apSpec = \<lparr>agSchema = Some 4, agResources = Some 3, agDefaultServiceAccounts = Some 5\<rparr>,
        apStatus = \<lparr>auState = ''Active'', auTopologicalOrder = Some 6, auConditions = Some 8, auResources = Some 9\<rparr>\<rparr>]"

theorem deep_copy_is_separate_witness:
  "\<exists>q h' v. ResourceGroupDeepCopy exampleMachinery (Some 10) exampleHeap = (q, h') \<and>
     ptrContent groupIn (groupContent libContent) exampleHeap (Some 10) = Some v \<and>
     apart (ptrContent groupIn (groupContent libContent)) (ptrReach groupIn (groupReach libReach)) h' v (Some 10) q \<and> length h' = 24"
proof -
  have v: "ptrContent groupIn (groupContent libContent) exampleHeap (Some 10) \<noteq> None"
    "length (snd (ResourceGroupDeepCopy exampleMachinery (Some 10) exampleHeap)) = 24" by code_simp+
  then obtain v where "ptrContent groupIn (groupContent libContent) exampleHeap (Some 10) = Some v" by blast
  moreover obtain q h' where "ResourceGroupDeepCopy exampleMachinery (Some 10) exampleHeap = (q, h')" by (rule prod.exhaust)
  ultimately show ?thesis using deep_copy_is_separate [OF exampleMachinery_copies] v(2) by fastforce
qed

end
