(* ===== verification/Spec2Isabelle.thy ===== *)
theory Spec2Isabelle
  imports Instance_Progress Schema_Conversion Metrics Startup Deep_Copy
begin

text \<open>
  \<^bold>\<open>A verification library for kro, the Kubernetes resource orchestrator.\<close>

  A \<open>ResourceGroup\<close> describes a set of Kubernetes resources whose templates contain CEL expressions
  \<open>${...}\<close> that refer to other resources or to the instance. kro turns it into a graph
  (\<open>internal/graph\<close>), offers a new resource type for it, and for every instance of that type runs a
  reconciliation (\<open>internal/controller/instance\<close>) over a runtime (\<open>internal/runtime\<close>) that evaluates the
  expressions as resources come into being and creates the resources in dependency order.

  \<^bold>\<open>Theories and the code they model\<close> (paths under \<open>src/\<close>):

  \<^item> \<open>Kro_Prelude\<close>: the Go values of a Kubernetes object (\<open>val\<close>), maps as association lists,
    the functions of \<open>strings\<close> and \<open>strconv\<close> the code calls, loops with an early return. Its locales are
    the maps (\<open>string_map\<close>) and the relations that loops keep (\<open>frame\<close>).
  \<^item> \<open>Dag\<close> (\<open>internal/graph/dag/dag.go\<close>): the graph as a record, both depth-first searches as
    recursive functions. Shown: any sequence of calls keeps the graph acyclic, \<open>HasCycle\<close> decides
    cyclicity, \<open>AddEdge\<close> refines its specification, \<open>TopologicalSort\<close> is a deterministic creation
    order (locale \<open>creation_order\<close>, interpretation \<open>topo\<close>).
  \<^item> \<open>Fieldpath\<close> (\<open>internal/graph/fieldpath\<close>): parser and builder of field paths, with the loop of the
    parser as \<open>partial_function (option)\<close> because it does not end on every input. Shown: the
    round trip, and exactly when the loop ends.
  \<^item> \<open>Expr_Parser\<close>, \<open>Variables\<close>, \<open>Resource_Parser\<close> (\<open>internal/graph/parser\<close>, \<open>internal/graph/variable\<close>):
    the expressions of strings and of whole objects. Shown: extraction is parsing a template, the
    descriptors of an object are exactly its expressions, and the schema-driven parser finds
    the same fields as the one without a schema.
  \<^item> \<open>Resolver\<close> (\<open>internal/runtime/resolver\<close>): reading and writing along paths and replacing
    expressions. Shown: the laws of a store addressed by paths (locale \<open>path_store\<close>, interpretation
    \<open>fields\<close>), atomic errors, and that all fields of an object are resolved.
  \<^item> \<open>Inspector\<close>, \<open>Cel_Env\<close> (\<open>pkg/cel\<close>): the traversal of a syntax tree with its scopes, environments
    and conversions. Shown: the inspector reports exactly the free identifiers.
  \<^item> \<open>Graph_Resource\<close>, \<open>Validation\<close>, \<open>Graph_Builder\<close> (\<open>internal/graph\<close>): resources, naming rules,
    dependency extraction, the dependency graph and the dry runs. Shown: the naming check is exact,
    a graph that is built orders every resource after the ones its (inspectable) expressions refer to, and
    validated expressions have been run.
  \<^item> \<open>Runtime\<close> (\<open>internal/runtime\<close>): the runtime of an instance, with the expression states in a store
    because the code shares them by pointer. Shown: what a new runtime has resolved, what
    \<open>Synchronize\<close> resolves and keeps, when a resource is offered, when conditions hold, and how a
    condition with the text of a field keeps a resource from being offered.
    \<open>Runtime_Interface\<close> is the contract of \<open>runtime.Interface\<close> that the instance controller relies on (locale
    \<open>runtime_interface\<close>, an extension of \<open>frame\<close>; interpretation \<open>api\<close>): the order and the dependencies stay.
  \<^item> \<open>Metadata\<close> (\<open>internal/metadata\<close>), \<open>Requeue\<close> (\<open>pkg/requeue\<close>): finalizers, labels, selectors and
    errors. Shown: the finalizer protocol (locale \<open>metav1_object\<close>, interpretation \<open>om\<close>) and that labels
    never clash and are found by their selectors.
  \<^item> \<open>Instance_Controller\<close>, \<open>Instance_Safety\<close> (\<open>internal/controller/instance\<close>): one reconciliation of an
    instance over an arbitrary API server. Shown: objects are created and deleted one at a time and
    in the order of their dependencies, and the status says how the reconciliation ended.
  \<^item> \<open>Runtime_Progress\<close>, \<open>Instance_Progress\<close>: the same code over time. Shown: a resource that is wanted is
    offered when its turn comes, a reconciliation that meets no obstacle finishes or creates an object (a deletion
    finishes, marks one for deletion, or waits for one that was marked), so that repeated reconciliation of an
    instance converges; and why equal expressions in fields with different dependencies may keep an instance from coming up.
  \<^item> \<open>Json_Schema\<close> (\<open>internal/graph/schema\<close>, \<open>internal/graph/crd\<close>): schemas of definitions, their inference from
    dry runs and the definition of an instance. Shown: the schema of a status has at every
    field the schema of its value. \<open>Schema_Conversion\<close> has the conversion to OpenAPI schemas for every
    schema. Shown: what it reads can be read back, it panics exactly on external
    documentation, and on the schemas of kro it is the conversion of \<open>Json_Schema\<close>.
  \<^item> \<open>Simple_Schema\<close> (\<open>pkg/simpleschema\<close>): the language of instance specs, with its loops as recursive
    functions on the text. Shown: markers round-trip, an object of any depth is translated to the
    schema it stands for, and where the language differs from its documentation.
  \<^item> \<open>Emulator\<close> (\<open>internal/graph/emulator\<close>): dummy objects, with 64-bit arithmetic. Shown: a generated value
    conforms to its schema, whose bounds are read as exact floating-point values, and what is generated for
    whole bounds in any order, panics included. Bounds of numbers, patterns and lengths of strings, and
    enumerations of other types than strings are not part of it.
  \<^item> \<open>Resource_Group\<close> (\<open>NewResourceGroup\<close> of \<open>internal/graph/builder.go\<close>): all of the above put together.
    Shown: what holds of a group that is built, from its identifiers to its creation order.
  \<^item> \<open>Dynamic_Controller\<close> (\<open>pkg/dynamiccontroller\<close>): registration of types, events and the work queue, with
    a step relation for calls in any order. Shown: types that are watched have a handler, and
    retries are bounded. \<open>Controller_Run\<close> has \<open>Run\<close>, its workers and the shutdown, with every call of a
    worker on the queue a step of its own. Shown: under every interleaving no two workers
    hold one item and retries are bounded, a worker alone does what \<open>processNextWorkItem\<close> does, and
    after \<open>Run\<close> has returned the workers come to an end. \<open>Metrics\<close> (\<open>metrics.go\<close> of both controllers) has the
    operations with the calls they make on metrics, as a list. Shown: the metrics change nothing, the
    gauge of types is the number of watched types, and errors and requeues belong to reconciliations.
  \<^item> \<open>Client_Set\<close> (\<open>pkg/client/set.go\<close>): the clients and the configurations they share, in a heap. Shown:
    the client of an instance impersonates the service account of its namespace, and derived
    configurations are separate from the original.
  \<^item> \<open>Group_Controller\<close> (\<open>internal/controller/resourcegroup\<close>, \<open>pkg/client/crd.go\<close>, \<open>api/v1alpha1/conditions.go\<close>):
    reconciliation and deletion of a resource group. Shown: the status tells the stage that a
    reconciliation reached, an active group is served, and on deletion the finalizer is removed last, while the
    instances stay watched.
  \<^item> \<open>Startup\<close> (\<open>cmd/controller/main.go\<close>, \<open>NewBuilder\<close>, \<open>internal/graph/schema/resolver.go\<close>): flags and the construction of the
    parts. Shown: the program exits with a message or everything is wired, with the identity of the client
    set and the settings of the flags; and \<open>Run\<close> of the dynamic controller never returns.
  \<^item> \<open>Deep_Copier\<close>, \<open>Deep_Copy\<close> (\<open>api/v1alpha1/zz_generated.deepcopy.go\<close>): the copies of API objects over a heap of cells, with
    the contract of a deep copy as a locale (\<open>deep_copier\<close>, interpretations \<open>dependency\<close>, \<open>validation\<close>, \<open>information\<close>) that
    passes from the parts of an object to the whole. Shown: a copy equals the original and shares no memory with it.

  \<^bold>\<open>How they interact.\<close> \<open>ReconcileGroup\<close> calls \<open>NewResourceGroup\<close>, which uses the parsers, \<open>Emulator\<close>,
  \<open>Simple_Schema\<close>, \<open>Inspector\<close> and \<open>Dag\<close>; it registers with \<open>Dynamic_Controller\<close> a handler that is \<open>Reconcile\<close>
  of \<open>Instance_Controller\<close> for the graph; each call of it makes a \<open>Runtime\<close>, which uses \<open>Resolver\<close>, and obtains its
  client from \<open>Client_Set\<close>. This theory puts them together: an event of an instance is handled with the
  graph of its group, the objects of an instance are created in the order of the group, and the instances of
  a group that was built converge.

  \<^bold>\<open>Parameters.\<close> Code that is not in the repository is an argument: cel-go (the record \<open>cel\<close> of
  compilation, program construction and evaluation, and the parser \<open>parse\<close>), the digits of a printed
  \<open>float64\<close> (\<open>ff\<close>), apimachinery (\<open>metav1Object\<close>, \<open>nested\<close>, \<open>unstructuredLib\<close>, the parser of group versions),
  the plural forms of flect, the YAML decoder and the schema resolver (\<open>builder\<close>), the draws of
  \<open>math/rand\<close> and interpolation in floating point (\<open>rng\<close>), the work queue and the informers of client-go
  (\<open>workqueue\<close>, \<open>queueLib\<close>, \<open>informerLib\<close>), its constructors of clients (\<open>clientLib\<close>), controller-runtime and the resolvers of apiserver (\<open>startupLib\<close>), the copies
  of apimachinery (\<open>apimachinery\<close>), and the API server (\<open>dynClient\<close>, \<open>crdClient\<close>, \<open>rgClient\<close>). What the code relies on
  of them is a hypothesis of the theorems that need it; \<open>api_server\<close> is a server that grants the calls of a live
  instance, \<open>deletion_server\<close> one that deletes as Kubernetes does, keeping a marked object until its
  finalizers are gone (\<open>fair\<close>, \<open>counts_requeues\<close>,
  \<open>exclusive\<close>, \<open>drains\<close>, \<open>retries_last\<close>, \<open>nested_strings\<close>, \<open>api_server\<close>, \<open>deletion_server\<close>, \<open>names_kept\<close>, \<open>combines\<close>, \<open>libraryCopies\<close>).

  \<^bold>\<open>Conventions.\<close> An error is the left side of a sum or an option; a panic and a call that does not
  return are a value of their own (\<open>None\<close>, \<open>NoReturn\<close>, \<open>BuildPanic\<close>, \<open>StopPanic\<close>). No function has
  fuel: recursion is structural or has a termination proof, the one loop that may run forever
  returns \<open>None\<close>, and polling for a definition is bounded by the number of polls its timeout allows. A map is visited in the order of its list and the theorems hold for every list, so for
  every order Go may choose.

  \<^bold>\<open>Not modelled.\<close> Logging, the clock, the registration of the types in the scheme (\<open>init\<close> of \<open>main.go\<close> and of the API
  package); the deferred status update when a reconciliation
  panics; the steps inside of \<open>StartServingGVK\<close>, which is one step of the controller; printer columns; space
  characters and letters outside of ASCII; test helpers (\<open>internal/testutil\<close>).
\<close>

section \<open>From a group to its instances\<close>

text \<open>The runtime of an instance of a group that is built: its order has dependencies first.\<close>

lemma group_runtime_ordered:
  assumes "NewResourceGroup B rg k = Inr ((g, crd), k')" and "NewGraphRuntime ff C g inst = Inr r"
  shows "topologicalOrder r = graphOrder g" "dependenciesFirst r"
    "\<And>i res. map_of (graphResources g) i = Some res \<Longrightarrow>
      \<exists>res'. map_of (rtResources r) i = Some res' \<and> resDependencies res' = resDependencies res"
proof -
  have deps: "map_option resDependencies (map_of (rtResources r) i) = map_option resDependencies (map_of (graphResources g) i)" for i
  proof -
    have "map_of (map (\<lambda>x. (fst x, DeepCopy (snd x))) rs) i = map_option DeepCopy (map_of rs i)" for rs
      by (induction rs) auto
    then show ?thesis
      using new_runtime_steady [OF assms(2) [unfolded NewGraphRuntime_def], of i] by (simp add: option.map_comp comp_def)
  qed
  show order: "topologicalOrder r = graphOrder g"
    using new_runtime_steady [OF assms(2) [unfolded NewGraphRuntime_def]] by blast
  show "\<exists>res'. map_of (rtResources r) i = Some res' \<and> resDependencies res' = resDependencies res"
    if "map_of (graphResources g) i = Some res" for i res using deps [of i] that by auto
  show "dependenciesFirst r"
    unfolding dependenciesFirst_def
  proof (intro allI impI subsetI)
    fix ys i zs res' x
    assume a: "topologicalOrder r = ys @ i # zs" "map_of (rtResources r) i = Some res'" "x \<in> set (resDependencies res')"
    then obtain res where "map_of (graphResources g) i = Some res" "x \<in> set (resDependencies res)"
      using deps [of i] by (cases "map_of (graphResources g) i") auto
    then show "x \<in> set ys" using built_group_order(6) [OF assms(1)] a(1) order by (metis map_of_SomeD)
  qed
qed

text \<open>
  C2. From the definition of a group to the objects of its instances: one reconciliation of a live
  instance of a group that was built deletes nothing and creates at most one object; this object belongs
  to a resource of the group, and every resource that its expressions refer to, as the builder recorded
  it (\<open>Graph_Builder\<close> says for which expressions the record is complete), comes earlier in the order and is synced, that is, its object exists and is ready. When the reconciliation returns no error,
  every resource of the group is synced or skipped and the instance is active.
\<close>

theorem group_instance_created_in_order:
  assumes "NewResourceGroup B rg k = Inr ((g, crd), k')" and "NewGraphRuntime ff C g inst = Inr (igRuntime s)"
    and "igClient G = recording c" and "\<not> uDeleting (igLib G) (GetInstance (igRuntime s))" and "reconcile G s = (s', stp)"
  shows "\<exists>evs. snd (igWorld s') = snd (igWorld s) @ evs \<and> filter isDelete evs = [] \<and> length (filter isCreate evs) \<le> 1 \<and>
    (stp = None \<longrightarrow> filter isCreate evs = [] \<and> settled s' (rgID ` set (rgResources rg)) \<and> isState (igState s') = ''ACTIVE'') \<and>
    (filter isCreate evs \<noteq> [] \<longrightarrow> (\<exists>ys i zs res. graphOrder g = ys @ i # zs \<and> i \<in> rgID ` set (rgResources rg) \<and>
       (i, res) \<in> set (graphResources g) \<and> createdAt s' ys i zs (resDependencies res) \<and>
       (\<forall>d \<in> set (resDependencies res). d \<in> set ys \<and> stateOf s' d = Some ''SYNCED'')))"
proof -
  note group = built_group_order [OF assms(1)] and rt = group_runtime_ordered [OF assms(1,2)]
  have "distinct (topologicalOrder (igRuntime s))" using group(4) rt(1) by simp
  from reconcile_outcome [OF assms(3-5) this rt(2)] obtain evs where
    evs: "snd (igWorld s') = snd (igWorld s) @ evs" "filter isDelete evs = []" "length (filter isCreate evs) \<le> 1"
      "stp = None \<longrightarrow> filter isCreate evs = [] \<and> settled s' (rgID ` set (rgResources rg)) \<and> isState (igState s') = ''ACTIVE''"
      "filter isCreate evs \<noteq> [] \<longrightarrow> (\<exists>ys i zs. graphOrder g = ys @ i # zs \<and>
         (\<forall>res. map_of (rtResources (igRuntime s)) i = Some res \<longrightarrow>
            createdAt s' ys i zs (resDependencies res) \<and> set (resDependencies res) \<subseteq> set ys))"
    using rt(1) group(5) by auto
  have "\<exists>ys i zs res. graphOrder g = ys @ i # zs \<and> i \<in> rgID ` set (rgResources rg) \<and>
       (i, res) \<in> set (graphResources g) \<and> createdAt s' ys i zs (resDependencies res) \<and>
       (\<forall>d \<in> set (resDependencies res). d \<in> set ys \<and> stateOf s' d = Some ''SYNCED'')" if "filter isCreate evs \<noteq> []"
  proof -
    from evs(5) that obtain ys i zs where i: "graphOrder g = ys @ i # zs"
      "\<And>res. map_of (rtResources (igRuntime s)) i = Some res \<Longrightarrow>
         createdAt s' ys i zs (resDependencies res) \<and> set (resDependencies res) \<subseteq> set ys" by blast
    have mem: "i \<in> rgID ` set (rgResources rg)" using i(1) group(5) by (metis in_set_conv_decomp)
    then have "i \<in> fst ` set (graphResources g)" using group(2) by (metis list.set_map)
    then obtain res where res: "map_of (graphResources g) i = Some res" by (metis map_of_eq_None_iff not_None_eq)
    then have at: "createdAt s' ys i zs (resDependencies res)" "set (resDependencies res) \<subseteq> set ys" using rt(3) i(2) by metis+
    then have "\<forall>d \<in> set (resDependencies res). d \<in> set ys \<and> stateOf s' d = Some ''SYNCED''" by (auto simp: createdAt_def)
    then show ?thesis using i(1) mem map_of_SomeD [OF res] at(1) by blast
  qed
  then show ?thesis using evs(1-4) by blast
qed

text \<open>The net group of \<open>Resource_Group\<close>, an instance of it, and a server without objects.\<close>

definition netRuntime :: "rt option" where
  "netRuntime =
     (case netBuilt of
        None \<Rightarrow> None
      | Some (g, crd) \<Rightarrow> (case NewGraphRuntime (\<lambda>w. []) (bdCel netBuilder) g [(''spec'', VMap [(''name'', VStr ''web'')])] of
                             Inl _ \<Rightarrow> None | Inr r \<Rightarrow> Some r))"

lemma netRuntime_creates:
  "case netRuntime of
     None \<Rightarrow> False
   | Some r \<Rightarrow> \<not> uDeleting sampleLib (GetInstance r) \<and>
       length (filter isCreate (snd (igWorld (fst (reconcile (sampleReconciler emptyServer) (sampleStart r)))))) = 1"
  by code_simp

theorem group_instance_created_in_order_witness:
  "\<exists>g crd k' r s' stp ys i zs res. NewResourceGroup netBuilder netGroup 0 = Inr ((g, crd), k') \<and>
     reconcile (sampleReconciler emptyServer) (sampleStart r) = (s', stp) \<and> graphOrder g = ys @ i # zs \<and>
     (i, res) \<in> set (graphResources g) \<and> createdAt s' ys i zs (resDependencies res)"
proof -
  from netRuntime_creates obtain r where rt: "netRuntime = Some r" "\<not> uDeleting sampleLib (GetInstance r)"
    "length (filter isCreate (snd (igWorld (fst (reconcile (sampleReconciler emptyServer) (sampleStart r)))))) = 1"
    by (auto split: option.splits)
  obtain s' stp where r: "reconcile (sampleReconciler emptyServer) (sampleStart r) = (s', stp)" by (rule prod.exhaust)
  obtain g crd k' inst where b: "NewResourceGroup netBuilder netGroup 0 = Inr ((g, crd), k')"
      "NewGraphRuntime (\<lambda>w. []) (bdCel netBuilder) g inst = Inr (igRuntime (sampleStart r))"
    using rt(1) by (auto simp: netRuntime_def netBuilt_def sampleStart_def split: option.splits sum.splits)
  have "igClient (sampleReconciler emptyServer) = recording emptyServer" "snd (igWorld (sampleStart r)) = []"
    "\<not> uDeleting (igLib (sampleReconciler emptyServer)) (GetInstance (igRuntime (sampleStart r)))"
    using rt(2) by (simp_all add: sampleReconciler_def sampleStart_def)
  then have "filter isCreate (snd (igWorld s')) \<noteq> [] \<longrightarrow> (\<exists>ys i zs res. graphOrder g = ys @ i # zs \<and>
      (i, res) \<in> set (graphResources g) \<and> createdAt s' ys i zs (resDependencies res))"
    using group_instance_created_in_order [OF b _ _ r] by fastforce
  then show ?thesis using b(1) r rt(3) by fastforce
qed

text \<open>
  C9. An event of an instance is handled by the controller of its group. After a reconciliation of a
  group without an error, also of a group that was changed and whose type is already watched, a
  worker that takes the event of an instance of the type from the queue runs \<open>Reconcile\<close> of the
  controller with the graph, the labels and the service accounts of this very group on the key of the
  instance; the outcome decides how the item is queued again.
\<close>

theorem instance_event_reaches_its_controller:
  assumes "registered (gsController s)" and "reconcileResourceGroup R rg s = ((order, info), None, s')"
    and "NewResourceGroup (rrBuilder R) (rgDefinition rg) (gsDraws s) = Inr ((g, crd), k)"
    and "objKey L obj = Inr key" and "GVKtoGVR (objPluralize L) (objGVK L obj) = resGvr (graphInstance g)"
    and "item = \<lparr>NamespacedKey = key, oiGVR = resGvr (graphInstance g)\<rparr>"
    and "qGet Q (qAdd Q item (dcQueue (gsController s'))) = (Some item, q)"
  shows "\<exists>labeler w r. setupLabeler R rg = Inr labeler \<and>
    Reconcile (bdFloat (rrBuilder R)) (rrRuntimeText R) (bdCel (rrBuilder R)) (rrLib R) (rrNow R)
      (setupMicroController R (resGvr (graphInstance g)) g (rgDefaultServiceAccounts (rgDefinition rg)) labeler)
      key (dcWorld (gsController s')) = (w, r) \<and>
    (case processNextWorkItem Q (enqueueObject L Q (Unstructured obj) (gsController s')) of
       (dc, WorkerPanic) \<Rightarrow> r = Some StopPanic
     | (dc, NextItem) \<Rightarrow> r \<noteq> Some StopPanic \<and> dcWorld dc = w \<and>
         dcQueue dc = qDone Q item (requeueItem Q (dcQueueMaxRetries dc) item (case r of Some (StopErr e) \<Rightarrow> Some e | _ \<Rightarrow> None) q)
     | (dc, QueueShutDown) \<Rightarrow> False)"
proof -
  let ?gvr = "resGvr (graphInstance g)"
  from reconcile_served [OF assms(1,2)] assms(3) obtain labeler where l: "setupLabeler R rg = Inr labeler"
    "map_of (dcHandlers (gsController s')) ?gvr =
       Some (controllerHandler R (setupMicroController R ?gvr g (rgDefaultServiceAccounts (rgDefinition rg)) labeler))"
    by (auto simp: served_def)
  obtain w r where r: "Reconcile (bdFloat (rrBuilder R)) (rrRuntimeText R) (bdCel (rrBuilder R)) (rrLib R) (rrNow R)
      (setupMicroController R ?gvr g (rgDefaultServiceAccounts (rgDefinition rg)) labeler) key (dcWorld (gsController s')) = (w, r)"
    by (rule prod.exhaust)
  have "enqueueObject L Q (Unstructured obj) (gsController s') =
      (gsController s')\<lparr>dcQueue := qAdd Q item (dcQueue (gsController s'))\<rparr>"
    using assms(4-6) by (simp add: enqueueObject_def)
  then show ?thesis
    using l r assms(6,7)
    by (cases r rule: option.exhaust; cases "the r")
      (auto simp: processNextWorkItem_def syncFunc_def controllerHandler_def)
qed

definition netObjects :: object_lib where
  "netObjects =
     \<lparr>objKey = (\<lambda>u. Inr ''default/web''), objGVK = (\<lambda>u. GetResourceGroupInstanceGVK ''v1alpha1'' ''Net''),
      objGeneration = (\<lambda>u. 1), objPluralize = (\<lambda>s. s @ ''s'')\<rparr>"

lemma netReconciled:
  "case reconcileResourceGroup netReconciler (netGroupObject False) netState of
     (_, stop, s') \<Rightarrow> stop = None \<and> fst (dcQueue (gsController s')) = []"
  by code_simp

theorem instance_event_reaches_its_controller_witness:
  "\<exists>g crd k info s' labeler w r. NewResourceGroup netBuilder netGroup 0 = Inr ((g, crd), k) \<and>
     reconcileResourceGroup netReconciler (netGroupObject False) netState = (info, None, s') \<and>
     Reconcile (bdFloat netBuilder) (\<lambda>e. []) (bdCel netBuilder) netLib ''now''
       (setupMicroController netReconciler (resGvr (graphInstance g)) g [] labeler) ''default/web'' (dcWorld (gsController s')) = (w, r) \<and>
     snd (processNextWorkItem exampleQueue (enqueueObject netObjects exampleQueue (Unstructured []) (gsController s'))) \<noteq> QueueShutDown"
proof -
  obtain order info s' where s': "reconcileResourceGroup netReconciler (netGroupObject False) netState = ((order, info), None, s')"
      "fst (dcQueue (gsController s')) = []"
    using netReconciled by (cases "reconcileResourceGroup netReconciler (netGroupObject False) netState") auto
  obtain g crd k where b: "NewResourceGroup (rrBuilder netReconciler) (rgDefinition (netGroupObject False)) (gsDraws netState) = Inr ((g, crd), k)"
    using reconcile_served [OF netState_registered s'(1)] unfolding served_def by blast
  have gvr: "GVKtoGVR (objPluralize netObjects) (objGVK netObjects []) = resGvr (graphInstance g)"
    by (subst built_group_gvr [OF b]) (simp add: netObjects_def netReconciler_def netGroupObject_def netBuilder_def netGroup_def)
  let ?item = "\<lparr>NamespacedKey = ''default/web'', oiGVR = resGvr (graphInstance g)\<rparr>"
  have key: "objKey netObjects [] = Inr ''default/web''" by (simp add: netObjects_def)
  have "\<exists>q. qGet exampleQueue (qAdd exampleQueue ?item (dcQueue (gsController s'))) = (Some ?item, q)"
    using s'(2) by (cases "dcQueue (gsController s')") (simp add: exampleQueue_def)
  then obtain q where q: "qGet exampleQueue (qAdd exampleQueue ?item (dcQueue (gsController s'))) = (Some ?item, q)" by blast
  from instance_event_reaches_its_controller [OF netState_registered s'(1) b key gvr refl q] show ?thesis
    using s'(1) b by (fastforce simp: netReconciler_def netGroupObject_def netState_def netGroup_def split: prod.splits worker_result.splits)
qed

section \<open>Instances of a group converge\<close>

text \<open>A runtime of a group that is built starts in the way that progress needs.\<close>

lemma group_runtime_sound:
  assumes "NewResourceGroup B rg k = Inr ((g, crd), k')" and "unambiguous (graphInstance g) (graphResources g)"
    and "NewGraphRuntime ff C g inst = Inr r"
  shows "soundRuntime r" "upToDate r"
proof -
  let ?inst = "(DeepCopy (graphInstance g))\<lparr>originalObject := inst\<rparr>" and ?rs = "map (\<lambda>x. (fst x, DeepCopy (snd x))) (graphResources g)"
  note group = built_group_order [OF assms(1)] and flds = built_group_fields [OF assms(1)]
  have rt: "NewResourceGroupRuntime ff C ?inst ?rs (graphOrder g) = Inr r" using assms(3) by (simp add: NewGraphRuntime_def)
  have all: "allFields ?inst ?rs = allFields (graphInstance g) (graphResources g)" by (simp add: allFields_def)
  have ids: "map fst ?rs = map rgID (rgResources rg)" using group(2) by (simp add: comp_def)
  then have names: "fst ` set ?rs = rgID ` set (rgResources rg)" by (metis list.set_map)
  have una: "unambiguous ?inst ?rs" using assms(2) unfolding unambiguous_def all by (simp add: DeepCopy_def)
  have dyn: "\<exists>d \<in> set (Dependencies v). d \<noteq> ''schema''"
    if "v \<in> allFields (graphInstance g) (graphResources g)" "Kind v = ResourceVariableKindDynamic" for v
  proof -
    have "Dependencies v \<noteq> [] \<and> ''schema'' \<notin> set (Dependencies v)"
      using that flds(2,3) by (auto simp: allFields_def list_all_iff statusVariable_def)
    then show ?thesis by (cases "Dependencies v") auto
  qed
  have dep: "fieldDependencies ?inst ?rs"
    unfolding fieldDependencies_def all using dyn flds(3) by fastforce
  have before: "set (resDependencies res) \<subseteq> set ys" if "graphOrder g = ys @ i # zs" "(i, res) \<in> set ?rs" for ys i zs res
    using group(6) [OF _ _ that(1)] that(2) by auto
  have base: "distinct (map fst ?rs)" "''instance'' \<notin> fst ` set ?rs" "set (graphOrder g) \<subseteq> fst ` set ?rs"
    unfolding ids names using group(1,5) flds(1) by simp_all
  show "soundRuntime r" "upToDate r" using new_runtime_sound [OF rt una dep base(1,2) group(4) base(3)] before by blast+
qed

text \<open>
  C1. The instances of a group that was built converge. On a server that grants the calls, of a sequence of
  reconciliations of a live instance at most as many fail to finish as there are objects to be
  created (those of a finite set), as long as nobody removes the objects between two
  reconciliations, no resource is waiting for its readiness and no expression fails. Every
  reconciliation that finishes leaves the instance active, with every resource of the group synced or
  skipped. The group has to use equal expressions in fields with equal dependencies only.
\<close>

theorem group_instances_converge:
  assumes "NewResourceGroup B rg k = Inr ((g, crd), k')" and "unambiguous (graphInstance g) (graphResources g)"
    and "api_server U c objects" and "names_kept U" and "finite K"
    and "\<forall>p \<in> set runs. isRun c U False p \<and> (\<exists>inst. NewGraphRuntime ff C g inst = Inr (igRuntime (runStart p))) \<and>
      \<not> faulty (runStop p) \<and> (\<forall>i. stateOf (runEnd p) i \<noteq> Some ''WAITING_FOR_READINESS'') \<and>
      objectsAfter objects p \<subseteq> objectsBefore objects p \<union> K"
    and "successively (\<lambda>p q. objectsAfter objects p \<subseteq> objectsBefore objects q) runs"
  shows "length (filter (\<lambda>p. runStop p \<noteq> None) runs) \<le> card K \<and>
    (\<forall>p \<in> set runs. runStop p = None \<longrightarrow> isState (igState (runEnd p)) = ''ACTIVE'' \<and>
       settled (runEnd p) (rgID ` set (rgResources rg)))"
proof -
  have sound: "soundRuntime (igRuntime (runStart p)) \<and> upToDate (igRuntime (runStart p)) \<and>
      topologicalOrder (igRuntime (runStart p)) = graphOrder g" if "p \<in> set runs" for p
    using assms(6) that group_runtime_sound [OF assms(1,2)] group_runtime_ordered(1) [OF assms(1)] by blast
  then have "length (filter (\<lambda>p. runStop p \<noteq> None) runs) \<le> card K \<and>
    (\<forall>p \<in> set runs. runStop p = None \<longrightarrow> isState (igState (runEnd p)) = ''ACTIVE'' \<and>
       settled (runEnd p) (set (topologicalOrder (igRuntime (runStart p)))))"
    using assms(6) by (intro runs_converge [OF assms(3-5) _ assms(7)]) blast
  then show ?thesis using sound built_group_order(5) [OF assms(1)] by auto
qed

text \<open>The net group on a server that starts without objects: two reconciliations create an object each, the third finishes.\<close>

definition netRuns :: "(object_key \<times> val gomap) list run list" where
  "netRuns = (case netRuntime of None \<Rightarrow> [] | Some r \<Rightarrow> sampleRuns 3 r [])"

definition netKeys :: "object_key list" where
  "netKeys = [(\<lparr>gvrGroup = [], gvrVersion = ''v1'', gvrResource = ''vpcs''\<rparr>, None, []),
     (\<lparr>gvrGroup = [], gvrVersion = ''v1'', gvrResource = ''subnets''\<rparr>, Some ''default'', [])]"

lemma netRuns_smooth:
  "list_all (smooth netKeys) netRuns" "map (\<lambda>p. runStop p = None) netRuns = [False, False, True]"
  "case netBuilt of None \<Rightarrow> False | Some (g, crd) \<Rightarrow> unambiguous (graphInstance g) (graphResources g)"
  by code_simp+

theorem group_instances_converge_witness:
  "length (filter (\<lambda>p. runStop p \<noteq> None) netRuns) \<le> 2 \<and> map (\<lambda>p. runStop p = None) netRuns = [False, False, True] \<and>
   isState (igState (runEnd (last netRuns))) = ''ACTIVE'' \<and> settled (runEnd (last netRuns)) {''vpc'', ''subnet''}"
proof -
  from netRuntime_creates obtain r where r: "netRuntime = Some r" "\<not> uDeleting sampleLib (GetInstance r)"
    by (auto split: option.splits)
  obtain g crd k' inst where b: "NewResourceGroup netBuilder netGroup 0 = Inr ((g, crd), k')"
      "NewGraphRuntime (\<lambda>w. []) (bdCel netBuilder) g inst = Inr r" "netBuilt = Some (g, crd)"
    using r(1) by (auto simp: netRuntime_def netBuilt_def split: option.splits sum.splits)
  have una: "unambiguous (graphInstance g) (graphResources g)" using netRuns_smooth(3) unfolding b(3) by simp
  have runs: "netRuns = sampleRuns 3 r []" unfolding netRuns_def r(1) by simp
  have run: "isRun storeServer (uObject sampleLib) False p" "igRuntime (runStart p) = r" if "p \<in> set netRuns" for p
    using sampleRuns_isRun [of p 3 r "[]"] that r(2) runs by simp_all
  have smooth: "smooth netKeys p" if "p \<in> set netRuns" for p using netRuns_smooth(1) that by (simp add: list_all_iff)
  have chain: "successively (\<lambda>p q. objectsAfter storedObjects p \<subseteq> objectsBefore storedObjects q) netRuns"
    unfolding runs using sampleRuns_chain by (rule successively_mono) simp
  have "\<forall>p \<in> set netRuns. isRun storeServer (uObject sampleLib) False p \<and>
      (\<exists>inst. NewGraphRuntime (\<lambda>w. []) (bdCel netBuilder) g inst = Inr (igRuntime (runStart p))) \<and>
      \<not> faulty (runStop p) \<and> (\<forall>i. stateOf (runEnd p) i \<noteq> Some ''WAITING_FOR_READINESS'') \<and>
      objectsAfter storedObjects p \<subseteq> objectsBefore storedObjects p \<union> set netKeys"
    using run b(2) smooth_run(1,2,4) [OF smooth] by (auto simp: le_supI2)
  moreover have "names_kept (uObject sampleLib)" by (simp add: names_kept_def sampleLib_def)
  ultimately have "length (filter (\<lambda>p. runStop p \<noteq> None) netRuns) \<le> card (set netKeys) \<and>
      (\<forall>p \<in> set netRuns. runStop p = None \<longrightarrow> isState (igState (runEnd p)) = ''ACTIVE'' \<and>
         settled (runEnd p) (rgID ` set (rgResources netGroup)))"
    by (intro group_instances_converge [OF b(1) una storeServer_api _ finite_set _ chain])
  moreover have "card (set netKeys) \<le> 2" using card_length [of netKeys] by (simp add: netKeys_def)
  moreover have "rgID ` set (rgResources netGroup) = {''vpc'', ''subnet''}" by (auto simp: netGroup_def)
  moreover have ne: "netRuns \<noteq> []"
  proof
    assume "netRuns = []"
    then show False using netRuns_smooth(2) by (simp only: list.map) simp
  qed
  moreover have "last (map (\<lambda>p. runStop p = None) netRuns)" unfolding netRuns_smooth(2) by simp
  then have "runStop (last netRuns) = None" by (simp only: last_map [OF ne])
  ultimately show ?thesis using netRuns_smooth(2) last_in_set [OF ne] by (auto simp del: last_in_set)
qed

end
